(* ===== verification/Router_Prelude.thy ===== *)
theory Router_Prelude
  imports Main "HOL-Library.Word" "HOL-Library.Char_ord" "HOL-Library.List_Lexorder"
begin

text \<open>
  Shared vocabulary of the development: bytes and machine integers, the C library
  routines the sources call on memory (\<open>memchr\<close>), decimal and hexadecimal printing as
  \<open>std::ostream\<close> does it, and \<open>std::map\<close> as a key-ordered association list.
  Facts that several components need are collected in \<open>named_theorems\<close>.
\<close>

unbundle bit_operations_syntax

named_theorems buffer_simps "views of a packet buffer that is read and written in place"
named_theorems omap_simps "lookup and order of std::map"

type_synonym byte = "8 word"
type_synonym bytes = "8 word list"
type_synonym u16 = "16 word"
type_synonym u32 = "32 word"

section \<open>Signed 32-bit arithmetic\<close>

text \<open>
  The value range of C \<open>int\<close>. Signed overflow is undefined in C++; the compilers the
  build files name produce two's complement wrap-around, which is what the model has.
\<close>

definition wrap32 :: "int \<Rightarrow> int" where
  "wrap32 x = (x + 2 ^ 31) mod 2 ^ 32 - 2 ^ 31"

definition int32 :: "int \<Rightarrow> bool" where
  "int32 x \<longleftrightarrow> - (2 ^ 31) \<le> x \<and> x < 2 ^ 31"

lemma wrap32_id [simp]: "int32 x \<Longrightarrow> wrap32 x = x"
  by (simp add: wrap32_def int32_def)

lemma int32_wrap32 [simp]: "int32 (wrap32 x)"
proof -
  have "0 \<le> (x + 2147483648) mod 4294967296" "(x + 2147483648) mod 4294967296 < 4294967296"
    by simp_all
  then show ?thesis by (simp add: wrap32_def int32_def)
qed

lemma wrap32_add: "wrap32 (wrap32 a + b) = wrap32 (a + b)"
proof -
  have "(wrap32 a + b + 2 ^ 31) mod 2 ^ 32 = ((a + 2 ^ 31) mod 2 ^ 32 + b) mod 2 ^ 32"
    by (simp add: wrap32_def)
  also have "\<dots> = (a + b + 2 ^ 31) mod 2 ^ 32"
    by (simp add: mod_simps ac_simps)
  finally show ?thesis by (simp add: wrap32_def)
qed

lemma unat_byte_less: "unat (b :: byte) < 256"
proof -
  have "unat b < 2 ^ LENGTH(8)" by (rule unsigned_less)
  then show ?thesis by simp
qed

text \<open>A 16-bit value as two bytes, low byte first.\<close>

lemma le16_unat: "unat (ucast w :: byte) + 256 * unat (ucast (drop_bit 8 w) :: byte) = unat (w :: u16)"
proof -
  have "unat w < 2 ^ LENGTH(16)" by (rule unsigned_less)
  then have b: "unat w div 256 < 256" by simp
  have "unat (ucast w :: byte) = unat w mod 256"
    by (simp add: unsigned_ucast_eq take_bit_eq_mod)
  moreover have "unat (ucast (drop_bit 8 w) :: byte) = unat w div 256"
    using b unfolding unsigned_ucast_eq unsigned_drop_bit_eq
    by (simp add: take_bit_eq_mod drop_bit_eq_div)
  ultimately show ?thesis by simp
qed

section \<open>Searching memory\<close>

text \<open>\<open>memchr\<close>: the offset of the first occurrence of a byte, or a null pointer.\<close>

fun memchr :: "'a list \<Rightarrow> 'a \<Rightarrow> nat option" where
  "memchr [] c = None"
| "memchr (b # bs) c = (if b = c then Some 0 else map_option Suc (memchr bs c))"

lemma memchr_None_iff: "memchr bs c = None \<longleftrightarrow> c \<notin> set bs"
  by (induction bs) auto

lemma memchr_SomeD:
  "memchr bs c = Some l \<Longrightarrow>
     l < length bs \<and> bs ! l = c \<and> c \<notin> set (take l bs) \<and>
     bs = take l bs @ c # drop (Suc l) bs"
proof (induction bs arbitrary: l)
  case (Cons b bs)
  show ?case
  proof (cases "b = c")
    case False
    with Cons.prems obtain k where k: "memchr bs c = Some k" and l: "l = Suc k"
      by auto
    from Cons.IH [OF k] False show ?thesis unfolding l by simp
  qed (use Cons.prems in auto)
qed simp

lemma memchr_append_notin: "c \<notin> set as \<Longrightarrow> memchr (as @ c # bs) c = Some (length as)"
  by (induction as) auto

section \<open>Printing numbers\<close>

definition digit_char :: "nat \<Rightarrow> char" where
  "digit_char d = (if d < 10 then char_of (48 + d) else char_of (87 + d))"

fun show_base :: "nat \<Rightarrow> nat \<Rightarrow> string" where
  "show_base b n =
     (if b < 2 \<or> n < b then [digit_char n] else show_base b (n div b) @ [digit_char (n mod b)])"

declare show_base.simps [simp del]

definition show_nat :: "nat \<Rightarrow> string" where
  "show_nat n = show_base 10 n"

definition show_hex :: "nat \<Rightarrow> string" where
  "show_hex n = show_base 16 n"

definition show_int :: "int \<Rightarrow> string" where
  "show_int i = (if i < 0 then ''-'' @ show_nat (nat (- i)) else show_nat (nat i))"

text \<open>Reading an unsigned decimal back, as \<open>std::stoi\<close> does on a run of digits.\<close>

definition is_digit :: "char \<Rightarrow> bool" where
  "is_digit c \<longleftrightarrow> 48 \<le> (of_char c :: nat) \<and> (of_char c :: nat) \<le> 57"

definition read_digits :: "string \<Rightarrow> nat" where
  "read_digits = foldl (\<lambda>a c. 10 * a + (of_char c - 48)) 0"

lemma digit_char_dec: "d < 10 \<Longrightarrow> of_char (digit_char d) = 48 + d"
  by (simp add: digit_char_def)

lemma is_digit_digit_char: "d < 10 \<Longrightarrow> is_digit (digit_char d)"
  by (simp add: is_digit_def digit_char_dec)

lemma read_digits_snoc: "read_digits (xs @ [c]) = 10 * read_digits xs + (of_char c - 48)"
  by (simp add: read_digits_def)

lemma read_show_nat [simp]: "read_digits (show_nat n) = n"
  unfolding show_nat_def
proof (induction "10 :: nat" n rule: show_base.induct)
  case (1 n)
  show ?case
  proof (cases "n < 10")
    case True
    then show ?thesis
      by (subst show_base.simps) (simp add: read_digits_def digit_char_dec)
  next
    case False
    with 1 have IH: "read_digits (show_base 10 (n div 10)) = n div 10" by simp
    from False show ?thesis
      by (subst show_base.simps) (simp add: read_digits_snoc IH digit_char_dec)
  qed
qed

lemma show_nat_digits: "\<forall>c \<in> set (show_nat n). is_digit c"
  unfolding show_nat_def
proof (induction "10 :: nat" n rule: show_base.induct)
  case (1 n)
  then show ?case
    by (subst show_base.simps) (auto simp: is_digit_digit_char)
qed

lemma show_base_not_Nil [simp]: "show_base b n \<noteq> []"
  by (subst show_base.simps) simp

lemma show_nat_not_Nil [simp]: "show_nat n \<noteq> []"
  by (simp add: show_nat_def)

section \<open>std::map\<close>

text \<open>
  A \<open>std::map\<close> iterates in key order. It is an association list kept sorted by key;
  lookup is \<open>map_of\<close>.
\<close>

type_synonym ('k, 'v) omap = "('k \<times> 'v) list"

fun om_put :: "'k::linorder \<Rightarrow> 'v \<Rightarrow> ('k, 'v) omap \<Rightarrow> ('k, 'v) omap" where
  "om_put k v [] = [(k, v)]"
| "om_put k v ((k', v') # m) =
     (if k < k' then (k, v) # (k', v') # m
      else if k = k' then (k, v) # m
      else (k', v') # om_put k v m)"

definition om_del :: "'k \<Rightarrow> ('k, 'v) omap \<Rightarrow> ('k, 'v) omap" where
  "om_del k m = filter (\<lambda>e. fst e \<noteq> k) m"

definition om_ok :: "('k::linorder, 'v) omap \<Rightarrow> bool" where
  "om_ok m \<longleftrightarrow> sorted_wrt (<) (map fst m)"

lemma om_get_put [omap_simps]: "map_of (om_put k v m) = (map_of m)(k \<mapsto> v)"
  by (induction k v m rule: om_put.induct) (auto simp: fun_eq_iff)

lemma om_get_del [omap_simps]: "map_of (om_del k m) = (map_of m)(k := None)"
  by (induction m) (auto simp: om_del_def fun_eq_iff)

lemma om_keys_put: "fst ` set (om_put k v m) = insert k (fst ` set m)"
  by (induction k v m rule: om_put.induct) auto

lemma om_ok_Nil [omap_simps]: "om_ok []"
  by (simp add: om_ok_def)

lemma om_ok_put [omap_simps]: "om_ok m \<Longrightarrow> om_ok (om_put k v m)"
proof (induction k v m rule: om_put.induct)
  case (2 k v k' v' m)
  show ?case
  proof (cases "k' < k")
    case True
    from 2 True have "om_ok (om_put k v m)" by (auto simp: om_ok_def)
    moreover have "\<forall>x \<in> fst ` set (om_put k v m). k' < x"
      using 2 True by (auto simp: om_keys_put om_ok_def)
    ultimately show ?thesis using True by (auto simp: om_ok_def)
  qed (use 2 in \<open>auto simp: om_ok_def\<close>)
qed (simp add: om_ok_def)

lemma om_ok_del [omap_simps]: "om_ok m \<Longrightarrow> om_ok (om_del k m)"
  by (auto simp: om_ok_def om_del_def intro: sorted_wrt_filter
      simp flip: filter_map [of "\<lambda>x. x \<noteq> k" fst m, unfolded comp_def])

text \<open>The contract of a map container, and \<open>std::map\<close> as one.\<close>

locale map_container =
  fixes get :: "'m \<Rightarrow> 'k \<Rightarrow> 'v option"
    and put :: "'k \<Rightarrow> 'v \<Rightarrow> 'm \<Rightarrow> 'm"
    and del :: "'k \<Rightarrow> 'm \<Rightarrow> 'm"
    and ok :: "'m \<Rightarrow> bool"
  assumes get_put: "get (put k v m) = (get m)(k \<mapsto> v)"
    and get_del: "get (del k m) = (get m)(k := None)"
    and ok_put: "ok m \<Longrightarrow> ok (put k v m)"
    and ok_del: "ok m \<Longrightarrow> ok (del k m)"
begin

lemma get_put_same: "get (put k v m) k = Some v"
  by (simp add: get_put)

lemma get_put_other: "k' \<noteq> k \<Longrightarrow> get (put k v m) k' = get m k'"
  by (simp add: get_put)

lemma get_del_put: "get (del k (put k v m)) = (get m)(k := None)"
  by (simp add: get_put get_del)

end

interpretation om: map_container map_of om_put om_del om_ok
  by unfold_locales (simp_all add: omap_simps)

section \<open>Runs\<close>

text \<open>A sequence of events on an object; \<open>None\<close> when one of its handlers does not return. What every
  step keeps holds in every state a run reaches.\<close>

fun run_events :: "('e \<Rightarrow> 's \<Rightarrow> 's option) \<Rightarrow> 'e list \<Rightarrow> 's \<Rightarrow> 's option" where
  "run_events step [] s = Some s"
| "run_events step (e # es) s = Option.bind (step e s) (run_events step es)"

lemma run_events_append:
  "run_events step (es @ fs) s = Option.bind (run_events step es s) (run_events step fs)"
  by (induction es arbitrary: s) (auto split: Option.bind_split)

locale state_machine =
  fixes step :: "'e \<Rightarrow> 's \<Rightarrow> 's option"
    and inv :: "'s \<Rightarrow> bool"
  assumes step_inv: "inv s \<Longrightarrow> step e s = Some t \<Longrightarrow> inv t"
begin

lemma run_inv: "inv s \<Longrightarrow> run_events step es s = Some t \<Longrightarrow> inv t"
  by (induction es arbitrary: s) (auto simp: bind_eq_Some_conv intro: step_inv)

end

end
