(* ===== verification/Packet_Buffer.thy ===== *)
theory Packet_Buffer
  imports Router_Prelude
begin

text \<open>
  The packet recognisers copy the stream into a fixed array \<open>packet\<close> and, when a
  packet turns out to be corrupt, call themselves on \<open>packet.data()+k\<close>: the input of
  the inner call is the very array the inner call writes to. A source is therefore
  either a caller's buffer, or a region of the filter's own array whose bytes are read
  at the moment they are needed. This theory has the two kinds of source, the array
  store, and the facts that make reading ahead of the write position safe.
\<close>

datatype src =
    Ext bytes          \<comment> \<open>the caller's buffer, not aliased\<close>
  | Own nat nat        \<comment> \<open>\<open>packet.data()+offset\<close> and the remaining length\<close>

fun src_len :: "src \<Rightarrow> nat" where
  "src_len (Ext bs) = length bs"
| "src_len (Own off n) = n"

text \<open>The bytes a source holds now, given the contents of the array.\<close>

fun view :: "bytes \<Rightarrow> src \<Rightarrow> bytes" where
  "view p (Ext bs) = bs"
| "view p (Own off n) = take n (drop off p)"

text \<open>\<open>ptr += k; len -= k\<close>.\<close>

fun advance :: "nat \<Rightarrow> src \<Rightarrow> src" where
  "advance k (Ext bs) = Ext (drop k bs)"
| "advance k (Own off n) = Own (off + k) (n - k)"

text \<open>\<open>memmove(packet.data()+i, from, n)\<close> with \<open>bs\<close> the bytes read from \<open>from\<close>.\<close>

definition poke :: "'a list \<Rightarrow> nat \<Rightarrow> 'a list \<Rightarrow> 'a list" where
  "poke xs i bs = take i xs @ bs @ drop (i + length bs) xs"

text \<open>A source lies inside the array, and starts at or after position \<open>w\<close>.\<close>

fun src_ok :: "bytes \<Rightarrow> nat \<Rightarrow> src \<Rightarrow> bool" where
  "src_ok p w (Ext bs) \<longleftrightarrow> True"
| "src_ok p w (Own off n) \<longleftrightarrow> off + n \<le> length p \<and> w \<le> off"

text \<open>What lies behind the end of the source is not written.\<close>

fun behind :: "src \<Rightarrow> nat \<Rightarrow> bool" where
  "behind (Ext bs) i \<longleftrightarrow> False"
| "behind (Own off n) i \<longleftrightarrow> off + n \<le> i"

lemma length_view [buffer_simps]: "src_ok p w s \<Longrightarrow> length (view p s) = src_len s"
  by (cases s) auto

lemma view_advance [buffer_simps]: "view p (advance k s) = drop k (view p s)"
  by (cases s) (auto simp: drop_take add.commute)

lemma src_len_advance [buffer_simps]: "src_len (advance k s) = src_len s - k"
  by (cases s) auto

lemma length_poke [buffer_simps]:
  "i + length bs \<le> length xs \<Longrightarrow> length (poke xs i bs) = length xs"
  by (simp add: poke_def)

lemma take_poke [buffer_simps]:
  "i \<le> length xs \<Longrightarrow> n = i + length bs \<Longrightarrow> take n (poke xs i bs) = take i xs @ bs"
  by (simp add: poke_def)

lemma take_poke_below [buffer_simps]:
  "n \<le> i \<Longrightarrow> i \<le> length xs \<Longrightarrow> take n (poke xs i bs) = take n xs"
  by (simp add: poke_def min_def)

lemma drop_poke_above:
  "i \<le> length xs \<Longrightarrow> i + length bs \<le> n \<Longrightarrow> drop n (poke xs i bs) = drop n xs"
  by (simp add: poke_def)

lemma nth_poke_below: "k < i \<Longrightarrow> i \<le> length xs \<Longrightarrow> poke xs i bs ! k = xs ! k"
  by (simp add: poke_def nth_append)

lemma nth_poke_at: "i \<le> length xs \<Longrightarrow> k < length bs \<Longrightarrow> poke xs i bs ! (i + k) = bs ! k"
  by (simp add: poke_def nth_append)

text \<open>Writing at or before the read position, and then moving the read position past
  what was written, leaves the bytes still to be read as they were.\<close>

lemma view_poke:
  assumes "src_ok p w s" "w + length bs \<le> w + k" "w \<le> length p" "i + length bs \<le> w + k" "i \<le> length p"
  shows "view (poke p i bs) (advance k s) = drop k (view p s)"
proof (cases s)
  case (Own off n)
  with assms have "w \<le> off" by simp
  then have "drop (off + k) (poke p i bs) = drop (off + k) p"
    using assms by (intro drop_poke_above) auto
  then show ?thesis using Own by (simp add: drop_take add.commute)
qed simp

lemma src_ok_advance:
  "src_ok p w s \<Longrightarrow> k \<le> src_len s \<Longrightarrow> length p' = length p \<Longrightarrow> w' \<le> w + k \<Longrightarrow> src_ok p' w' (advance k s)"
  by (cases s) auto

lemma behind_advance: "k \<le> src_len s \<Longrightarrow> behind (advance k s) i = behind s i"
  by (cases s) auto

lemma behind_ge: "src_ok p w s \<Longrightarrow> behind s i \<Longrightarrow> w + src_len s \<le> i"
  by (cases s) auto

lemma nth_poke_behind:
  "src_ok p w s \<Longrightarrow> behind s k \<Longrightarrow> k < length p \<Longrightarrow> i + length bs \<le> w + src_len s \<Longrightarrow>
   i \<le> length p \<Longrightarrow> poke p i bs ! k = p ! k"
  using behind_ge [of p w s k]
  by (auto simp: poke_def nth_append)

text \<open>A source in a part of the array that an inner call left alone still shows the same
  bytes.\<close>

lemma view_unchanged:
  assumes "src_ok p w s" "length p' = length p" "\<And>i. w \<le> i \<Longrightarrow> i < length p \<Longrightarrow> p' ! i = p ! i"
  shows "view p' s = view p s"
proof (cases s)
  case (Own off n)
  with assms have "w \<le> off" "off + n \<le> length p" by auto
  then have "drop off p' = drop off p"
    using assms by (intro nth_equalityI) auto
  then show ?thesis using Own by simp
qed simp

text \<open>The two ways the recognisers read a source: looking for a start byte, which is
  stored at the front of the array, and appending a block to what was collected.\<close>

lemma seek_found:
  assumes "src_ok p 0 s" "memchr (view p s) c = Some l" "p \<noteq> []"
  shows "l < src_len s" "view p s = take l (view p s) @ c # view (poke p 0 [c]) (advance (l + 1) s)"
    "src_ok (poke p 0 [c]) 1 (advance (l + 1) s)" "length (poke p 0 [c]) = length p"
    "poke p 0 [c] ! 0 = c" "c \<notin> set (take l (view p s))"
proof -
  note m = memchr_SomeD [OF assms(2)]
  show l: "l < src_len s" using m assms(1) by (simp add: length_view)
  show len: "length (poke p 0 [c]) = length p" using assms(3) by (cases p) (auto simp: poke_def)
  have "view (poke p 0 [c]) (advance (l + 1) s) = drop (l + 1) (view p s)"
    using assms by (intro view_poke) auto
  with m show "view p s = take l (view p s) @ c # view (poke p 0 [c]) (advance (l + 1) s)" by simp
  show "src_ok (poke p 0 [c]) 1 (advance (l + 1) s)"
    using l len by (intro src_ok_advance [OF assms(1)]) auto
  show "poke p 0 [c] ! 0 = c" by (simp add: poke_def)
  show "c \<notin> set (take l (view p s))" using m by simp
qed

lemma append_block:
  assumes "src_ok p w s" "k \<le> src_len s" "w + k \<le> length p"
  shows "view p s = take k (view p s) @ view (poke p w (take k (view p s))) (advance k s)"
    "length (take k (view p s)) = k"
    "src_ok (poke p w (take k (view p s))) (w + k) (advance k s)"
    "length (poke p w (take k (view p s))) = length p"
    "take (w + k) (poke p w (take k (view p s))) = take w p @ take k (view p s)"
proof -
  show l: "length (take k (view p s)) = k" using assms by (simp add: length_view)
  have "view (poke p w (take k (view p s))) (advance k s) = drop k (view p s)"
    using assms l by (intro view_poke [OF assms(1)]) auto
  then show "view p s = take k (view p s) @ view (poke p w (take k (view p s))) (advance k s)" by simp
  show len: "length (poke p w (take k (view p s))) = length p"
    using assms l by (simp add: length_poke)
  show "src_ok (poke p w (take k (view p s))) (w + k) (advance k s)"
    by (rule src_ok_advance [OF assms(1,2) len]) simp
  show "take (w + k) (poke p w (take k (view p s))) = take w p @ take k (view p s)"
    using assms l by (simp add: take_poke)
qed

lemma frame_block:
  assumes "src_ok p w s" "k \<le> src_len s" "w + k \<le> length p" "behind s i" "i < length p"
  shows "poke p w (take k (view p s)) ! i = p ! i" "w + k \<le> i"
  using nth_poke_behind [OF assms(1,4,5), of w "take k (view p s)"] assms
    append_block(2) [OF assms(1-3)] behind_ge [OF assms(1,4)]
  by auto

lemma take_block:
  assumes "src_ok p w s" "k \<le> src_len s" "w + k \<le> length p" "j \<le> k"
  shows "take (w + j) (poke p w (take k (view p s))) = take w p @ take j (take k (view p s))"
proof -
  have "take (w + j) (take (w + k) (poke p w (take k (view p s)))) =
      take w p @ take j (take k (view p s))"
    using assms by (simp only: append_block(5) [OF assms(1-3)]) (simp add: min_def)
  with assms(4) show ?thesis by (simp add: min_def)
qed

end
