(* ===== verification/Framing.thy ===== *)
theory Framing
  imports Router_Prelude
begin

text \<open>
  What a packet recogniser promises, independently of how the stream is cut into
  buffers: the bytes are looked at one by one; a classifier says of the bytes collected
  so far whether they may still become a packet, are one, or cannot be one, and then how
  many of them are given up before the remaining ones are looked at again. \<open>scan\<close> is that
  specification; the recognisers of the sources are proved to implement it.
\<close>

datatype verdict =
    Wait            \<comment> \<open>a proper prefix of a packet\<close>
  | Accept          \<comment> \<open>a packet\<close>
  | Reject nat      \<comment> \<open>no packet: give up so many bytes (at least one)\<close>

datatype item = Packet bytes | Stray byte

fun item_bytes :: "item \<Rightarrow> bytes" where
  "item_bytes (Packet p) = p"
| "item_bytes (Stray b) = [b]"

text \<open>How an item counts in the statistics: packets, bytes in packets, bytes outside.\<close>

fun item_count :: "string \<Rightarrow> item \<Rightarrow> int" where
  "item_count n (Packet p) = (if n = ''pack'' then 1 else if n = ''next'' then int (length p) else 0)"
| "item_count n (Stray b) = (if n = ''rest'' then 1 else 0)"

definition tally :: "string \<Rightarrow> item list \<Rightarrow> int" where
  "tally n is = sum_list (map (item_count n) is)"

lemma tally_simps [simp]:
  "tally n [] = 0" "tally n (i # is) = item_count n i + tally n is"
  "tally n (is @ js) = tally n is + tally n js"
  by (simp_all add: tally_def)

lemma tally_strays [simp]: "tally n (map Stray bs) = (if n = ''rest'' then int (length bs) else 0)"
  by (induction bs) auto

definition given_up :: "nat \<Rightarrow> nat" where
  "given_up k = max 1 k"

function scan :: "(bytes \<Rightarrow> verdict) \<Rightarrow> bytes \<Rightarrow> bytes \<Rightarrow> bytes \<times> item list" where
  "scan cl buf [] = (buf, [])"
| "scan cl buf (b # bs) =
     (case cl (buf @ [b]) of
        Wait \<Rightarrow> scan cl (buf @ [b]) bs
      | Accept \<Rightarrow> (let r = scan cl [] bs in (fst r, Packet (buf @ [b]) # snd r))
      | Reject k \<Rightarrow>
          (let r = scan cl [] (drop (given_up k) (buf @ [b]) @ bs)
           in (fst r, map Stray (take (given_up k) (buf @ [b])) @ snd r)))"
  by pat_completeness auto
termination
  by (relation "measures [\<lambda>(cl, buf, bs). length buf + length bs, \<lambda>(cl, buf, bs). length bs]")
    (auto simp: given_up_def)

declare scan.simps(2) [simp del]

lemma scan_Wait: "cl (buf @ [b]) = Wait \<Longrightarrow> scan cl buf (b # bs) = scan cl (buf @ [b]) bs"
  by (simp add: scan.simps(2))

lemma scan_Accept:
  "cl (buf @ [b]) = Accept \<Longrightarrow>
   scan cl buf (b # bs) = apsnd ((#) (Packet (buf @ [b]))) (scan cl [] bs)"
  by (simp add: scan.simps(2) Let_def apsnd_def map_prod_def case_prod_beta)

lemma scan_Reject:
  "cl (buf @ [b]) = Reject k \<Longrightarrow>
   scan cl buf (b # bs) =
     apsnd ((@) (map Stray (take (given_up k) (buf @ [b]))))
       (scan cl [] (drop (given_up k) (buf @ [b]) @ bs))"
  by (simp add: scan.simps(2) Let_def apsnd_def map_prod_def case_prod_beta)

text \<open>Cutting the input in two makes no difference.\<close>

lemma scan_append:
  "scan cl buf (xs @ ys) =
     apsnd ((@) (snd (scan cl buf xs))) (scan cl (fst (scan cl buf xs)) ys)"
proof (induction cl buf xs rule: scan.induct)
  case (2 cl buf b bs)
  show ?case
  proof (cases "cl (buf @ [b])")
    case (Reject k)
    from "2.IH"(3) [OF Reject, simplified] show ?thesis
      by (simp add: scan_Reject Reject apsnd_def map_prod_def case_prod_beta)
  qed (use 2 in \<open>simp_all add: scan_Wait scan_Accept apsnd_def map_prod_def case_prod_beta\<close>)
qed (simp add: apsnd_def map_prod_def)

text \<open>No byte is lost, none is invented, and their order is kept.\<close>

lemma scan_conserves:
  "concat (map item_bytes (snd (scan cl buf xs))) @ fst (scan cl buf xs) = buf @ xs"
proof (induction cl buf xs rule: scan.induct)
  case (2 cl buf b bs)
  have stray: "concat (map item_bytes (map Stray zs)) = zs" for zs
    by (induction zs) auto
  show ?case
  proof (cases "cl (buf @ [b])")
    case (Reject k)
    have "take (given_up k) (buf @ [b]) @ drop (given_up k) (buf @ [b]) @ bs = buf @ b # bs"
      by (metis append.assoc append_Cons append_Nil append_take_drop_id)
    with "2.IH"(3) [OF Reject] show ?thesis
      by (simp add: scan_Reject Reject stray del: map_map take_append drop_append)
  qed (use 2 in \<open>simp_all add: scan_Wait scan_Accept\<close>)
qed simp

text \<open>Only what the classifier accepts is handed on as a packet, as soon as it is complete.\<close>

lemma scan_sound:
  "Packet p \<in> set (snd (scan cl buf xs)) \<Longrightarrow> buf = [] \<or> cl buf = Wait \<Longrightarrow>
   cl p = Accept \<and> p \<noteq> [] \<and> (butlast p = [] \<or> cl (butlast p) = Wait)"
proof (induction cl buf xs rule: scan.induct)
  case (2 cl buf b bs)
  show ?case
  proof (cases "cl (buf @ [b])")
    case (Reject k)
    with 2 show ?thesis by (auto simp: scan_Reject)
  qed (use 2 in \<open>auto simp: scan_Wait scan_Accept\<close>)
qed simp

text \<open>What is kept back may still become a packet.\<close>

lemma scan_pending:
  "buf = [] \<or> cl buf = Wait \<Longrightarrow>
   fst (scan cl buf xs) = [] \<or> cl (fst (scan cl buf xs)) = Wait"
proof (induction cl buf xs rule: scan.induct)
  case (2 cl buf b bs)
  show ?case
  proof (cases "cl (buf @ [b])")
    case (Reject k)
    from "2.IH"(3) [OF Reject, simplified] show ?thesis by (simp add: scan_Reject Reject)
  qed (use 2 in \<open>simp_all add: scan_Wait scan_Accept\<close>)
qed simp

text \<open>Steps of more than one byte, as the recognisers take them.\<close>

lemma scan_Waits:
  "(\<And>k. 0 < k \<Longrightarrow> k \<le> length xs \<Longrightarrow> cl (buf @ take k xs) = Wait) \<Longrightarrow>
   scan cl buf (xs @ ys) = scan cl (buf @ xs) ys"
proof (induction xs arbitrary: buf)
  case (Cons x xs)
  from Cons.prems [of 1] have "cl (buf @ [x]) = Wait" by simp
  moreover have "scan cl (buf @ [x]) (xs @ ys) = scan cl ((buf @ [x]) @ xs) ys"
    using Cons.prems [of "Suc k" for k] by (intro Cons.IH) simp
  ultimately show ?case by (simp add: scan_Wait)
qed simp

lemma scan_strays:
  "(\<And>b. b \<in> set xs \<Longrightarrow> cl [b] = Reject 1) \<Longrightarrow>
   scan cl [] (xs @ ys) = apsnd ((@) (map Stray xs)) (scan cl [] ys)"
proof (induction xs)
  case (Cons x xs)
  then show ?case
    by (simp add: scan_Reject given_up_def apsnd_def map_prod_def case_prod_beta)
qed (simp add: apsnd_def map_prod_def)

lemma scan_strays_only:
  "(\<And>b. b \<in> set xs \<Longrightarrow> cl [b] = Reject 1) \<Longrightarrow> scan cl [] xs = ([], map Stray xs)"
  using scan_strays [of xs cl "[]"] by (simp add: apsnd_def map_prod_def)

text \<open>A block of bytes that completes, or extends, what was collected.\<close>

lemma scan_block:
  assumes "xs \<noteq> []" "\<And>k. 0 < k \<Longrightarrow> k < length xs \<Longrightarrow> cl (buf @ take k xs) = Wait"
  shows "scan cl buf (xs @ ys) =
    (case cl (buf @ xs) of
       Wait \<Rightarrow> scan cl (buf @ xs) ys
     | Accept \<Rightarrow> apsnd ((#) (Packet (buf @ xs))) (scan cl [] ys)
     | Reject k \<Rightarrow> apsnd ((@) (map Stray (take (given_up k) (buf @ xs))))
                  (scan cl [] (drop (given_up k) (buf @ xs) @ ys)))"
proof -
  obtain g b where xs: "xs = g @ [b]"
    using assms(1) by (metis rev_exhaust)
  have "scan cl buf (g @ b # ys) = scan cl (buf @ g) (b # ys)"
    by (rule scan_Waits) (use assms(2) xs in auto)
  moreover have "(buf @ g) @ [b] = buf @ xs" by (simp add: xs)
  ultimately show ?thesis
    using scan_Wait [of cl "buf @ g" b ys] scan_Accept [of cl "buf @ g" b ys]
      scan_Reject [of cl "buf @ g" b]
    by (simp add: xs split: verdict.split)
qed

text \<open>A packet in a row of bytes whose proper prefixes all wait is found as a whole.\<close>

lemma scan_packet:
  assumes "f \<noteq> []" "cl f = Accept"
    and "\<And>k. 0 < k \<Longrightarrow> k < length f \<Longrightarrow> cl (take k f) = Wait"
  shows "scan cl [] (f @ ys) = apsnd ((#) (Packet f)) (scan cl [] ys)"
proof -
  obtain g b where f: "f = g @ [b]"
    using assms(1) by (metis rev_exhaust)
  have "scan cl [] (g @ b # ys) = scan cl ([] @ g) (b # ys)"
    by (rule scan_Waits) (use assms(3) [of k for k] f in \<open>auto\<close>)
  with assms(2) f show ?thesis by (simp add: scan_Accept)
qed

text \<open>Packets with other bytes between them, none of which could start a packet.\<close>

definition complete :: "(bytes \<Rightarrow> verdict) \<Rightarrow> bytes \<Rightarrow> bool" where
  "complete cl f \<longleftrightarrow> f \<noteq> [] \<and> cl f = Accept \<and> (\<forall>k. 0 < k \<longrightarrow> k < length f \<longrightarrow> cl (take k f) = Wait)"

lemma strays_other:
  "c \<notin> set junk \<Longrightarrow> (\<And>b. b \<noteq> c \<Longrightarrow> cl [b] = Reject 1) \<Longrightarrow> \<forall>b \<in> set junk. cl [b] = Reject 1"
  by metis

definition segment_bytes :: "(bytes \<times> bytes) list \<Rightarrow> bytes" where
  "segment_bytes segs = concat (map (\<lambda>(junk, f). junk @ f) segs)"

definition segment_items :: "(bytes \<times> bytes) list \<Rightarrow> item list" where
  "segment_items segs = concat (map (\<lambda>(junk, f). map Stray junk @ [Packet f]) segs)"

lemma scan_segments:
  "(\<And>junk f. (junk, f) \<in> set segs \<Longrightarrow> complete cl f \<and> (\<forall>b \<in> set junk. cl [b] = Reject 1)) \<Longrightarrow>
   scan cl [] (segment_bytes segs) = ([], segment_items segs)"
proof (induction segs)
  case Nil
  then show ?case by (simp add: segment_bytes_def segment_items_def)
next
  case (Cons s segs)
  obtain junk f where s: "s = (junk, f)" by fastforce
  have f: "complete cl f" "\<And>b. b \<in> set junk \<Longrightarrow> cl [b] = Reject 1"
    using Cons.prems [of junk f] s by auto
  have IH: "scan cl [] (segment_bytes segs) = ([], segment_items segs)"
    using Cons.prems by (intro Cons.IH) auto
  have "scan cl [] (f @ segment_bytes segs) = ([], Packet f # segment_items segs)"
    using f(1) IH by (subst scan_packet) (auto simp: complete_def apsnd_def map_prod_def)
  then have "scan cl [] (junk @ f @ segment_bytes segs) =
      ([], map Stray junk @ Packet f # segment_items segs)"
    using f(2) by (subst scan_strays) (auto simp: apsnd_def map_prod_def)
  then show ?case by (simp add: s segment_bytes_def segment_items_def)
qed

section \<open>The contract of a packet recogniser\<close>

text \<open>
  A stream arrives in any number of calls of a filter's \<open>write\<close>, which returns the number
  of bytes it took (\<open>None\<close> would be a call that does not return).
\<close>

fun feeds :: "(bytes \<Rightarrow> 's \<Rightarrow> (int \<times> 's) option) \<Rightarrow> bytes list \<Rightarrow> 's \<Rightarrow> 's option" where
  "feeds feed [] s = Some s"
| "feeds feed (b # bs) s = Option.bind (feed b s) (\<lambda>r. feeds feed bs (snd r))"

text \<open>
  \<open>pending\<close> are the bytes the filter holds back, \<open>emitted\<close> what it has written downstream
  so far, \<open>wants\<close> which of the two outputs are connected, \<open>count\<close> its statistics.
\<close>

locale stream_filter =
  fixes feed :: "bytes \<Rightarrow> 's \<Rightarrow> (int \<times> 's) option"
    and ok :: "'s \<Rightarrow> bool"
    and pending :: "'s \<Rightarrow> bytes"
    and emitted :: "'s \<Rightarrow> item list"
    and wants :: "'s \<Rightarrow> item \<Rightarrow> bool"
    and cl :: "'s \<Rightarrow> bytes \<Rightarrow> verdict"
    and count :: "string \<Rightarrow> 's \<Rightarrow> int"
  assumes feed_scan: "ok s \<Longrightarrow>
    \<exists>s'. feed bs s = Some (int (length bs), s') \<and> ok s' \<and> wants s' = wants s \<and> cl s' = cl s \<and>
         pending s' = fst (scan (cl s) (pending s) bs) \<and>
         emitted s' = emitted s @ filter (wants s) (snd (scan (cl s) (pending s) bs)) \<and>
         (\<forall>n \<in> {''pack'', ''next'', ''rest''}.
            count n s' = wrap32 (count n s + tally n (snd (scan (cl s) (pending s) bs))))"
    and count_int32: "ok s \<Longrightarrow> int32 (count n s)"
begin

lemma feeds_scan: "ok s \<Longrightarrow>
    \<exists>s'. feeds feed bss s = Some s' \<and> ok s' \<and> wants s' = wants s \<and> cl s' = cl s \<and>
         pending s' = fst (scan (cl s) (pending s) (concat bss)) \<and>
         emitted s' = emitted s @ filter (wants s) (snd (scan (cl s) (pending s) (concat bss))) \<and>
         (\<forall>n \<in> {''pack'', ''next'', ''rest''}.
            count n s' = wrap32 (count n s + tally n (snd (scan (cl s) (pending s) (concat bss)))))"
proof (induction bss arbitrary: s)
  case (Cons b bs)
  from feed_scan [OF Cons.prems, of b] obtain s1 where
    s1: "feed b s = Some (int (length b), s1)" "ok s1" "wants s1 = wants s" "cl s1 = cl s"
      "pending s1 = fst (scan (cl s) (pending s) b)"
      "emitted s1 = emitted s @ filter (wants s) (snd (scan (cl s) (pending s) b))"
      "\<forall>n \<in> {''pack'', ''next'', ''rest''}.
         count n s1 = wrap32 (count n s + tally n (snd (scan (cl s) (pending s) b)))"
    by blast
  from Cons.IH [OF s1(2)] obtain s2 where
    s2: "feeds feed bs s1 = Some s2" "ok s2" "wants s2 = wants s1" "cl s2 = cl s1"
      "pending s2 = fst (scan (cl s1) (pending s1) (concat bs))"
      "emitted s2 = emitted s1 @ filter (wants s1) (snd (scan (cl s1) (pending s1) (concat bs)))"
      "\<forall>n \<in> {''pack'', ''next'', ''rest''}.
         count n s2 = wrap32 (count n s1 + tally n (snd (scan (cl s1) (pending s1) (concat bs))))"
    by blast
  from s2(7) s1(7) have "\<forall>n \<in> {''pack'', ''next'', ''rest''}.
      count n s2 = wrap32 (count n s + tally n (snd (scan (cl s) (pending s) (b @ concat bs))))"
    by (simp add: s1(3-5) scan_append apsnd_def map_prod_def case_prod_beta wrap32_add add.assoc)
  with s1 s2 show ?case
    by (simp add: scan_append apsnd_def map_prod_def case_prod_beta)
next
  case Nil
  then show ?case by (simp add: count_int32)
qed

text \<open>However the stream is cut, the filter ends up with the same output and the same
  bytes held back.\<close>

lemma feeds_chunking:
  assumes "ok s" "concat bss = concat bss'"
  shows "\<exists>t t'. feeds feed bss s = Some t \<and> feeds feed bss' s = Some t' \<and>
    pending t = pending t' \<and> emitted t = emitted t'"
  using feeds_scan [OF assms(1), of bss] feeds_scan [OF assms(1), of bss'] assms(2) by auto

text \<open>With both outputs connected every byte comes out once, in order.\<close>

lemma feeds_conserve:
  assumes "ok s" "\<And>i. wants s i"
  shows "\<exists>t out. feeds feed bss s = Some t \<and> emitted t = emitted s @ out \<and>
    concat (map item_bytes out) @ pending t = pending s @ concat bss"
proof -
  from feeds_scan [OF assms(1), of bss] obtain t where
    t: "feeds feed bss s = Some t" "pending t = fst (scan (cl s) (pending s) (concat bss))"
      "emitted t = emitted s @ filter (wants s) (snd (scan (cl s) (pending s) (concat bss)))"
    by blast
  have "filter (wants s) xs = xs" for xs using assms(2) by simp
  with t scan_conserves [of "cl s" "pending s" "concat bss"] show ?thesis by simp
qed

text \<open>The statistics count what was recognised and what was passed over.\<close>

lemma feeds_count:
  assumes "ok s" "n \<in> {''pack'', ''next'', ''rest''}"
  shows "\<exists>t. feeds feed bss s = Some t \<and>
    count n t = wrap32 (count n s + tally n (snd (scan (cl s) (pending s) (concat bss))))"
  using feeds_scan [OF assms(1), of bss] assms(2) by blast

lemma feeds_sound:
  assumes "ok s" "pending s = [] \<or> cl s (pending s) = Wait" "feeds feed bss s = Some t"
    and "Packet p \<in> set (drop (length (emitted s)) (emitted t))"
  shows "cl s p = Accept \<and> p \<noteq> [] \<and> (butlast p = [] \<or> cl s (butlast p) = Wait)"
proof -
  have "Packet p \<in> set (snd (scan (cl s) (pending s) (concat bss)))"
    using feeds_scan [OF assms(1), of bss] assms(3,4) by auto
  then show ?thesis using scan_sound assms(2) by blast
qed

lemma feeds_segments:
  assumes "ok s" "pending s = []" "concat bss = segment_bytes segs"
    and "\<And>junk f. (junk, f) \<in> set segs \<Longrightarrow>
      complete (cl s) f \<and> (\<forall>b \<in> set junk. cl s [b] = Reject 1)"
  shows "\<exists>t. feeds feed bss s = Some t \<and> ok t \<and> pending t = [] \<and>
    emitted t = emitted s @ filter (wants s) (segment_items segs)"
  using feeds_scan [OF assms(1), of bss] scan_segments [of segs "cl s", OF assms(4)] assms(2,3)
  by auto

end

end
