(* ===== verification/Statistics.thy ===== *)
theory Statistics
  imports Router_Prelude
begin

text \<open>
  The monitoring data (\<open>src/inc/metric.h\<close>, \<open>src/impl/statobj.h\<close>): a \<open>Metric\<close>
  accumulates tags and fields as text and is written in the InfluxDB line format; named
  counters, durations and events are the three kinds of statistics the endpoints keep.
  The clock readings the sources take are arguments.
\<close>

section \<open>One measurement\<close>

record metric =
  metric_name :: string
  metric_time :: int
  metric_tags :: string
  metric_fields :: string

text \<open>The alternatives of the \<open>std::variant\<close> of a field's value; a \<open>double\<close> is the text
  the stream prints for it.\<close>

datatype field_value =
    FInt int | FLong int | FString string | FDouble string | FNanoseconds int

definition Metric_new :: "string \<Rightarrow> int \<Rightarrow> metric" where
  "Metric_new name now =
     \<lparr>metric_name = name, metric_time = now, metric_tags = [], metric_fields = []\<rparr>"

fun field_text :: "field_value \<Rightarrow> string" where
  "field_text (FInt v) = show_int v @ ''i''"
| "field_text (FLong v) = show_int v @ ''i''"
| "field_text (FDouble v) = v"
| "field_text (FString v) = [CHR 0x22] @ v @ [CHR 0x22]"
| "field_text (FNanoseconds v) = show_int v @ ''i''"

definition Metric_add_field :: "string \<Rightarrow> field_value \<Rightarrow> metric \<Rightarrow> metric" where
  "Metric_add_field name v m =
     m\<lparr>metric_fields := metric_fields m @ (if metric_fields m \<noteq> [] then '','' else []) @
        name @ ''='' @ field_text v\<rparr>"

definition Metric_add_tag :: "string \<Rightarrow> string \<Rightarrow> metric \<Rightarrow> metric" where
  "Metric_add_tag key v m = m\<lparr>metric_tags := metric_tags m @ '','' @ key @ ''='' @ v\<rparr>"

definition Metric_set_time :: "int \<Rightarrow> metric \<Rightarrow> metric" where
  "Metric_set_time stamp m = m\<lparr>metric_time := stamp\<rparr>"

text \<open>What \<open>to_stream\<close> appends to the stream: nothing for a metric without fields.\<close>

definition Metric_to_stream :: "string \<Rightarrow> metric \<Rightarrow> string" where
  "Metric_to_stream global_tags m =
     (if metric_fields m = [] then []
      else metric_name m @ metric_tags m @ global_tags @ '' '' @ metric_fields m @ '' '' @
           show_int (metric_time m))"

definition add_tags :: "(string \<times> string) list \<Rightarrow> metric \<Rightarrow> metric" where
  "add_tags tags m = fold (\<lambda>(k, v). Metric_add_tag k v) tags m"

lemma Metric_add_field_nonempty: "metric_fields (Metric_add_field n v m) \<noteq> []"
  by (simp add: Metric_add_field_def)

lemma add_tags_fields [simp]: "metric_fields (add_tags tags m) = metric_fields m"
  by (induction tags arbitrary: m) (auto simp: add_tags_def Metric_add_tag_def)

lemma Metric_new_fields [simp]: "metric_fields (Metric_new n t) = []"
  by (simp add: Metric_new_def)

section \<open>Named counters\<close>

record stat_counters =
  sc_name :: string
  sc_tags :: "(string \<times> string) list"
  sc_values :: "(string, int \<times> bool) omap"

definition StatCounters_new :: "string \<Rightarrow> stat_counters" where
  "StatCounters_new name = \<lparr>sc_name = name, sc_tags = [], sc_values = []\<rparr>"

text \<open>\<open>values[name]\<close> creates a counter at zero; the flag marks it for the next report.\<close>

definition StatCounters_add :: "string \<Rightarrow> int \<Rightarrow> stat_counters \<Rightarrow> stat_counters" where
  "StatCounters_add name v c =
     (let old = (case map_of (sc_values c) name of None \<Rightarrow> 0 | Some (n, _) \<Rightarrow> n)
      in c\<lparr>sc_values := om_put name (wrap32 (old + v), True) (sc_values c)\<rparr>)"

definition counter :: "string \<Rightarrow> stat_counters \<Rightarrow> int" where
  "counter name c = (case map_of (sc_values c) name of None \<Rightarrow> 0 | Some (n, _) \<Rightarrow> n)"

fun report_values :: "(string, int \<times> bool) omap \<Rightarrow> metric \<Rightarrow> metric" where
  "report_values [] m = m"
| "report_values ((name, (n, changed)) # vs) m =
     report_values vs (if changed then Metric_add_field name (FInt n) m else m)"

definition StatCounters_report :: "metric \<Rightarrow> stat_counters \<Rightarrow> metric \<times> stat_counters" where
  "StatCounters_report m c =
     (report_values (sc_values c) m,
      c\<lparr>sc_values := map (\<lambda>(name, n, _). (name, n, False)) (sc_values c)\<rparr>)"

text \<open>The metric \<open>report(OStat&)\<close> sends.\<close>

definition StatCounters_send :: "int \<Rightarrow> stat_counters \<Rightarrow> metric \<times> stat_counters" where
  "StatCounters_send now c =
     StatCounters_report (add_tags (sc_tags c) (Metric_new (sc_name c) now)) c"

lemma counter_add [simp]:
  "counter n (StatCounters_add m v c) = (if n = m then wrap32 (counter m c + v) else counter n c)"
  by (auto simp: counter_def StatCounters_add_def om.get_put Let_def)

lemma counter_new [simp]: "counter n (StatCounters_new m) = 0"
  by (simp add: counter_def StatCounters_new_def)

lemma counter_report [simp]: "counter n (snd (StatCounters_report m c)) = counter n c"
proof -
  have "map_of (map (\<lambda>(name, n, _). (name, n, False)) vs) n =
      map_option (\<lambda>(n, _). (n, False)) (map_of vs n)" for vs :: "(string \<times> int \<times> bool) list"
    by (induction vs) auto
  then show ?thesis
    by (simp add: counter_def StatCounters_report_def split: option.splits)
qed

lemma report_values_unchanged:
  "\<forall>(name, n, changed) \<in> set vs. \<not> changed \<Longrightarrow> report_values vs m = m"
  by (induction vs m rule: report_values.induct) auto

lemma report_values_changed:
  "metric_fields m \<noteq> [] \<Longrightarrow> metric_fields (report_values vs m) \<noteq> []"
  by (induction vs m rule: report_values.induct) (auto simp: Metric_add_field_nonempty)

lemma report_values_some:
  "(name, n, True) \<in> set vs \<Longrightarrow> metric_fields (report_values vs m) \<noteq> []"
  by (induction vs m rule: report_values.induct)
    (auto simp: Metric_add_field_nonempty report_values_changed)

section \<open>Durations\<close>

record duration_collector =
  dc_all :: int
  dc_count :: int

definition DurationCollector_new :: duration_collector where
  "DurationCollector_new = \<lparr>dc_all = 0, dc_count = 0\<rparr>"

definition DurationCollector_add_metric :: "int \<Rightarrow> duration_collector \<Rightarrow> duration_collector" where
  "DurationCollector_add_metric interval d =
     \<lparr>dc_all = dc_all d + interval, dc_count = wrap32 (dc_count d + 1)\<rparr>"

definition DurationCollector_report :: "string \<Rightarrow> duration_collector \<Rightarrow> metric \<Rightarrow> metric" where
  "DurationCollector_report name d m =
     (if dc_count d = 0 then m
      else let m1 = (if dc_all d \<noteq> 0 then Metric_add_field (name @ ''_t'') (FNanoseconds (dc_all d)) m else m)
           in Metric_add_field (name @ ''_cnt'') (FInt (dc_count d)) m1)"

text \<open>A \<open>Measure\<close> lives from its construction to the end of its scope: the two clock
  readings are the arguments.\<close>

definition Measure_scope :: "int \<Rightarrow> int \<Rightarrow> duration_collector \<Rightarrow> duration_collector" where
  "Measure_scope start stop d = DurationCollector_add_metric (stop - start) d"

record stat_durations =
  sd_name :: string
  sd_tags :: "(string \<times> string) list"
  sd_time :: "(string, duration_collector) omap"

definition StatDurations_measure ::
    "string \<Rightarrow> int \<Rightarrow> int \<Rightarrow> stat_durations \<Rightarrow> stat_durations" where
  "StatDurations_measure key start stop s =
     (let d = (case map_of (sd_time s) key of None \<Rightarrow> DurationCollector_new | Some d \<Rightarrow> d)
      in s\<lparr>sd_time := om_put key (Measure_scope start stop d) (sd_time s)\<rparr>)"

definition StatDurations_report :: "metric \<Rightarrow> stat_durations \<Rightarrow> metric" where
  "StatDurations_report m s = fold (\<lambda>(key, d). DurationCollector_report key d) (sd_time s) m"

definition StatDurations_send :: "int \<Rightarrow> stat_durations \<Rightarrow> metric" where
  "StatDurations_send now s =
     StatDurations_report (add_tags (sd_tags s) (Metric_new (sd_name s) now)) s"

section \<open>Events\<close>

definition max_events :: nat where
  "max_events = 20"

record stat_events =
  se_name :: string
  se_tags :: "(string \<times> string) list"
  se_names :: "(int, string) omap"
  se_counter :: "(int, int) omap"
  se_events :: "metric list"

definition StatEvents_new :: "string \<Rightarrow> (int, string) omap \<Rightarrow> stat_events" where
  "StatEvents_new name names =
     \<lparr>se_name = name, se_tags = [], se_names = names, se_counter = [], se_events = []\<rparr>"

text \<open>\<open>_names[index]\<close> inserts an empty name for an unknown index. The newest event is at
  the front; the oldest ones are dropped beyond \<open>max_events\<close>.\<close>

definition StatEvents_add :: "int \<Rightarrow> int \<Rightarrow> stat_events \<Rightarrow> stat_events" where
  "StatEvents_add now index s =
     (let known = map_of (se_names s) index;
          names = (if known = None then om_put index [] (se_names s) else se_names s);
          name = (case known of None \<Rightarrow> [] | Some n \<Rightarrow> n);
          name = (if name = [] then ''ev_'' @ show_int index else name);
          cnt = wrap32 ((case map_of (se_counter s) index of None \<Rightarrow> 0 | Some n \<Rightarrow> n) + 1);
          meter = add_tags (se_tags s) (Metric_add_field name (FInt cnt) (Metric_new (se_name s) now))
      in s\<lparr>se_names := names, se_counter := om_put index cnt (se_counter s),
           se_events := take max_events (meter # se_events s)\<rparr>)"

text \<open>The caller goes on adding tags to the event it was handed.\<close>

definition StatEvents_tag_front :: "string \<Rightarrow> string \<Rightarrow> stat_events \<Rightarrow> stat_events" where
  "StatEvents_tag_front k v s =
     (case se_events s of [] \<Rightarrow> s | e # es \<Rightarrow> s\<lparr>se_events := Metric_add_tag k v e # es\<rparr>)"

text \<open>\<open>report\<close> sends the events oldest first and forgets them.\<close>

definition StatEvents_report :: "stat_events \<Rightarrow> metric list \<times> stat_events" where
  "StatEvents_report s = (rev (se_events s), s\<lparr>se_events := []\<rparr>)"

lemma StatEvents_add_bound: "length (se_events (StatEvents_add now i s)) \<le> max_events"
  by (simp add: StatEvents_add_def Let_def)

lemma StatEvents_add_not_Nil: "se_events (StatEvents_add now i s) \<noteq> []"
  by (simp add: StatEvents_add_def Let_def max_events_def)

lemma StatEvents_tag_length [simp]:
  "length (se_events (StatEvents_tag_front k v s)) = length (se_events s)"
  by (simp add: StatEvents_tag_front_def split: list.splits)

section \<open>Properties\<close>

text \<open>A report carries the counters that were added to since the last report and takes
  none of them back: afterwards every counter has the value it had, and a second report
  without an \<open>add\<close> in between writes nothing at all; after any \<open>add\<close> the report is not
  empty.\<close>

theorem counters_report_once:
  "let (m, c1) = StatCounters_send now c in
     (\<forall>n. counter n c1 = counter n c) \<and>
     Metric_to_stream tags (fst (StatCounters_send later c1)) = [] \<and>
     Metric_to_stream tags (fst (StatCounters_send later (StatCounters_add n v c1))) \<noteq> []"
proof -
  define c1 where "c1 = snd (StatCounters_send now c)"
  have vals: "\<forall>(n, v, changed) \<in> set (sc_values c1). \<not> changed"
    by (auto simp: c1_def StatCounters_send_def StatCounters_report_def)
  have "(n, fst (the (map_of (sc_values (StatCounters_add n v c1)) n)), True)
      \<in> set (sc_values (StatCounters_add n v c1))"
    using map_of_SomeD [of "sc_values (StatCounters_add n v c1)" n]
    by (simp add: StatCounters_add_def Let_def om.get_put)
  note some = report_values_some [OF this]
  have "counter m c1 = counter m c" for m
    by (simp add: c1_def StatCounters_send_def)
  with vals some show ?thesis
    by (simp add: StatCounters_send_def StatCounters_report_def report_values_unchanged Metric_to_stream_def
        c1_def split: prod.splits)
qed

lemma metric_time_add [simp]:
  "metric_time (Metric_add_field n v m) = metric_time m" "metric_time (add_tags ts m) = metric_time m"
  by (simp add: Metric_add_field_def)
    (induction ts arbitrary: m, auto simp: add_tags_def Metric_add_tag_def)

lemma events_fold:
  "map metric_time (se_events (fold (\<lambda>(now, i). StatEvents_add now i) evs s)) =
     take max_events (rev (map fst evs) @ map metric_time (se_events s))" if "length (se_events s) \<le> max_events"
  using that
proof (induction evs arbitrary: s)
  case (Cons e evs)
  have "map metric_time (se_events (StatEvents_add (fst e) (snd e) s)) =
      take max_events (fst e # map metric_time (se_events s))"
    by (simp add: StatEvents_add_def Let_def take_map [symmetric] Metric_new_def)
  with Cons.IH [OF StatEvents_add_bound] show ?case
    by (simp add: case_prod_beta take_append)
qed simp

text \<open>Of the events since the last report, the most recent twenty are kept; the report
  sends them oldest first and forgets them.\<close>

theorem events_report_recent:
  assumes "se_events s = []"
    and "StatEvents_report (fold (\<lambda>(now, i). StatEvents_add now i) evs s) = (ms, s1)"
  shows "map metric_time ms = drop (length evs - 20) (map fst evs) \<and> se_events s1 = []"
proof
  have "map metric_time ms = rev (take 20 (rev (map fst evs)))"
    using assms events_fold [of s evs] by (auto simp: StatEvents_report_def max_events_def rev_map [symmetric])
  then show "map metric_time ms = drop (length evs - 20) (map fst evs)"
    by (simp add: rev_take)
  show "se_events s1 = []" using assms(2) by (auto simp: StatEvents_report_def)
qed

theorem events_report_recent_witness:
  "\<exists>ms s1. StatEvents_report (fold (\<lambda>(now, i). StatEvents_add now i) [(5, 0), (7, 1)] (StatEvents_new ''tcp'' [])) = (ms, s1) \<and>
     map metric_time ms = [5, 7] \<and> se_events s1 = []"
proof -
  obtain ms s1 where r: "StatEvents_report (fold (\<lambda>(now, i). StatEvents_add now i) [(5, 0), (7, 1)]
      (StatEvents_new ''tcp'' [])) = (ms, s1)" by fastforce
  from events_report_recent [OF _ r] r show ?thesis by (simp add: StatEvents_new_def)
qed

end
