(* ===== verification/Checksums.thy ===== *)
theory Checksums
  imports Router_Prelude
begin

text \<open>
  The checksums of the packet formats: the X.25 CRC of MAVLink
  (\<open>src/filters/mavlink1.h\<close>), CRC-24Q of RTCM 3 (\<open>src/filters/rtcm3.h\<close>) and the
  8-bit Fletcher sum of UBX (\<open>src/filters/ubx.h\<close>), each with the bit-serial or
  arithmetic definition of the same checksum it is proved equal to.
\<close>

section \<open>X.25\<close>

definition X25_INIT_CRC :: u16 where
  "X25_INIT_CRC = 0xffff"

text \<open>\<open>tmp\<close> is an \<open>uint8_t\<close>; the shifts of the last line are done in \<open>int\<close> and
  truncated to 16 bits.\<close>

definition crc_accumulate :: "byte \<Rightarrow> u16 \<Rightarrow> u16" where
  "crc_accumulate data crc =
     (let tmp = data XOR (ucast (crc AND 0xff) :: byte);
          tmp = tmp XOR push_bit 4 tmp;
          t = (ucast tmp :: u16)
      in drop_bit 8 crc XOR push_bit 8 t XOR push_bit 3 t XOR drop_bit 4 t)"

definition crc_calculate :: "bytes \<Rightarrow> u16" where
  "crc_calculate buf = fold crc_accumulate buf X25_INIT_CRC"

text \<open>One bit of the reflected CRC with polynomial \<open>0x8408\<close>.\<close>

definition x25_bit :: "u16 \<Rightarrow> u16" where
  "x25_bit crc = (if bit crc 0 then drop_bit 1 crc XOR 0x8408 else drop_bit 1 crc)"

definition x25_serial :: "byte \<Rightarrow> u16 \<Rightarrow> u16" where
  "x25_serial data crc = (x25_bit ^^ 8) (crc XOR ucast data)"

lemma below_16: "(n :: nat) < 16 \<Longrightarrow> n \<in> {0, 1, 2, 3, 4, 5, 6, 7, 8, 9, 10, 11, 12, 13, 14, 15}"
  by simp arith

lemma bit_8408: "n < 16 \<Longrightarrow> bit (0x8408 :: u16) n \<longleftrightarrow> n = 3 \<or> n = 10 \<or> n = 15"
  by (elim below_16 [elim_format] insertE emptyE) simp_all

lemma word_bit_high: "LENGTH('a) \<le> n \<Longrightarrow> \<not> bit (w :: 'a::len word) n"
  by (auto dest: bit_imp_le_length)

lemma bit_x25_bit: "bit (x25_bit c) n \<longleftrightarrow> n < 16 \<and> (bit c (Suc n) \<noteq> (bit c 0 \<and> (n = 3 \<or> n = 10 \<or> n = 15)))"
proof (cases "n < 16")
  case True
  from bit_8408 [OF True] True show ?thesis by (auto simp: x25_bit_def bit_xor_iff bit_drop_bit_eq simp del: bit_numeral_iff)
qed (simp add: word_bit_high)

lemma bit_ff: "bit (0xff :: u16) n \<longleftrightarrow> n < 8"
proof -
    have e: "(0xff :: u16) = mask 8" by (simp add: mask_eq_exp_minus_1)
    show ?thesis unfolding e by (auto simp: bit_simps)
qed

lemma x25_bit_8: "(x25_bit ^^ 8) y =
  x25_bit (x25_bit (x25_bit (x25_bit (x25_bit (x25_bit (x25_bit (x25_bit y)))))))"
    by (simp add: eval_nat_numeral)

lemma x25_serial_eq:  "x25_serial d c = crc_accumulate d c"
proof (rule bit_word_eqI)
  fix n assume "n < LENGTH(16)"
  then have "n < 16" by simp
  then show "bit (x25_serial d c) n = bit (crc_accumulate d c) n"
    unfolding x25_serial_def crc_accumulate_def Let_def x25_bit_8
    by (elim below_16 [elim_format] insertE emptyE)
      (simp_all add: bit_x25_bit bit_xor_iff bit_and_iff bit_push_bit_iff bit_drop_bit_eq bit_ff
        bit_ucast_iff word_bit_high One_nat_def [symmetric] del: One_nat_def, simp_all, blast+)
qed

text \<open>The byte-wise routine computes the bit-serial CRC.\<close>

lemma crc_calculate_fold: "crc_calculate buf = fold x25_serial buf X25_INIT_CRC"
proof -
  have "x25_serial = crc_accumulate" by (intro ext) (rule x25_serial_eq)
  then show ?thesis by (simp add: crc_calculate_def)
qed

section \<open>CRC-24Q\<close>

text \<open>The inner loop of \<open>crc24\<close>: eight shifts of a value that starts below \<open>2 ^ 24\<close>.\<close>

fun crc24_shift :: "nat \<Rightarrow> u32 \<Rightarrow> u32" where
  "crc24_shift 0 crct = crct"
| "crc24_shift (Suc j) crct =
     (let c = push_bit 1 crct
      in crc24_shift j (if c AND 0x1000000 \<noteq> 0 then c XOR 0x1864CFB else c))"

definition crc24_byte :: "byte \<Rightarrow> u32 \<Rightarrow> u32" where
  "crc24_byte b crc =
     (let idx = (ucast (drop_bit 16 crc) :: byte) XOR b;
          crct = crc24_shift 8 (push_bit 16 (ucast idx))
      in (push_bit 8 crc AND 0xFFFFFF) XOR crct)"

definition crc24 :: "bytes \<Rightarrow> u32" where
  "crc24 bytes = fold crc24_byte bytes 0"

text \<open>One bit of CRC-24Q on a 24-bit register, polynomial \<open>0x864CFB\<close>.\<close>

definition crc24_bit :: "24 word \<Rightarrow> 24 word" where
  "crc24_bit r = (if bit r 23 then push_bit 1 r XOR 0x864CFB else push_bit 1 r)"

definition crc24_serial :: "byte \<Rightarrow> 24 word \<Rightarrow> 24 word" where
  "crc24_serial b r = (crc24_bit ^^ 8) (r XOR push_bit 16 (ucast b))"

lemma below_32:
  "(n :: nat) < 32 \<Longrightarrow> n \<in> {0, 1, 2, 3, 4, 5, 6, 7, 8, 9, 10, 11, 12, 13, 14, 15,
     16, 17, 18, 19, 20, 21, 22, 23, 24, 25, 26, 27, 28, 29, 30, 31}"
  by simp arith

lemma bit_poly24: "n < 32 \<Longrightarrow> bit (0x1864CFB :: u32) n \<longleftrightarrow> n = 24 \<or> bit (0x864CFB :: 24 word) n"
  by (elim below_32 [elim_format] insertE emptyE) (simp_all add: word_bit_high)

lemma bit_times_2: "bit (w * 2) n \<longleftrightarrow> 0 < n \<and> n < LENGTH('a) \<and> bit (w :: 'a::len word) (n - 1)"
proof -
  have "w * 2 = push_bit 1 w" by (simp add: push_bit_eq_mult)
  then show ?thesis by (simp only: bit_push_bit_iff) (auto dest: bit_imp_le_length)
qed

lemma and_bit24: "(c AND 0x1000000 :: u32) \<noteq> 0 \<longleftrightarrow> bit c 24"
proof -
  have e: "n < 32 \<Longrightarrow> bit (0x1000000 :: u32) n \<longleftrightarrow> n = 24" for n
    by (elim below_32 [elim_format] insertE emptyE) simp_all
  show ?thesis
  proof
    assume "c AND 0x1000000 \<noteq> 0"
    moreover have "c AND 0x1000000 = 0" if "\<not> bit c 24"
      by (rule bit_word_eqI) (use that e in \<open>auto simp: bit_and_iff simp del: bit_numeral_iff\<close>)
    ultimately show "bit c 24" by blast
  next
    assume "bit c 24"
    then have "bit (c AND 0x1000000 :: u32) 24" using e by (auto simp: bit_and_iff)
    then show "c AND 0x1000000 \<noteq> 0" by auto
  qed
qed

lemma crc24_shift_step:
  "(if ucast (r :: 24 word) * 2 AND 0x1000000 \<noteq> (0 :: u32)
    then ucast r * 2 XOR 0x1864CFB else ucast r * 2) = (ucast (crc24_bit r) :: u32)"
proof (rule bit_word_eqI)
  fix n assume "n < LENGTH(32)"
  then have n: "n < 32" by simp
  have p: "push_bit 1 r = r * 2" by (simp add: push_bit_eq_mult)
  from bit_poly24 [OF n] n show
   "bit (if ucast r * 2 AND 0x1000000 \<noteq> (0 :: u32)
     then ucast r * 2 XOR 0x1864CFB else (ucast r * 2 :: u32)) n = bit (ucast (crc24_bit r) :: u32) n"
   unfolding and_bit24 crc24_bit_def p
   by (cases "n < 24"; cases "n = 24")
     (auto simp: bit_times_2 bit_ucast_iff bit_xor_iff word_bit_high not_less
       simp del: bit_numeral_iff)
qed

lemma crc24_shift_serial: "crc24_shift k (ucast r) = ucast ((crc24_bit ^^ k) r)"
proof (induction k arbitrary: r)
  case (Suc k)
  have "crc24_shift (Suc k) (ucast r) = crc24_shift k (ucast (crc24_bit r))"
    using crc24_shift_step [of r] by (simp add: Let_def)
  then show ?case by (simp add: Suc.IH funpow_Suc_right del: funpow.simps)
qed simp

lemma crc24_bit_xor: "crc24_bit (a XOR b) = crc24_bit a XOR crc24_bit b"
  by (auto simp: crc24_bit_def bit_xor_iff push_bit_xor ac_simps xor.left_commute simp flip: xor.assoc)

lemma crc24_bits_xor: "(crc24_bit ^^ k) (a XOR b) = (crc24_bit ^^ k) a XOR (crc24_bit ^^ k) b"
  by (induction k) (simp_all add: crc24_bit_xor)

lemma crc24_bits_low:
  "(\<And>n. 24 - k \<le> n \<Longrightarrow> \<not> bit r n) \<Longrightarrow> (crc24_bit ^^ k) r = push_bit k (r :: 24 word)"
proof (induction k arbitrary: r)
  case (Suc k)
  have "\<not> bit r 23" using Suc.prems [of 23] by simp
  then have "crc24_bit r = push_bit 1 r" by (simp add: crc24_bit_def)
  moreover have "(crc24_bit ^^ k) (push_bit 1 r) = push_bit k (push_bit 1 r)"
    using Suc.prems by (intro Suc.IH) (auto simp: bit_times_2)
  ultimately show ?case by (simp add: funpow_Suc_right del: funpow.simps)
qed simp

lemma crc24_byte_serial: "crc24_byte b (ucast r) = ucast (crc24_serial b r)"
proof -
  define idx where "idx = (ucast (drop_bit 16 (ucast r :: u32)) :: byte) XOR b"
  have split: "r XOR push_bit 16 (ucast b) = (r AND mask 16) XOR push_bit 16 (ucast idx)"
    unfolding idx_def
    by (rule bit_word_eqI)
      (auto simp: bit_xor_iff bit_and_iff bit_push_bit_iff bit_ucast_iff bit_mask_iff bit_drop_bit_eq)
  have u: "(push_bit 16 (ucast idx) :: u32) = ucast (push_bit 16 (ucast idx) :: 24 word)"
    by (rule bit_word_eqI) (auto simp: bit_push_bit_iff bit_ucast_iff dest: bit_imp_le_length)
  have l: "(push_bit 8 (ucast r) AND 0xFFFFFF :: u32) = ucast (push_bit 8 (r AND mask 16))"
  proof -
    have e: "(0xFFFFFF :: u32) = mask 24" by (simp add: mask_eq_exp_minus_1)
    show ?thesis unfolding e
      by (rule bit_word_eqI) (auto simp: bit_and_iff bit_push_bit_iff bit_ucast_iff bit_mask_iff)
  qed
  have "(crc24_bit ^^ 8) (r AND mask 16) = push_bit 8 (r AND mask 16)"
    by (rule crc24_bits_low) (auto simp: bit_and_iff bit_mask_iff)
  then have "crc24_serial b r = push_bit 8 (r AND mask 16) XOR (crc24_bit ^^ 8) (push_bit 16 (ucast idx))"
    by (simp only: crc24_serial_def split crc24_bits_xor)
  then show ?thesis
    unfolding crc24_byte_def Let_def idx_def [symmetric] u crc24_shift_serial l
    by (simp only: unsigned_xor_eq)
qed

lemma crc24_fold: "crc24 bs = ucast (fold crc24_serial bs 0)"
proof -
  have "fold crc24_byte bs (ucast r) = ucast (fold crc24_serial bs r)" for r
    by (induction bs arbitrary: r) (simp_all add: crc24_byte_serial)
  from this [of 0] show ?thesis by (simp add: crc24_def)
qed

section \<open>Fletcher\<close>

text \<open>\<open>crc2 += (crc1 += *ptr++)\<close> on two \<open>uint8_t\<close>.\<close>

definition fletcher_step :: "byte \<Rightarrow> byte \<times> byte \<Rightarrow> byte \<times> byte" where
  "fletcher_step b s = (let c1 = fst s + b in (c1, snd s + c1))"

definition fletcher :: "bytes \<Rightarrow> byte \<times> byte" where
  "fletcher bs = fold fletcher_step bs (0, 0)"

text \<open>The two sums in closed form.\<close>

lemma fletcher_fold:
  "fold fletcher_step bs (a, b) =
     (a + sum_list bs, b + (\<Sum>i<length bs. a + sum_list (take (Suc i) bs)))"
  by (induction bs arbitrary: a b)
    (simp_all add: fletcher_step_def Let_def sum.lessThan_Suc_shift add.assoc del: sum.lessThan_Suc)

lemma fletcher_sums:
  "fletcher bs = (sum_list bs, \<Sum>i<length bs. sum_list (take (Suc i) bs))"
  by (simp add: fletcher_def fletcher_fold)

section \<open>What the checksums detect\<close>

lemma xor_cancel: "a XOR c = b XOR c \<Longrightarrow> a = (b :: 'a::len word)"
  by (metis xor.assoc xor.right_neutral xor_self_eq)

lemma xor_cancel_left: "c XOR a = c XOR b \<Longrightarrow> a = (b :: 'a::len word)"
  using xor_cancel [of a c b] by (simp add: xor.commute)

lemma inj_fold: "(\<And>b. inj (f b)) \<Longrightarrow> inj (fold f bs)"
proof (induction bs)
  case (Cons b bs)
  from inj_compose [OF Cons.IH [OF Cons.prems] Cons.prems [of b]] show ?case by (simp add: comp_def)
qed simp

lemma inj_x25_bit: "inj x25_bit"
proof (rule injI, rule bit_word_eqI)
  fix a b :: u16 and n
  assume e: "x25_bit a = x25_bit b" and n: "n < LENGTH(16)"
  have b: "bit (x25_bit a) m = bit (x25_bit b) m" for m using e by simp
  have z: "bit a 0 = bit b 0"
    using b [of 15] by (auto simp: bit_x25_bit word_bit_high)
  show "bit a n = bit b n"
  proof (cases n)
    case (Suc m)
    with b [of m] z n show ?thesis by (auto simp: bit_x25_bit)
  qed (simp add: z)
qed

lemma inj_crc24_bit: "inj crc24_bit"
proof (rule injI, rule bit_word_eqI)
  fix a b :: "24 word" and n
  assume e: "crc24_bit a = crc24_bit b" and n: "n < LENGTH(24)"
  have low: "bit (crc24_bit r) 0 = bit r 23" for r
    by (simp add: crc24_bit_def bit_xor_iff bit_push_bit_iff bit_times_2)
  have z: "bit a 23 = bit b 23" using low [of a] low [of b] e by simp
  with e have p: "push_bit 1 a = push_bit 1 b"
    unfolding crc24_bit_def by (auto dest: xor_cancel split: if_splits)
  show "bit a n = bit b n"
  proof (cases "n = 23")
    case False
    have "bit (push_bit 1 a) (Suc n) = bit (push_bit 1 b) (Suc n)" using p by simp
    with False n show ?thesis by (simp add: bit_times_2)
  qed (simp add: z)
qed

lemma ucast_byte_inj: "(ucast (a :: byte) :: 'b::len word) = ucast b \<Longrightarrow> 8 \<le> LENGTH('b) \<Longrightarrow> a = b"
proof (rule bit_word_eqI)
  fix n assume e: "(ucast a :: 'b word) = ucast b" "8 \<le> LENGTH('b)" and n: "n < LENGTH(8)"
  have "bit (ucast a :: 'b word) n = bit (ucast b :: 'b word) n" using e by simp
  with e(2) n show "bit a n = bit b n" by (simp add: bit_ucast_iff)
qed

section \<open>Properties\<close>

text \<open>C10: The byte-wise X.25 routine computes the bit-serial reflected CRC with polynomial
  \<open>0x8408\<close> and start value \<open>0xffff\<close>.\<close>

theorem crc_calculate_bitserial:
  "crc_calculate buf = fold (\<lambda>d crc. (x25_bit ^^ 8) (crc XOR ucast d)) buf 0xffff"
  using crc_calculate_fold [of buf] unfolding x25_serial_def [abs_def] X25_INIT_CRC_def .

text \<open>The X.25 checksum of two messages of the same length that differ in a single byte
  is never the same.\<close>

theorem crc_calculate_detects_byte:
  assumes "a \<noteq> b"
  shows "crc_calculate (xs @ [a] @ ys) \<noteq> crc_calculate (xs @ [b] @ ys)"
proof
  assume e: "crc_calculate (xs @ [a] @ ys) = crc_calculate (xs @ [b] @ ys)"
  have s: "inj (x25_serial d)" for d
    using inj_fn [OF inj_x25_bit, of 8] by (auto simp: inj_def x25_serial_def dest: xor_cancel)
  have "x25_serial a (fold x25_serial xs X25_INIT_CRC) = x25_serial b (fold x25_serial xs X25_INIT_CRC)"
    using e inj_fold [of x25_serial, OF s] by (auto simp: crc_calculate_fold dest: injD)
  then have "(ucast a :: u16) = ucast b"
    unfolding x25_serial_def by (rule xor_cancel_left [OF injD [OF inj_fn [OF inj_x25_bit]]])
  with ucast_byte_inj [of a b, where 'b = 16] assms show False by simp
qed

theorem crc_calculate_detects_byte_witness:
  "crc_calculate [1, 2, 3] \<noteq> crc_calculate [1, 6, 3]"
  using crc_calculate_detects_byte [of 2 6 "[1]" "[3]"] by simp

text \<open>C11: \<open>crc24\<close>, which works with 32-bit registers a byte at a time, computes the bit-serial
  CRC-24Q on a 24-bit register, polynomial \<open>0x864CFB\<close> and start value 0; in particular the
  result fits in the three bytes it is compared with.\<close>

theorem crc24_bitserial:
  "crc24 bs = ucast (fold (\<lambda>b r. (crc24_bit ^^ 8) (r XOR push_bit 16 (ucast b))) bs (0 :: 24 word))
   \<and> crc24 bs AND 0xFF000000 = 0"
proof -
  have "(ucast (r :: 24 word) :: u32) AND 0xFF000000 = 0" for r
  proof (rule bit_word_eqI)
    fix n
    have e: "(0xFF000000 :: u32) = push_bit 24 (mask 8)" by (simp add: mask_eq_exp_minus_1 push_bit_eq_mult)
    show "bit ((ucast r :: u32) AND 0xFF000000) n = bit (0 :: u32) n"
      unfolding e by (auto simp: bit_and_iff bit_ucast_iff bit_push_bit_iff dest: bit_imp_le_length)
  qed
  then show ?thesis
    using crc24_fold [of bs] unfolding crc24_serial_def [abs_def] by simp
qed

text \<open>The CRC-24Q of two messages of the same length that differ in a single byte is never
  the same.\<close>

theorem crc24_detects_byte:
  assumes "a \<noteq> b"
  shows "crc24 (xs @ [a] @ ys) \<noteq> crc24 (xs @ [b] @ ys)"
proof
  assume e: "crc24 (xs @ [a] @ ys) = crc24 (xs @ [b] @ ys)"
  have u: "(ucast (r :: 24 word) :: u32) = ucast s \<Longrightarrow> r = s" for r s
  proof (rule bit_word_eqI)
    fix n assume "(ucast r :: u32) = ucast s" and n: "n < LENGTH(24)"
    then have "bit (ucast r :: u32) n = bit (ucast s :: u32) n" by simp
    with n show "bit r n = bit s n" by (simp add: bit_ucast_iff)
  qed
  have s: "inj (crc24_serial d)" for d
    using inj_fn [OF inj_crc24_bit, of 8] by (auto simp: inj_def crc24_serial_def dest: xor_cancel)
  have "crc24_serial a (fold crc24_serial xs 0) = crc24_serial b (fold crc24_serial xs 0)"
    using e inj_fold [of crc24_serial, OF s] by (auto simp: crc24_fold dest!: u dest: injD)
  then have "(push_bit 16 (ucast a) :: 24 word) = push_bit 16 (ucast b)"
    unfolding crc24_serial_def by (rule xor_cancel_left [OF injD [OF inj_fn [OF inj_crc24_bit]]])
  then have p: "bit (push_bit 16 (ucast a) :: 24 word) n = bit (push_bit 16 (ucast b) :: 24 word) n" for n
    by simp
  have "a = b"
  proof (rule bit_word_eqI)
    fix n assume "n < LENGTH(8)"
    with p [of "16 + n"] show "bit a n = bit b n" by (simp add: bit_push_bit_iff bit_ucast_iff)
  qed
  with assms show False by simp
qed

theorem crc24_detects_byte_witness: "crc24 [1, 2, 3] \<noteq> crc24 [1, 6, 3]"
  using crc24_detects_byte [of 2 6 "[1]" "[3]"] by simp

end
