(* ===== verification/Filter_Base.thy ===== *)
theory Filter_Base
  imports Framing Packet_Buffer Statistics
begin

text \<open>
  What all filters share (\<open>src/inc/endpoints.h\<close>: \<open>Pipe\<close>, \<open>Filter\<close>;
  \<open>src/filters/filterbase.h\<close>: \<open>FilterBase\<close>): the two downstream connections, the calls
  made on them so far, and the statistics counters. What a downstream \<open>write\<close> does is not
  part of a filter's state: the calls are recorded in order.
\<close>

datatype port = NextPort | RestPort

record filter_base =
  fb_next :: bool                      \<comment> \<open>\<open>_next\<close> is set\<close>
  fb_rest :: bool                      \<comment> \<open>\<open>_rest\<close> is set\<close>
  fb_outs :: "(port \<times> bytes) list"     \<comment> \<open>calls of \<open>_next->write\<close> and \<open>_rest->write\<close>\<close>
  fb_cnt :: stat_counters

text \<open>\<open>Pipe::write_next\<close> and \<open>Filter::write_rest\<close>: nothing happens, and the result is 0,
  when the connection is not set.\<close>

definition Pipe_chain :: "'a filter_base_scheme \<Rightarrow> 'a filter_base_scheme" where
  "Pipe_chain st = st\<lparr>fb_next := True\<rparr>"

definition Filter_rest :: "'a filter_base_scheme \<Rightarrow> 'a filter_base_scheme" where
  "Filter_rest st = st\<lparr>fb_rest := True\<rparr>"

definition Pipe_write_next :: "bytes \<Rightarrow> 'a filter_base_scheme \<Rightarrow> 'a filter_base_scheme" where
  "Pipe_write_next buf st =
     (if \<not> fb_next st then st else st\<lparr>fb_outs := fb_outs st @ [(NextPort, buf)]\<rparr>)"

definition Filter_write_rest :: "bytes \<Rightarrow> 'a filter_base_scheme \<Rightarrow> 'a filter_base_scheme" where
  "Filter_write_rest buf st =
     (if \<not> fb_rest st then st else st\<lparr>fb_outs := fb_outs st @ [(RestPort, buf)]\<rparr>)"

definition fb_add :: "string \<Rightarrow> int \<Rightarrow> 'a filter_base_scheme \<Rightarrow> 'a filter_base_scheme" where
  "fb_add name v st = st\<lparr>fb_cnt := StatCounters_add name v (fb_cnt st)\<rparr>"

definition FilterBase_write_next :: "bytes \<Rightarrow> 'a filter_base_scheme \<Rightarrow> 'a filter_base_scheme" where
  "FilterBase_write_next buf st =
     Pipe_write_next buf (fb_add ''pack'' 1 (fb_add ''next'' (int (length buf)) st))"

definition FilterBase_write_rest :: "bytes \<Rightarrow> 'a filter_base_scheme \<Rightarrow> 'a filter_base_scheme" where
  "FilterBase_write_rest buf st =
     Filter_write_rest buf (fb_add ''rest'' (int (length buf)) st)"

text \<open>The result of \<open>write_next\<close>/\<open>write_rest\<close>, given what the downstream \<open>write\<close> returns.\<close>

definition write_next_result :: "(bytes \<Rightarrow> int) \<Rightarrow> bytes \<Rightarrow> 'a filter_base_scheme \<Rightarrow> int" where
  "write_next_result reply buf st = (if fb_next st then reply buf else 0)"

definition write_rest_result :: "(bytes \<Rightarrow> int) \<Rightarrow> bytes \<Rightarrow> 'a filter_base_scheme \<Rightarrow> int" where
  "write_rest_result reply buf st = (if fb_rest st then reply buf else 0)"

section \<open>What was delivered\<close>

fun out_items :: "port \<times> bytes \<Rightarrow> item list" where
  "out_items (NextPort, p) = [Packet p]"
| "out_items (RestPort, bs) = map Stray bs"

definition emitted :: "'a filter_base_scheme \<Rightarrow> item list" where
  "emitted st = concat (map out_items (fb_outs st))"

fun wants :: "'a filter_base_scheme \<Rightarrow> item \<Rightarrow> bool" where
  "wants st (Packet p) = fb_next st"
| "wants st (Stray b) = fb_rest st"

definition counters_ok :: "'a filter_base_scheme \<Rightarrow> bool" where
  "counters_ok st \<longleftrightarrow> (\<forall>n. int32 (counter n (fb_cnt st)))"

text \<open>From \<open>st\<close> to \<open>st'\<close> exactly \<open>is\<close> was recognised: delivered as far as connected,
  and counted.\<close>

definition delivers ::
    "'a filter_base_scheme \<Rightarrow> 'b filter_base_scheme \<Rightarrow> item list \<Rightarrow> bool" where
  "delivers st st' is \<longleftrightarrow>
     counters_ok st' \<and> fb_next st' = fb_next st \<and> fb_rest st' = fb_rest st \<and>
     emitted st' = emitted st @ filter (wants st) is \<and>
     (\<forall>n \<in> {''pack'', ''next'', ''rest''}.
        counter n (fb_cnt st') = wrap32 (counter n (fb_cnt st) + tally n is))"

lemma wants_eq: "fb_next st' = fb_next st \<Longrightarrow> fb_rest st' = fb_rest st \<Longrightarrow> wants st' = wants st"
  by (rule ext, case_tac x) auto

lemma delivers_same:
  "counters_ok st \<Longrightarrow> fb_next st' = fb_next st \<Longrightarrow> fb_rest st' = fb_rest st \<Longrightarrow>
   fb_outs st' = fb_outs st \<Longrightarrow> fb_cnt st' = fb_cnt st \<Longrightarrow> delivers st st' []"
  by (simp add: delivers_def emitted_def counters_ok_def)

lemma delivers_cong:
  "delivers st st1 is \<Longrightarrow> fb_next st2 = fb_next st1 \<Longrightarrow> fb_rest st2 = fb_rest st1 \<Longrightarrow>
   fb_outs st2 = fb_outs st1 \<Longrightarrow> fb_cnt st2 = fb_cnt st1 \<Longrightarrow> delivers st st2 is"
  by (simp add: delivers_def emitted_def counters_ok_def)

lemma delivers_trans:
  "delivers st st1 is \<Longrightarrow> delivers st1 st2 js \<Longrightarrow> delivers st st2 (is @ js)"
  using wants_eq [of st1 st]
  by (auto simp: delivers_def wrap32_add add.assoc simp del: wants.simps)

lemma delivers_ok: "delivers st st' is \<Longrightarrow> counters_ok st'"
  by (simp add: delivers_def)

lemma delivers_wants: "delivers st st' is \<Longrightarrow> wants st' = wants st"
  by (auto simp: delivers_def intro: wants_eq)

lemma counters_ok_add [simp]: "counters_ok st \<Longrightarrow> counters_ok (fb_add n v st)"
  by (simp add: counters_ok_def fb_add_def)

lemma delivers_write_next:
  "counters_ok st \<Longrightarrow> delivers st (FilterBase_write_next p st) [Packet p]"
  by (auto simp: delivers_def FilterBase_write_next_def Pipe_write_next_def fb_add_def
      emitted_def counters_ok_def)

lemma delivers_write_rest:
  "counters_ok st \<Longrightarrow> delivers st (FilterBase_write_rest bs st) (map Stray bs)"
  by (auto simp: delivers_def FilterBase_write_rest_def Filter_write_rest_def fb_add_def
      emitted_def counters_ok_def filter_map comp_def)

lemma delivers_badcrc: "counters_ok st \<Longrightarrow> delivers st (fb_add ''badcrc'' v st) []"
  by (auto simp: delivers_def fb_add_def emitted_def counters_ok_def)

end
