(* ===== verification/Recogniser.thy ===== *)
theory Recogniser
  imports Filter_Base
begin

text \<open>
  The shape the MAVLink, UBX and RTCM recognisers share: a loop that looks at a state and
  a source, copies bytes into the filter's array, and on a corrupt packet calls itself on
  a part of that array before it goes on. The locale states what one iteration has to
  keep; from that the loop is total, implements \<open>scan\<close>, and leaves the array alone behind
  the end of its own source, which is what makes the call on its own array sound.
\<close>

text \<open>An iteration that goes on with the next part of its source.\<close>

definition moves ::
    "('a filter_base_scheme \<Rightarrow> bool) \<Rightarrow> ('a filter_base_scheme \<Rightarrow> bytes) \<Rightarrow>
     ('a filter_base_scheme \<Rightarrow> bytes) \<Rightarrow> ('a filter_base_scheme \<Rightarrow> bytes \<Rightarrow> verdict) \<Rightarrow>
     src \<Rightarrow> 'a filter_base_scheme \<Rightarrow> src \<Rightarrow> 'a filter_base_scheme \<Rightarrow> bool" where
  "moves ok pending packet cl s st s1 st1 \<longleftrightarrow>
     (\<exists>is. ok st1 \<and> cl st1 = cl st \<and> length (packet st1) = length (packet st) \<and>
        src_ok (packet st1) (length (pending st1)) s1 \<and> delivers st st1 is \<and>
        scan (cl st) (pending st) (view (packet st) s) =
          apsnd ((@) is) (scan (cl st) (pending st1) (view (packet st1) s1))) \<and>
     length (pending st1) + src_len s1 \<le> length (pending st) + src_len s \<and>
     (length (pending st1) + src_len s1 = length (pending st) + src_len s \<longrightarrow>
        src_len s1 < src_len s) \<and>
     (\<forall>i. behind s i \<longrightarrow> i < length (packet st) \<longrightarrow> packet st1 ! i = packet st ! i) \<and>
     (\<forall>i. behind s1 i = behind s i)"

text \<open>An iteration that found a corrupt packet in the first \<open>n\<close> bytes of the array, gave up
  \<open>k\<close> of them, and has the others looked at before it goes on.\<close>

definition gives_up ::
    "('a filter_base_scheme \<Rightarrow> bool) \<Rightarrow> ('a filter_base_scheme \<Rightarrow> bytes) \<Rightarrow>
     ('a filter_base_scheme \<Rightarrow> bytes) \<Rightarrow> ('a filter_base_scheme \<Rightarrow> bytes \<Rightarrow> verdict) \<Rightarrow>
     src \<Rightarrow> 'a filter_base_scheme \<Rightarrow> src \<Rightarrow> 'a filter_base_scheme \<Rightarrow> nat \<Rightarrow> nat \<Rightarrow> bool" where
  "gives_up ok pending packet cl s st s1 st1 k n \<longleftrightarrow>
     ok st1 \<and> cl st1 = cl st \<and> pending st1 = [] \<and>
     length (packet st1) = length (packet st) \<and> 0 < k \<and> k \<le> n \<and> n \<le> length (packet st) \<and>
     src_ok (packet st1) n s1 \<and> delivers st st1 (map Stray (take k (packet st1))) \<and>
     scan (cl st) (pending st) (view (packet st) s) =
       apsnd ((@) (map Stray (take k (packet st1))))
         (scan (cl st) [] (drop k (take n (packet st1)) @ view (packet st1) s1)) \<and>
     n + src_len s1 = length (pending st) + src_len s \<and>
     (\<forall>i. behind s i \<longrightarrow> i < length (packet st) \<longrightarrow> packet st1 ! i = packet st ! i \<and> n \<le> i) \<and>
     (\<forall>i. behind s1 i = behind s i)"

section \<open>The kinds of iteration\<close>

lemma moves_drained:
  assumes "pending st = []" "pending st1 = []" "packet st1 = packet st"
    and "src_ok (packet st) 0 s" "src_len s \<noteq> 0" "\<And>b. b \<in> set (view (packet st) s) \<Longrightarrow> cl st [b] = Reject 1"
    and "ok st1" "cl st1 = cl st" "delivers st st1 (map Stray (view (packet st) s))"
  shows "moves ok pending packet cl s st (advance (src_len s) s) st1"
proof -
  have "view (packet st) (advance (src_len s) s) = []"
    using assms(4) by (simp add: view_advance length_view)
  then show ?thesis
    using assms scan_strays_only [of "view (packet st) s" "cl st"]
    by (auto simp: moves_def src_len_advance behind_advance apsnd_def map_prod_def
        intro!: exI [of _ "map Stray (view (packet st) s)"] src_ok_advance [of "packet st" 0 s])
qed

lemma moves_seek:
  assumes "pending st = []" "pending st1 = [c]" "packet st1 = poke (packet st) 0 [c]"
    and "src_ok (packet st) 0 s" "memchr (view (packet st) s) c = Some l" "packet st \<noteq> []"
    and "\<And>b. b \<noteq> c \<Longrightarrow> cl st [b] = Reject 1" "cl st [c] = Wait"
    and "ok st1" "cl st1 = cl st" "delivers st st1 (map Stray (take l (view (packet st) s)))"
  shows "moves ok pending packet cl s st (advance (l + 1) s) st1"
proof -
  note f = seek_found [OF assms(4,5,6)]
  let ?v = "view (packet st) s"
  have "scan (cl st) [] ?v = scan (cl st) [] (take l ?v @ [c] @ view (packet st1) (advance (l + 1) s))"
    using f(2) assms(3) by simp
  also have "\<dots> = apsnd ((@) (map Stray (take l ?v)))
      (scan (cl st) [c] (view (packet st1) (advance (l + 1) s)))"
    using f(6) assms(7,8) by (subst scan_strays) (fastforce simp: scan_Wait)+
  finally have sc: "scan (cl st) [] ?v = apsnd ((@) (map Stray (take l ?v)))
      (scan (cl st) [c] (view (packet st1) (advance (l + 1) s)))" .
  have fr: "\<forall>i. behind s i \<longrightarrow> i < length (packet st) \<longrightarrow> packet st1 ! i = packet st ! i"
    using f(1) assms(3) nth_poke_behind [OF assms(4), of _ 0 "[c]"] by auto
  show ?thesis
    using sc fr f assms by (auto simp: moves_def src_len_advance behind_advance)
qed

lemma scan_next_block:
  assumes "src_ok p w s" "k \<le> src_len s" "w + k \<le> length p" "0 < k"
    and p1: "p1 = poke p w (take k (view p s))"
    and "\<And>j. 0 < j \<Longrightarrow> j < k \<Longrightarrow> cl (take (w + j) p1) = Wait"
  shows "scan cl (take w p) (view p s) =
    (case cl (take (w + k) p1) of
       Wait \<Rightarrow> scan cl (take (w + k) p1) (view p1 (advance k s))
     | Accept \<Rightarrow> apsnd ((#) (Packet (take (w + k) p1))) (scan cl [] (view p1 (advance k s)))
     | Reject r \<Rightarrow> apsnd ((@) (map Stray (take (given_up r) (take (w + k) p1))))
                  (scan cl [] (drop (given_up r) (take (w + k) p1) @ view p1 (advance k s))))"
proof -
  note b = append_block [OF assms(1-3), folded p1]
  note t = take_block [OF assms(1-3), folded p1]
  have "scan cl (take w p) (take k (view p s) @ view p1 (advance k s)) =
    (case cl (take w p @ take k (view p s)) of
       Wait \<Rightarrow> scan cl (take w p @ take k (view p s)) (view p1 (advance k s))
     | Accept \<Rightarrow> apsnd ((#) (Packet (take w p @ take k (view p s)))) (scan cl [] (view p1 (advance k s)))
     | Reject r \<Rightarrow> apsnd ((@) (map Stray (take (given_up r) (take w p @ take k (view p s)))))
         (scan cl [] (drop (given_up r) (take w p @ take k (view p s)) @ view p1 (advance k s))))"
    by (rule scan_block) (use assms b t in auto)
  then show ?thesis unfolding b(5) b(1) [symmetric] .
qed

text \<open>The three outcomes of copying a block: more is needed, a packet is complete, or the
  row of bytes turned out not to be one.\<close>

lemma moves_wait:
  assumes src: "src_ok (packet st) w s" "k \<le> src_len s" "w + k \<le> length (packet st)" "0 < k"
    and p1: "packet st1 = poke (packet st) w (take k (view (packet st) s))"
    and pend: "pending st = take w (packet st)" "pending st1 = take (w + k) (packet st1)"
    and ok1: "ok st1" "cl st1 = cl st" "delivers st st1 []"
    and w: "\<And>j. 0 < j \<Longrightarrow> j \<le> k \<Longrightarrow> cl st (take (w + j) (packet st1)) = Wait"
  shows "moves ok pending packet cl s st (advance k s) st1"
  using assms append_block(3,4) [OF src(1-3), folded p1] frame_block [OF src(1-3), folded p1]
    scan_next_block [OF src p1, of "cl st"]
  by (auto simp: moves_def src_len_advance behind_advance apsnd_def map_prod_def intro!: exI [of _ "[]"])

lemma moves_packet:
  assumes src: "src_ok (packet st) w s" "k \<le> src_len s" "w + k \<le> length (packet st)" "0 < k"
    and p1: "packet st1 = poke (packet st) w (take k (view (packet st) s))"
    and pend: "pending st = take w (packet st)" "pending st1 = []"
    and ok1: "ok st1" "cl st1 = cl st" "delivers st st1 [Packet (take (w + k) (packet st1))]"
    and w: "\<And>j. 0 < j \<Longrightarrow> j < k \<Longrightarrow> cl st (take (w + j) (packet st1)) = Wait"
    and c: "cl st (take (w + k) (packet st1)) = Accept"
  shows "moves ok pending packet cl s st (advance k s) st1"
proof -
  have "src_ok (packet st1) 0 (advance k s)"
    using append_block(3) [OF src(1-3), folded p1] by (cases "advance k s") auto
  then show ?thesis
    using assms append_block(4) [OF src(1-3), folded p1] frame_block [OF src(1-3), folded p1]
      scan_next_block [OF src p1, of "cl st", OF w]
    by (auto simp: moves_def src_len_advance behind_advance
        intro!: exI [of _ "[Packet (take (w + k) (packet st1))]"])
qed

lemma gives_up_block:
  assumes src: "src_ok (packet st) w s" "k \<le> src_len s" "w + k \<le> length (packet st)" "0 < k"
    and p1: "packet st1 = poke (packet st) w (take k (view (packet st) s))"
    and pend: "pending st = take w (packet st)" "pending st1 = []"
    and r: "0 < r" "r \<le> w + k"
    and ok1: "ok st1" "cl st1 = cl st" "delivers st st1 (map Stray (take r (packet st1)))"
    and w: "\<And>j. 0 < j \<Longrightarrow> j < k \<Longrightarrow> cl st (take (w + j) (packet st1)) = Wait"
    and c: "cl st (take (w + k) (packet st1)) = Reject r"
  shows "gives_up ok pending packet cl s st (advance k s) st1 r (w + k)"
proof -
  have "given_up r = r" using r by (simp add: given_up_def)
  then show ?thesis
    using assms append_block(3,4) [OF src(1-3), folded p1] frame_block [OF src(1-3), folded p1]
      scan_next_block [OF src p1, of "cl st", OF w]
    by (auto simp: gives_up_def src_len_advance behind_advance min_def)
qed

text \<open>A byte held back is given up although nothing of the source was taken yet.\<close>

lemma moves_unread:
  assumes "pending st = [c]" "pending st1 = []" "packet st1 = packet st"
    and "src_ok (packet st) 1 s" "src_len s \<noteq> 0"
    and "cl st [c, hd (view (packet st) s)] = Reject 1"
    and "ok st1" "cl st1 = cl st" "delivers st st1 [Stray c]"
  shows "moves ok pending packet cl s st s st1"
proof -
  obtain b bs where v: "view (packet st) s = b # bs"
    using assms(4,5) length_view [of "packet st" 1 s] by (cases "view (packet st) s") auto
  have "scan (cl st) [c] (b # bs) = apsnd ((@) [Stray c]) (scan (cl st) [] (b # bs))"
    using assms(6) v scan_Reject [of "cl st" "[c]" b 1 bs] by (simp add: given_up_def)
  moreover have "src_ok (packet st) 0 s" using assms(4) by (cases s) auto
  ultimately show ?thesis
    using assms v by (auto simp: moves_def intro!: exI [of _ "[Stray c]"])
qed

locale recogniser =
  fixes loop :: "src \<Rightarrow> 'a filter_base_scheme \<Rightarrow> 'a filter_base_scheme option"
    and feed :: "bytes \<Rightarrow> 'a filter_base_scheme \<Rightarrow> (int \<times> 'a filter_base_scheme) option"
    and ok :: "'a filter_base_scheme \<Rightarrow> bool"
    and pending :: "'a filter_base_scheme \<Rightarrow> bytes"
    and packet :: "'a filter_base_scheme \<Rightarrow> bytes"
    and cl :: "'a filter_base_scheme \<Rightarrow> bytes \<Rightarrow> verdict"
  assumes feed_loop: "feed bs st = map_option (Pair (int (length bs))) (loop (Ext bs) st)"
    and ok_counters: "ok st \<Longrightarrow> counters_ok st"
    and loop_stop: "src_len s = 0 \<Longrightarrow> loop s st = Some st"
    and loop_step: "ok st \<Longrightarrow> src_ok (packet st) (length (pending st)) s \<Longrightarrow> src_len s \<noteq> 0 \<Longrightarrow>
      (\<exists>s1 st1. loop s st = loop s1 st1 \<and> moves ok pending packet cl s st s1 st1) \<or>
      (\<exists>s1 st1 k n. loop s st = Option.bind (loop (Own k (n - k)) st1) (loop s1) \<and>
         gives_up ok pending packet cl s st s1 st1 k n)"
begin

definition good :: "src \<Rightarrow> 'a filter_base_scheme \<Rightarrow> 'a filter_base_scheme \<Rightarrow> bool" where
  "good s st st' \<longleftrightarrow>
     ok st' \<and> cl st' = cl st \<and> length (packet st') = length (packet st) \<and>
     pending st' = fst (scan (cl st) (pending st) (view (packet st) s)) \<and>
     delivers st st' (snd (scan (cl st) (pending st) (view (packet st) s))) \<and>
     (\<forall>i. behind s i \<longrightarrow> i < length (packet st) \<longrightarrow> packet st' ! i = packet st ! i)"

lemma good_pending_length:
  "good s st st' \<Longrightarrow> src_ok (packet st) w s \<Longrightarrow> length (pending st') \<le> length (pending st) + src_len s"
  using scan_conserves [of "cl st" "pending st" "view (packet st) s"]
  by (auto simp: good_def length_view dest!: arg_cong [of _ _ length])

lemma good_stop: "ok st \<Longrightarrow> src_len s = 0 \<Longrightarrow> good s st st"
  by (cases s) (auto simp: good_def ok_counters intro: delivers_same)

lemma good_step_items:
  assumes "cl st1 = cl st" "length (packet st1) = length (packet st)" "delivers st st1 is"
    and "scan (cl st) (pending st) (view (packet st) s) =
           apsnd ((@) is) (scan (cl st) (pending st1) (view (packet st1) s1))"
    and "\<forall>i. behind s i \<longrightarrow> i < length (packet st) \<longrightarrow> packet st1 ! i = packet st ! i"
    and "\<forall>i. behind s1 i = behind s i"
    and "good s1 st1 st'"
  shows "good s st st'"
  using assms by (auto simp: good_def intro: delivers_trans)

lemma good_step: "moves ok pending packet cl s st s1 st1 \<Longrightarrow> good s1 st1 st' \<Longrightarrow> good s st st'"
  unfolding moves_def by (elim conjE exE) (rule good_step_items)

text \<open>The call on the array itself: what the inner call leaves unchanged is all the outer
  one still has to read.\<close>

lemma good_inner:
  assumes g: "gives_up ok pending packet cl s st s1 st1 k n"
    and st2: "good (Own k (n - k)) st1 st2"
    and st': "good s1 st2 st'"
  shows "good s st st'"
proof -
  from g have st1: "cl st1 = cl st" "pending st1 = []" "length (packet st1) = length (packet st)"
      "0 < k" "k \<le> n" "n \<le> length (packet st)" "src_ok (packet st1) n s1"
      "delivers st st1 (map Stray (take k (packet st1)))"
      "scan (cl st) (pending st) (view (packet st) s) =
         apsnd ((@) (map Stray (take k (packet st1))))
           (scan (cl st) [] (drop k (take n (packet st1)) @ view (packet st1) s1))"
      "\<forall>i. behind s i \<longrightarrow> i < length (packet st) \<longrightarrow> packet st1 ! i = packet st ! i \<and> n \<le> i"
      "\<forall>i. behind s1 i = behind s i"
    by (auto simp: gives_up_def)
  let ?q = "drop k (take n (packet st1))"
  have vi: "take (n - k) (drop k (packet st1)) = ?q"
    by (simp add: drop_take)
  have vo: "view (packet st2) s1 = view (packet st1) s1"
    using st2 st1(5,7) by (intro view_unchanged [where w = n]) (auto simp: good_def)
  have sc: "scan (cl st) (pending st) (view (packet st) s) =
      apsnd ((@) (map Stray (take k (packet st1)) @ snd (scan (cl st) [] ?q)))
        (scan (cl st) (pending st2) (view (packet st2) s1))"
    using st2 by (simp add: st1 vo scan_append good_def vi apsnd_def map_prod_def case_prod_beta)
  have del: "delivers st st2 (map Stray (take k (packet st1)) @ snd (scan (cl st) [] ?q))"
    using st2 by (intro delivers_trans [OF st1(8)]) (simp add: good_def st1(1,2) vi)
  show ?thesis
  proof (rule good_step_items [OF _ _ del sc _ _ st'])
    show "cl st2 = cl st" "length (packet st2) = length (packet st)"
      "\<forall>i. behind s1 i = behind s i"
      using st1 st2 by (auto simp: good_def)
    show "\<forall>i. behind s i \<longrightarrow> i < length (packet st) \<longrightarrow> packet st2 ! i = packet st ! i"
      using st1(3,5,10) st2 by (auto simp: good_def)
  qed
qed

lemma loop_good:
  "ok st \<Longrightarrow> src_ok (packet st) (length (pending st)) s \<Longrightarrow> \<exists>st'. loop s st = Some st' \<and> good s st st'"
proof (induction "(s, st)" arbitrary: s st rule: wf_induct
    [of "measures [\<lambda>(s, st). length (pending st) + src_len s, \<lambda>(s, st). src_len s]"])
  case (2 s st)
  have IH: "\<exists>st'. loop s1 st1 = Some st' \<and> good s1 st1 st'"
    if "ok st1" "src_ok (packet st1) (length (pending st1)) s1"
      "length (pending st1) + src_len s1 \<le> length (pending st) + src_len s"
      "length (pending st1) + src_len s1 = length (pending st) + src_len s \<Longrightarrow> src_len s1 < src_len s"
    for s1 st1
    using 2(1) [rule_format, of "(s1, st1)" s1 st1] that by (simp add: le_less) blast
  show ?case
  proof (cases "src_len s = 0")
    case True
    with 2(2) show ?thesis by (auto simp: loop_stop good_stop)
  next
    case False
    from loop_step [OF 2(2,3) False] show ?thesis
    proof (elim disjE exE conjE)
      fix s1 st1
      assume l: "loop s st = loop s1 st1" and m: "moves ok pending packet cl s st s1 st1"
      then have pre: "ok st1" "src_ok (packet st1) (length (pending st1)) s1"
        "length (pending st1) + src_len s1 \<le> length (pending st) + src_len s"
        "length (pending st1) + src_len s1 = length (pending st) + src_len s \<Longrightarrow> src_len s1 < src_len s"
        by (auto simp: moves_def)
      obtain st' where "loop s1 st1 = Some st'" "good s1 st1 st'"
        using IH [OF pre] by blast
      with l good_step [OF m] show ?thesis by simp
    next
      fix s1 st1 k n
      assume l: "loop s st = Option.bind (loop (Own k (n - k)) st1) (loop s1)"
        and g: "gives_up ok pending packet cl s st s1 st1 k n"
      then have st1: "ok st1" "pending st1 = []" "length (packet st1) = length (packet st)"
        "0 < k" "k \<le> n" "n \<le> length (packet st)" "src_ok (packet st1) n s1"
        "n + src_len s1 = length (pending st) + src_len s"
        by (auto simp: gives_up_def)
      obtain st2 where st2: "loop (Own k (n - k)) st1 = Some st2" "good (Own k (n - k)) st1 st2"
        using IH [of st1 "Own k (n - k)"] st1 by fastforce
      have len: "length (pending st2) \<le> n - k"
        using good_pending_length [OF st2(2), of 0] st1 by simp
      have "src_ok (packet st2) (length (pending st2)) s1"
        using st1(3,7) st2(2) len by (cases s1) (auto simp: good_def)
      moreover have "ok st2" using st2(2) by (simp add: good_def)
      moreover have "length (pending st2) + src_len s1 < length (pending st) + src_len s"
        using st1(4,5,8) len by linarith
      ultimately obtain st' where "loop s1 st2 = Some st'" "good s1 st2 st'"
        using IH [of st2 s1] by auto
      with l st2(1) good_inner [OF g st2(2)] show ?thesis by simp
    qed
  qed
qed auto

lemma loop_refines:
  assumes "ok st"
  shows "\<exists>st'. feed bs st = Some (int (length bs), st') \<and> ok st' \<and> cl st' = cl st \<and>
    pending st' = fst (scan (cl st) (pending st) bs) \<and>
    delivers st st' (snd (scan (cl st) (pending st) bs))"
  using loop_good [OF assms, of "Ext bs"] by (auto simp: feed_loop good_def)

end

sublocale recogniser \<subseteq> stream_filter feed ok pending emitted wants cl "\<lambda>n st. counter n (fb_cnt st)"
proof
  fix st bs
  assume "ok st"
  from loop_refines [OF this, of bs] obtain st' where
    st': "feed bs st = Some (int (length bs), st')" "ok st'" "cl st' = cl st"
      "pending st' = fst (scan (cl st) (pending st) bs)"
      "delivers st st' (snd (scan (cl st) (pending st) bs))"
    by blast
  show "\<exists>s'. feed bs st = Some (int (length bs), s') \<and> ok s' \<and> wants s' = wants st \<and> cl s' = cl st \<and>
         pending s' = fst (scan (cl st) (pending st) bs) \<and>
         emitted s' = emitted st @ filter (wants st) (snd (scan (cl st) (pending st) bs)) \<and>
         (\<forall>n \<in> {''pack'', ''next'', ''rest''}. counter n (fb_cnt s') =
            wrap32 (counter n (fb_cnt st) + tally n (snd (scan (cl st) (pending st) bs))))"
    using st' delivers_wants [OF st'(5)] unfolding delivers_def by blast
next
  fix st n
  assume "ok st"
  then show "int32 (counter n (fb_cnt st))"
    using ok_counters by (auto simp: counters_ok_def)
qed

end
