(* ===== verification/Mavlink1.thy ===== *)
theory Mavlink1
  imports Recogniser Checksums
begin

text \<open>
  The MAVLink 1 recogniser (\<open>src/filters/mavlink1.h\<close>, class \<open>Mavlink_v1\<close>): start byte,
  length, then as many bytes as the length announces; the X.25 checksum covers everything
  but the start byte, and one extra byte per message type.
\<close>

section \<open>State\<close>

datatype mavlink_state = MlBefore | MlLen | MlLoad

record mavlink_v1 = filter_base +
  ml_packet :: bytes                 \<comment> \<open>\<open>std::array<uint8_t,263>\<close>\<close>
  ml_crc_extra :: "bytes option"     \<comment> \<open>\<open>_crc_extra\<close>; \<open>None\<close> is a null pointer\<close>
  ml_state :: mavlink_state
  ml_len :: nat                      \<comment> \<open>\<open>packet_len\<close>\<close>

definition STX :: byte where
  "STX = 0xFE"

definition crc_extra :: bytes where
  "crc_extra =
    [50, 124, 137, 0, 237, 217, 104, 119, 0, 0, 0, 89, 0, 0, 0, 0,
     0, 0, 0, 0, 214, 159, 220, 168, 24, 23, 170, 144, 67, 115, 39, 246,
     185, 104, 237, 244, 222, 212, 9, 254, 230, 28, 28, 132, 221, 232, 11, 153,
     41, 39, 0, 0, 0, 0, 15, 3, 0, 0, 0, 0, 0, 153, 183, 51,
     82, 118, 148, 21, 0, 243, 124, 0, 0, 38, 20, 158, 152, 143, 0, 0,
     0, 106, 49, 22, 29, 12, 241, 233, 0, 231, 183, 63, 54, 0, 0, 0,
     0, 0, 0, 0, 175, 102, 158, 208, 56, 93, 211, 108, 32, 185, 84, 34,
     0, 124, 119, 4, 76, 128, 56, 116, 134, 237, 203, 250, 87, 203, 220, 25,
     226, 0, 29, 223, 85, 6, 229, 203, 1, 0, 0, 0, 0, 0, 0, 0,
     0, 0, 0, 13, 49, 0, 134, 219, 208, 188, 84, 22, 19, 21, 134, 0,
     78, 68, 189, 127, 154, 21, 21, 144, 1, 234, 73, 181, 22, 83, 167, 138,
     234, 240, 47, 189, 52, 174, 0, 0, 0, 0, 0, 0, 0, 0, 0, 0,
     0, 0, 0, 0, 0, 0, 0, 0, 0, 0, 0, 0, 0, 0, 0, 0,
     0, 0, 0, 0, 0, 0, 0, 0, 0, 0, 0, 0, 0, 0, 0, 0,
     0, 0, 0, 0, 0, 0, 0, 0, 0, 0, 0, 0, 0, 0, 0, 0,
     0, 0, 0, 0, 0, 0, 0, 0, 8, 204, 49, 170, 44, 83, 46, 0]"

text \<open>\<open>std::array\<close> members are not initialised: \<open>junk\<close> is what the memory holds.\<close>

definition Mavlink_v1_new :: "bytes \<Rightarrow> mavlink_v1" where
  "Mavlink_v1_new junk =
     \<lparr>fb_next = False, fb_rest = False, fb_outs = [], fb_cnt = StatCounters_new ''mavlink_v1'',
      ml_packet = junk, ml_crc_extra = Some crc_extra, ml_state = MlBefore, ml_len = 0\<rparr>"

section \<open>write\<close>

definition Mavlink_v1_valid_checksum :: "mavlink_v1 \<Rightarrow> bool" where
  "Mavlink_v1_valid_checksum st =
     (let p = ml_packet st;
          crc = crc_calculate (take (unat (p ! 1) + 5) (drop 1 p));
          crc = (case ml_crc_extra st of None \<Rightarrow> crc
                 | Some extra \<Rightarrow> crc_accumulate (extra ! unat (p ! 5)) crc)
      in unat (p ! (ml_len st - 2)) + 256 * unat (p ! (ml_len st - 1)) = unat crc)"

text \<open>The cases of the \<open>switch\<close>: each returns what is left of the source. A source that
  was dropped as a whole (\<open>len = 0\<close>) is advanced to its end.\<close>

definition ml_before :: "src \<Rightarrow> mavlink_v1 \<Rightarrow> src \<times> mavlink_v1" where
  "ml_before s st =
     (let ptr = view (ml_packet st) s in
      case memchr ptr STX of
        None \<Rightarrow> (advance (src_len s) s, FilterBase_write_rest ptr st)
      | Some l \<Rightarrow>
          (let st1 = (if l \<noteq> 0 then FilterBase_write_rest (take l ptr) st else st)
           in (advance (l + 1) s,
               st1\<lparr>ml_state := MlLen, ml_packet := poke (ml_packet st1) 0 [STX]\<rparr>)))"

definition ml_length :: "src \<Rightarrow> mavlink_v1 \<Rightarrow> src \<times> mavlink_v1" where
  "ml_length s st =
     (advance 1 s,
      st\<lparr>ml_packet := poke (ml_packet st) 1 (take 1 (view (ml_packet st) s)),
         ml_state := MlLoad, ml_len := 2\<rparr>)"

definition ml_size :: "mavlink_v1 \<Rightarrow> nat" where
  "ml_size st = 8 + unat (ml_packet st ! 1)"

definition ml_load :: "src \<Rightarrow> mavlink_v1 \<Rightarrow> src \<times> mavlink_v1" where
  "ml_load s st =
     (let copy_len = min (ml_size st - ml_len st) (src_len s)
      in (advance copy_len s,
          st\<lparr>ml_packet := poke (ml_packet st) (ml_len st) (take copy_len (view (ml_packet st) s)),
             ml_len := ml_len st + copy_len\<rparr>))"

partial_function (option) Mavlink_v1_loop :: "src \<Rightarrow> mavlink_v1 \<Rightarrow> mavlink_v1 option" where
  "Mavlink_v1_loop s st =
     (if src_len s = 0 then Some st
      else case ml_state st of
        MlBefore \<Rightarrow> (case ml_before s st of (s1, st1) \<Rightarrow> Mavlink_v1_loop s1 st1)
      | MlLen \<Rightarrow> (case ml_length s st of (s1, st1) \<Rightarrow> Mavlink_v1_loop s1 st1)
      | MlLoad \<Rightarrow>
          (case ml_load s st of (s1, st1) \<Rightarrow>
             if ml_len st1 \<noteq> ml_size st then Mavlink_v1_loop s1 st1
             else (let st2 = st1\<lparr>ml_state := MlBefore\<rparr> in
               if Mavlink_v1_valid_checksum st2
               then Mavlink_v1_loop s1 (FilterBase_write_next (take (ml_len st2) (ml_packet st2)) st2)
               else Option.bind
                 (Mavlink_v1_loop (Own 1 (ml_len st2 - 1))
                   (FilterBase_write_rest (take 1 (ml_packet st2)) (fb_add ''badcrc'' 1 st2)))
                 (Mavlink_v1_loop s1))))"

definition Mavlink_v1_write :: "bytes \<Rightarrow> mavlink_v1 \<Rightarrow> (int \<times> mavlink_v1) option" where
  "Mavlink_v1_write buf st =
     map_option (Pair (int (length buf))) (Mavlink_v1_loop (Ext buf) st)"

section \<open>Specification\<close>

text \<open>The checksum of a whole frame, and the classification of a row of bytes.\<close>

definition mavlink_frame_crc :: "bytes option \<Rightarrow> bytes \<Rightarrow> u16" where
  "mavlink_frame_crc extra f =
     (let crc = crc_calculate (take (length f - 3) (drop 1 f))
      in case extra of None \<Rightarrow> crc | Some e \<Rightarrow> crc_accumulate (e ! unat (f ! 5)) crc)"

definition mavlink_class :: "bytes option \<Rightarrow> bytes \<Rightarrow> verdict" where
  "mavlink_class extra f =
     (if f ! 0 \<noteq> STX then Reject 1
      else if length f < 2 then Wait
      else if length f < 8 + unat (f ! 1) then Wait
      else if unat (f ! (length f - 2)) + 256 * unat (f ! (length f - 1)) =
              unat (mavlink_frame_crc extra f)
      then Accept else Reject 1)"

definition ml_pending :: "mavlink_v1 \<Rightarrow> bytes" where
  "ml_pending st =
     (case ml_state st of MlBefore \<Rightarrow> [] | MlLen \<Rightarrow> take 1 (ml_packet st)
      | MlLoad \<Rightarrow> take (ml_len st) (ml_packet st))"

definition mavlink_ok :: "mavlink_v1 \<Rightarrow> bool" where
  "mavlink_ok st \<longleftrightarrow>
     length (ml_packet st) = 263 \<and> counters_ok st \<and>
     (\<forall>e. ml_crc_extra st = Some e \<longrightarrow> 256 \<le> length e) \<and>
     (ml_state st \<noteq> MlBefore \<longrightarrow> ml_packet st ! 0 = STX) \<and>
     (ml_state st = MlLoad \<longrightarrow> 2 \<le> ml_len st \<and> ml_len st < ml_size st)"

section \<open>The loop implements the specification\<close>

lemma mavlink_class_Wait:
  "f ! 0 = STX \<Longrightarrow> 2 \<le> length f \<longrightarrow> length f < 8 + unat (f ! 1) \<Longrightarrow> mavlink_class extra f = Wait"
  by (auto simp: mavlink_class_def)

lemma mavlink_class_other: "f ! 0 \<noteq> STX \<Longrightarrow> mavlink_class extra f = Reject 1"
  by (simp add: mavlink_class_def)

lemma mavlink_class_byte: "b \<noteq> STX \<Longrightarrow> mavlink_class extra [b] = Reject 1"
  by (simp add: mavlink_class_def)

lemma mavlink_class_full:
  assumes "ml_packet st ! 0 = STX" "ml_len st = ml_size st" "ml_size st \<le> length (ml_packet st)"
  shows "mavlink_class (ml_crc_extra st) (take (ml_len st) (ml_packet st)) =
    (if Mavlink_v1_valid_checksum st then Accept else Reject 1)"
proof -
  have l: "length (take (ml_len st) (ml_packet st)) = 8 + unat (ml_packet st ! 1)"
    using assms by (simp add: ml_size_def)
  have d: "take (5 + unat (ml_packet st ! 1)) (drop 1 (take (8 + unat (ml_packet st ! 1)) (ml_packet st))) =
     take (unat (ml_packet st ! 1) + 5) (drop 1 (ml_packet st))"
    by (simp add: drop_take add.commute)
  show ?thesis
    using assms l d
    by (simp add: mavlink_class_def mavlink_frame_crc_def Mavlink_v1_valid_checksum_def Let_def ml_size_def
        split: option.split)
qed

lemma ml_size_le: "ml_size st \<le> 263"
  using unat_byte_less [of "ml_packet st ! 1"] by (simp add: ml_size_def)

lemma ml_keeps [simp]:
  "ml_packet (FilterBase_write_rest bs st) = ml_packet st"
  "ml_packet (FilterBase_write_next bs st) = ml_packet st"
  "ml_packet (fb_add n v st) = ml_packet st"
  "ml_crc_extra (FilterBase_write_rest bs st) = ml_crc_extra st"
  "ml_crc_extra (FilterBase_write_next bs st) = ml_crc_extra st"
  "ml_crc_extra (fb_add n v st) = ml_crc_extra st"
  "ml_state (FilterBase_write_rest bs st) = ml_state st"
  "ml_state (FilterBase_write_next bs st) = ml_state st"
  "ml_state (fb_add n v st) = ml_state st"
  by (simp_all add: FilterBase_write_rest_def FilterBase_write_next_def Filter_write_rest_def
      Pipe_write_next_def fb_add_def)

abbreviation ml_moves where
  "ml_moves \<equiv> moves mavlink_ok ml_pending ml_packet (\<lambda>st. mavlink_class (ml_crc_extra st))"

abbreviation ml_gives_up where
  "ml_gives_up \<equiv> gives_up mavlink_ok ml_pending ml_packet (\<lambda>st. mavlink_class (ml_crc_extra st))"

lemma ml_before_moves:
  assumes "mavlink_ok st" "ml_state st = MlBefore" "src_ok (ml_packet st) 0 s" "src_len s \<noteq> 0"
    and "ml_before s st = (s1, st1)"
  shows "ml_moves s st s1 st1"
proof (cases "memchr (view (ml_packet st) s) STX")
  case None
  then have "mavlink_class (ml_crc_extra st) [b] = Reject 1" if "b \<in> set (view (ml_packet st) s)" for b
    using that by (intro mavlink_class_other) (auto simp: memchr_None_iff)
  then have "ml_moves s st (advance (src_len s) s) (FilterBase_write_rest (view (ml_packet st) s) st)"
    using assms delivers_write_rest [of st "view (ml_packet st) s"]
    by (intro moves_drained)
      (auto simp: ml_pending_def mavlink_ok_def delivers_ok)
  with None assms(5) show ?thesis by (simp add: ml_before_def)
next
  case (Some l)
  have "ml_packet st \<noteq> []" using assms(1) by (auto simp: mavlink_ok_def)
  note f = seek_found [OF assms(3) Some this]
  have c: "counters_ok st" using assms(1) by (simp add: mavlink_ok_def)
  have d: "delivers st (if l \<noteq> 0 then FilterBase_write_rest (take l (view (ml_packet st) s)) st else st)
      (map Stray (take l (view (ml_packet st) s)))"
    using delivers_write_rest [OF c] by (auto intro: delivers_same c)
  have st1: "s1 = advance (l + 1) s" "ml_packet st1 = poke (ml_packet st) 0 [STX]"
    "ml_state st1 = MlLen" "ml_crc_extra st1 = ml_crc_extra st"
    "delivers st st1 (map Stray (take l (view (ml_packet st) s)))"
    using assms(5) Some d by (auto simp: ml_before_def Let_def intro: delivers_cong)
  have "mavlink_ok st1"
    using assms(1) st1 f(4,5) delivers_ok [OF st1(5)] by (auto simp: mavlink_ok_def)
  then show ?thesis
    unfolding st1(1) using assms st1 Some f
    by (intro moves_seek [where c = STX])
      (auto simp: ml_pending_def mavlink_class_other poke_def intro: mavlink_class_Wait)
qed

lemma ml_length_moves:
  assumes "mavlink_ok st" "ml_state st = MlLen" "src_ok (ml_packet st) 1 s" "src_len s \<noteq> 0"
    and "ml_length s st = (s1, st1)"
  shows "ml_moves s st s1 st1"
proof -
  have st1: "s1 = advance 1 s" "ml_state st1 = MlLoad" "ml_crc_extra st1 = ml_crc_extra st" "ml_len st1 = 2"
    "ml_packet st1 = poke (ml_packet st) 1 (take 1 (view (ml_packet st) s))"
    using assms(5) by (auto simp: ml_length_def)
  have l: "1 \<le> src_len s" "1 + 1 \<le> length (ml_packet st)"
    using assms(1,4) by (auto simp: mavlink_ok_def)
  have d: "delivers st st1 []"
    using assms(1,5) by (auto simp: ml_length_def mavlink_ok_def intro!: delivers_same)
  have stx: "ml_packet st1 ! 0 = STX"
    using assms(1,2) st1(5) l(2) by (simp add: nth_poke_below mavlink_ok_def)
  have ok1: "mavlink_ok st1"
    using assms(1) st1 stx delivers_ok [OF d] append_block(4) [OF assms(3) l]
    by (auto simp: mavlink_ok_def ml_size_def)
  have "length (ml_packet st1) = 263" using ok1 by (simp add: mavlink_ok_def)
  then have w: "mavlink_class (ml_crc_extra st) (take (1 + 1) (ml_packet st1)) = Wait"
    using stx by (intro mavlink_class_Wait) auto
  show ?thesis
    unfolding st1(1)
    by (rule moves_wait [OF assms(3) l _ st1(5)])
      (use assms st1 d ok1 w in \<open>auto simp: ml_pending_def numeral_2_eq_2 le_Suc_eq\<close>)
qed

text \<open>What the copy in the \<open>LOAD\<close> state establishes, whatever comes after it.\<close>

lemma ml_load_block:
  assumes "mavlink_ok st" "ml_state st = MlLoad" "src_ok (ml_packet st) (ml_len st) s" "src_len s \<noteq> 0"
    and "ml_load s st = (s1, st1)"
  obtains k where "k \<le> src_len s" "ml_len st + k \<le> length (ml_packet st)" "0 < k"
    "s1 = advance k s" "ml_packet st1 = poke (ml_packet st) (ml_len st) (take k (view (ml_packet st) s))"
    "ml_len st1 = ml_len st + k" "ml_len st1 \<le> ml_size st" "ml_size st1 = ml_size st"
    "ml_packet st1 ! 0 = STX" "length (ml_packet st1) = 263" "ml_state st1 = MlLoad"
    "ml_crc_extra st1 = ml_crc_extra st" "counters_ok st1" "delivers st st1 []"
    "\<And>j. j \<le> k \<Longrightarrow> ml_len st + j < ml_size st \<Longrightarrow>
       mavlink_class (ml_crc_extra st) (take (ml_len st + j) (ml_packet st1)) = Wait"
proof -
  define k where "k = min (ml_size st - ml_len st) (src_len s)"
  have ok: "2 \<le> ml_len st" "ml_len st < ml_size st" "length (ml_packet st) = 263" "ml_packet st ! 0 = STX"
    using assms(1,2) by (auto simp: mavlink_ok_def)
  have k: "k \<le> src_len s" "ml_len st + k \<le> length (ml_packet st)" "0 < k"
    using ok assms(4) ml_size_le [of st] by (auto simp: k_def)
  have st1: "s1 = advance k s" "ml_len st1 = ml_len st + k" "ml_state st1 = MlLoad"
    "ml_packet st1 = poke (ml_packet st) (ml_len st) (take k (view (ml_packet st) s))"
    "ml_crc_extra st1 = ml_crc_extra st"
    using assms(2,5) by (auto simp: ml_load_def k_def Let_def)
  have le: "ml_len st1 \<le> ml_size st" using ok st1 by (simp add: k_def)
  have p: "ml_packet st1 ! 0 = STX" "ml_packet st1 ! 1 = ml_packet st ! 1"
    using ok ml_size_le [of st] unfolding st1(4) by (auto simp: nth_poke_below)
  have l: "length (ml_packet st1) = 263"
    using append_block(4) [OF assms(3) k(1,2)] ok(3) st1(4) by simp
  have sz: "ml_size st1 = ml_size st" using p(2) by (simp add: ml_size_def)
  have d: "delivers st st1 []"
  proof (rule delivers_same)
    show "counters_ok st" using assms(1) by (simp add: mavlink_ok_def)
  qed (use assms(5) in \<open>simp_all add: ml_load_def Let_def prod_eq_iff [symmetric], auto\<close>)
  have w: "mavlink_class (ml_crc_extra st) (take (ml_len st + j) (ml_packet st1)) = Wait"
    if "j \<le> k" "ml_len st + j < ml_size st" for j
  proof (rule mavlink_class_Wait)
    show "take (ml_len st + j) (ml_packet st1) ! 0 = STX" using ok(1) p(1) by simp
    have "length (take (ml_len st + j) (ml_packet st1)) = ml_len st + j"
      using that(1) k(2) ok(3) l by simp
    then show "2 \<le> length (take (ml_len st + j) (ml_packet st1)) \<longrightarrow>
        length (take (ml_len st + j) (ml_packet st1)) < 8 + unat (take (ml_len st + j) (ml_packet st1) ! 1)"
      using that(2) ok(1) p(2) by (simp add: ml_size_def)
  qed
  show thesis
    by (rule that [OF k st1(1,4,2) le sz p(1) l st1(3,5) delivers_ok [OF d] d w])
qed

lemma ml_load_moves:
  assumes "mavlink_ok st" "ml_state st = MlLoad" "src_ok (ml_packet st) (ml_len st) s" "src_len s \<noteq> 0"
    and "ml_load s st = (s1, st1)" "ml_len st1 \<noteq> ml_size st"
  shows "ml_moves s st s1 st1"
  using assms(1-5)
proof (rule ml_load_block)
  fix k
  assume k: "k \<le> src_len s" "ml_len st + k \<le> length (ml_packet st)" "0 < k"
    "s1 = advance k s" "ml_packet st1 = poke (ml_packet st) (ml_len st) (take k (view (ml_packet st) s))"
    and st1: "ml_len st1 = ml_len st + k" "ml_len st1 \<le> ml_size st" "ml_size st1 = ml_size st"
    "ml_packet st1 ! 0 = STX" "length (ml_packet st1) = 263" "ml_state st1 = MlLoad"
    "ml_crc_extra st1 = ml_crc_extra st" "counters_ok st1" "delivers st st1 []"
    and w: "\<And>j. j \<le> k \<Longrightarrow> ml_len st + j < ml_size st \<Longrightarrow>
       mavlink_class (ml_crc_extra st) (take (ml_len st + j) (ml_packet st1)) = Wait"
  have "mavlink_ok st1" using assms(1,2,6) st1 by (auto simp: mavlink_ok_def)
  then show ?thesis
    unfolding k(4) by (intro moves_wait [OF assms(3) k(1-3,5)]) (use assms st1 w in \<open>auto simp: ml_pending_def\<close>)
qed

lemma ml_load_packet:
  assumes "mavlink_ok st" "ml_state st = MlLoad" "src_ok (ml_packet st) (ml_len st) s" "src_len s \<noteq> 0"
    and "ml_load s st = (s1, st1)" "ml_len st1 = ml_size st" "st2 = st1\<lparr>ml_state := MlBefore\<rparr>"
  shows "Mavlink_v1_valid_checksum st2 \<Longrightarrow>
      ml_moves s st s1 (FilterBase_write_next (take (ml_len st2) (ml_packet st2)) st2)"
    and "\<not> Mavlink_v1_valid_checksum st2 \<Longrightarrow>
      ml_gives_up s st s1 (FilterBase_write_rest (take 1 (ml_packet st2)) (fb_add ''badcrc'' 1 st2)) 1 (ml_len st2)"
proof -
  from assms(1-5) obtain k where k: "k \<le> src_len s" "ml_len st + k \<le> length (ml_packet st)" "0 < k"
    "s1 = advance k s" "ml_packet st1 = poke (ml_packet st) (ml_len st) (take k (view (ml_packet st) s))"
    and st1: "ml_len st1 = ml_len st + k" "ml_len st1 \<le> ml_size st" "ml_size st1 = ml_size st"
    "ml_packet st1 ! 0 = STX" "length (ml_packet st1) = 263" "ml_state st1 = MlLoad"
    "ml_crc_extra st1 = ml_crc_extra st" "counters_ok st1" "delivers st st1 []"
    and w: "\<And>j. j \<le> k \<Longrightarrow> ml_len st + j < ml_size st \<Longrightarrow>
       mavlink_class (ml_crc_extra st) (take (ml_len st + j) (ml_packet st1)) = Wait"
    by (rule ml_load_block) blast
  have st2: "ml_packet st2 = ml_packet st1" "ml_len st2 = ml_len st1" "ml_crc_extra st2 = ml_crc_extra st1"
    "ml_state st2 = MlBefore" "delivers st st2 []" "ml_size st2 = ml_size st"
    using st1 by (auto simp: assms(7) ml_size_def intro: delivers_cong)
  have ok2: "mavlink_ok st2"
    using assms(1) st1 st2 delivers_ok [OF st2(5)] by (auto simp: mavlink_ok_def)
  note c = delivers_ok [OF st2(5)]
  have cl: "mavlink_class (ml_crc_extra st) (take (ml_len st + k) (ml_packet st1)) =
      (if Mavlink_v1_valid_checksum st2 then Accept else Reject 1)"
    using mavlink_class_full [of st2] st1 st2 assms(6) ml_size_le [of st] by simp
  {
    assume v: "Mavlink_v1_valid_checksum st2"
    let ?st3 = "FilterBase_write_next (take (ml_len st2) (ml_packet st2)) st2"
    note d = delivers_trans [OF st2(5) delivers_write_next [OF c, of "take (ml_len st2) (ml_packet st2)"]]
    have st3: "ml_packet ?st3 = ml_packet st1" "ml_state ?st3 = MlBefore" "ml_crc_extra ?st3 = ml_crc_extra st"
      using st1 st2 by simp_all
    have ok3: "mavlink_ok ?st3"
      using assms(1) st1(5) st3 delivers_ok [OF d] by (simp add: mavlink_ok_def)
    show "ml_moves s st s1 ?st3"
      unfolding k(4)
      by (rule moves_packet [where packet = ml_packet and pending = ml_pending and w = "ml_len st"])
        (use k(1-3,5) assms(2,3,6) st1(1) st2(1,2) st3 ok3 w v cl d in \<open>simp_all add: ml_pending_def\<close>)
  }
  {
    assume v: "\<not> Mavlink_v1_valid_checksum st2"
    let ?st3 = "FilterBase_write_rest (take 1 (ml_packet st2)) (fb_add ''badcrc'' 1 st2)"
    note d = delivers_trans [OF st2(5) delivers_trans [OF delivers_badcrc [OF c, of 1]
        delivers_write_rest [OF delivers_ok [OF delivers_badcrc [OF c, of 1]], of "take 1 (ml_packet st2)"]]]
    have st3: "ml_packet ?st3 = ml_packet st1" "ml_state ?st3 = MlBefore" "ml_crc_extra ?st3 = ml_crc_extra st"
      using st1 st2 by simp_all
    have ok3: "mavlink_ok ?st3"
      using assms(1) st1(5) st3 delivers_ok [OF d] by (simp add: mavlink_ok_def)
    have "ml_gives_up s st (advance k s) ?st3 1 (ml_len st + k)"
      by (rule gives_up_block [where packet = ml_packet and pending = ml_pending and w = "ml_len st"])
        (use k(1-3,5) assms(2,3,6) st1(1) st2(1,2) st3 ok3 w v cl d in \<open>simp_all add: ml_pending_def\<close>)
    then show "ml_gives_up s st s1 ?st3 1 (ml_len st2)" using k(4) st1(1) st2(2) by simp
  }
qed

interpretation ml: recogniser Mavlink_v1_loop Mavlink_v1_write mavlink_ok ml_pending ml_packet
  "\<lambda>st. mavlink_class (ml_crc_extra st)"
proof
  fix s st
  assume ok: "mavlink_ok st" and src: "src_ok (ml_packet st) (length (ml_pending st)) s" "src_len s \<noteq> 0"
  note unf = Mavlink_v1_loop.simps [of s st]
  have len: "length (ml_packet st) = 263" using ok by (simp add: mavlink_ok_def)
  show "(\<exists>s1 st1. Mavlink_v1_loop s st = Mavlink_v1_loop s1 st1 \<and> ml_moves s st s1 st1) \<or>
    (\<exists>s1 st1 k n. Mavlink_v1_loop s st =
        Option.bind (Mavlink_v1_loop (Own k (n - k)) st1) (Mavlink_v1_loop s1) \<and>
      ml_gives_up s st s1 st1 k n)"
  proof (cases "ml_state st")
    case MlBefore
    obtain s1 st1 where b: "ml_before s st = (s1, st1)" by fastforce
    from ml_before_moves [OF ok MlBefore _ src(2) b] src(1) MlBefore have "ml_moves s st s1 st1"
      by (simp add: ml_pending_def)
    moreover have "Mavlink_v1_loop s st = Mavlink_v1_loop s1 st1" using unf MlBefore b src(2) by simp
    ultimately show ?thesis by blast
  next
    case MlLen
    obtain s1 st1 where b: "ml_length s st = (s1, st1)" by fastforce
    from ml_length_moves [OF ok MlLen _ src(2) b] src(1) MlLen len have "ml_moves s st s1 st1"
      by (simp add: ml_pending_def)
    moreover have "Mavlink_v1_loop s st = Mavlink_v1_loop s1 st1" using unf MlLen b src(2) by simp
    ultimately show ?thesis by blast
  next
    case MlLoad
    obtain s1 st1 where b: "ml_load s st = (s1, st1)" by fastforce
    have s: "src_ok (ml_packet st) (ml_len st) s"
      using ok src(1) MlLoad ml_size_le [of st] by (simp add: ml_pending_def mavlink_ok_def)
    note pre = ok MlLoad s src(2) b
    show ?thesis
    proof (cases "ml_len st1 = ml_size st")
      case False
      moreover have "Mavlink_v1_loop s st = Mavlink_v1_loop s1 st1"
        using unf MlLoad b src(2) False by simp
      ultimately show ?thesis using ml_load_moves [OF pre] by blast
    next
      case True
      define st2 where "st2 = st1\<lparr>ml_state := MlBefore\<rparr>"
      have u: "Mavlink_v1_loop s st =
          (if Mavlink_v1_valid_checksum st2
           then Mavlink_v1_loop s1 (FilterBase_write_next (take (ml_len st2) (ml_packet st2)) st2)
           else Option.bind (Mavlink_v1_loop (Own 1 (ml_len st2 - 1))
               (FilterBase_write_rest (take 1 (ml_packet st2)) (fb_add ''badcrc'' 1 st2)))
             (Mavlink_v1_loop s1))"
        using MlLoad b src(2) True by (subst unf) (simp add: st2_def)
      show ?thesis
        using ml_load_packet [OF pre True st2_def] u
        by (cases "Mavlink_v1_valid_checksum st2") (simp_all only: if_True if_False, blast+)
    qed
  qed
qed (auto simp: Mavlink_v1_write_def mavlink_ok_def Mavlink_v1_loop.simps)

lemma mavlink_pending_waits:
  assumes "mavlink_ok st"
  shows "ml_pending st = [] \<or> mavlink_class (ml_crc_extra st) (ml_pending st) = Wait"
proof (cases "ml_state st")
  case MlLoad
  then show ?thesis
    using assms ml_size_le [of st]
    by (intro disjI2 mavlink_class_Wait) (auto simp: ml_pending_def mavlink_ok_def ml_size_def)
qed (use assms in \<open>auto simp: ml_pending_def mavlink_ok_def intro!: mavlink_class_Wait\<close>)

section \<open>Messages as they are sent\<close>

text \<open>The frame of a message with the given header fields and payload.\<close>

definition mavlink_encode ::
    "bytes option \<Rightarrow> byte \<Rightarrow> byte \<Rightarrow> byte \<Rightarrow> byte \<Rightarrow> bytes \<Rightarrow> bytes" where
  "mavlink_encode extra sq sysid compid msgid payload =
     (let body = [of_nat (length payload), sq, sysid, compid, msgid] @ payload;
          crc = crc_calculate body;
          crc = (case extra of None \<Rightarrow> crc | Some e \<Rightarrow> crc_accumulate (e ! unat msgid) crc)
      in STX # body @ [ucast crc, ucast (drop_bit 8 crc)])"

lemma mavlink_encode_complete:
  assumes "length payload \<le> 255"
  shows "complete (mavlink_class extra) (mavlink_encode extra sq sysid compid msgid payload)"
proof -
  let ?f = "mavlink_encode extra sq sysid compid msgid payload"
  have n: "unat (of_nat (length payload) :: byte) = length payload"
    using assms by (simp add: unsigned_of_nat take_bit_eq_mod)
  have f: "?f ! 0 = STX" "unat (?f ! 1) = length payload" "length ?f = 8 + length payload"
    "?f ! 5 = msgid"
    using n by (simp_all add: mavlink_encode_def Let_def)
  have "mavlink_class extra (take k ?f) = Wait" if "0 < k" "k < length ?f" for k
    using that f by (intro mavlink_class_Wait) auto
  moreover have "mavlink_class extra ?f = Accept"
  proof -
    have tk: "take (length ?f - 3) (drop 1 ?f) = [of_nat (length payload), sq, sysid, compid, msgid] @ payload"
      by (simp add: mavlink_encode_def Let_def)
    have crc: "mavlink_frame_crc extra ?f =
        (case extra of None \<Rightarrow> crc_calculate ([of_nat (length payload), sq, sysid, compid, msgid] @ payload)
         | Some e \<Rightarrow> crc_accumulate (e ! unat msgid)
             (crc_calculate ([of_nat (length payload), sq, sysid, compid, msgid] @ payload)))"
      by (simp only: mavlink_frame_crc_def Let_def f(4) tk)
    have "?f ! (length ?f - 2) = ucast (mavlink_frame_crc extra ?f)"
      "?f ! (length ?f - 1) = ucast (drop_bit 8 (mavlink_frame_crc extra ?f))"
      unfolding crc by (simp_all add: mavlink_encode_def Let_def nth_append split: option.split)
    then show ?thesis using f le16_unat [of "mavlink_frame_crc extra ?f"] by (simp add: mavlink_class_def)
  qed
  ultimately show ?thesis using f by (auto simp: complete_def)
qed

lemma mavlink_ok_new: "length junk = 263 \<Longrightarrow> mavlink_ok (Mavlink_v1_new junk)"
  by (simp add: mavlink_ok_def Mavlink_v1_new_def counters_ok_def int32_def crc_extra_def)

lemma mavlink_ok_connect:
  "mavlink_ok st \<Longrightarrow> mavlink_ok (Pipe_chain st)" "mavlink_ok st \<Longrightarrow> mavlink_ok (Filter_rest st)"
  by (simp_all add: mavlink_ok_def Pipe_chain_def Filter_rest_def counters_ok_def ml_size_def)

lemma mavlink_accepted:
  assumes "mavlink_class extra p = Accept" "butlast p = [] \<or> mavlink_class extra (butlast p) = Wait"
  shows "p ! 0 = STX \<and> length p = 8 + unat (p ! 1) \<and>
    unat (p ! (length p - 2)) + 256 * unat (p ! (length p - 1)) = unat (mavlink_frame_crc extra p)"
proof -
  from assms(1) have p: "p ! 0 = STX" "2 \<le> length p" "8 + unat (p ! 1) \<le> length p"
    "unat (p ! (length p - 2)) + 256 * unat (p ! (length p - 1)) = unat (mavlink_frame_crc extra p)"
    by (auto simp: mavlink_class_def split: if_splits)
  then have "butlast p \<noteq> []" "butlast p ! 1 = p ! 1"
    by (auto simp: nth_butlast simp flip: length_0_conv)
  with assms(2) p(3) have "length (butlast p) < 8 + unat (p ! 1)"
    by (auto simp: mavlink_class_def split: if_splits)
  with p show ?thesis by simp
qed

text \<open>A filter with both outputs connected, as the examples use it.\<close>

definition mavlink_demo :: mavlink_v1 where
  "mavlink_demo = Filter_rest (Pipe_chain (Mavlink_v1_new (replicate 263 0)))"

definition mavlink_demo_frame :: bytes where
  "mavlink_demo_frame = mavlink_encode (Some crc_extra) 0 1 1 0 [5, 6, 7]"

lemma mavlink_demo_simps [simp]:
  "mavlink_ok mavlink_demo" "ml_pending mavlink_demo = []" "ml_crc_extra mavlink_demo = Some crc_extra"
  "emitted mavlink_demo = []" "fb_next mavlink_demo" "fb_rest mavlink_demo"
  by (auto simp: mavlink_demo_def intro!: mavlink_ok_connect mavlink_ok_new)
    (simp_all add: Filter_rest_def Pipe_chain_def Mavlink_v1_new_def ml_pending_def emitted_def)

lemma mavlink_demo_feeds:
  "\<exists>t. feeds Mavlink_v1_write [[1], 2 # mavlink_demo_frame] mavlink_demo = Some t \<and>
     emitted t = [Stray 1, Stray 2, Packet mavlink_demo_frame]"
proof -
  have "complete (mavlink_class (Some crc_extra)) mavlink_demo_frame"
    unfolding mavlink_demo_frame_def by (rule mavlink_encode_complete) simp
  then have "\<exists>t. feeds Mavlink_v1_write [[1], 2 # mavlink_demo_frame] mavlink_demo = Some t \<and>
     mavlink_ok t \<and> ml_pending t = [] \<and>
     emitted t = emitted mavlink_demo @ filter (wants mavlink_demo) (segment_items [([1, 2], mavlink_demo_frame)])"
    by (intro ml.feeds_segments) (auto simp: segment_bytes_def mavlink_class_def STX_def)
  then show ?thesis by (auto simp: segment_items_def)
qed

section \<open>Properties\<close>

text \<open>C5: However the stream is cut into buffers, feeding it to the MAVLink filter returns,
  keeps the filter's invariant, and leaves exactly what the byte-wise specification says:
  the bytes held back, the packets and stray bytes written to the connected outputs in
  their order, and the three statistics counters (as C ints).\<close>

theorem mavlink_refines:
  assumes "mavlink_ok st"
  shows "\<exists>t. feeds Mavlink_v1_write bss st = Some t \<and> mavlink_ok t \<and>
    (ml_pending t, emitted t) =
      apsnd (\<lambda>is. emitted st @ filter (wants st) is)
        (scan (mavlink_class (ml_crc_extra st)) (ml_pending st) (concat bss)) \<and>
    (\<forall>n \<in> {''pack'', ''next'', ''rest''}. counter n (fb_cnt t) =
       wrap32 (counter n (fb_cnt st) +
         tally n (snd (scan (mavlink_class (ml_crc_extra st)) (ml_pending st) (concat bss)))))"
  using ml.feeds_scan [OF assms, of bss] by (force simp: apsnd_def map_prod_def split: prod.splits)

theorem mavlink_refines_witness:
  "\<exists>t. feeds Mavlink_v1_write [[1, 0xFE], [0, 7], [0xFE]] (Mavlink_v1_new (replicate 263 0)) = Some t \<and>
     mavlink_ok t"
  using mavlink_refines [OF mavlink_ok_new [of "replicate 263 0"], of "[[1, 0xFE], [0, 7], [0xFE]]"]
  by auto

text \<open>Every packet the MAVLink filter hands on starts with the start byte, is as long as
  its length byte says, and carries the right checksum, including the extra byte of its
  message type.\<close>

theorem mavlink_only_valid:
  assumes "mavlink_ok st" "feeds Mavlink_v1_write bss st = Some t"
    and "Packet p \<in> set (drop (length (emitted st)) (emitted t))"
  shows "p ! 0 = STX \<and> length p = 8 + unat (p ! 1) \<and>
    unat (p ! (length p - 2)) + 256 * unat (p ! (length p - 1)) =
      unat (mavlink_frame_crc (ml_crc_extra st) p)"
proof -
  have "ml_pending st = [] \<or> mavlink_class (ml_crc_extra st) (ml_pending st) = Wait"
    using mavlink_pending_waits [OF assms(1)] .
  from ml.feeds_sound [OF assms(1) this assms(2,3)] show ?thesis
    using mavlink_accepted by blast
qed

theorem mavlink_only_valid_witness:
  "mavlink_demo_frame ! 0 = STX \<and> length mavlink_demo_frame = 8 + unat (mavlink_demo_frame ! 1)"
proof -
  obtain t where "feeds Mavlink_v1_write [[1], 2 # mavlink_demo_frame] mavlink_demo = Some t"
    and "emitted t = [Stray 1, Stray 2, Packet mavlink_demo_frame]"
    using mavlink_demo_feeds by blast
  with mavlink_only_valid [of mavlink_demo "[[1], 2 # mavlink_demo_frame]" t mavlink_demo_frame]
  show ?thesis by simp
qed

text \<open>C6: Messages that are encoded as MAVLink 1 frames, with any other bytes but the start
  byte between them, come out of the filter as exactly these frames, however the stream is
  cut into buffers; the other bytes go to the rest output.\<close>

theorem mavlink_roundtrip:
  assumes "mavlink_ok st" "ml_pending st = []"
    and "\<forall>(junk, sq, sysid, compid, msgid, payload) \<in> set ms. STX \<notin> set junk \<and> length payload \<le> 255"
    and "segs = map (\<lambda>(junk, sq, sysid, compid, msgid, payload).
           (junk, mavlink_encode (ml_crc_extra st) sq sysid compid msgid payload)) ms"
    and "concat bss = segment_bytes segs"
  shows "\<exists>t. feeds Mavlink_v1_write bss st = Some t \<and> ml_pending t = [] \<and>
    emitted t = emitted st @ filter (wants st) (segment_items segs)"
proof -
  have "complete (mavlink_class (ml_crc_extra st)) f \<and>
      (\<forall>b \<in> set junk. mavlink_class (ml_crc_extra st) [b] = Reject 1)"
    if "(junk, f) \<in> set segs" for junk f
  proof -
    from that assms(3,4) have "STX \<notin> set junk" "complete (mavlink_class (ml_crc_extra st)) f"
      by (auto simp: mavlink_encode_complete)
    then show ?thesis by (blast intro: strays_other mavlink_class_byte)
  qed
  from ml.feeds_segments [OF assms(1,2,5) this] show ?thesis by blast
qed

theorem mavlink_roundtrip_witness:
  "\<exists>t. feeds Mavlink_v1_write
       [[1, 2] @ mavlink_encode (Some crc_extra) 0 1 1 0 [5, 6, 7], mavlink_encode (Some crc_extra) 1 1 1 30 []]
       mavlink_demo = Some t \<and>
     emitted t = [Stray 1, Stray 2, Packet (mavlink_encode (Some crc_extra) 0 1 1 0 [5, 6, 7]),
       Packet (mavlink_encode (Some crc_extra) 1 1 1 30 [])]"
  using mavlink_roundtrip [of mavlink_demo "[([1, 2], 0, 1, 1, 0, [5, 6, 7]), ([], 1, 1, 1, 30, [])]",
      OF _ _ _ refl, of "[[1, 2] @ mavlink_encode (Some crc_extra) 0 1 1 0 [5, 6, 7],
        mavlink_encode (Some crc_extra) 1 1 1 30 []]"]
  by (auto simp: STX_def segment_bytes_def segment_items_def)

text \<open>With both outputs connected, the MAVLink filter neither loses nor invents nor
  reorders a byte: the packets and stray bytes it wrote, followed by the bytes it still
  holds back, are the bytes it had before followed by the stream.\<close>

theorem mavlink_conserves:
  assumes "mavlink_ok st" "fb_next st" "fb_rest st"
  shows "\<exists>t out. feeds Mavlink_v1_write bss st = Some t \<and> emitted t = emitted st @ out \<and>
    concat (map item_bytes out) @ ml_pending t = ml_pending st @ concat bss"
proof (rule ml.feeds_conserve [OF assms(1)])
  show "wants st i" for i using assms(2,3) by (cases i) simp_all
qed

theorem mavlink_conserves_witness:
  "\<exists>t out. feeds Mavlink_v1_write [[1, 0xFE], [3, 7]] mavlink_demo = Some t \<and> emitted t = out \<and>
     concat (map item_bytes out) @ ml_pending t = [1, 0xFE, 3, 7]"
  using mavlink_conserves [of mavlink_demo "[[1, 0xFE], [3, 7]]"] by simp

end
