(* ===== verification/Ubx.thy ===== *)
theory Ubx
  imports Recogniser Checksums
begin

text \<open>
  The UBX recogniser (\<open>src/filters/ubx.h\<close>, class \<open>UBX\<close>): two preamble bytes, a header
  with the payload length, the payload, and two Fletcher sums over everything between the
  preamble and the sums. A corrupt packet gives up the two preamble bytes.
\<close>

section \<open>State\<close>

datatype ubx_state = UbBefore | UbPreamble | UbHeader | UbLoad

record ubx = filter_base +
  ub_packet :: bytes               \<comment> \<open>\<open>std::array<uint8_t,65543>\<close>\<close>
  ub_state :: ubx_state
  ub_payload :: nat                \<comment> \<open>\<open>payload_len\<close>\<close>
  ub_len :: nat                    \<comment> \<open>\<open>packet_len\<close>\<close>

definition PREAMBLE0 :: byte where
  "PREAMBLE0 = 0xb5"

definition PREAMBLE1 :: byte where
  "PREAMBLE1 = 0x62"

definition UBX_new :: "bytes \<Rightarrow> ubx" where
  "UBX_new junk =
     \<lparr>fb_next = False, fb_rest = False, fb_outs = [], fb_cnt = StatCounters_new ''UBX'',
      ub_packet = junk, ub_state = UbBefore, ub_payload = 0, ub_len = 0\<rparr>"

section \<open>write\<close>

definition UBX_valid_checksum :: "ubx \<Rightarrow> bool" where
  "UBX_valid_checksum st =
     (let p = ub_packet st;
          crc = fletcher (take (ub_payload st + 4) (drop 2 p))
      in fst crc = p ! (6 + ub_payload st) \<and> snd crc = p ! (6 + ub_payload st + 1))"

definition ub_before :: "src \<Rightarrow> ubx \<Rightarrow> src \<times> ubx" where
  "ub_before s st =
     (let ptr = view (ub_packet st) s in
      case memchr ptr PREAMBLE0 of
        None \<Rightarrow> (advance (src_len s) s, FilterBase_write_rest ptr st)
      | Some l \<Rightarrow>
          (let st1 = (if l \<noteq> 0 then FilterBase_write_rest (take l ptr) st else st)
           in (advance (l + 1) s,
               st1\<lparr>ub_state := UbPreamble, ub_packet := poke (ub_packet st1) 0 [PREAMBLE0]\<rparr>)))"

definition ub_preamble :: "src \<Rightarrow> ubx \<Rightarrow> src \<times> ubx" where
  "ub_preamble s st =
     (if hd (view (ub_packet st) s) = PREAMBLE1
      then (advance 1 s,
            st\<lparr>ub_packet := poke (ub_packet st) 1 [PREAMBLE1], ub_state := UbHeader, ub_len := 2\<rparr>)
      else (s, FilterBase_write_rest (take 1 (ub_packet st)) (st\<lparr>ub_state := UbBefore\<rparr>)))"

text \<open>The block copy of the \<open>HEADER\<close> and \<open>LOAD\<close> states, up to \<open>need\<close> bytes in the array.\<close>

definition ub_copy :: "nat \<Rightarrow> src \<Rightarrow> ubx \<Rightarrow> src \<times> ubx" where
  "ub_copy need s st =
     (let copy_len = min (need - ub_len st) (src_len s)
      in (advance copy_len s,
          st\<lparr>ub_packet := poke (ub_packet st) (ub_len st) (take copy_len (view (ub_packet st) s)),
             ub_len := ub_len st + copy_len\<rparr>))"

definition ub_header :: "src \<Rightarrow> ubx \<Rightarrow> src \<times> ubx" where
  "ub_header s st =
     (case ub_copy 6 s st of (s1, st1) \<Rightarrow>
        (s1, if ub_len st1 = 6
             then st1\<lparr>ub_state := UbLoad,
                      ub_payload := unat (ub_packet st1 ! 4) + 256 * unat (ub_packet st1 ! 5)\<rparr>
             else st1))"

partial_function (option) UBX_loop :: "src \<Rightarrow> ubx \<Rightarrow> ubx option" where
  "UBX_loop s st =
     (if src_len s = 0 then Some st
      else case ub_state st of
        UbBefore \<Rightarrow> (case ub_before s st of (s1, st1) \<Rightarrow> UBX_loop s1 st1)
      | UbPreamble \<Rightarrow> (case ub_preamble s st of (s1, st1) \<Rightarrow> UBX_loop s1 st1)
      | UbHeader \<Rightarrow> (case ub_header s st of (s1, st1) \<Rightarrow> UBX_loop s1 st1)
      | UbLoad \<Rightarrow>
          (case ub_copy (8 + ub_payload st) s st of (s1, st1) \<Rightarrow>
             if ub_len st1 \<noteq> 8 + ub_payload st then UBX_loop s1 st1
             else (let st2 = st1\<lparr>ub_state := UbBefore\<rparr> in
               if UBX_valid_checksum st2
               then UBX_loop s1 (FilterBase_write_next (take (ub_len st2) (ub_packet st2)) st2)
               else Option.bind
                 (UBX_loop (Own 2 (ub_len st2 - 2))
                   (FilterBase_write_rest (take 2 (ub_packet st2)) (fb_add ''badcrc'' 1 st2)))
                 (UBX_loop s1))))"

definition UBX_write :: "bytes \<Rightarrow> ubx \<Rightarrow> (int \<times> ubx) option" where
  "UBX_write buf st = map_option (Pair (int (length buf))) (UBX_loop (Ext buf) st)"

section \<open>Specification\<close>

definition ubx_payload_len :: "bytes \<Rightarrow> nat" where
  "ubx_payload_len f = unat (f ! 4) + 256 * unat (f ! 5)"

definition ubx_frame_ok :: "bytes \<Rightarrow> bool" where
  "ubx_frame_ok f \<longleftrightarrow>
     fletcher (take (length f - 4) (drop 2 f)) = (f ! (length f - 2), f ! (length f - 1))"

definition ubx_class :: "bytes \<Rightarrow> verdict" where
  "ubx_class f =
     (if f ! 0 \<noteq> PREAMBLE0 then Reject 1
      else if length f < 2 then Wait
      else if f ! 1 \<noteq> PREAMBLE1 then Reject 1
      else if length f < 6 then Wait
      else if length f < 8 + ubx_payload_len f then Wait
      else if ubx_frame_ok f then Accept else Reject 2)"

definition ub_pending :: "ubx \<Rightarrow> bytes" where
  "ub_pending st =
     (case ub_state st of UbBefore \<Rightarrow> [] | UbPreamble \<Rightarrow> take 1 (ub_packet st)
      | UbHeader \<Rightarrow> take (ub_len st) (ub_packet st) | UbLoad \<Rightarrow> take (ub_len st) (ub_packet st))"

definition ubx_ok :: "ubx \<Rightarrow> bool" where
  "ubx_ok st \<longleftrightarrow>
     length (ub_packet st) = 65543 \<and> counters_ok st \<and>
     (ub_state st \<noteq> UbBefore \<longrightarrow> ub_packet st ! 0 = PREAMBLE0) \<and>
     (ub_state st = UbHeader \<longrightarrow>
        ub_packet st ! 1 = PREAMBLE1 \<and> 2 \<le> ub_len st \<and> ub_len st < 6) \<and>
     (ub_state st = UbLoad \<longrightarrow>
        ub_packet st ! 1 = PREAMBLE1 \<and> 6 \<le> ub_len st \<and> ub_len st < 8 + ub_payload st \<and>
        ub_payload st = ubx_payload_len (ub_packet st))"

section \<open>The loop implements the specification\<close>

lemma ubx_class_other: "f ! 0 \<noteq> PREAMBLE0 \<Longrightarrow> ubx_class f = Reject 1"
  by (simp add: ubx_class_def)

lemma ubx_class_Wait:
  "f ! 0 = PREAMBLE0 \<Longrightarrow> 2 \<le> length f \<longrightarrow> f ! 1 = PREAMBLE1 \<Longrightarrow>
   6 \<le> length f \<longrightarrow> length f < 8 + ubx_payload_len f \<Longrightarrow> ubx_class f = Wait"
  by (auto simp: ubx_class_def)

lemma ubx_class_full:
  assumes "ub_packet st ! 0 = PREAMBLE0" "ub_packet st ! 1 = PREAMBLE1"
    and "ub_payload st = ubx_payload_len (ub_packet st)" "ub_len st = 8 + ub_payload st"
    and "ub_len st \<le> length (ub_packet st)"
  shows "ubx_class (take (ub_len st) (ub_packet st)) =
    (if UBX_valid_checksum st then Accept else Reject 2)"
proof -
  have d: "take (ub_payload st + 4) (drop 2 (take (8 + ub_payload st) (ub_packet st))) =
     take (ub_payload st + 4) (drop 2 (ub_packet st))"
    by (simp add: drop_take)
  show ?thesis
    using assms d
    by (auto simp: ubx_class_def ubx_frame_ok_def UBX_valid_checksum_def ubx_payload_len_def Let_def
        prod_eq_iff add.commute)
qed

lemma ubx_payload_len_le: "ubx_payload_len f \<le> 65535"
  using unat_byte_less [of "f ! 4"] unat_byte_less [of "f ! 5"] by (simp add: ubx_payload_len_def)

lemma ub_keeps [simp]:
  "ub_packet (FilterBase_write_rest bs st) = ub_packet st"
  "ub_packet (FilterBase_write_next bs st) = ub_packet st"
  "ub_packet (fb_add n v st) = ub_packet st"
  "ub_state (FilterBase_write_rest bs st) = ub_state st"
  "ub_state (FilterBase_write_next bs st) = ub_state st"
  "ub_state (fb_add n v st) = ub_state st"
  by (simp_all add: FilterBase_write_rest_def FilterBase_write_next_def Filter_write_rest_def
      Pipe_write_next_def fb_add_def)

abbreviation ub_moves where
  "ub_moves \<equiv> moves ubx_ok ub_pending ub_packet (\<lambda>st. ubx_class)"

abbreviation ub_gives_up where
  "ub_gives_up \<equiv> gives_up ubx_ok ub_pending ub_packet (\<lambda>st. ubx_class)"

lemma ub_before_moves:
  assumes "ubx_ok st" "ub_state st = UbBefore" "src_ok (ub_packet st) 0 s" "src_len s \<noteq> 0"
    and "ub_before s st = (s1, st1)"
  shows "ub_moves s st s1 st1"
proof (cases "memchr (view (ub_packet st) s) PREAMBLE0")
  case None
  then have "ubx_class [b] = Reject 1" if "b \<in> set (view (ub_packet st) s)" for b
    using that by (intro ubx_class_other) (auto simp: memchr_None_iff)
  then have "ub_moves s st (advance (src_len s) s) (FilterBase_write_rest (view (ub_packet st) s) st)"
    using assms delivers_write_rest [of st "view (ub_packet st) s"]
    by (intro moves_drained) (auto simp: ub_pending_def ubx_ok_def delivers_ok)
  with None assms(5) show ?thesis by (simp add: ub_before_def)
next
  case (Some l)
  have "ub_packet st \<noteq> []" using assms(1) by (auto simp: ubx_ok_def)
  note f = seek_found [OF assms(3) Some this]
  have c: "counters_ok st" using assms(1) by (simp add: ubx_ok_def)
  have d: "delivers st (if l \<noteq> 0 then FilterBase_write_rest (take l (view (ub_packet st) s)) st else st)
      (map Stray (take l (view (ub_packet st) s)))"
    using delivers_write_rest [OF c] by (auto intro: delivers_same c)
  have st1: "s1 = advance (l + 1) s" "ub_packet st1 = poke (ub_packet st) 0 [PREAMBLE0]"
    "ub_state st1 = UbPreamble" "delivers st st1 (map Stray (take l (view (ub_packet st) s)))"
    using assms(5) Some d by (auto simp: ub_before_def Let_def intro: delivers_cong)
  have "ubx_ok st1"
    using assms(1) st1 f(4,5) delivers_ok [OF st1(4)] by (auto simp: ubx_ok_def)
  then show ?thesis
    unfolding st1(1) using assms st1 Some f
    by (intro moves_seek [where c = PREAMBLE0])
      (auto simp: ub_pending_def ubx_class_other poke_def intro: ubx_class_Wait)
qed

lemma ub_preamble_moves:
  assumes "ubx_ok st" "ub_state st = UbPreamble" "src_ok (ub_packet st) 1 s" "src_len s \<noteq> 0"
    and "ub_preamble s st = (s1, st1)"
  shows "ub_moves s st s1 st1"
proof (cases "hd (view (ub_packet st) s) = PREAMBLE1")
  case True
  have ok: "length (ub_packet st) = 65543" "ub_packet st ! 0 = PREAMBLE0" "counters_ok st"
    using assms(1,2) by (auto simp: ubx_ok_def)
  have one: "take 1 (view (ub_packet st) s) = [PREAMBLE1]"
    using True assms(3,4) length_view [of "ub_packet st" 1 s] by (cases "view (ub_packet st) s") auto
  have st1: "s1 = advance 1 s" "ub_state st1 = UbHeader" "ub_len st1 = 2"
    "ub_packet st1 = poke (ub_packet st) 1 (take 1 (view (ub_packet st) s))" "delivers st st1 []"
    using assms(5) True ok(3) by (auto simp: ub_preamble_def one [simplified] intro!: delivers_same)
  have l: "1 \<le> src_len s" "1 + 1 \<le> length (ub_packet st)" using ok(1) assms(4) by auto
  have p: "ub_packet st1 ! 0 = PREAMBLE0" "ub_packet st1 ! 1 = PREAMBLE1"
    using ok(1,2) unfolding st1(4) one by (auto simp: nth_poke_below poke_def nth_append)
  have ok1: "ubx_ok st1"
    using ok st1 p delivers_ok [OF st1(5)] append_block(4) [OF assms(3) l] by (auto simp: ubx_ok_def)
  have "length (ub_packet st1) = 65543" using ok1 by (simp add: ubx_ok_def)
  then have w: "ubx_class (take (1 + 1) (ub_packet st1)) = Wait"
    using p by (intro ubx_class_Wait) auto
  show ?thesis
    unfolding st1(1)
    by (rule moves_wait [OF assms(3) l _ st1(4)])
      (use assms st1 ok1 w in \<open>auto simp: ub_pending_def numeral_2_eq_2 le_Suc_eq\<close>)
next
  case False
  define st0 where "st0 = st\<lparr>ub_state := UbBefore\<rparr>"
  have ok: "length (ub_packet st) = 65543" "ub_packet st ! 0 = PREAMBLE0" "counters_ok st"
    using assms(1,2) by (auto simp: ubx_ok_def)
  then have one: "take 1 (ub_packet st) = [PREAMBLE0]" by (cases "ub_packet st") auto
  have st1: "s1 = s" "st1 = FilterBase_write_rest [PREAMBLE0] st0"
    using assms(5) False one by (auto simp: ub_preamble_def st0_def)
  have "delivers st st0 []" using ok(3) by (auto simp: st0_def intro: delivers_same)
  from delivers_trans [OF this delivers_write_rest [OF delivers_ok [OF this], of "[PREAMBLE0]"]]
  have d: "delivers st st1 [Stray PREAMBLE0]" by (simp add: st1)
  have ok1: "ubx_ok st1"
    using ok delivers_ok [OF d] by (simp add: ubx_ok_def st1 st0_def)
  have r: "ubx_class [PREAMBLE0, hd (view (ub_packet st) s)] = Reject 1"
    using False by (simp add: ubx_class_def)
  show ?thesis
    unfolding st1(1)
    by (rule moves_unread [where c = PREAMBLE0])
      (use assms one d ok1 r in \<open>auto simp: ub_pending_def st1 st0_def\<close>)
qed

text \<open>What the block copies establish.\<close>

lemma ub_copy_block:
  assumes "ubx_ok st" "ub_state st = UbHeader \<and> u = 6 \<or> ub_state st = UbLoad \<and> u = 8 + ub_payload st"
    and "src_ok (ub_packet st) (ub_len st) s" "src_len s \<noteq> 0" "ub_copy u s st = (s1, st1)"
  obtains k where "k \<le> src_len s" "ub_len st + k \<le> length (ub_packet st)" "0 < k"
    "s1 = advance k s" "ub_packet st1 = poke (ub_packet st) (ub_len st) (take k (view (ub_packet st) s))"
    "ub_len st1 = ub_len st + k" "ub_len st1 \<le> u"
    "ub_packet st1 ! 0 = PREAMBLE0" "ub_packet st1 ! 1 = PREAMBLE1" "length (ub_packet st1) = 65543"
    "ub_state st1 = ub_state st" "ub_payload st1 = ub_payload st" "counters_ok st1" "delivers st st1 []"
    "ub_state st = UbLoad \<Longrightarrow> ubx_payload_len (ub_packet st1) = ub_payload st"
    "\<And>j. j \<le> k \<Longrightarrow> ub_len st + j < u \<Longrightarrow> ubx_class (take (ub_len st + j) (ub_packet st1)) = Wait"
proof -
  define k where "k = min (u - ub_len st) (src_len s)"
  have ok: "2 \<le> ub_len st" "ub_len st < u" "length (ub_packet st) = 65543"
    "ub_packet st ! 0 = PREAMBLE0" "ub_packet st ! 1 = PREAMBLE1" "u \<le> 65543"
    using assms(1,2) ubx_payload_len_le [of "ub_packet st"] by (auto simp: ubx_ok_def)
  have k: "k \<le> src_len s" "ub_len st + k \<le> length (ub_packet st)" "0 < k"
    using ok assms(4) by (auto simp: k_def)
  have st1: "s1 = advance k s" "ub_packet st1 = poke (ub_packet st) (ub_len st) (take k (view (ub_packet st) s))"
    "ub_len st1 = ub_len st + k" "ub_state st1 = ub_state st" "ub_payload st1 = ub_payload st"
    using assms(5) by (auto simp: ub_copy_def k_def Let_def)
  have le: "ub_len st1 \<le> u" using ok st1 by (simp add: k_def)
  have p: "ub_packet st1 ! 0 = PREAMBLE0" "ub_packet st1 ! 1 = PREAMBLE1"
    using ok unfolding st1(2) by (auto simp: nth_poke_below)
  have l: "length (ub_packet st1) = 65543"
    using append_block(4) [OF assms(3) k(1,2)] ok(3) st1(2) by simp
  have d: "delivers st st1 []"
  proof (rule delivers_same)
    show "counters_ok st" using assms(1) by (simp add: ubx_ok_def)
  qed (use assms(5) in \<open>simp_all add: ub_copy_def Let_def prod_eq_iff [symmetric], auto\<close>)
  have pl: "ubx_payload_len (ub_packet st1) = ub_payload st" if "ub_state st = UbLoad"
    using that assms(1) ok unfolding st1(2) by (simp add: ubx_payload_len_def ubx_ok_def nth_poke_below)
  have w: "ubx_class (take (ub_len st + j) (ub_packet st1)) = Wait"
    if "j \<le> k" "ub_len st + j < u" for j
  proof (rule ubx_class_Wait)
    let ?t = "take (ub_len st + j) (ub_packet st1)"
    have len: "length ?t = ub_len st + j" using that(1) k(2) ok(3) l by simp
    show "?t ! 0 = PREAMBLE0" "2 \<le> length ?t \<longrightarrow> ?t ! 1 = PREAMBLE1" using ok(1) p by simp_all
    have "ubx_payload_len ?t = ubx_payload_len (ub_packet st1)" if "6 \<le> ub_len st + j"
      using that by (simp add: ubx_payload_len_def)
    then show "6 \<le> length ?t \<longrightarrow> length ?t < 8 + ubx_payload_len ?t"
      using that(2) pl assms(2) unfolding len by auto
  qed
  show thesis
    by (rule that [OF k st1(1-3) le p l st1(4,5) delivers_ok [OF d] d pl w])
qed

lemma ub_header_moves:
  assumes "ubx_ok st" "ub_state st = UbHeader" "src_ok (ub_packet st) (ub_len st) s" "src_len s \<noteq> 0"
    and "ub_header s st = (s1, st1)"
  shows "ub_moves s st s1 st1"
proof -
  obtain st0 where c: "ub_copy 6 s st = (s1, st0)"
    and st1: "st1 = (if ub_len st0 = 6
        then st0\<lparr>ub_state := UbLoad,
                 ub_payload := unat (ub_packet st0 ! 4) + 256 * unat (ub_packet st0 ! 5)\<rparr> else st0)"
    using assms(5) by (auto simp: ub_header_def split: prod.splits)
  have u: "ub_state st = UbHeader \<and> 6 = (6 :: nat) \<or> ub_state st = UbLoad \<and> 6 = 8 + ub_payload st"
    using assms(2) by simp
  obtain k where k: "k \<le> src_len s" "ub_len st + k \<le> length (ub_packet st)" "0 < k"
    "s1 = advance k s" "ub_packet st0 = poke (ub_packet st) (ub_len st) (take k (view (ub_packet st) s))"
    and st0: "ub_len st0 = ub_len st + k" "ub_len st0 \<le> 6"
    "ub_packet st0 ! 0 = PREAMBLE0" "ub_packet st0 ! 1 = PREAMBLE1" "length (ub_packet st0) = 65543"
    "ub_state st0 = ub_state st" "counters_ok st0" "delivers st st0 []"
    and w: "\<And>j. j \<le> k \<Longrightarrow> ub_len st + j < 6 \<Longrightarrow> ubx_class (take (ub_len st + j) (ub_packet st0)) = Wait"
    by (rule ub_copy_block [OF assms(1) u assms(3,4) c]) blast
  have w6: "ubx_class (take 6 (ub_packet st0)) = Wait"
    using st0 by (intro ubx_class_Wait) auto
  have w': "ubx_class (take (ub_len st + j) (ub_packet st1)) = Wait" if "j \<le> k" for j
    using w [OF that] w6 that st0(1,2) by (cases "ub_len st + j = 6") (auto simp: st1)
  have d: "delivers st st1 []" using st0(8) by (auto simp: st1 intro: delivers_cong)
  have ok1: "ubx_ok st1"
    using st0 delivers_ok [OF d] assms(1,2) by (auto simp: ubx_ok_def st1 ubx_payload_len_def)
  show ?thesis
    unfolding k(4)
    by (rule moves_wait [where w = "ub_len st"])
      (use k w' d ok1 assms(2,3) st0 in \<open>auto simp: ub_pending_def st1\<close>)
qed

lemma ub_load_moves:
  assumes "ubx_ok st" "ub_state st = UbLoad" "src_ok (ub_packet st) (ub_len st) s" "src_len s \<noteq> 0"
    and "ub_copy (8 + ub_payload st) s st = (s1, st1)" "ub_len st1 \<noteq> 8 + ub_payload st"
  shows "ub_moves s st s1 st1"
proof -
  have u: "ub_state st = UbHeader \<and> 8 + ub_payload st = 6 \<or>
      ub_state st = UbLoad \<and> 8 + ub_payload st = 8 + ub_payload st"
    using assms(2) by simp
  obtain k where k: "k \<le> src_len s" "ub_len st + k \<le> length (ub_packet st)" "0 < k"
    "s1 = advance k s" "ub_packet st1 = poke (ub_packet st) (ub_len st) (take k (view (ub_packet st) s))"
    and st1: "ub_len st1 = ub_len st + k" "ub_len st1 \<le> 8 + ub_payload st"
    "ub_packet st1 ! 0 = PREAMBLE0" "ub_packet st1 ! 1 = PREAMBLE1" "length (ub_packet st1) = 65543"
    "ub_state st1 = ub_state st" "ub_payload st1 = ub_payload st" "counters_ok st1" "delivers st st1 []"
    "ub_state st = UbLoad \<Longrightarrow> ubx_payload_len (ub_packet st1) = ub_payload st"
    and w: "\<And>j. j \<le> k \<Longrightarrow> ub_len st + j < 8 + ub_payload st \<Longrightarrow>
       ubx_class (take (ub_len st + j) (ub_packet st1)) = Wait"
    by (rule ub_copy_block [OF assms(1) u assms(3,4,5)]) blast
  have "ubx_ok st1" using assms(1,2,6) st1 by (auto simp: ubx_ok_def)
  then show ?thesis
    unfolding k(4) by (intro moves_wait [OF assms(3) k(1-3,5)])
      (use assms st1 w in \<open>auto simp: ub_pending_def\<close>)
qed

lemma ub_load_packet:
  assumes "ubx_ok st" "ub_state st = UbLoad" "src_ok (ub_packet st) (ub_len st) s" "src_len s \<noteq> 0"
    and "ub_copy (8 + ub_payload st) s st = (s1, st1)" "ub_len st1 = 8 + ub_payload st"
    and "st2 = st1\<lparr>ub_state := UbBefore\<rparr>"
  shows "UBX_valid_checksum st2 \<Longrightarrow>
      ub_moves s st s1 (FilterBase_write_next (take (ub_len st2) (ub_packet st2)) st2)"
    and "\<not> UBX_valid_checksum st2 \<Longrightarrow>
      ub_gives_up s st s1 (FilterBase_write_rest (take 2 (ub_packet st2)) (fb_add ''badcrc'' 1 st2)) 2 (ub_len st2)"
proof -
  have u: "ub_state st = UbHeader \<and> 8 + ub_payload st = 6 \<or>
      ub_state st = UbLoad \<and> 8 + ub_payload st = 8 + ub_payload st"
    using assms(2) by simp
  obtain k where k: "k \<le> src_len s" "ub_len st + k \<le> length (ub_packet st)" "0 < k"
    "s1 = advance k s" "ub_packet st1 = poke (ub_packet st) (ub_len st) (take k (view (ub_packet st) s))"
    and st1: "ub_len st1 = ub_len st + k" "ub_len st1 \<le> 8 + ub_payload st"
    "ub_packet st1 ! 0 = PREAMBLE0" "ub_packet st1 ! 1 = PREAMBLE1" "length (ub_packet st1) = 65543"
    "ub_state st1 = ub_state st" "ub_payload st1 = ub_payload st" "counters_ok st1" "delivers st st1 []"
    "ub_state st = UbLoad \<Longrightarrow> ubx_payload_len (ub_packet st1) = ub_payload st"
    and w: "\<And>j. j \<le> k \<Longrightarrow> ub_len st + j < 8 + ub_payload st \<Longrightarrow>
       ubx_class (take (ub_len st + j) (ub_packet st1)) = Wait"
    by (rule ub_copy_block [OF assms(1) u assms(3,4,5)]) blast
  have st2: "ub_packet st2 = ub_packet st1" "ub_len st2 = ub_len st1" "ub_payload st2 = ub_payload st1"
    "ub_state st2 = UbBefore" "delivers st st2 []"
    using st1 by (auto simp: assms(7) intro: delivers_cong)
  note c = delivers_ok [OF st2(5)]
  have cl: "ubx_class (take (ub_len st + k) (ub_packet st1)) =
      (if UBX_valid_checksum st2 then Accept else Reject 2)"
    using ubx_class_full [of st2] st1(1,3-5,7) st1(10) [OF assms(2)] st2 assms(6)
      ubx_payload_len_le [of "ub_packet st1"] by simp
  {
    assume v: "UBX_valid_checksum st2"
    let ?st3 = "FilterBase_write_next (take (ub_len st2) (ub_packet st2)) st2"
    note d = delivers_trans [OF st2(5) delivers_write_next [OF c, of "take (ub_len st2) (ub_packet st2)"]]
    have st3: "ub_packet ?st3 = ub_packet st1" "ub_state ?st3 = UbBefore"
      using st1 st2 by simp_all
    have ok3: "ubx_ok ?st3"
      using assms(1) st1(5) st3 delivers_ok [OF d] by (simp add: ubx_ok_def)
    show "ub_moves s st s1 ?st3"
      unfolding k(4)
      by (rule moves_packet [where packet = ub_packet and pending = ub_pending and w = "ub_len st"])
        (use k(1-3,5) assms(2,3,6) st1(1) st2(1,2) st3 ok3 w v cl d in \<open>simp_all add: ub_pending_def\<close>)
  }
  {
    assume v: "\<not> UBX_valid_checksum st2"
    let ?st3 = "FilterBase_write_rest (take 2 (ub_packet st2)) (fb_add ''badcrc'' 1 st2)"
    note d = delivers_trans [OF st2(5) delivers_trans [OF delivers_badcrc [OF c, of 1]
        delivers_write_rest [OF delivers_ok [OF delivers_badcrc [OF c, of 1]], of "take 2 (ub_packet st2)"]]]
    have st3: "ub_packet ?st3 = ub_packet st1" "ub_state ?st3 = UbBefore"
      using st1 st2 by simp_all
    have ok3: "ubx_ok ?st3"
      using assms(1) st1(5) st3 delivers_ok [OF d] by (simp add: ubx_ok_def)
    have "ub_gives_up s st (advance k s) ?st3 2 (ub_len st + k)"
      by (rule gives_up_block [where packet = ub_packet and pending = ub_pending and w = "ub_len st"])
        (use k(1-3,5) assms(2,3,6) st1(1) st2(1,2) st3 ok3 w v cl d in \<open>simp_all add: ub_pending_def\<close>)
    then show "ub_gives_up s st s1 ?st3 2 (ub_len st2)" using k(4) st1(1) st2(2) by simp
  }
qed

interpretation ub: recogniser UBX_loop UBX_write ubx_ok ub_pending ub_packet "\<lambda>st. ubx_class"
proof
  fix s st
  assume ok: "ubx_ok st" and src: "src_ok (ub_packet st) (length (ub_pending st)) s" "src_len s \<noteq> 0"
  note unf = UBX_loop.simps [of s st]
  have len: "length (ub_packet st) = 65543" using ok by (simp add: ubx_ok_def)
  have s: "src_ok (ub_packet st) (ub_len st) s" if "ub_state st = UbHeader \<or> ub_state st = UbLoad"
    using that ok src(1) ubx_payload_len_le [of "ub_packet st"]
    by (auto simp: ub_pending_def ubx_ok_def split: ubx_state.splits)
  show "(\<exists>s1 st1. UBX_loop s st = UBX_loop s1 st1 \<and> ub_moves s st s1 st1) \<or>
    (\<exists>s1 st1 k n. UBX_loop s st = Option.bind (UBX_loop (Own k (n - k)) st1) (UBX_loop s1) \<and>
      ub_gives_up s st s1 st1 k n)"
  proof (cases "ub_state st")
    case UbBefore
    obtain s1 st1 where b: "ub_before s st = (s1, st1)" by fastforce
    from ub_before_moves [OF ok UbBefore _ src(2) b] src(1) UbBefore have "ub_moves s st s1 st1"
      by (simp add: ub_pending_def)
    moreover have "UBX_loop s st = UBX_loop s1 st1" using unf UbBefore b src(2) by simp
    ultimately show ?thesis by blast
  next
    case UbPreamble
    obtain s1 st1 where b: "ub_preamble s st = (s1, st1)" by fastforce
    from ub_preamble_moves [OF ok UbPreamble _ src(2) b] src(1) UbPreamble len have "ub_moves s st s1 st1"
      by (simp add: ub_pending_def)
    moreover have "UBX_loop s st = UBX_loop s1 st1" using unf UbPreamble b src(2) by simp
    ultimately show ?thesis by blast
  next
    case UbHeader
    obtain s1 st1 where b: "ub_header s st = (s1, st1)" by fastforce
    have "UBX_loop s st = UBX_loop s1 st1" using unf UbHeader b src(2) by simp
    then show ?thesis using ub_header_moves [OF ok UbHeader _ src(2) b] s UbHeader by blast
  next
    case UbLoad
    obtain s1 st1 where b: "ub_copy (8 + ub_payload st) s st = (s1, st1)" by fastforce
    note pre = ok UbLoad s [OF disjI2, OF UbLoad] src(2) b
    show ?thesis
    proof (cases "ub_len st1 = 8 + ub_payload st")
      case False
      moreover have "UBX_loop s st = UBX_loop s1 st1"
        using unf UbLoad b src(2) False by simp
      ultimately show ?thesis using ub_load_moves [OF pre] by blast
    next
      case True
      define st2 where "st2 = st1\<lparr>ub_state := UbBefore\<rparr>"
      have u: "UBX_loop s st =
          (if UBX_valid_checksum st2
           then UBX_loop s1 (FilterBase_write_next (take (ub_len st2) (ub_packet st2)) st2)
           else Option.bind (UBX_loop (Own 2 (ub_len st2 - 2))
               (FilterBase_write_rest (take 2 (ub_packet st2)) (fb_add ''badcrc'' 1 st2)))
             (UBX_loop s1))"
        using UbLoad b src(2) True by (subst unf) (simp add: st2_def)
      show ?thesis
        using ub_load_packet [OF pre True st2_def] u
        by (cases "UBX_valid_checksum st2") (simp_all only: if_True if_False, blast+)
    qed
  qed
qed (auto simp: UBX_write_def ubx_ok_def UBX_loop.simps)

lemma ubx_pending_waits:
  assumes "ubx_ok st"
  shows "ub_pending st = [] \<or> ubx_class (ub_pending st) = Wait"
proof (cases "ub_state st")
  case UbLoad
  with assms ubx_payload_len_le [of "ub_packet st"] show ?thesis
    by (intro disjI2 ubx_class_Wait) (auto simp: ub_pending_def ubx_ok_def ubx_payload_len_def)
qed (use assms in \<open>auto simp: ub_pending_def ubx_ok_def intro!: ubx_class_Wait\<close>)

section \<open>Messages as they are sent\<close>

definition ubx_encode :: "byte \<Rightarrow> byte \<Rightarrow> bytes \<Rightarrow> bytes" where
  "ubx_encode cls ident payload =
     (let w = (of_nat (length payload) :: u16);
          body = [cls, ident, ucast w, ucast (drop_bit 8 w)] @ payload;
          crc = fletcher body
      in [PREAMBLE0, PREAMBLE1] @ body @ [fst crc, snd crc])"

lemma ubx_encode_complete:
  assumes "length payload \<le> 65535"
  shows "complete ubx_class (ubx_encode cls ident payload)"
proof -
  let ?f = "ubx_encode cls ident payload"
  let ?w = "of_nat (length payload) :: u16"
  have n: "unat ?w = length payload"
    using assms by (simp add: unsigned_of_nat take_bit_eq_mod)
  have f: "?f ! 0 = PREAMBLE0" "?f ! 1 = PREAMBLE1" "length ?f = 8 + length payload"
    "?f ! 4 = ucast ?w" "?f ! 5 = ucast (drop_bit 8 ?w)"
    by (simp_all add: ubx_encode_def Let_def)
  have pl: "ubx_payload_len ?f = length payload"
    using le16_unat [of ?w] n unfolding ubx_payload_len_def f by simp
  have "ubx_class (take k ?f) = Wait" if "0 < k" "k < length ?f" for k
  proof (rule ubx_class_Wait)
    have "ubx_payload_len (take k ?f) = ubx_payload_len ?f" if "6 \<le> k"
      using that by (simp add: ubx_payload_len_def)
    then show "6 \<le> length (take k ?f) \<longrightarrow> length (take k ?f) < 8 + ubx_payload_len (take k ?f)"
      using that f(3) pl by auto
  qed (use that f in auto)
  moreover have "ubx_frame_ok ?f"
    by (simp add: ubx_frame_ok_def ubx_encode_def Let_def nth_append)
  ultimately show ?thesis using f pl by (simp add: complete_def ubx_class_def flip: length_greater_0_conv)
qed

lemma ubx_class_byte: "b \<noteq> PREAMBLE0 \<Longrightarrow> ubx_class [b] = Reject 1"
  by (simp add: ubx_class_def)

lemma ubx_ok_new: "length junk = 65543 \<Longrightarrow> ubx_ok (UBX_new junk)"
  by (simp add: ubx_ok_def UBX_new_def counters_ok_def int32_def)

lemma ubx_accepted:
  assumes "ubx_class p = Accept" "butlast p = [] \<or> ubx_class (butlast p) = Wait"
  shows "p ! 0 = PREAMBLE0 \<and> p ! 1 = PREAMBLE1 \<and> length p = 8 + ubx_payload_len p \<and> ubx_frame_ok p"
proof -
  from assms(1) have p: "p ! 0 = PREAMBLE0" "p ! 1 = PREAMBLE1" "6 \<le> length p"
    "8 + ubx_payload_len p \<le> length p" "ubx_frame_ok p"
    by (auto simp: ubx_class_def split: if_splits)
  then have b: "butlast p \<noteq> []" "ubx_payload_len (butlast p) = ubx_payload_len p" "6 \<le> length (butlast p)"
    by (auto simp: nth_butlast ubx_payload_len_def simp flip: length_0_conv)
  with assms(2) have "length (butlast p) < 8 + ubx_payload_len p"
    by (auto simp: ubx_class_def split: if_splits)
  with p show ?thesis by simp
qed

text \<open>A filter with both outputs connected, as the examples use it.\<close>

definition ubx_demo :: ubx where
  "ubx_demo = Filter_rest (Pipe_chain (UBX_new (replicate 65543 0)))"

lemma ubx_demo_simps [simp]:
  "ubx_ok ubx_demo" "ub_pending ubx_demo = []" "emitted ubx_demo = []" "fb_next ubx_demo" "fb_rest ubx_demo"
  using ubx_ok_new [of "replicate 65543 0"]
  by (simp_all add: ubx_demo_def ubx_ok_def Filter_rest_def Pipe_chain_def UBX_new_def ub_pending_def
      emitted_def counters_ok_def)

lemma ubx_demo_feeds:
  "\<exists>t. feeds UBX_write [[1], 2 # ubx_encode 6 1 [3, 4]] ubx_demo = Some t \<and>
     emitted t = [Stray 1, Stray 2, Packet (ubx_encode 6 1 [3, 4])]"
proof -
  have "complete ubx_class (ubx_encode 6 1 [3, 4])"
    by (rule ubx_encode_complete) simp
  then have "\<exists>t. feeds UBX_write [[1], 2 # ubx_encode 6 1 [3, 4]] ubx_demo = Some t \<and>
     ubx_ok t \<and> ub_pending t = [] \<and>
     emitted t = emitted ubx_demo @ filter (wants ubx_demo) (segment_items [([1, 2], ubx_encode 6 1 [3, 4])])"
    by (intro ub.feeds_segments) (auto simp: segment_bytes_def ubx_class_def PREAMBLE0_def)
  then show ?thesis by (auto simp: segment_items_def)
qed

section \<open>Properties\<close>

text \<open>C7: However the stream is cut into buffers, feeding it to the UBX filter returns,
  keeps the filter's invariant, and leaves exactly what the byte-wise specification says:
  the bytes held back, the packets and stray bytes written to the connected outputs in
  their order, and the three statistics counters (as C ints).\<close>

theorem ubx_refines:
  assumes "ubx_ok st"
  shows "\<exists>t. feeds UBX_write bss st = Some t \<and> ubx_ok t \<and>
    (ub_pending t, emitted t) =
      apsnd (\<lambda>is. emitted st @ filter (wants st) is) (scan ubx_class (ub_pending st) (concat bss)) \<and>
    (\<forall>n \<in> {''pack'', ''next'', ''rest''}. counter n (fb_cnt t) =
       wrap32 (counter n (fb_cnt st) + tally n (snd (scan ubx_class (ub_pending st) (concat bss)))))"
  using ub.feeds_scan [OF assms, of bss] by (force simp: apsnd_def map_prod_def split: prod.splits)

theorem ubx_refines_witness:
  "\<exists>t. feeds UBX_write [[1, 0xb5], [0, 7], [0xb5]] ubx_demo = Some t \<and> ubx_ok t"
  using ubx_refines [of ubx_demo "[[1, 0xb5], [0, 7], [0xb5]]"] by auto

text \<open>Every packet the UBX filter hands on starts with the two preamble bytes, is as long
  as its length field says, and ends with the Fletcher sums of what lies between.\<close>

theorem ubx_only_valid:
  assumes "ubx_ok st" "feeds UBX_write bss st = Some t"
    and "Packet p \<in> set (drop (length (emitted st)) (emitted t))"
  shows "p ! 0 = PREAMBLE0 \<and> p ! 1 = PREAMBLE1 \<and> length p = 8 + ubx_payload_len p \<and>
    fletcher (take (length p - 4) (drop 2 p)) = (p ! (length p - 2), p ! (length p - 1))"
  using ub.feeds_sound [OF assms(1) ubx_pending_waits [OF assms(1)] assms(2,3)] ubx_accepted [of p]
  unfolding ubx_frame_ok_def by blast

theorem ubx_only_valid_witness:
  "ubx_encode 6 1 [3, 4] ! 1 = PREAMBLE1 \<and>
   length (ubx_encode 6 1 [3, 4]) = 8 + ubx_payload_len (ubx_encode 6 1 [3, 4])"
proof -
  obtain t where "feeds UBX_write [[1], 2 # ubx_encode 6 1 [3, 4]] ubx_demo = Some t"
    and "emitted t = [Stray 1, Stray 2, Packet (ubx_encode 6 1 [3, 4])]"
    using ubx_demo_feeds by blast
  with ubx_only_valid [of ubx_demo "[[1], 2 # ubx_encode 6 1 [3, 4]]" t "ubx_encode 6 1 [3, 4]"]
  show ?thesis by simp
qed

text \<open>C8: Messages that are encoded as UBX frames, with any other bytes but the first
  preamble byte between them, come out of the filter as exactly these frames, however the
  stream is cut into buffers; the other bytes go to the rest output.\<close>

theorem ubx_roundtrip:
  assumes "ubx_ok st" "ub_pending st = []"
    and "\<forall>(junk, cls, ident, payload) \<in> set ms. PREAMBLE0 \<notin> set junk \<and> length payload \<le> 65535"
    and "segs = map (\<lambda>(junk, cls, ident, payload). (junk, ubx_encode cls ident payload)) ms"
    and "concat bss = segment_bytes segs"
  shows "\<exists>t. feeds UBX_write bss st = Some t \<and> ub_pending t = [] \<and>
    emitted t = emitted st @ filter (wants st) (segment_items segs)"
proof -
  have "complete ubx_class f \<and> (\<forall>b \<in> set junk. ubx_class [b] = Reject 1)"
    if "(junk, f) \<in> set segs" for junk f
  proof -
    from that assms(3,4) have "PREAMBLE0 \<notin> set junk" "complete ubx_class f"
      by (auto simp: ubx_encode_complete)
    then show ?thesis by (blast intro: strays_other ubx_class_byte)
  qed
  from ub.feeds_segments [OF assms(1,2,5) this] show ?thesis by blast
qed

theorem ubx_roundtrip_witness:
  "\<exists>t. feeds UBX_write [[1, 2] @ ubx_encode 6 1 [3, 4], ubx_encode 1 7 []] ubx_demo = Some t \<and>
     emitted t = [Stray 1, Stray 2, Packet (ubx_encode 6 1 [3, 4]), Packet (ubx_encode 1 7 [])]"
  using ubx_roundtrip [of ubx_demo "[([1, 2], 6, 1, [3, 4]), ([], 1, 7, [])]",
      OF _ _ _ refl, of "[[1, 2] @ ubx_encode 6 1 [3, 4], ubx_encode 1 7 []]"]
  by (auto simp: PREAMBLE0_def segment_bytes_def segment_items_def)

text \<open>With both outputs connected, the UBX filter neither loses nor invents nor reorders
  a byte: what it wrote, followed by the bytes it still holds back, are the bytes it had
  before followed by the stream.\<close>

theorem ubx_conserves:
  assumes "ubx_ok st" "fb_next st" "fb_rest st"
  shows "\<exists>t out. feeds UBX_write bss st = Some t \<and> emitted t = emitted st @ out \<and>
    concat (map item_bytes out) @ ub_pending t = ub_pending st @ concat bss"
proof (rule ub.feeds_conserve [OF assms(1)])
  show "wants st i" for i using assms(2,3) by (cases i) simp_all
qed

theorem ubx_conserves_witness:
  "\<exists>t out. feeds UBX_write [[1, 0xb5], [3, 7]] ubx_demo = Some t \<and> emitted t = out \<and>
     concat (map item_bytes out) @ ub_pending t = [1, 0xb5, 3, 7]"
  using ubx_conserves [of ubx_demo "[[1, 0xb5], [3, 7]]"] by simp

end
