(* ===== verification/Rtcm3.thy ===== *)
theory Rtcm3
  imports Recogniser Checksums
begin

text \<open>
  The RTCM 3 recogniser (\<open>src/filters/rtcm3.h\<close>, class \<open>RTCM_v3\<close>): a preamble byte, two
  bytes with the ten-bit payload length, the payload, and CRC-24Q over all of it. The
  checksum routine itself is in \<open>Checksums\<close>.
\<close>

section \<open>State\<close>

datatype rtcm_state = RtBefore | RtHeader | RtLoad

record rtcm = filter_base +
  rt_packet :: bytes               \<comment> \<open>\<open>std::array<uint8_t,1029>\<close>\<close>
  rt_state :: rtcm_state
  rt_payload :: nat                \<comment> \<open>\<open>payload_len\<close>\<close>
  rt_len :: nat                    \<comment> \<open>\<open>packet_len\<close>\<close>

definition RTCM_PREAMBLE :: byte where
  "RTCM_PREAMBLE = 0xD3"

definition RTCM_v3_new :: "bytes \<Rightarrow> rtcm" where
  "RTCM_v3_new junk =
     \<lparr>fb_next = False, fb_rest = False, fb_outs = [], fb_cnt = StatCounters_new ''RTCM_v3'',
      rt_packet = junk, rt_state = RtBefore, rt_payload = 0, rt_len = 0\<rparr>"

section \<open>write\<close>

definition rtcm_be24 :: "bytes \<Rightarrow> nat \<Rightarrow> u32" where
  "rtcm_be24 p i =
     push_bit 16 (ucast (p ! i)) OR push_bit 8 (ucast (p ! (i + 1))) OR ucast (p ! (i + 2))"

definition RTCM_v3_valid_checksum :: "rtcm \<Rightarrow> bool" where
  "RTCM_v3_valid_checksum st =
     (rtcm_be24 (rt_packet st) (3 + rt_payload st) =
      crc24 (take (rt_payload st + 3) (rt_packet st)))"

definition rt_before :: "src \<Rightarrow> rtcm \<Rightarrow> src \<times> rtcm" where
  "rt_before s st =
     (let ptr = view (rt_packet st) s in
      case memchr ptr RTCM_PREAMBLE of
        None \<Rightarrow> (advance (src_len s) s, FilterBase_write_rest ptr st)
      | Some l \<Rightarrow>
          (let st1 = (if l \<noteq> 0 then FilterBase_write_rest (take l ptr) st else st)
           in (advance (l + 1) s,
               st1\<lparr>rt_state := RtHeader, rt_packet := poke (rt_packet st1) 0 [RTCM_PREAMBLE],
                  rt_len := 1\<rparr>)))"

text \<open>The block copy of the \<open>HEADER\<close> and \<open>LOAD\<close> states, up to \<open>need\<close> bytes in the array.\<close>

definition rt_copy :: "nat \<Rightarrow> src \<Rightarrow> rtcm \<Rightarrow> src \<times> rtcm" where
  "rt_copy need s st =
     (let copy_len = min (need - rt_len st) (src_len s)
      in (advance copy_len s,
          st\<lparr>rt_packet := poke (rt_packet st) (rt_len st) (take copy_len (view (rt_packet st) s)),
             rt_len := rt_len st + copy_len\<rparr>))"

definition rtcm_payload_len :: "bytes \<Rightarrow> nat" where
  "rtcm_payload_len f =
     unat ((push_bit 8 (ucast (f ! 1)) OR ucast (f ! 2) :: u32) AND 0x3ff)"

definition rt_header :: "src \<Rightarrow> rtcm \<Rightarrow> src \<times> rtcm" where
  "rt_header s st =
     (case rt_copy 3 s st of (s1, st1) \<Rightarrow>
        (s1, if rt_len st1 = 3
             then st1\<lparr>rt_state := RtLoad, rt_payload := rtcm_payload_len (rt_packet st1)\<rparr>
             else st1))"

partial_function (option) RTCM_v3_loop :: "src \<Rightarrow> rtcm \<Rightarrow> rtcm option" where
  "RTCM_v3_loop s st =
     (if src_len s = 0 then Some st
      else case rt_state st of
        RtBefore \<Rightarrow> (case rt_before s st of (s1, st1) \<Rightarrow> RTCM_v3_loop s1 st1)
      | RtHeader \<Rightarrow> (case rt_header s st of (s1, st1) \<Rightarrow> RTCM_v3_loop s1 st1)
      | RtLoad \<Rightarrow>
          (case rt_copy (6 + rt_payload st) s st of (s1, st1) \<Rightarrow>
             if rt_len st1 \<noteq> 6 + rt_payload st then RTCM_v3_loop s1 st1
             else (let st2 = st1\<lparr>rt_state := RtBefore\<rparr> in
               if RTCM_v3_valid_checksum st2
               then RTCM_v3_loop s1 (FilterBase_write_next (take (rt_len st2) (rt_packet st2)) st2)
               else Option.bind
                 (RTCM_v3_loop (Own 1 (rt_len st2 - 1))
                   (FilterBase_write_rest (take 1 (rt_packet st2)) (fb_add ''badcrc'' 1 st2)))
                 (RTCM_v3_loop s1))))"

definition RTCM_v3_write :: "bytes \<Rightarrow> rtcm \<Rightarrow> (int \<times> rtcm) option" where
  "RTCM_v3_write buf st = map_option (Pair (int (length buf))) (RTCM_v3_loop (Ext buf) st)"

section \<open>Specification\<close>

definition rtcm_frame_ok :: "bytes \<Rightarrow> bool" where
  "rtcm_frame_ok f \<longleftrightarrow> rtcm_be24 f (length f - 3) = crc24 (take (length f - 3) f)"

definition rtcm_class :: "bytes \<Rightarrow> verdict" where
  "rtcm_class f =
     (if f ! 0 \<noteq> RTCM_PREAMBLE then Reject 1
      else if length f < 3 then Wait
      else if length f < 6 + rtcm_payload_len f then Wait
      else if rtcm_frame_ok f then Accept else Reject 1)"

definition rt_pending :: "rtcm \<Rightarrow> bytes" where
  "rt_pending st =
     (case rt_state st of RtBefore \<Rightarrow> []
      | RtHeader \<Rightarrow> take (rt_len st) (rt_packet st) | RtLoad \<Rightarrow> take (rt_len st) (rt_packet st))"

definition rtcm_ok :: "rtcm \<Rightarrow> bool" where
  "rtcm_ok st \<longleftrightarrow>
     length (rt_packet st) = 1029 \<and> counters_ok st \<and>
     (rt_state st \<noteq> RtBefore \<longrightarrow> rt_packet st ! 0 = RTCM_PREAMBLE) \<and>
     (rt_state st = RtHeader \<longrightarrow> 1 \<le> rt_len st \<and> rt_len st < 3) \<and>
     (rt_state st = RtLoad \<longrightarrow>
        3 \<le> rt_len st \<and> rt_len st < 6 + rt_payload st \<and>
        rt_payload st = rtcm_payload_len (rt_packet st))"

section \<open>The loop implements the specification\<close>

lemma rtcm_class_other: "f ! 0 \<noteq> RTCM_PREAMBLE \<Longrightarrow> rtcm_class f = Reject 1"
  by (simp add: rtcm_class_def)

lemma rtcm_class_Wait:
  "f ! 0 = RTCM_PREAMBLE \<Longrightarrow> 3 \<le> length f \<longrightarrow> length f < 6 + rtcm_payload_len f \<Longrightarrow>
   rtcm_class f = Wait"
  by (auto simp: rtcm_class_def)

lemma rtcm_class_full:
  assumes "rt_packet st ! 0 = RTCM_PREAMBLE"
    and "rt_payload st = rtcm_payload_len (rt_packet st)" "rt_len st = 6 + rt_payload st"
    and "rt_len st \<le> length (rt_packet st)"
  shows "rtcm_class (take (rt_len st) (rt_packet st)) =
    (if RTCM_v3_valid_checksum st then Accept else Reject 1)"
  using assms
  by (auto simp: rtcm_class_def rtcm_frame_ok_def RTCM_v3_valid_checksum_def rtcm_payload_len_def
      rtcm_be24_def min_def add.commute)

lemma rtcm_payload_len_le: "rtcm_payload_len f \<le> 1023"
proof -
  have e: "(0x3ff :: u32) = mask 10" by (simp add: mask_eq_exp_minus_1)
  have "unat (w AND mask 10) = take_bit 10 (unat w)" for w :: u32
    by (simp add: unsigned_take_bit_eq flip: take_bit_eq_mask)
  moreover have "take_bit 10 (n :: nat) < 1024" for n
    by (simp add: take_bit_eq_mod)
  ultimately have "rtcm_payload_len f < 1024" unfolding rtcm_payload_len_def e by metis
  then show ?thesis by simp
qed

lemma rt_keeps [simp]:
  "rt_packet (FilterBase_write_rest bs st) = rt_packet st"
  "rt_packet (FilterBase_write_next bs st) = rt_packet st"
  "rt_packet (fb_add n v st) = rt_packet st"
  "rt_state (FilterBase_write_rest bs st) = rt_state st"
  "rt_state (FilterBase_write_next bs st) = rt_state st"
  "rt_state (fb_add n v st) = rt_state st"
  by (simp_all add: FilterBase_write_rest_def FilterBase_write_next_def Filter_write_rest_def
      Pipe_write_next_def fb_add_def)

abbreviation rt_moves where
  "rt_moves \<equiv> moves rtcm_ok rt_pending rt_packet (\<lambda>st. rtcm_class)"

abbreviation rt_gives_up where
  "rt_gives_up \<equiv> gives_up rtcm_ok rt_pending rt_packet (\<lambda>st. rtcm_class)"

lemma rt_before_moves:
  assumes "rtcm_ok st" "rt_state st = RtBefore" "src_ok (rt_packet st) 0 s" "src_len s \<noteq> 0"
    and "rt_before s st = (s1, st1)"
  shows "rt_moves s st s1 st1"
proof (cases "memchr (view (rt_packet st) s) RTCM_PREAMBLE")
  case None
  then have "rtcm_class [b] = Reject 1" if "b \<in> set (view (rt_packet st) s)" for b
    using that by (intro rtcm_class_other) (auto simp: memchr_None_iff)
  then have "rt_moves s st (advance (src_len s) s) (FilterBase_write_rest (view (rt_packet st) s) st)"
    using assms delivers_write_rest [of st "view (rt_packet st) s"]
    by (intro moves_drained) (auto simp: rt_pending_def rtcm_ok_def delivers_ok)
  with None assms(5) show ?thesis by (simp add: rt_before_def)
next
  case (Some l)
  have "rt_packet st \<noteq> []" using assms(1) by (auto simp: rtcm_ok_def)
  note f = seek_found [OF assms(3) Some this]
  have c: "counters_ok st" using assms(1) by (simp add: rtcm_ok_def)
  have d: "delivers st (if l \<noteq> 0 then FilterBase_write_rest (take l (view (rt_packet st) s)) st else st)
      (map Stray (take l (view (rt_packet st) s)))"
    using delivers_write_rest [OF c] by (auto intro: delivers_same c)
  have st1: "s1 = advance (l + 1) s" "rt_packet st1 = poke (rt_packet st) 0 [RTCM_PREAMBLE]"
    "rt_state st1 = RtHeader" "rt_len st1 = 1" "delivers st st1 (map Stray (take l (view (rt_packet st) s)))"
    using assms(5) Some d by (auto simp: rt_before_def Let_def intro: delivers_cong)
  have "rtcm_ok st1"
    using assms(1) st1 f(4,5) delivers_ok [OF st1(5)] by (auto simp: rtcm_ok_def)
  then show ?thesis
    unfolding st1(1) using assms st1 Some f
    by (intro moves_seek [where c = RTCM_PREAMBLE])
      (auto simp: rt_pending_def rtcm_class_other poke_def intro: rtcm_class_Wait)
qed

text \<open>What the block copies establish.\<close>

lemma rt_copy_block:
  assumes "rtcm_ok st" "rt_state st = RtHeader \<and> u = 3 \<or> rt_state st = RtLoad \<and> u = 6 + rt_payload st"
    and "src_ok (rt_packet st) (rt_len st) s" "src_len s \<noteq> 0" "rt_copy u s st = (s1, st1)"
  obtains k where "k \<le> src_len s" "rt_len st + k \<le> length (rt_packet st)" "0 < k"
    "s1 = advance k s" "rt_packet st1 = poke (rt_packet st) (rt_len st) (take k (view (rt_packet st) s))"
    "rt_len st1 = rt_len st + k" "rt_len st1 \<le> u"
    "rt_packet st1 ! 0 = RTCM_PREAMBLE" "length (rt_packet st1) = 1029"
    "rt_state st1 = rt_state st" "rt_payload st1 = rt_payload st" "counters_ok st1" "delivers st st1 []"
    "rt_state st = RtLoad \<Longrightarrow> rtcm_payload_len (rt_packet st1) = rt_payload st"
    "\<And>j. j \<le> k \<Longrightarrow> rt_len st + j < u \<Longrightarrow> rtcm_class (take (rt_len st + j) (rt_packet st1)) = Wait"
proof -
  define k where "k = min (u - rt_len st) (src_len s)"
  have ok: "1 \<le> rt_len st" "rt_len st < u" "length (rt_packet st) = 1029"
    "rt_packet st ! 0 = RTCM_PREAMBLE" "u \<le> 1029"
    using assms(1,2) rtcm_payload_len_le [of "rt_packet st"] by (auto simp: rtcm_ok_def)
  have k: "k \<le> src_len s" "rt_len st + k \<le> length (rt_packet st)" "0 < k"
    using ok assms(4) by (auto simp: k_def)
  have st1: "s1 = advance k s" "rt_packet st1 = poke (rt_packet st) (rt_len st) (take k (view (rt_packet st) s))"
    "rt_len st1 = rt_len st + k" "rt_state st1 = rt_state st" "rt_payload st1 = rt_payload st"
    using assms(5) by (auto simp: rt_copy_def k_def Let_def)
  have le: "rt_len st1 \<le> u" using ok st1 by (simp add: k_def)
  have p: "rt_packet st1 ! 0 = RTCM_PREAMBLE"
    using ok unfolding st1(2) by (auto simp: nth_poke_below)
  have l: "length (rt_packet st1) = 1029"
    using append_block(4) [OF assms(3) k(1,2)] ok(3) st1(2) by simp
  have d: "delivers st st1 []"
  proof (rule delivers_same)
    show "counters_ok st" using assms(1) by (simp add: rtcm_ok_def)
  qed (use assms(5) in \<open>simp_all add: rt_copy_def Let_def prod_eq_iff [symmetric], auto\<close>)
  have pl: "rtcm_payload_len (rt_packet st1) = rt_payload st" if "rt_state st = RtLoad"
    using that assms(1) ok unfolding st1(2) by (simp add: rtcm_payload_len_def rtcm_ok_def nth_poke_below)
  have w: "rtcm_class (take (rt_len st + j) (rt_packet st1)) = Wait"
    if "j \<le> k" "rt_len st + j < u" for j
  proof (rule rtcm_class_Wait)
    let ?t = "take (rt_len st + j) (rt_packet st1)"
    have len: "length ?t = rt_len st + j" using that(1) k(2) ok(3) l by simp
    show "?t ! 0 = RTCM_PREAMBLE" using ok(1) p by simp
    have "rtcm_payload_len ?t = rtcm_payload_len (rt_packet st1)" if "3 \<le> rt_len st + j"
      using that by (simp add: rtcm_payload_len_def)
    then show "3 \<le> length ?t \<longrightarrow> length ?t < 6 + rtcm_payload_len ?t"
      using that(2) pl assms(2) unfolding len by auto
  qed
  show thesis
    by (rule that [OF k st1(1-3) le p l st1(4,5) delivers_ok [OF d] d pl w])
qed

lemma rt_header_moves:
  assumes "rtcm_ok st" "rt_state st = RtHeader" "src_ok (rt_packet st) (rt_len st) s" "src_len s \<noteq> 0"
    and "rt_header s st = (s1, st1)"
  shows "rt_moves s st s1 st1"
proof -
  obtain st0 where c: "rt_copy 3 s st = (s1, st0)"
    and st1: "st1 = (if rt_len st0 = 3
        then st0\<lparr>rt_state := RtLoad,
                 rt_payload := rtcm_payload_len (rt_packet st0)\<rparr> else st0)"
    using assms(5) by (auto simp: rt_header_def split: prod.splits)
  have u: "rt_state st = RtHeader \<and> 3 = (3 :: nat) \<or> rt_state st = RtLoad \<and> 3 = 6 + rt_payload st"
    using assms(2) by simp
  obtain k where k: "k \<le> src_len s" "rt_len st + k \<le> length (rt_packet st)" "0 < k"
    "s1 = advance k s" "rt_packet st0 = poke (rt_packet st) (rt_len st) (take k (view (rt_packet st) s))"
    and st0: "rt_len st0 = rt_len st + k" "rt_len st0 \<le> 3"
    "rt_packet st0 ! 0 = RTCM_PREAMBLE" "length (rt_packet st0) = 1029"
    "rt_state st0 = rt_state st" "counters_ok st0" "delivers st st0 []"
    and w: "\<And>j. j \<le> k \<Longrightarrow> rt_len st + j < 3 \<Longrightarrow> rtcm_class (take (rt_len st + j) (rt_packet st0)) = Wait"
    by (rule rt_copy_block [OF assms(1) u assms(3,4) c]) blast
  have w6: "rtcm_class (take 3 (rt_packet st0)) = Wait"
    using st0 by (intro rtcm_class_Wait) auto
  have w': "rtcm_class (take (rt_len st + j) (rt_packet st1)) = Wait" if "j \<le> k" for j
    using w [OF that] w6 that st0(1,2) by (cases "rt_len st + j = 3") (auto simp: st1)
  have d: "delivers st st1 []" using st0(7) by (auto simp: st1 intro: delivers_cong)
  have ok1: "rtcm_ok st1"
    using st0 delivers_ok [OF d] assms(1,2) by (auto simp: rtcm_ok_def st1 rtcm_payload_len_def)
  show ?thesis
    unfolding k(4)
    by (rule moves_wait [where w = "rt_len st"])
      (use k w' d ok1 assms(2,3) st0 in \<open>auto simp: rt_pending_def st1\<close>)
qed

lemma rt_load_moves:
  assumes "rtcm_ok st" "rt_state st = RtLoad" "src_ok (rt_packet st) (rt_len st) s" "src_len s \<noteq> 0"
    and "rt_copy (6 + rt_payload st) s st = (s1, st1)" "rt_len st1 \<noteq> 6 + rt_payload st"
  shows "rt_moves s st s1 st1"
proof -
  have u: "rt_state st = RtHeader \<and> 6 + rt_payload st = 3 \<or>
      rt_state st = RtLoad \<and> 6 + rt_payload st = 6 + rt_payload st"
    using assms(2) by simp
  obtain k where k: "k \<le> src_len s" "rt_len st + k \<le> length (rt_packet st)" "0 < k"
    "s1 = advance k s" "rt_packet st1 = poke (rt_packet st) (rt_len st) (take k (view (rt_packet st) s))"
    and st1: "rt_len st1 = rt_len st + k" "rt_len st1 \<le> 6 + rt_payload st"
    "rt_packet st1 ! 0 = RTCM_PREAMBLE" "length (rt_packet st1) = 1029"
    "rt_state st1 = rt_state st" "rt_payload st1 = rt_payload st" "counters_ok st1" "delivers st st1 []"
    "rt_state st = RtLoad \<Longrightarrow> rtcm_payload_len (rt_packet st1) = rt_payload st"
    and w: "\<And>j. j \<le> k \<Longrightarrow> rt_len st + j < 6 + rt_payload st \<Longrightarrow>
       rtcm_class (take (rt_len st + j) (rt_packet st1)) = Wait"
    by (rule rt_copy_block [OF assms(1) u assms(3,4,5)]) blast
  have "rtcm_ok st1" using assms(1,2,6) st1 by (auto simp: rtcm_ok_def)
  then show ?thesis
    unfolding k(4) by (intro moves_wait [OF assms(3) k(1-3,5)])
      (use assms st1 w in \<open>auto simp: rt_pending_def\<close>)
qed

lemma rt_load_packet:
  assumes "rtcm_ok st" "rt_state st = RtLoad" "src_ok (rt_packet st) (rt_len st) s" "src_len s \<noteq> 0"
    and "rt_copy (6 + rt_payload st) s st = (s1, st1)" "rt_len st1 = 6 + rt_payload st"
    and "st2 = st1\<lparr>rt_state := RtBefore\<rparr>"
  shows "RTCM_v3_valid_checksum st2 \<Longrightarrow>
      rt_moves s st s1 (FilterBase_write_next (take (rt_len st2) (rt_packet st2)) st2)"
    and "\<not> RTCM_v3_valid_checksum st2 \<Longrightarrow>
      rt_gives_up s st s1 (FilterBase_write_rest (take 1 (rt_packet st2)) (fb_add ''badcrc'' 1 st2)) 1 (rt_len st2)"
proof -
  have u: "rt_state st = RtHeader \<and> 6 + rt_payload st = 3 \<or>
      rt_state st = RtLoad \<and> 6 + rt_payload st = 6 + rt_payload st"
    using assms(2) by simp
  obtain k where k: "k \<le> src_len s" "rt_len st + k \<le> length (rt_packet st)" "0 < k"
    "s1 = advance k s" "rt_packet st1 = poke (rt_packet st) (rt_len st) (take k (view (rt_packet st) s))"
    and st1: "rt_len st1 = rt_len st + k" "rt_len st1 \<le> 6 + rt_payload st"
    "rt_packet st1 ! 0 = RTCM_PREAMBLE" "length (rt_packet st1) = 1029"
    "rt_state st1 = rt_state st" "rt_payload st1 = rt_payload st" "counters_ok st1" "delivers st st1 []"
    "rt_state st = RtLoad \<Longrightarrow> rtcm_payload_len (rt_packet st1) = rt_payload st"
    and w: "\<And>j. j \<le> k \<Longrightarrow> rt_len st + j < 6 + rt_payload st \<Longrightarrow>
       rtcm_class (take (rt_len st + j) (rt_packet st1)) = Wait"
    by (rule rt_copy_block [OF assms(1) u assms(3,4,5)]) blast
  have st2: "rt_packet st2 = rt_packet st1" "rt_len st2 = rt_len st1" "rt_payload st2 = rt_payload st1"
    "rt_state st2 = RtBefore" "delivers st st2 []"
    using st1 by (auto simp: assms(7) intro: delivers_cong)
  note c = delivers_ok [OF st2(5)]
  have cl: "rtcm_class (take (rt_len st + k) (rt_packet st1)) =
      (if RTCM_v3_valid_checksum st2 then Accept else Reject 1)"
    using rtcm_class_full [of st2] st1(1,3,4,6) st1(9) [OF assms(2)] st2 assms(6)
      rtcm_payload_len_le [of "rt_packet st1"] by simp
  {
    assume v: "RTCM_v3_valid_checksum st2"
    let ?st3 = "FilterBase_write_next (take (rt_len st2) (rt_packet st2)) st2"
    note d = delivers_trans [OF st2(5) delivers_write_next [OF c, of "take (rt_len st2) (rt_packet st2)"]]
    have st3: "rt_packet ?st3 = rt_packet st1" "rt_state ?st3 = RtBefore"
      using st1 st2 by simp_all
    have ok3: "rtcm_ok ?st3"
      using assms(1) st1(4) st3 delivers_ok [OF d] by (simp add: rtcm_ok_def)
    show "rt_moves s st s1 ?st3"
      unfolding k(4)
      by (rule moves_packet [where packet = rt_packet and pending = rt_pending and w = "rt_len st"])
        (use k(1-3,5) assms(2,3,6) st1(1) st2(1,2) st3 ok3 w v cl d in \<open>simp_all add: rt_pending_def\<close>)
  }
  {
    assume v: "\<not> RTCM_v3_valid_checksum st2"
    let ?st3 = "FilterBase_write_rest (take 1 (rt_packet st2)) (fb_add ''badcrc'' 1 st2)"
    note d = delivers_trans [OF st2(5) delivers_trans [OF delivers_badcrc [OF c, of 1]
        delivers_write_rest [OF delivers_ok [OF delivers_badcrc [OF c, of 1]], of "take 1 (rt_packet st2)"]]]
    have st3: "rt_packet ?st3 = rt_packet st1" "rt_state ?st3 = RtBefore"
      using st1 st2 by simp_all
    have ok3: "rtcm_ok ?st3"
      using assms(1) st1(4) st3 delivers_ok [OF d] by (simp add: rtcm_ok_def)
    have "rt_gives_up s st (advance k s) ?st3 1 (rt_len st + k)"
      by (rule gives_up_block [where packet = rt_packet and pending = rt_pending and w = "rt_len st"])
        (use k(1-3,5) assms(2,3,6) st1(1) st2(1,2) st3 ok3 w v cl d in \<open>simp_all add: rt_pending_def\<close>)
    then show "rt_gives_up s st s1 ?st3 1 (rt_len st2)" using k(4) st1(1) st2(2) by simp
  }
qed

interpretation rt: recogniser RTCM_v3_loop RTCM_v3_write rtcm_ok rt_pending rt_packet "\<lambda>st. rtcm_class"
proof
  fix s st
  assume ok: "rtcm_ok st" and src: "src_ok (rt_packet st) (length (rt_pending st)) s" "src_len s \<noteq> 0"
  note unf = RTCM_v3_loop.simps [of s st]
  have len: "length (rt_packet st) = 1029" using ok by (simp add: rtcm_ok_def)
  have s: "src_ok (rt_packet st) (rt_len st) s" if "rt_state st = RtHeader \<or> rt_state st = RtLoad"
    using that ok src(1) rtcm_payload_len_le [of "rt_packet st"]
    by (auto simp: rt_pending_def rtcm_ok_def split: rtcm_state.splits)
  show "(\<exists>s1 st1. RTCM_v3_loop s st = RTCM_v3_loop s1 st1 \<and> rt_moves s st s1 st1) \<or>
    (\<exists>s1 st1 k n. RTCM_v3_loop s st = Option.bind (RTCM_v3_loop (Own k (n - k)) st1) (RTCM_v3_loop s1) \<and>
      rt_gives_up s st s1 st1 k n)"
  proof (cases "rt_state st")
    case RtBefore
    obtain s1 st1 where b: "rt_before s st = (s1, st1)" by fastforce
    from rt_before_moves [OF ok RtBefore _ src(2) b] src(1) RtBefore have "rt_moves s st s1 st1"
      by (simp add: rt_pending_def)
    moreover have "RTCM_v3_loop s st = RTCM_v3_loop s1 st1" using unf RtBefore b src(2) by simp
    ultimately show ?thesis by blast
  next
    case RtHeader
    obtain s1 st1 where b: "rt_header s st = (s1, st1)" by fastforce
    have "RTCM_v3_loop s st = RTCM_v3_loop s1 st1" using unf RtHeader b src(2) by simp
    then show ?thesis using rt_header_moves [OF ok RtHeader _ src(2) b] s RtHeader by blast
  next
    case RtLoad
    obtain s1 st1 where b: "rt_copy (6 + rt_payload st) s st = (s1, st1)" by fastforce
    note pre = ok RtLoad s [OF disjI2, OF RtLoad] src(2) b
    show ?thesis
    proof (cases "rt_len st1 = 6 + rt_payload st")
      case False
      moreover have "RTCM_v3_loop s st = RTCM_v3_loop s1 st1"
        using unf RtLoad b src(2) False by simp
      ultimately show ?thesis using rt_load_moves [OF pre] by blast
    next
      case True
      define st2 where "st2 = st1\<lparr>rt_state := RtBefore\<rparr>"
      have u: "RTCM_v3_loop s st =
          (if RTCM_v3_valid_checksum st2
           then RTCM_v3_loop s1 (FilterBase_write_next (take (rt_len st2) (rt_packet st2)) st2)
           else Option.bind (RTCM_v3_loop (Own 1 (rt_len st2 - 1))
               (FilterBase_write_rest (take 1 (rt_packet st2)) (fb_add ''badcrc'' 1 st2)))
             (RTCM_v3_loop s1))"
        using RtLoad b src(2) True by (subst unf) (simp add: st2_def)
      show ?thesis
        using rt_load_packet [OF pre True st2_def] u
        by (cases "RTCM_v3_valid_checksum st2") (simp_all only: if_True if_False, blast+)
    qed
  qed
qed (auto simp: RTCM_v3_write_def rtcm_ok_def RTCM_v3_loop.simps)

lemma rtcm_pending_waits:
  assumes "rtcm_ok st"
  shows "rt_pending st = [] \<or> rtcm_class (rt_pending st) = Wait"
proof (cases "rt_state st")
  case RtLoad
  with assms rtcm_payload_len_le [of "rt_packet st"] show ?thesis
    by (intro disjI2 rtcm_class_Wait) (auto simp: rt_pending_def rtcm_ok_def rtcm_payload_len_def)
qed (use assms in \<open>auto simp: rt_pending_def rtcm_ok_def intro!: rtcm_class_Wait\<close>)

section \<open>Messages as they are sent\<close>

definition rtcm_encode :: "bytes \<Rightarrow> bytes" where
  "rtcm_encode payload =
     (let w = (of_nat (length payload) :: u16);
          body = [RTCM_PREAMBLE, ucast (drop_bit 8 w), ucast w] @ payload;
          crc = crc24 body
      in body @ [ucast (drop_bit 16 crc), ucast (drop_bit 8 crc), ucast crc])"

lemma rtcm_length_bits:
  "(push_bit 8 (ucast (ucast (drop_bit 8 (w :: u16)) :: byte)) OR ucast (ucast w :: byte) :: u32) = ucast w"
  by (rule bit_word_eqI)
    (auto simp: bit_or_iff bit_push_bit_iff bit_ucast_iff bit_drop_bit_eq not_le dest: bit_imp_le_length)

lemma rtcm_crc_bits:
  "push_bit 16 (ucast (ucast (drop_bit 16 (ucast (r :: 24 word) :: u32)) :: byte)) OR
   push_bit 8 (ucast (ucast (drop_bit 8 (ucast r :: u32)) :: byte)) OR
   (ucast (ucast (ucast r :: u32) :: byte) :: u32) = ucast r"
  by (rule bit_word_eqI)
    (auto simp: bit_or_iff bit_push_bit_iff bit_ucast_iff bit_drop_bit_eq not_le dest: bit_imp_le_length)

lemma rtcm_encode_complete:
  assumes "length payload \<le> 1023"
  shows "complete rtcm_class (rtcm_encode payload)"
proof -
  let ?f = "rtcm_encode payload"
  let ?w = "of_nat (length payload) :: u16"
  let ?b = "[RTCM_PREAMBLE, ucast (drop_bit 8 ?w), ucast ?w] @ payload"
  have f: "?f ! 0 = RTCM_PREAMBLE" "?f ! 1 = ucast (drop_bit 8 ?w)" "?f ! 2 = ucast ?w"
    "length ?f = 6 + length payload"
    by (simp_all add: rtcm_encode_def Let_def)
  have e: "(0x3ff :: u32) = mask 10" by (simp add: mask_eq_exp_minus_1)
  have "rtcm_payload_len ?f = unat (take_bit 10 (ucast ?w :: u32))"
    unfolding rtcm_payload_len_def f rtcm_length_bits e take_bit_eq_mask ..
  also have "\<dots> = length payload"
    using assms unfolding unsigned_take_bit_eq unsigned_ucast_eq unsigned_of_nat
    by (simp add: take_bit_eq_mod)
  finally have pl: "rtcm_payload_len ?f = length payload" .
  have "rtcm_class (take k ?f) = Wait" if "0 < k" "k < length ?f" for k
  proof (rule rtcm_class_Wait)
    have "rtcm_payload_len (take k ?f) = rtcm_payload_len ?f" if "3 \<le> k"
      using that by (simp add: rtcm_payload_len_def)
    then show "3 \<le> length (take k ?f) \<longrightarrow> length (take k ?f) < 6 + rtcm_payload_len (take k ?f)"
      using that f(4) pl by auto
  qed (use that f in auto)
  moreover have "rtcm_frame_ok ?f"
  proof -
    have "rtcm_be24 ?f (length ?f - 3) = crc24 ?b"
      unfolding crc24_fold [of ?b]
      by (simp add: rtcm_be24_def rtcm_encode_def Let_def nth_append crc24_fold
          rtcm_crc_bits [unfolded or.assoc])
    then show ?thesis by (simp add: rtcm_frame_ok_def rtcm_encode_def Let_def)
  qed
  ultimately show ?thesis using f pl by (simp add: complete_def rtcm_class_def flip: length_greater_0_conv)
qed

lemma rtcm_class_byte: "b \<noteq> RTCM_PREAMBLE \<Longrightarrow> rtcm_class [b] = Reject 1"
  by (simp add: rtcm_class_def)

lemma rtcm_ok_new: "length junk = 1029 \<Longrightarrow> rtcm_ok (RTCM_v3_new junk)"
  by (simp add: rtcm_ok_def RTCM_v3_new_def counters_ok_def int32_def)

lemma rtcm_accepted:
  assumes "rtcm_class p = Accept" "butlast p = [] \<or> rtcm_class (butlast p) = Wait"
  shows "p ! 0 = RTCM_PREAMBLE \<and> length p = 6 + rtcm_payload_len p \<and> rtcm_frame_ok p"
proof -
  from assms(1) have p: "p ! 0 = RTCM_PREAMBLE" "3 \<le> length p"
    "6 + rtcm_payload_len p \<le> length p" "rtcm_frame_ok p"
    by (auto simp: rtcm_class_def split: if_splits)
  then have b: "butlast p \<noteq> []" "rtcm_payload_len (butlast p) = rtcm_payload_len p" "3 \<le> length (butlast p)"
    by (auto simp: nth_butlast rtcm_payload_len_def simp flip: length_0_conv)
  with assms(2) have "length (butlast p) < 6 + rtcm_payload_len p"
    by (auto simp: rtcm_class_def split: if_splits)
  with p show ?thesis by simp
qed

text \<open>A filter with both outputs connected, as the examples use it.\<close>

definition rtcm_demo :: rtcm where
  "rtcm_demo = Filter_rest (Pipe_chain (RTCM_v3_new (replicate 1029 0)))"

lemma rtcm_demo_simps [simp]:
  "rtcm_ok rtcm_demo" "rt_pending rtcm_demo = []" "emitted rtcm_demo = []" "fb_next rtcm_demo"
  "fb_rest rtcm_demo"
  using rtcm_ok_new [of "replicate 1029 0"]
  by (simp_all add: rtcm_demo_def rtcm_ok_def Filter_rest_def Pipe_chain_def RTCM_v3_new_def
      rt_pending_def emitted_def counters_ok_def)

lemma rtcm_demo_feeds:
  "\<exists>t. feeds RTCM_v3_write [[1], 2 # rtcm_encode [3, 4]] rtcm_demo = Some t \<and>
     emitted t = [Stray 1, Stray 2, Packet (rtcm_encode [3, 4])]"
proof -
  have "complete rtcm_class (rtcm_encode [3, 4])"
    by (rule rtcm_encode_complete) simp
  then have "\<exists>t. feeds RTCM_v3_write [[1], 2 # rtcm_encode [3, 4]] rtcm_demo = Some t \<and>
     rtcm_ok t \<and> rt_pending t = [] \<and>
     emitted t = emitted rtcm_demo @ filter (wants rtcm_demo) (segment_items [([1, 2], rtcm_encode [3, 4])])"
    by (intro rt.feeds_segments) (auto simp: segment_bytes_def rtcm_class_def RTCM_PREAMBLE_def)
  then show ?thesis by (auto simp: segment_items_def)
qed

section \<open>Properties\<close>

text \<open>C9: However the stream is cut into buffers, feeding it to the RTCM 3 filter returns,
  keeps the filter's invariant, and leaves exactly what the byte-wise specification says:
  the bytes held back, the packets and stray bytes written to the connected outputs in
  their order, and the three statistics counters (as C ints).\<close>

theorem rtcm_refines:
  assumes "rtcm_ok st"
  shows "\<exists>t. feeds RTCM_v3_write bss st = Some t \<and> rtcm_ok t \<and>
    (rt_pending t, emitted t) =
      apsnd (\<lambda>is. emitted st @ filter (wants st) is) (scan rtcm_class (rt_pending st) (concat bss)) \<and>
    (\<forall>n \<in> {''pack'', ''next'', ''rest''}. counter n (fb_cnt t) =
       wrap32 (counter n (fb_cnt st) + tally n (snd (scan rtcm_class (rt_pending st) (concat bss)))))"
  using rt.feeds_scan [OF assms, of bss] by (force simp: apsnd_def map_prod_def split: prod.splits)

theorem rtcm_refines_witness:
  "\<exists>t. feeds RTCM_v3_write [[1, 0xD3], [0, 7], [0xD3]] rtcm_demo = Some t \<and> rtcm_ok t"
  using rtcm_refines [of rtcm_demo "[[1, 0xD3], [0, 7], [0xD3]]"] by auto

text \<open>Every packet the RTCM 3 filter hands on starts with the preamble, is as long as its
  ten-bit length field says, and ends with the CRC-24Q of everything before it.\<close>

theorem rtcm_only_valid:
  assumes "rtcm_ok st" "feeds RTCM_v3_write bss st = Some t"
    and "Packet p \<in> set (drop (length (emitted st)) (emitted t))"
  shows "p ! 0 = RTCM_PREAMBLE \<and> length p = 6 + rtcm_payload_len p \<and>
    rtcm_be24 p (length p - 3) = ucast (fold crc24_serial (take (length p - 3) p) 0)"
  using rt.feeds_sound [OF assms(1) rtcm_pending_waits [OF assms(1)] assms(2,3)] rtcm_accepted [of p]
  unfolding rtcm_frame_ok_def crc24_fold by blast

theorem rtcm_only_valid_witness:
  "rtcm_encode [3, 4] ! 0 = RTCM_PREAMBLE \<and> length (rtcm_encode [3, 4]) = 6 + rtcm_payload_len (rtcm_encode [3, 4])"
proof -
  obtain t where "feeds RTCM_v3_write [[1], 2 # rtcm_encode [3, 4]] rtcm_demo = Some t"
    and "emitted t = [Stray 1, Stray 2, Packet (rtcm_encode [3, 4])]"
    using rtcm_demo_feeds by blast
  with rtcm_only_valid [of rtcm_demo "[[1], 2 # rtcm_encode [3, 4]]" t "rtcm_encode [3, 4]"]
  show ?thesis by simp
qed

text \<open>Payloads that are encoded as RTCM 3 frames, with any other bytes but the preamble
  between them, come out of the filter as exactly these frames, however the stream is cut
  into buffers; the other bytes go to the rest output.\<close>

theorem rtcm_roundtrip:
  assumes "rtcm_ok st" "rt_pending st = []"
    and "\<forall>(junk, payload) \<in> set ms. RTCM_PREAMBLE \<notin> set junk \<and> length payload \<le> 1023"
    and "segs = map (\<lambda>(junk, payload). (junk, rtcm_encode payload)) ms"
    and "concat bss = segment_bytes segs"
  shows "\<exists>t. feeds RTCM_v3_write bss st = Some t \<and> rt_pending t = [] \<and>
    emitted t = emitted st @ filter (wants st) (segment_items segs)"
proof -
  have "complete rtcm_class f \<and> (\<forall>b \<in> set junk. rtcm_class [b] = Reject 1)"
    if "(junk, f) \<in> set segs" for junk f
  proof -
    from that assms(3,4) have "RTCM_PREAMBLE \<notin> set junk" "complete rtcm_class f"
      by (auto simp: rtcm_encode_complete)
    then show ?thesis by (blast intro: strays_other rtcm_class_byte)
  qed
  from rt.feeds_segments [OF assms(1,2,5) this] show ?thesis by blast
qed

theorem rtcm_roundtrip_witness:
  "\<exists>t. feeds RTCM_v3_write [[1, 2] @ rtcm_encode [3, 4], rtcm_encode []] rtcm_demo = Some t \<and>
     emitted t = [Stray 1, Stray 2, Packet (rtcm_encode [3, 4]), Packet (rtcm_encode [])]"
  using rtcm_roundtrip [of rtcm_demo "[([1, 2], [3, 4]), ([], [])]",
      OF _ _ _ refl, of "[[1, 2] @ rtcm_encode [3, 4], rtcm_encode []]"]
  by (auto simp: RTCM_PREAMBLE_def segment_bytes_def segment_items_def)

text \<open>With both outputs connected, the RTCM 3 filter neither loses nor invents nor
  reorders a byte: what it wrote, followed by the bytes it still holds back, are the bytes
  it had before followed by the stream.\<close>

theorem rtcm_conserves:
  assumes "rtcm_ok st" "fb_next st" "fb_rest st"
  shows "\<exists>t out. feeds RTCM_v3_write bss st = Some t \<and> emitted t = emitted st @ out \<and>
    concat (map item_bytes out) @ rt_pending t = rt_pending st @ concat bss"
proof (rule rt.feeds_conserve [OF assms(1)])
  show "wants st i" for i using assms(2,3) by (cases i) simp_all
qed

theorem rtcm_conserves_witness:
  "\<exists>t out. feeds RTCM_v3_write [[1, 0xD3], [3, 7]] rtcm_demo = Some t \<and> emitted t = out \<and>
     concat (map item_bytes out) @ rt_pending t = [1, 0xD3, 3, 7]"
  using rtcm_conserves [of rtcm_demo "[[1, 0xD3], [3, 7]]"] by simp

end
