(* ===== verification/Nmea.thy ===== *)
theory Nmea
  imports Filter_Base
begin

text \<open>
  The NMEA 0183 recogniser (\<open>src/filters/nmea.h\<close>, class \<open>NMEA\<close>): a sentence runs from a
  dollar sign to carriage return and line feed, and carries a two-digit hexadecimal XOR
  checksum. Two peculiarities of the code are kept: the line feed is looked at again after
  it has completed a sentence, and the checksum of a sentence of fewer than five bytes is
  looked for in front of the array, which is undefined behaviour and ends the run here with
  an error value.
\<close>

section \<open>State\<close>

datatype nmea_state = NmBefore | NmCr | NmLf

datatype nmea_fault = NmeaOutOfBounds

record nmea = filter_base +
  nm_packet :: bytes                \<comment> \<open>\<open>std::array<uint8_t,1024>\<close>\<close>
  nm_state :: nmea_state
  nm_len :: nat

definition DOLLAR :: byte where
  "DOLLAR = 0x24"

definition CRET :: byte where
  "CRET = 0x0d"

definition LFEED :: byte where
  "LFEED = 0x0a"

definition STAR :: byte where
  "STAR = 0x2a"

definition NMEA_new :: "bytes \<Rightarrow> nmea" where
  "NMEA_new junk =
     \<lparr>fb_next = False, fb_rest = False, fb_outs = [], fb_cnt = StatCounters_new ''NMEA'',
      nm_packet = junk, nm_state = NmBefore, nm_len = 0\<rparr>"

section \<open>strtol\<close>

text \<open>\<open>strtol(s, nullptr, 16)\<close>: white space, a sign, a prefix that counts only in front of
  a digit, then digits up to the first other byte. Saturation is left out, two characters
  cannot reach it.\<close>

definition is_space :: "byte \<Rightarrow> bool" where
  "is_space b \<longleftrightarrow> b = 0x20 \<or> (9 \<le> b \<and> b \<le> 13)"

definition hex_value :: "byte \<Rightarrow> nat option" where
  "hex_value b =
     (if 0x30 \<le> b \<and> b \<le> 0x39 then Some (unat b - 48)
      else if 0x41 \<le> b \<and> b \<le> 0x46 then Some (unat b - 55)
      else if 0x61 \<le> b \<and> b \<le> 0x66 then Some (unat b - 87)
      else None)"

fun hex_run :: "nat \<Rightarrow> bytes \<Rightarrow> nat" where
  "hex_run acc [] = acc"
| "hex_run acc (b # bs) =
     (case hex_value b of None \<Rightarrow> acc | Some d \<Rightarrow> hex_run (16 * acc + d) bs)"

definition hex_prefix :: "bytes \<Rightarrow> bool" where
  "hex_prefix s \<longleftrightarrow>
     2 < length s \<and> s ! 0 = 0x30 \<and> (s ! 1 = 0x78 \<or> s ! 1 = 0x58) \<and> hex_value (s ! 2) \<noteq> None"

definition strtol16 :: "bytes \<Rightarrow> int" where
  "strtol16 s =
     (let s = dropWhile is_space s;
          neg = (s \<noteq> [] \<and> hd s = 0x2d);
          s = (if s \<noteq> [] \<and> (hd s = 0x2d \<or> hd s = 0x2b) then tl s else s);
          s = (if hex_prefix s then drop 2 s else s);
          v = int (hex_run 0 s)
      in if neg then - v else v)"

section \<open>write\<close>

definition xor_sum :: "bytes \<Rightarrow> byte" where
  "xor_sum bs = fold (\<lambda>b c. c XOR b) bs 0"

definition NMEA_valid_checksum :: "nmea \<Rightarrow> nmea_fault + bool" where
  "NMEA_valid_checksum st =
     (let p = nm_packet st; n = nm_len st in
      if n < 5 then Inl NmeaOutOfBounds
      else if p ! (n - 5) \<noteq> STAR then Inr False
      else Inr (int (unat (xor_sum (take (n - 6) (drop 1 p)))) = strtol16 [p ! (n - 4), p ! (n - 3)]))"

definition nm_before :: "src \<Rightarrow> nmea \<Rightarrow> src \<times> nmea" where
  "nm_before s st =
     (let ptr = view (nm_packet st) s in
      case memchr ptr DOLLAR of
        None \<Rightarrow> (advance (src_len s) s, FilterBase_write_rest ptr st)
      | Some l \<Rightarrow>
          (let st1 = (if l \<noteq> 0 then FilterBase_write_rest (take l ptr) st else st)
           in (advance (l + 1) s,
               st1\<lparr>nm_state := NmCr, nm_packet := poke (nm_packet st1) 0 [DOLLAR], nm_len := 1\<rparr>)))"

text \<open>The two guards against overrunning the array in the \<open>CR\<close> state.\<close>

definition nm_overflow :: "src \<Rightarrow> nmea \<Rightarrow> bool" where
  "nm_overflow s st =
     (case memchr (view (nm_packet st) s) CRET of
        None \<Rightarrow> nm_len st + src_len s > 1024 - 2
      | Some l \<Rightarrow> l \<noteq> 0 \<and> nm_len st + l > 1024 - 2)"

definition nm_cr :: "src \<Rightarrow> nmea \<Rightarrow> src \<times> nmea" where
  "nm_cr s st =
     (let ptr = view (nm_packet st) s in
      case memchr ptr CRET of
        None \<Rightarrow>
          (advance (src_len s) s,
           st\<lparr>nm_packet := poke (nm_packet st) (nm_len st) ptr, nm_len := nm_len st + src_len s\<rparr>)
      | Some l \<Rightarrow>
          (let p = (if l \<noteq> 0 then poke (nm_packet st) (nm_len st) (take l ptr) else nm_packet st);
               n = nm_len st + l
           in (advance (l + 1) s,
               st\<lparr>nm_state := NmLf, nm_packet := poke p n [CRET], nm_len := n + 1\<rparr>)))"

definition nm_lf :: "nmea \<Rightarrow> nmea" where
  "nm_lf st = st\<lparr>nm_packet := poke (nm_packet st) (nm_len st) [LFEED], nm_len := nm_len st + 1\<rparr>"

partial_function (option) NMEA_loop :: "src \<Rightarrow> nmea \<Rightarrow> (nmea_fault + nmea) option" where
  "NMEA_loop s st =
     (if src_len s = 0 then Some (Inr st)
      else case nm_state st of
        NmBefore \<Rightarrow> (case nm_before s st of (s1, st1) \<Rightarrow> NMEA_loop s1 st1)
      | NmCr \<Rightarrow>
          (if nm_overflow s st
           then Option.bind
             (NMEA_loop (Own 1 (nm_len st - 1))
               ((FilterBase_write_rest (take 1 (nm_packet st)) st)\<lparr>nm_state := NmBefore\<rparr>))
             (\<lambda>r. case r of Inl e \<Rightarrow> Some (Inl e) | Inr st1 \<Rightarrow> NMEA_loop s st1)
           else (case nm_cr s st of (s1, st1) \<Rightarrow> NMEA_loop s1 st1))
      | NmLf \<Rightarrow>
          (let st0 = st\<lparr>nm_state := NmBefore\<rparr> in
           if hd (view (nm_packet st) s) \<noteq> LFEED
           then NMEA_loop s (FilterBase_write_rest (take (nm_len st0) (nm_packet st0)) st0)
           else (let st1 = nm_lf st0 in
             case NMEA_valid_checksum st1 of
               Inl e \<Rightarrow> Some (Inl e)
             | Inr valid \<Rightarrow>
                 if valid
                 then NMEA_loop s (FilterBase_write_next (take (nm_len st1) (nm_packet st1)) st1)
                 else Option.bind
                   (NMEA_loop (Own 1 (nm_len st1 - 1))
                     (FilterBase_write_rest (take 1 (nm_packet st1)) st1))
                   (\<lambda>r. case r of Inl e \<Rightarrow> Some (Inl e)
                         | Inr st2 \<Rightarrow> NMEA_loop s (fb_add ''badcrc'' 1 st2)))))"

definition NMEA_write :: "bytes \<Rightarrow> nmea \<Rightarrow> (nmea_fault + int \<times> nmea) option" where
  "NMEA_write buf st =
     map_option (map_sum id (Pair (int (length buf)))) (NMEA_loop (Ext buf) st)"

section \<open>Specification\<close>

datatype nmea_verdict =
    NWait          \<comment> \<open>may still become a sentence\<close>
  | NOther         \<comment> \<open>does not start with a dollar sign\<close>
  | NLong          \<comment> \<open>no carriage return within the capacity\<close>
  | NBreak         \<comment> \<open>the carriage return is not followed by a line feed\<close>
  | NShort         \<comment> \<open>a sentence too short for the checksum to be looked up\<close>
  | NBad           \<comment> \<open>a sentence with a wrong checksum\<close>
  | NSentence

definition nmea_checksum_ok :: "bytes \<Rightarrow> bool" where
  "nmea_checksum_ok f \<longleftrightarrow>
     f ! (length f - 5) = STAR \<and>
     int (unat (xor_sum (take (length f - 6) (drop 1 f)))) =
       strtol16 [f ! (length f - 4), f ! (length f - 3)]"

definition nmea_class :: "bytes \<Rightarrow> nmea_verdict" where
  "nmea_class f =
     (if hd f \<noteq> DOLLAR then NOther
      else if CRET \<in> set (butlast f)
      then (if last f \<noteq> LFEED then NBreak
            else if length f < 5 then NShort
            else if nmea_checksum_ok f then NSentence else NBad)
      else if last f = CRET then NWait
      else if length f \<le> 1022 then NWait else NLong)"

text \<open>The byte-wise specification; \<open>None\<close> is a run that looks outside the array. After a
  sentence, good or bad, its line feed is still there to be read.\<close>

function nmea_scan :: "bytes \<Rightarrow> bytes \<Rightarrow> (bytes \<times> item list) option" where
  "nmea_scan buf [] = Some (buf, [])"
| "nmea_scan buf (b # bs) =
     (case nmea_class (buf @ [b]) of
        NWait \<Rightarrow> nmea_scan (buf @ [b]) bs
      | NOther \<Rightarrow> map_option (apsnd ((@) (map Stray (buf @ [b])))) (nmea_scan [] bs)
      | NLong \<Rightarrow> map_option (apsnd ((#) (Stray (hd (buf @ [b]))))) (nmea_scan [] (tl (buf @ [b]) @ bs))
      | NBreak \<Rightarrow> map_option (apsnd ((@) (map Stray buf))) (nmea_scan [] (b # bs))
      | NShort \<Rightarrow> None
      | NBad \<Rightarrow> map_option (apsnd ((#) (Stray (hd (buf @ [b]))))) (nmea_scan [] (tl (buf @ [b]) @ b # bs))
      | NSentence \<Rightarrow> map_option (apsnd ((#) (Packet (buf @ [b])))) (nmea_scan [] (b # bs)))"
  by pat_completeness auto

definition dollars :: "bytes \<Rightarrow> nat" where
  "dollars bs = length (filter (\<lambda>b. b = DOLLAR) bs)"

lemma dollars_simps [simp]:
  "dollars [] = 0" "dollars (b # bs) = (if b = DOLLAR then 1 else 0) + dollars bs"
  "dollars (as @ bs) = dollars as + dollars bs"
  by (simp_all add: dollars_def)

lemma dollars_tl: "xs \<noteq> [] \<Longrightarrow> hd xs = DOLLAR \<Longrightarrow> Suc (dollars (tl xs)) = dollars xs"
  by (cases xs) simp_all

lemma nmea_class_hd: "nmea_class f \<noteq> NOther \<Longrightarrow> hd f = DOLLAR"
  by (auto simp: nmea_class_def split: if_splits)

lemma nmea_class_complete:
  assumes "nmea_class (buf @ [b]) \<in> {NBreak, NShort, NBad, NSentence}"
  shows "buf \<noteq> [] \<and> CRET \<in> set buf \<and> hd buf = DOLLAR \<and>
    (nmea_class (buf @ [b]) \<noteq> NBreak \<longrightarrow> b = LFEED)"
proof -
  have "CRET \<in> set buf \<and> hd (buf @ [b]) = DOLLAR \<and> (nmea_class (buf @ [b]) \<noteq> NBreak \<longrightarrow> b = LFEED)"
    using assms by (auto simp: nmea_class_def split: if_splits)
  then show ?thesis by (cases buf) auto
qed

lemma nmea_class_one [simp]:
  "nmea_class [b] \<noteq> NBreak" "nmea_class [b] \<noteq> NShort" "nmea_class [b] \<noteq> NBad" "nmea_class [b] \<noteq> NSentence"
  by (simp_all add: nmea_class_def)

termination nmea_scan
proof (relation "measures [\<lambda>(buf, bs). dollars (buf @ bs), \<lambda>(buf, bs). length buf + length bs,
    \<lambda>(buf, bs). length bs]")
  fix buf bs :: bytes and b :: byte
  {
    assume v: "nmea_class (buf @ [b]) = NLong"
    then have "Suc (dollars (tl (buf @ [b]))) = dollars (buf @ [b])"
      by (intro dollars_tl nmea_class_hd) auto
    then have "dollars (tl (buf @ [b])) < dollars (buf @ [b])" by linarith
    then show "(([], tl (buf @ [b]) @ bs), buf, b # bs) \<in> measures [\<lambda>(buf, bs). dollars (buf @ bs),
        \<lambda>(buf, bs). length buf + length bs, \<lambda>(buf, bs). length bs]"
      by simp
  }
  {
    assume v: "nmea_class (buf @ [b]) = NBad"
    then have "Suc (dollars (tl (buf @ [b]))) = dollars (buf @ [b])"
      by (intro dollars_tl nmea_class_hd) auto
    then have "dollars (tl (buf @ [b])) < dollars (buf @ [b])" by linarith
    moreover have "b \<noteq> DOLLAR" using v nmea_class_complete [of buf b] by (auto simp: DOLLAR_def LFEED_def)
    ultimately show "(([], tl (buf @ [b]) @ b # bs), buf, b # bs) \<in> measures [\<lambda>(buf, bs). dollars (buf @ bs),
        \<lambda>(buf, bs). length buf + length bs, \<lambda>(buf, bs). length bs]"
      by simp
  }
qed auto

declare nmea_scan.simps(2) [simp del]

text \<open>Cutting the input, and steps of more than one byte.\<close>

definition nmea_then :: "item list \<Rightarrow> (bytes \<times> item list) option \<Rightarrow> (bytes \<times> item list) option" where
  "nmea_then is r = map_option (apsnd ((@) is)) r"

lemma nmea_then_simps [simp]:
  "nmea_then [] r = r" "nmea_then is None = None" "nmea_then is (Some (p, js)) = Some (p, is @ js)"
  "nmea_then is (nmea_then js r) = nmea_then (is @ js) r"
  by (simp_all add: nmea_then_def option.map_comp comp_def apsnd_def map_prod_def case_prod_beta option.map_ident id_def split_def)

lemma nmea_then_Some: "nmea_then is r = Some (p, js) \<longleftrightarrow> (\<exists>ks. r = Some (p, ks) \<and> js = is @ ks)"
  by (cases r) auto

lemma append_one: "(@) [x] = (#) x"
  by (rule ext) simp

lemma nmea_scan_verdict:
  "nmea_class (buf @ [b]) = NWait \<Longrightarrow> nmea_scan buf (b # bs) = nmea_scan (buf @ [b]) bs"
  "nmea_class (buf @ [b]) = NOther \<Longrightarrow>
     nmea_scan buf (b # bs) = nmea_then (map Stray (buf @ [b])) (nmea_scan [] bs)"
  "nmea_class (buf @ [b]) = NLong \<Longrightarrow>
     nmea_scan buf (b # bs) = nmea_then [Stray (hd (buf @ [b]))] (nmea_scan [] (tl (buf @ [b]) @ bs))"
  "nmea_class (buf @ [b]) = NBreak \<Longrightarrow>
     nmea_scan buf (b # bs) = nmea_then (map Stray buf) (nmea_scan [] (b # bs))"
  "nmea_class (buf @ [b]) = NShort \<Longrightarrow> nmea_scan buf (b # bs) = None"
  "nmea_class (buf @ [b]) = NBad \<Longrightarrow>
     nmea_scan buf (b # bs) = nmea_then [Stray (hd (buf @ [b]))] (nmea_scan [] (tl (buf @ [b]) @ b # bs))"
  "nmea_class (buf @ [b]) = NSentence \<Longrightarrow>
     nmea_scan buf (b # bs) = nmea_then [Packet (buf @ [b])] (nmea_scan [] (b # bs))"
proof -
  show "nmea_class (buf @ [b]) = NWait \<Longrightarrow> nmea_scan buf (b # bs) = nmea_scan (buf @ [b]) bs"
    by (subst nmea_scan.simps(2)) simp
qed (subst nmea_scan.simps(2), simp add: nmea_then_def append_one)+

lemma nmea_then_bind [simp]:
  "Option.bind (nmea_then is r) (\<lambda>q. nmea_then (snd q) (nmea_scan (fst q) ys)) =
   nmea_then is (Option.bind r (\<lambda>q. nmea_then (snd q) (nmea_scan (fst q) ys)))"
  by (cases r) auto

lemma nmea_scan_append:
  "nmea_scan buf (xs @ ys) =
     Option.bind (nmea_scan buf xs) (\<lambda>q. nmea_then (snd q) (nmea_scan (fst q) ys))"
proof (induction buf xs rule: nmea_scan.induct)
  case (2 buf b bs)
  show ?case
  proof (cases "nmea_class (buf @ [b])")
    case NWait
    from "2.IH"(1) [OF NWait] show ?thesis by (simp only: append_Cons nmea_scan_verdict(1) [OF NWait])
  next
    case NOther
    from "2.IH"(2) [OF NOther] show ?thesis
      by (simp only: append_Cons nmea_scan_verdict(2) [OF NOther] nmea_then_bind)
  next
    case NLong
    from "2.IH"(3) [OF NLong] show ?thesis
      by (simp only: append_Cons append_assoc nmea_scan_verdict(3) [OF NLong] nmea_then_bind)
  next
    case NBreak
    from "2.IH"(4) [OF NBreak] show ?thesis
      by (simp only: append_Cons nmea_scan_verdict(4) [OF NBreak] nmea_then_bind)
  next
    case NShort
    then show ?thesis by (simp add: nmea_scan_verdict(5))
  next
    case NBad
    from "2.IH"(5) [OF NBad] show ?thesis
      by (simp only: append_Cons append_assoc nmea_scan_verdict(6) [OF NBad] nmea_then_bind)
  next
    case NSentence
    from "2.IH"(6) [OF NSentence] show ?thesis
      by (simp only: append_Cons nmea_scan_verdict(7) [OF NSentence] nmea_then_bind)
  qed
qed simp

lemma nmea_scan_Waits:
  "(\<And>k. 0 < k \<Longrightarrow> k \<le> length xs \<Longrightarrow> nmea_class (buf @ take k xs) = NWait) \<Longrightarrow>
   nmea_scan buf (xs @ ys) = nmea_scan (buf @ xs) ys"
proof (induction xs arbitrary: buf)
  case (Cons x xs)
  from Cons.prems [of 1] have "nmea_class (buf @ [x]) = NWait" by simp
  moreover have "nmea_scan (buf @ [x]) (xs @ ys) = nmea_scan ((buf @ [x]) @ xs) ys"
    using Cons.prems [of "Suc k" for k] by (intro Cons.IH) simp
  ultimately show ?case by (simp add: nmea_scan_verdict)
qed simp

lemma nmea_scan_strays:
  "DOLLAR \<notin> set xs \<Longrightarrow> nmea_scan [] (xs @ ys) = nmea_then (map Stray xs) (nmea_scan [] ys)"
proof (induction xs)
  case (Cons x xs)
  then have "nmea_class ([] @ [x]) = NOther" by (auto simp: nmea_class_def)
  then show ?case using Cons by (auto simp: nmea_scan_verdict)
qed simp

lemma stray_bytes [simp]: "concat (map item_bytes (map Stray bs)) = bs"
  "concat (map (item_bytes \<circ> Stray) bs) = bs"
  by (induction bs) auto

text \<open>Nothing is lost; only line feeds may come twice.\<close>

lemma nmea_scan_bytes:
  "nmea_scan buf xs = Some (p, is) \<Longrightarrow>
   filter (\<lambda>b. b \<noteq> LFEED) (concat (map item_bytes is) @ p) = filter (\<lambda>b. b \<noteq> LFEED) (buf @ xs) \<and>
   length p \<le> length buf + length xs \<and> dollars p \<le> dollars (buf @ xs)"
proof (induction buf xs arbitrary: p "is" rule: nmea_scan.induct)
  case (2 buf b bs)
  show ?case
  proof (cases "nmea_class (buf @ [b])")
    case NWait
    from "2.IH"(1) [OF NWait] "2.prems" show ?thesis
      unfolding nmea_scan_verdict(1) [OF NWait] by fastforce
  next
    case NOther
    from "2.prems" obtain js where js: "nmea_scan [] bs = Some (p, js)" "is = map Stray (buf @ [b]) @ js"
      unfolding nmea_scan_verdict(2) [OF NOther] nmea_then_Some by auto
    from "2.IH"(2) [OF NOther js(1)] show ?thesis by (auto simp: js(2))
  next
    case NLong
    from "2.prems" obtain js where js: "nmea_scan [] (tl (buf @ [b]) @ bs) = Some (p, js)"
        "is = Stray (hd (buf @ [b])) # js"
      unfolding nmea_scan_verdict(3) [OF NLong] nmea_then_Some by auto
    from "2.IH"(3) [OF NLong js(1)] show ?thesis by (cases buf) (auto simp: js(2))
  next
    case NBreak
    from "2.prems" obtain js where js: "nmea_scan [] (b # bs) = Some (p, js)" "is = map Stray buf @ js"
      unfolding nmea_scan_verdict(4) [OF NBreak] nmea_then_Some by auto
    from "2.IH"(4) [OF NBreak js(1)] show ?thesis by (auto simp: js(2))
  next
    case NShort
    with "2.prems" show ?thesis by (simp add: nmea_scan_verdict(5))
  next
    case NBad
    from "2.prems" obtain js where js: "nmea_scan [] (tl (buf @ [b]) @ b # bs) = Some (p, js)"
        "is = Stray (hd (buf @ [b])) # js"
      unfolding nmea_scan_verdict(6) [OF NBad] nmea_then_Some by auto
    have "b = LFEED" "buf \<noteq> []" using nmea_class_complete [of buf b] NBad by auto
    with "2.IH"(5) [OF NBad js(1)] show ?thesis by (cases buf) (auto simp: js(2) DOLLAR_def LFEED_def)
  next
    case NSentence
    from "2.prems" obtain js where js: "nmea_scan [] (b # bs) = Some (p, js)" "is = Packet (buf @ [b]) # js"
      unfolding nmea_scan_verdict(7) [OF NSentence] nmea_then_Some by auto
    have "b = LFEED" using nmea_class_complete [of buf b] NSentence by auto
    with "2.IH"(6) [OF NSentence js(1)] show ?thesis by (auto simp: js(2))
  qed
qed simp

section \<open>The loop implements the specification\<close>

definition nm_pending :: "nmea \<Rightarrow> bytes" where
  "nm_pending st = (case nm_state st of NmBefore \<Rightarrow> [] | _ \<Rightarrow> take (nm_len st) (nm_packet st))"

definition nmea_ok :: "nmea \<Rightarrow> bool" where
  "nmea_ok st \<longleftrightarrow>
     length (nm_packet st) = 1024 \<and> counters_ok st \<and>
     (nm_state st = NmCr \<longrightarrow> nm_packet st ! 0 = DOLLAR \<and> 1 \<le> nm_len st \<and> nm_len st \<le> 1022 \<and>
        CRET \<notin> set (take (nm_len st) (nm_packet st))) \<and>
     (nm_state st = NmLf \<longrightarrow> nm_packet st ! 0 = DOLLAR \<and> 2 \<le> nm_len st \<and> nm_len st \<le> 1023 \<and>
        nm_packet st ! (nm_len st - 1) = CRET \<and>
        CRET \<notin> set (take (nm_len st - 1) (nm_packet st)))"

lemma nmea_class_Wait:
  "f \<noteq> [] \<Longrightarrow> f ! 0 = DOLLAR \<Longrightarrow> CRET \<notin> set f \<Longrightarrow> length f \<le> 1022 \<Longrightarrow> nmea_class f = NWait"
  by (auto simp: nmea_class_def hd_conv_nth dest: in_set_butlastD)

lemma nmea_class_Cr:
  "f \<noteq> [] \<Longrightarrow> f ! 0 = DOLLAR \<Longrightarrow> CRET \<notin> set f \<Longrightarrow> nmea_class (f @ [CRET]) = NWait"
  by (auto simp: nmea_class_def hd_conv_nth nth_append)

lemma nmea_class_Long:
  "f ! 0 = DOLLAR \<Longrightarrow> CRET \<notin> set f \<Longrightarrow> 1022 < length f \<Longrightarrow> nmea_class f = NLong"
  by (cases f rule: rev_cases) (auto simp: nmea_class_def hd_conv_nth nth_append split: if_splits)

lemma nmea_class_Lf:
  assumes "f \<noteq> []" "f ! 0 = DOLLAR" "CRET \<in> set f"
  shows "nmea_class (f @ [b]) =
    (if b \<noteq> LFEED then NBreak else if length f < 4 then NShort
     else if nmea_checksum_ok (f @ [b]) then NSentence else NBad)"
  using assms by (auto simp: nmea_class_def hd_conv_nth nth_append)

text \<open>What a call from \<open>st\<close> on \<open>s\<close> has to come to.\<close>

definition nm_good :: "src \<Rightarrow> nmea \<Rightarrow> nmea_fault + nmea \<Rightarrow> bool" where
  "nm_good s st r \<longleftrightarrow>
     (case nmea_scan (nm_pending st) (view (nm_packet st) s) of
        None \<Rightarrow> r = Inl NmeaOutOfBounds
      | Some (p, is) \<Rightarrow>
          (\<exists>st'. r = Inr st' \<and> nmea_ok st' \<and> nm_pending st' = p \<and> delivers st st' is \<and>
             (\<forall>i. behind s i \<longrightarrow> i < 1024 \<longrightarrow> nm_packet st' ! i = nm_packet st ! i)))"

text \<open>The amount of work left.\<close>

definition nm_work :: "((src \<times> nmea) \<times> (src \<times> nmea)) set" where
  "nm_work = measures [\<lambda>(s, st). dollars (nm_pending st @ view (nm_packet st) s),
     \<lambda>(s, st). length (nm_pending st) + src_len s, \<lambda>(s, st). src_len s]"

lemma nm_good_step:
  assumes "delivers st st1 is"
    and "nmea_scan (nm_pending st) (view (nm_packet st) s) =
      nmea_then is (nmea_scan (nm_pending st1) (view (nm_packet st1) s1))"
    and "\<forall>i. behind s i \<longrightarrow> i < 1024 \<longrightarrow> nm_packet st1 ! i = nm_packet st ! i"
    and "\<forall>i. behind s1 i = behind s i"
    and "nm_good s1 st1 r"
  shows "nm_good s st r"
  using assms by (auto simp: nm_good_def intro: delivers_trans split: option.splits)

text \<open>The call on the array itself, and what comes after it.\<close>

lemma nm_good_inner:
  assumes st1: "delivers st st1 is" "nm_pending st1 = []" "length (nm_packet st1) = 1024"
      "1 \<le> n" "n \<le> 1024" "src_ok (nm_packet st1) n s"
      "nmea_scan (nm_pending st) (view (nm_packet st) s) =
         nmea_then is (nmea_scan [] (drop 1 (take n (nm_packet st1)) @ view (nm_packet st1) s))"
      "\<forall>i. behind s i \<longrightarrow> i < 1024 \<longrightarrow> nm_packet st1 ! i = nm_packet st ! i \<and> n \<le> i"
    and inner: "nm_good (Own 1 (n - 1)) st1 r"
    and outer: "\<And>st2. r = Inr st2 \<Longrightarrow> nmea_ok st2 \<Longrightarrow> length (nm_pending st2) < n \<Longrightarrow>
      dollars (nm_pending st2 @ view (nm_packet st2) s) \<le>
        dollars (drop 1 (take n (nm_packet st1)) @ view (nm_packet st1) s) \<Longrightarrow>
      \<exists>r'. f st2 = Some r' \<and>
        (\<exists>st3. delivers st2 st3 [] \<and> nm_pending st3 = nm_pending st2 \<and>
           nm_packet st3 = nm_packet st2 \<and> nm_good s st3 r')"
  shows "\<exists>r'. (case r of Inl e \<Rightarrow> Some (Inl e) | Inr st2 \<Rightarrow> f st2) = Some r' \<and> nm_good s st r'"
proof -
  let ?q = "drop 1 (take n (nm_packet st1))"
  have vi: "view (nm_packet st1) (Own 1 (n - 1)) = ?q"
    by (simp add: drop_take)
  note inner' = inner [unfolded nm_good_def st1(2) vi]
  show ?thesis
  proof (cases "nmea_scan [] ?q")
    case None
    with inner' have "r = Inl NmeaOutOfBounds" by simp
    then show ?thesis using None by (simp add: nm_good_def st1(7) nmea_scan_append)
  next
    case (Some q)
    obtain p js where q: "nmea_scan [] ?q = Some (p, js)" using Some by (cases q) auto
    from inner' [unfolded q] obtain st2 where st2: "r = Inr st2" "nmea_ok st2" "nm_pending st2 = p" "delivers st1 st2 js"
        "\<forall>i. n \<le> i \<longrightarrow> i < 1024 \<longrightarrow> nm_packet st2 ! i = nm_packet st1 ! i"
      using st1(4) by auto
    have v: "view (nm_packet st2) s = view (nm_packet st1) s"
      using st1(3,6) st2(2,5) by (intro view_unchanged [where w = n]) (auto simp: nmea_ok_def)
    note b = nmea_scan_bytes [OF q]
    have "length p \<le> n - 1" using b st1(3,5) by simp
    then have "length p < n" using st1(4) by linarith
    moreover have "dollars (p @ view (nm_packet st2) s) \<le> dollars (?q @ view (nm_packet st1) s)"
      using b by (simp add: v)
    ultimately obtain r' st3 where r': "f st2 = Some r'" and st3: "delivers st2 st3 []"
        "nm_pending st3 = p" "nm_packet st3 = nm_packet st2" "nm_good s st3 r'"
      using outer [OF st2(1,2)] st2(3) by auto
    have "nm_good s st r'"
    proof (rule nm_good_step)
      show "delivers st st3 (is @ js)"
        using delivers_trans [OF delivers_trans [OF st1(1) st2(4)] st3(1)] by simp
      show "nmea_scan (nm_pending st) (view (nm_packet st) s) =
          nmea_then (is @ js) (nmea_scan (nm_pending st3) (view (nm_packet st3) s))"
        unfolding st1(7) nmea_scan_append q st3(2,3) v by simp
      show "\<forall>i. behind s i \<longrightarrow> i < 1024 \<longrightarrow> nm_packet st3 ! i = nm_packet st ! i"
        using st1(8) st2(5) st3(3) by auto
    qed (use st3(4) in auto)
    with r' st2(1) show ?thesis by simp
  qed
qed

text \<open>The iterations that only go on.\<close>

definition nm_moves :: "src \<Rightarrow> nmea \<Rightarrow> src \<Rightarrow> nmea \<Rightarrow> bool" where
  "nm_moves s st s1 st1 \<longleftrightarrow>
     nmea_ok st1 \<and> src_ok (nm_packet st1) (length (nm_pending st1) + 1) s1 \<and>
     (\<exists>is. delivers st st1 is \<and> nmea_scan (nm_pending st) (view (nm_packet st) s) =
        nmea_then is (nmea_scan (nm_pending st1) (view (nm_packet st1) s1))) \<and>
     (\<forall>i. behind s i \<longrightarrow> i < 1024 \<longrightarrow> nm_packet st1 ! i = nm_packet st ! i) \<and>
     (\<forall>i. behind s1 i = behind s i) \<and> ((s1, st1), (s, st)) \<in> nm_work"

lemma nm_moves_good: "nm_moves s st s1 st1 \<Longrightarrow> nm_good s1 st1 r \<Longrightarrow> nm_good s st r"
  unfolding nm_moves_def by (elim conjE exE) (rule nm_good_step)

lemma nm_keeps [simp]:
  "nm_packet (FilterBase_write_rest bs st) = nm_packet st" "nm_packet (FilterBase_write_next bs st) = nm_packet st"
  "nm_packet (fb_add n v st) = nm_packet st"
  "nm_state (FilterBase_write_rest bs st) = nm_state st" "nm_state (FilterBase_write_next bs st) = nm_state st"
  "nm_state (fb_add n v st) = nm_state st"
  "nm_len (FilterBase_write_rest bs st) = nm_len st" "nm_len (FilterBase_write_next bs st) = nm_len st"
  "nm_len (fb_add n v st) = nm_len st"
  by (simp_all add: FilterBase_write_rest_def FilterBase_write_next_def Filter_write_rest_def
      Pipe_write_next_def fb_add_def)

lemma src_ok_less: "src_ok p w s \<Longrightarrow> w' \<le> w \<Longrightarrow> src_ok p w' s"
  by (cases s) auto

lemma nm_before_moves:
  assumes "nmea_ok st" "nm_state st = NmBefore" "src_ok (nm_packet st) 1 s" "src_len s \<noteq> 0"
    and "nm_before s st = (s1, st1)"
  shows "nm_moves s st s1 st1"
proof (cases "memchr (view (nm_packet st) s) DOLLAR")
  case None
  let ?v = "view (nm_packet st) s"
  have st1: "s1 = advance (src_len s) s" "st1 = FilterBase_write_rest ?v st"
    using None assms(5) by (auto simp: nm_before_def)
  have ok: "counters_ok st" "length (nm_packet st) = 1024" using assms(1) by (auto simp: nmea_ok_def)
  note d = delivers_write_rest [OF ok(1), of ?v]
  have v1: "view (nm_packet st1) s1 = []"
    using assms(3) by (simp add: st1 view_advance length_view)
  have sc: "nmea_scan [] ?v = nmea_then (map Stray ?v) (nmea_scan [] [])"
    using None nmea_scan_strays [of ?v "[]"] by (simp add: memchr_None_iff)
  have "nmea_ok st1" using assms(1,2) delivers_ok [OF d] by (simp add: st1 nmea_ok_def)
  moreover have "((s1, st1), (s, st)) \<in> nm_work"
    using assms(2,4) v1 by (simp add: nm_work_def st1 nm_pending_def src_len_advance) linarith
  moreover have "src_ok (nm_packet st1) (length (nm_pending st1) + 1) s1"
    using assms(2,3) by (auto simp: st1 nm_pending_def intro!: src_ok_advance)
  ultimately show ?thesis
    using sc d v1 assms(2) unfolding nm_moves_def
    by (auto simp: st1 nm_pending_def behind_advance)
next
  case (Some l)
  let ?v = "view (nm_packet st) s"
  have ok: "counters_ok st" "length (nm_packet st) = 1024" "nm_packet st \<noteq> []"
    using assms(1) by (auto simp: nmea_ok_def)
  note f = seek_found [OF src_ok_less [OF assms(3)] Some ok(3), simplified]
  have d0: "delivers st (if l \<noteq> 0 then FilterBase_write_rest (take l ?v) st else st) (map Stray (take l ?v))"
    using delivers_write_rest [OF ok(1)] by (auto intro: delivers_same ok)
  have st1: "s1 = advance (l + 1) s" "nm_packet st1 = poke (nm_packet st) 0 [DOLLAR]"
    "nm_state st1 = NmCr" "nm_len st1 = 1" "delivers st st1 (map Stray (take l ?v))"
    using assms(5) Some d0 by (auto simp: nm_before_def Let_def intro: delivers_cong)
  have p1: "take 1 (nm_packet st1) = [DOLLAR]" "nm_pending st1 = [DOLLAR]"
    by (simp_all add: st1 poke_def nm_pending_def)
  have ok1: "nmea_ok st1"
    using ok f(4,5) st1 p1 delivers_ok [OF st1(5)] by (auto simp: nmea_ok_def DOLLAR_def CRET_def)
  have v: "?v = take l ?v @ DOLLAR # view (nm_packet st1) s1" using f(2) st1 by simp
  have sc: "nmea_scan [] ?v = nmea_then (map Stray (take l ?v)) (nmea_scan [DOLLAR] (view (nm_packet st1) s1))"
    using nmea_scan_strays [OF f(6), of "DOLLAR # view (nm_packet st1) s1"] v
      nmea_scan_verdict(1) [OF nmea_class_Wait [of "[] @ [DOLLAR]"], of "view (nm_packet st1) s1"]
    by (simp add: DOLLAR_def CRET_def)
  have "dollars ?v = dollars (take l ?v) + dollars (DOLLAR # view (nm_packet st1) s1)"
    by (subst v) simp
  then have "((s1, st1), (s, st)) \<in> nm_work"
    using assms(2,4) f(1) p1 by (auto simp: nm_work_def st1(1) nm_pending_def [of st] src_len_advance)
  moreover have "src_ok (nm_packet st1) (length (nm_pending st1) + 1) s1"
    using assms(3) f(1,4) p1(2) by (auto simp: st1 intro!: src_ok_advance)
  moreover have "nm_packet st1 ! i = nm_packet st ! i" if "behind s i" "i < 1024" for i
    using nth_poke_behind [OF assms(3) that(1), of 0 "[DOLLAR]"] that(2) f(1) ok(2) by (simp add: st1)
  ultimately show ?thesis
    unfolding nm_moves_def using sc st1(5) p1(2) assms(2) ok1 f(1)
    by (auto simp: st1(1) nm_pending_def [of st] behind_advance)
qed

text \<open>The \<open>CR\<close> state, when what came fits.\<close>

lemma nm_scan_block:
  assumes "bs \<noteq> []" "p \<noteq> []" "p ! 0 = DOLLAR" "CRET \<notin> set p" "CRET \<notin> set bs"
    and "length p + length bs \<le> 1022"
  shows "nmea_scan p (bs @ ys) = nmea_scan (p @ bs) ys"
  using assms by (intro nmea_scan_Waits nmea_class_Wait) (auto simp: nth_append dest: in_set_takeD)

lemma nmea_scan_long:
  assumes "p \<noteq> []" "p ! 0 = DOLLAR" "CRET \<notin> set p" "CRET \<notin> set bs"
    and "length p \<le> 1022" "1022 < length p + length bs"
  shows "nmea_scan p (bs @ ys) = nmea_then [Stray DOLLAR] (nmea_scan [] (tl p @ bs @ ys))"
proof -
  define j where "j = 1022 - length p"
  define c where "c = bs ! j"
  define tail where "tail = drop (Suc j) bs @ ys"
  have j: "j < length bs" "length p + j = 1022" using assms(5,6) by (auto simp: j_def)
  have bs: "bs @ ys = take j bs @ c # tail"
    using id_take_nth_drop [OF j(1)] by (simp add: c_def tail_def)
  have "nmea_scan p (take j bs @ c # tail) = nmea_scan (p @ take j bs) (c # tail)"
  proof (cases "j = 0")
    case False
    with assms j show ?thesis by (intro nm_scan_block) (auto dest: in_set_takeD)
  qed simp
  also have "\<dots> = nmea_then [Stray (hd ((p @ take j bs) @ [c]))] (nmea_scan [] (tl ((p @ take j bs) @ [c]) @ tail))"
  proof (rule nmea_scan_verdict(3), rule nmea_class_Long)
    have "c \<in> set bs" using j(1) by (simp add: c_def)
    then show "CRET \<notin> set ((p @ take j bs) @ [c])" using assms(3,4) by (auto dest: in_set_takeD)
  qed (use assms j in \<open>auto simp: nth_append\<close>)
  also have "hd ((p @ take j bs) @ [c]) = DOLLAR" using assms(1,2) by (cases p) auto
  also have "tl ((p @ take j bs) @ [c]) @ tail = tl p @ bs @ ys" using assms(1) by (simp add: bs)
  finally show ?thesis unfolding bs .
qed

lemma nm_cr_moves:
  assumes "nmea_ok st" "nm_state st = NmCr" "src_ok (nm_packet st) (nm_len st + 1) s" "src_len s \<noteq> 0"
    and "\<not> nm_overflow s st" "nm_cr s st = (s1, st1)"
  shows "nm_moves s st s1 st1"
proof -
  let ?v = "view (nm_packet st) s"
  have ok: "counters_ok st" "length (nm_packet st) = 1024" "nm_packet st ! 0 = DOLLAR" "1 \<le> nm_len st"
    "nm_len st \<le> 1022" "CRET \<notin> set (take (nm_len st) (nm_packet st))"
    using assms(1,2) by (auto simp: nmea_ok_def)
  have pend: "nm_pending st = take (nm_len st) (nm_packet st)" by (simp add: nm_pending_def assms(2))
  then have pend0: "nm_pending st \<noteq> []" "nm_pending st ! 0 = DOLLAR" using ok by auto
  have src: "src_ok (nm_packet st) (nm_len st) s" by (rule src_ok_less [OF assms(3)]) simp
  have vl: "length ?v = src_len s" by (rule length_view [OF assms(3)])
  have fits: "?thesis" if k: "k \<le> src_len s" "0 < k" "nm_len st + k \<le> 1023"
      and p1: "nm_packet st1 = poke (nm_packet st) (nm_len st) (take k ?v)"
      and s1: "s1 = advance k s" "nm_len st1 = nm_len st + k" "nm_state st1 \<noteq> NmBefore"
      and d: "delivers st st1 []" and ok1: "nmea_ok st1"
      and sc: "\<And>ys. nmea_scan (nm_pending st) (take k ?v @ ys) = nmea_scan (nm_pending st @ take k ?v) ys"
    for k
  proof -
    have b1: "nm_len st + k \<le> length (nm_packet st)" using k ok(2) by simp
    note b = append_block [OF src k(1) b1, folded p1]
    have pend1: "nm_pending st1 = nm_pending st @ take k ?v"
      using s1(2,3) b(5) by (simp add: nm_pending_def assms(2) split: nmea_state.splits)
    have v1: "view (nm_packet st1) s1 = drop k ?v"
      using b(1,2) unfolding s1(1) by (metis append_take_drop_id same_append_eq)
    have lp: "length (nm_pending st1) = nm_len st + k" "length (nm_pending st) = nm_len st"
      unfolding pend1 using b(2) b1 by (simp_all add: pend)
    have "nmea_scan (nm_pending st) ?v = nmea_scan (nm_pending st1) (view (nm_packet st1) s1)"
      using sc [of "drop k ?v"] unfolding v1 pend1 by simp
    moreover have "dollars (nm_pending st1 @ view (nm_packet st1) s1) = dollars (nm_pending st @ ?v)"
      unfolding v1 pend1 by (metis append.assoc append_take_drop_id)
    then have "((s1, st1), (s, st)) \<in> nm_work"
      using k lp by (simp add: nm_work_def s1(1) src_len_advance)
    moreover have "src_ok (nm_packet st1) (length (nm_pending st1) + 1) s1"
      unfolding s1(1) lp by (rule src_ok_advance [OF assms(3) k(1) b(4)]) simp
    moreover have "nm_packet st1 ! i = nm_packet st ! i" if "behind s i" "i < 1024" for i
      using frame_block(1) [OF src k(1) b1 that(1), folded p1] that(2) ok(2) by simp
    ultimately show ?thesis
      unfolding nm_moves_def using d ok1 k(1) by (auto simp: s1(1) behind_advance intro!: exI [of _ "[]"])
  qed
  show ?thesis
  proof (cases "memchr ?v CRET")
    case None
    have st1: "s1 = advance (src_len s) s" "nm_packet st1 = poke (nm_packet st) (nm_len st) (take (src_len s) ?v)"
      "nm_len st1 = nm_len st + src_len s" "nm_state st1 = NmCr" "delivers st st1 []"
      using None assms(2,6) vl ok(1) by (auto simp: nm_cr_def Let_def intro!: delivers_same)
    have fit: "nm_len st + src_len s \<le> 1022" using None assms(5) by (auto simp: nm_overflow_def)
    then have b1: "nm_len st + src_len s \<le> length (nm_packet st)" using ok(2) by simp
    note b = append_block [OF src order_refl b1, folded st1(2)]
    have cr: "CRET \<notin> set ?v" using None by (simp add: memchr_None_iff)
    have "nmea_ok st1"
      using ok fit b(4,5) st1(1,3,4) delivers_ok [OF st1(5)] cr vl
      by (auto simp: nmea_ok_def st1(2) nth_poke_below)
    then show ?thesis
      using st1 fit assms(4) cr vl pend0 ok(6)
      by (intro fits [of "src_len s"] nm_scan_block) (auto simp: pend)
  next
    case (Some l)
    note m = memchr_SomeD [OF Some]
    have l: "l < src_len s" using m vl by simp
    have tk: "take (l + 1) ?v = take l ?v @ [CRET]"
      using m by (simp add: take_Suc_conv_app_nth)
    have pk: "poke (poke (nm_packet st) (nm_len st) (take l ?v)) (nm_len st + l) [CRET] =
        poke (nm_packet st) (nm_len st) (take (l + 1) ?v)"
      unfolding tk using l vl ok(2,5) by (simp add: poke_def min_def)
    have "poke (nm_packet st) (nm_len st) (take 0 ?v) = nm_packet st"
      by (simp add: poke_def)
    then have st1: "s1 = advance (l + 1) s" "nm_packet st1 = poke (nm_packet st) (nm_len st) (take (l + 1) ?v)"
      "nm_len st1 = nm_len st + (l + 1)" "nm_state st1 = NmLf" "delivers st st1 []"
      using Some assms(2,6) ok(1) pk by (auto simp: nm_cr_def Let_def intro!: delivers_same split: if_splits)
    have fit: "nm_len st + l \<le> 1022" using Some assms(5) ok(5) by (auto simp: nm_overflow_def)
    then have b1: "nm_len st + (l + 1) \<le> length (nm_packet st)" using ok(2) by simp
    have l1: "l + 1 \<le> src_len s" using l by simp
    note b = append_block [OF src l1 b1, folded st1(2)]
    have tk1: "take (nm_len st + l) (nm_packet st1) = nm_pending st @ take l ?v"
      using take_block [OF src l1 b1, of l] l by (simp add: st1(2) pend min_def)
    have cr: "nm_packet st1 ! (nm_len st + l) = CRET"
      using nth_poke_at [of "nm_len st" "nm_packet st" l "take (l + 1) ?v"] m b(2) ok(2,5) by (simp add: st1(2))
    have "nmea_ok st1"
      using ok fit b(4) st1(1,3,4) delivers_ok [OF st1(5)] cr tk1 m pend
      by (auto simp: nmea_ok_def nth_poke_below) (simp add: st1(2) nth_poke_below)
    moreover have "nmea_scan (nm_pending st) (take (l + 1) ?v @ ys) =
        nmea_scan (nm_pending st @ take (l + 1) ?v) ys" for ys
    proof -
      have "nmea_scan (nm_pending st) (take l ?v @ [CRET] @ ys) = nmea_scan (nm_pending st @ take l ?v) (CRET # ys)"
        using nm_scan_block [of "take l ?v" "nm_pending st" "CRET # ys"] pend0 ok(5,6) m fit vl pend
        by (cases "take l ?v = []") auto
      also have "\<dots> = nmea_scan ((nm_pending st @ take l ?v) @ [CRET]) ys"
        using pend0 ok(6) m pend
        by (intro nmea_scan_verdict(1) nmea_class_Cr) (auto simp: nth_append)
      finally show ?thesis unfolding tk by simp
    qed
    ultimately show ?thesis
      using st1 l fit by (intro fits [of "l + 1"]) auto
  qed
qed

text \<open>The \<open>CR\<close> state, when it does not fit.\<close>

lemma nm_overflow_scan:
  assumes "nmea_ok st" "nm_state st = NmCr" "src_ok (nm_packet st) (nm_len st + 1) s" "nm_overflow s st"
  shows "nmea_scan (nm_pending st) (view (nm_packet st) s) =
    nmea_then [Stray DOLLAR] (nmea_scan [] (tl (nm_pending st) @ view (nm_packet st) s))"
proof -
  let ?v = "view (nm_packet st) s"
  have pend: "nm_pending st = take (nm_len st) (nm_packet st)" by (simp add: nm_pending_def assms(2))
  have ok: "nm_pending st \<noteq> []" "nm_pending st ! 0 = DOLLAR" "CRET \<notin> set (nm_pending st)"
    "length (nm_pending st) \<le> 1022" "length (nm_pending st) = nm_len st"
    using assms(1,2) by (auto simp: nmea_ok_def pend)
  have vl: "length ?v = src_len s" by (rule length_view [OF assms(3)])
  show ?thesis
  proof (cases "memchr ?v CRET")
    case None
    with assms(4) vl have "CRET \<notin> set ?v" "1022 < length (nm_pending st) + length ?v"
      by (auto simp: nm_overflow_def memchr_None_iff ok(5))
    from nmea_scan_long [OF ok(1-3) this(1) ok(4) this(2), of "[]"] show ?thesis by simp
  next
    case (Some l)
    note m = memchr_SomeD [OF Some]
    have "1022 < length (nm_pending st) + length (take l ?v)"
      using assms(4) Some m by (simp add: nm_overflow_def ok(5))
    from nmea_scan_long [OF ok(1-3) _ ok(4) this, of "drop l ?v"] m show ?thesis by simp
  qed
qed

text \<open>The \<open>LF\<close> state.\<close>

lemma view_poke_before:
  assumes "src_ok p w s" "i + length bs \<le> w" "i \<le> length p"
  shows "view (poke p i bs) s = view p s"
proof (cases s)
  case (Own off n)
  with assms have "drop off (poke p i bs) = drop off p" by (intro drop_poke_above) auto
  with Own show ?thesis by simp
qed simp

lemma nm_lf_facts:
  assumes "nmea_ok st" "nm_state st = NmLf" "src_ok (nm_packet st) (nm_len st + 1) s" "src_len s \<noteq> 0"
  obtains b bs where "view (nm_packet st) s = b # bs"
    "nm_pending st = take (nm_len st) (nm_packet st)" "length (nm_pending st) = nm_len st"
    "nm_pending st \<noteq> []" "nm_pending st ! 0 = DOLLAR" "CRET \<in> set (nm_pending st)"
    "counters_ok st" "length (nm_packet st) = 1024" "2 \<le> nm_len st" "nm_len st \<le> 1023"
proof -
  have ok: "counters_ok st" "length (nm_packet st) = 1024" "nm_packet st ! 0 = DOLLAR" "2 \<le> nm_len st"
    "nm_len st \<le> 1023" "nm_packet st ! (nm_len st - 1) = CRET"
    using assms(1,2) by (auto simp: nmea_ok_def)
  have p: "nm_pending st = take (nm_len st) (nm_packet st)" by (simp add: nm_pending_def assms(2))
  have l: "length (nm_pending st) = nm_len st" using ok by (simp add: p)
  have "nm_pending st ! (nm_len st - 1) = CRET" "nm_len st - 1 < length (nm_pending st)"
    unfolding l using ok by (simp_all add: p)
  then have c: "CRET \<in> set (nm_pending st)" by (metis nth_mem)
  obtain b bs where "view (nm_packet st) s = b # bs"
    using assms(4) length_view [OF assms(3)] by (cases "view (nm_packet st) s") auto
  then show thesis
    using p l c ok by (intro that) auto
qed

lemma nm_break_moves:
  assumes "nmea_ok st" "nm_state st = NmLf" "src_ok (nm_packet st) (nm_len st + 1) s" "src_len s \<noteq> 0"
    and "hd (view (nm_packet st) s) \<noteq> LFEED" "st0 = st\<lparr>nm_state := NmBefore\<rparr>"
  shows "nm_moves s st s (FilterBase_write_rest (take (nm_len st0) (nm_packet st0)) st0)"
proof -
  from assms(1-4) obtain b bs where f: "view (nm_packet st) s = b # bs"
    "nm_pending st = take (nm_len st) (nm_packet st)" "length (nm_pending st) = nm_len st"
    "nm_pending st \<noteq> []" "nm_pending st ! 0 = DOLLAR" "CRET \<in> set (nm_pending st)"
    "counters_ok st" "length (nm_packet st) = 1024" "2 \<le> nm_len st" "nm_len st \<le> 1023"
    by (rule nm_lf_facts)
  define st1 where "st1 = FilterBase_write_rest (take (nm_len st0) (nm_packet st0)) st0"
  have "delivers st st0 []" using f(7) by (simp add: assms(6) delivers_same)
  from delivers_trans [OF this delivers_write_rest [OF delivers_ok [OF this]]]
  have d: "delivers st st1 (map Stray (nm_pending st))"
    by (simp add: f(2) assms(6) st1_def)
  have st1: "nm_packet st1 = nm_packet st" "nm_pending st1 = []" "nm_state st1 = NmBefore"
    by (simp_all add: assms(6) st1_def nm_pending_def)
  have "nmea_class (nm_pending st @ [b]) = NBreak"
    using assms(5) f by (subst nmea_class_Lf) auto
  then have sc: "nmea_scan (nm_pending st) (view (nm_packet st) s) =
      nmea_then (map Stray (nm_pending st)) (nmea_scan [] (view (nm_packet st) s))"
    unfolding f(1) by (rule nmea_scan_verdict(4))
  have "nmea_ok st1" using f(8) st1 delivers_ok [OF d] by (simp add: nmea_ok_def)
  moreover have "src_ok (nm_packet st) 1 s" by (rule src_ok_less [OF assms(3)]) simp
  moreover have "0 < length (nm_pending st)" using f(3,9) by linarith
  then have "((s, st1), (s, st)) \<in> nm_work"
    unfolding nm_work_def by (simp add: st1(1,2)) linarith
  ultimately show ?thesis
    unfolding nm_moves_def st1_def [symmetric] using d sc by (auto simp: st1(1,2))
qed

lemma nm_sentence:
  assumes "nmea_ok st" "nm_state st = NmLf" "src_ok (nm_packet st) (nm_len st + 1) s" "src_len s \<noteq> 0"
    and "hd (view (nm_packet st) s) = LFEED" "st1 = nm_lf (st\<lparr>nm_state := NmBefore\<rparr>)"
  obtains bs where "view (nm_packet st) s = LFEED # bs" "view (nm_packet st1) s = LFEED # bs"
    "take (nm_len st1) (nm_packet st1) = nm_pending st @ [LFEED]" "nm_len st1 = nm_len st + 1"
    "length (nm_packet st1) = 1024" "nm_len st1 \<le> 1024" "delivers st st1 []" "nm_state st1 = NmBefore"
    "nmea_class (nm_pending st @ [LFEED]) =
      (case NMEA_valid_checksum st1 of Inl e \<Rightarrow> NShort | Inr True \<Rightarrow> NSentence | Inr False \<Rightarrow> NBad)"
    "\<forall>i. behind s i \<longrightarrow> i < 1024 \<longrightarrow> nm_packet st1 ! i = nm_packet st ! i \<and> nm_len st1 \<le> i"
    "0 < length (nm_pending st)"
proof -
  from assms(1-4) obtain b bs where f: "view (nm_packet st) s = b # bs"
    "nm_pending st = take (nm_len st) (nm_packet st)" "length (nm_pending st) = nm_len st"
    "nm_pending st \<noteq> []" "nm_pending st ! 0 = DOLLAR" "CRET \<in> set (nm_pending st)"
    "counters_ok st" "length (nm_packet st) = 1024" "2 \<le> nm_len st" "nm_len st \<le> 1023"
    by (rule nm_lf_facts)
  have st1: "nm_packet st1 = poke (nm_packet st) (nm_len st) [LFEED]" "nm_len st1 = nm_len st + 1"
    "nm_state st1 = NmBefore"
    by (simp_all add: assms(6) nm_lf_def)
  have tk: "take (nm_len st1) (nm_packet st1) = nm_pending st @ [LFEED]"
    using f(8,10) by (simp add: st1 f(2) take_poke)
  have len: "length (nm_packet st1) = 1024" using f(8,10) by (simp add: st1 length_poke)
  have v: "view (nm_packet st1) s = view (nm_packet st) s"
    unfolding st1(1) using f(8,10) by (intro view_poke_before [OF assms(3)]) auto
  have d: "delivers st st1 []" using f(7) by (simp add: assms(6) nm_lf_def delivers_same)
  have nth: "nm_packet st1 ! i = (nm_pending st @ [LFEED]) ! i" if "i < nm_len st1" for i
    using that by (simp add: tk [symmetric])
  have tkd: "take (nm_len st - 5) (drop (Suc 0) (nm_packet st1)) =
      take (nm_len st - 5) (drop (Suc 0) (nm_pending st @ [LFEED]))"
    unfolding tk [symmetric] st1(2) by (simp add: drop_take min_def)
  have cl: "nmea_class (nm_pending st @ [LFEED]) =
      (case NMEA_valid_checksum st1 of Inl e \<Rightarrow> NShort | Inr True \<Rightarrow> NSentence | Inr False \<Rightarrow> NBad)"
  proof (cases "nm_len st < 4")
    case True
    with f show ?thesis by (subst nmea_class_Lf) (auto simp: NMEA_valid_checksum_def Let_def st1(2))
  next
    case False
    with f show ?thesis
      by (subst nmea_class_Lf)
        (auto simp: NMEA_valid_checksum_def Let_def st1(2) nmea_checksum_ok_def nth tkd split: if_splits)
  qed
  have fr: "\<forall>i. behind s i \<longrightarrow> i < 1024 \<longrightarrow> nm_packet st1 ! i = nm_packet st ! i \<and> nm_len st1 \<le> i"
    using nth_poke_behind [OF assms(3), of _ "nm_len st" "[LFEED]"] behind_ge [OF assms(3)] f(8,10)
    by (fastforce simp: st1)
  show thesis
    using that [of bs] f(1,3,9,10) assms(5) v tk st1(2,3) len d cl fr by simp
qed

text \<open>Every call returns, and does what the specification says.\<close>

lemma NMEA_loop_good:
  "nmea_ok st \<Longrightarrow> src_ok (nm_packet st) (length (nm_pending st) + 1) s \<Longrightarrow>
   \<exists>r. NMEA_loop s st = Some r \<and> nm_good s st r"
proof (induction "(s, st)" arbitrary: s st rule: wf_induct [of nm_work])
  case (2 s st)
  have IH: "\<exists>r. NMEA_loop s1 st1 = Some r \<and> nm_good s1 st1 r"
    if "nmea_ok st1" "src_ok (nm_packet st1) (length (nm_pending st1) + 1) s1"
      "((s1, st1), (s, st)) \<in> nm_work" for s1 st1
    using 2(1) that by blast
  have moves: ?case if "NMEA_loop s st = NMEA_loop s1 st1" "nm_moves s st s1 st1" for s1 st1
    using IH [of st1 s1] that nm_moves_good [OF that(2)] by (auto simp: nm_moves_def)
  have len: "length (nm_packet st) = 1024" using 2(2) by (simp add: nmea_ok_def)
  note unf = NMEA_loop.simps [of s st]
  show ?case
  proof (cases "src_len s = 0")
    case True
    then have "view (nm_packet st) s = []" by (cases s) auto
    then have "nm_good s st (Inr st)"
      using 2(2) by (auto simp: nm_good_def nmea_ok_def intro: delivers_same)
    with True show ?thesis by (subst unf) auto
  next
    case False
    show ?thesis
    proof (cases "nm_state st")
      case NmBefore
      obtain s1 st1 where b: "nm_before s st = (s1, st1)" by fastforce
      have "src_ok (nm_packet st) 1 s" using 2(3) NmBefore by (simp add: nm_pending_def)
      from nm_before_moves [OF 2(2) NmBefore this False b] show ?thesis
        by (intro moves) (use unf False NmBefore b in auto)
    next
      case NmCr
      have src: "src_ok (nm_packet st) (nm_len st + 1) s"
        using 2(2,3) NmCr by (simp add: nm_pending_def nmea_ok_def)
      show ?thesis
      proof (cases "nm_overflow s st")
        case fits: False
        obtain s1 st1 where b: "nm_cr s st = (s1, st1)" by fastforce
        from nm_cr_moves [OF 2(2) NmCr src False fits b] show ?thesis
          by (intro moves) (use unf False NmCr b fits in auto)
      next
        case True
        have pend: "nm_pending st = take (nm_len st) (nm_packet st)" by (simp add: nm_pending_def NmCr)
        have ok: "nm_pending st \<noteq> []" "nm_pending st ! 0 = DOLLAR" "1 \<le> nm_len st" "nm_len st \<le> 1022"
          "CRET \<notin> set (nm_pending st)" "length (nm_pending st) = nm_len st" "counters_ok st"
          using 2(2) NmCr by (auto simp: nmea_ok_def pend)
        define st1 where "st1 = (FilterBase_write_rest (take 1 (nm_packet st)) st)\<lparr>nm_state := NmBefore\<rparr>"
        have st1: "nm_packet st1 = nm_packet st" "nm_pending st1 = []" "nm_state st1 = NmBefore"
          by (simp_all add: st1_def nm_pending_def)
        have "take 1 (nm_packet st) = [DOLLAR]"
          using ok pend len by (cases "nm_packet st") auto
        then have d: "delivers st st1 [Stray DOLLAR]"
          using delivers_write_rest [OF ok(7), of "[DOLLAR]"] by (auto simp: st1_def intro: delivers_cong)
        have q: "drop 1 (take (nm_len st) (nm_packet st)) = tl (nm_pending st)"
          by (simp add: pend drop_Suc)
        have sc: "nmea_scan (nm_pending st) (view (nm_packet st) s) = nmea_then [Stray DOLLAR]
            (nmea_scan [] (drop 1 (take (nm_len st) (nm_packet st1)) @ view (nm_packet st1) s))"
          unfolding st1(1) q by (rule nm_overflow_scan [OF 2(2) NmCr src True])
        have ok1: "nmea_ok st1" using len st1 delivers_ok [OF d] by (simp add: nmea_ok_def)
        have dol: "Suc (dollars (tl (nm_pending st))) = dollars (nm_pending st)"
          using ok by (intro dollars_tl) (simp_all add: hd_conv_nth)
        obtain r where r: "NMEA_loop (Own 1 (nm_len st - 1)) st1 = Some r" "nm_good (Own 1 (nm_len st - 1)) st1 r"
        proof -
          have v: "view (nm_packet st1) (Own 1 (nm_len st - 1)) = tl (nm_pending st)"
            using q by (simp add: drop_take st1(1))
          have "\<exists>r. NMEA_loop (Own 1 (nm_len st - 1)) st1 = Some r \<and> nm_good (Own 1 (nm_len st - 1)) st1 r"
          proof (rule IH [OF ok1])
            show "((Own 1 (nm_len st - 1), st1), s, st) \<in> nm_work"
              using dol v unfolding nm_work_def by (simp add: st1(2) del: view.simps)
          qed (use ok len in \<open>auto simp: st1\<close>)
          then show ?thesis using that by blast
        qed
        have "\<exists>r'. (case r of Inl e \<Rightarrow> Some (Inl e) | Inr st2 \<Rightarrow> NMEA_loop s st2) = Some r' \<and> nm_good s st r'"
        proof (rule nm_good_inner [OF d st1(2) _ ok(3) _ _ sc _ r(2)])
          show "src_ok (nm_packet st1) (nm_len st) s" using src_ok_less [OF src] by (simp add: st1(1))
          show "\<forall>i. behind s i \<longrightarrow> i < 1024 \<longrightarrow> nm_packet st1 ! i = nm_packet st ! i \<and> nm_len st \<le> i"
            using behind_ge [OF src] by (force simp: st1(1))
          fix st2
          assume st2: "nmea_ok st2" "length (nm_pending st2) < nm_len st"
            "dollars (nm_pending st2 @ view (nm_packet st2) s) \<le>
               dollars (drop 1 (take (nm_len st) (nm_packet st1)) @ view (nm_packet st1) s)"
          have "\<exists>r'. NMEA_loop s st2 = Some r' \<and> nm_good s st2 r'"
          proof (rule IH [OF st2(1)])
            show "((s, st2), s, st) \<in> nm_work"
              using st2(3) [unfolded st1(1) q] dol unfolding nm_work_def by simp
            have "src_ok (nm_packet st2) (nm_len st + 1) s"
              using src len st2(1) by (cases s) (auto simp: nmea_ok_def)
            then show "src_ok (nm_packet st2) (length (nm_pending st2) + 1) s"
              by (rule src_ok_less) (use st2(2) in simp)
          qed
          then show "\<exists>r'. NMEA_loop s st2 = Some r' \<and> (\<exists>st3. delivers st2 st3 [] \<and>
              nm_pending st3 = nm_pending st2 \<and> nm_packet st3 = nm_packet st2 \<and> nm_good s st3 r')"
            using st2(1) by (auto simp: nmea_ok_def intro: delivers_same)
        qed (use len ok in \<open>auto simp: st1(1)\<close>)
        then show ?thesis
          using unf False NmCr True r(1) by (simp add: st1_def)
      qed
    next
      case NmLf
      have src: "src_ok (nm_packet st) (nm_len st + 1) s"
        using 2(2,3) NmLf by (simp add: nm_pending_def nmea_ok_def)
      define st0 where "st0 = st\<lparr>nm_state := NmBefore\<rparr>"
      show ?thesis
      proof (cases "hd (view (nm_packet st) s) = LFEED")
        case other: False
        from nm_break_moves [OF 2(2) NmLf src False other st0_def] show ?thesis
          by (intro moves) (use unf False NmLf other in \<open>auto simp: st0_def\<close>)
      next
        case True
        define st1 where "st1 = nm_lf st0"
        from nm_sentence [OF 2(2) NmLf src False True st1_def [unfolded st0_def]]
        obtain bs where f: "view (nm_packet st) s = LFEED # bs" "view (nm_packet st1) s = LFEED # bs"
          "take (nm_len st1) (nm_packet st1) = nm_pending st @ [LFEED]" "nm_len st1 = nm_len st + 1"
          "length (nm_packet st1) = 1024" "nm_len st1 \<le> 1024" "delivers st st1 []" "nm_state st1 = NmBefore"
          "nmea_class (nm_pending st @ [LFEED]) =
            (case NMEA_valid_checksum st1 of Inl e \<Rightarrow> NShort | Inr True \<Rightarrow> NSentence | Inr False \<Rightarrow> NBad)"
          "\<forall>i. behind s i \<longrightarrow> i < 1024 \<longrightarrow> nm_packet st1 ! i = nm_packet st ! i \<and> nm_len st1 \<le> i"
          "0 < length (nm_pending st)"
          by blast
        have u: "NMEA_loop s st = (case NMEA_valid_checksum st1 of
               Inl e \<Rightarrow> Some (Inl e)
             | Inr valid \<Rightarrow>
                 if valid
                 then NMEA_loop s (FilterBase_write_next (take (nm_len st1) (nm_packet st1)) st1)
                 else Option.bind
                   (NMEA_loop (Own 1 (nm_len st1 - 1))
                     (FilterBase_write_rest (take 1 (nm_packet st1)) st1))
                   (\<lambda>r. case r of Inl e \<Rightarrow> Some (Inl e)
                         | Inr st2 \<Rightarrow> NMEA_loop s (fb_add ''badcrc'' 1 st2)))"
          using False NmLf True st1_def [unfolded st0_def, symmetric]
          by (subst unf) (simp only: Let_def refl if_False if_True nmea_state.case not_not simp_thms)
        have src1: "src_ok (nm_packet st1) (nm_len st1) s"
          using src len f(4,5) by (cases s) auto
        consider (short) e where "NMEA_valid_checksum st1 = Inl e" | (good) "NMEA_valid_checksum st1 = Inr True"
          | (bad) "NMEA_valid_checksum st1 = Inr False"
          by (cases "NMEA_valid_checksum st1") auto
        then show ?thesis
        proof cases
          case short
          have "e = NmeaOutOfBounds" by (cases e) simp
          moreover have "nmea_scan (nm_pending st) (view (nm_packet st) s) = None"
            unfolding f(1) by (rule nmea_scan_verdict(5)) (simp add: f(9) short)
          ultimately show ?thesis unfolding u short by (simp add: nm_good_def)
        next
          case good
          define st2 where "st2 = FilterBase_write_next (take (nm_len st1) (nm_packet st1)) st1"
          have st2: "nm_packet st2 = nm_packet st1" "nm_pending st2 = []" "nm_state st2 = NmBefore"
            by (simp_all add: st2_def nm_pending_def f(8))
          have d: "delivers st st2 [Packet (nm_pending st @ [LFEED])]"
            using delivers_trans [OF f(7) delivers_write_next [OF delivers_ok [OF f(7)],
                of "take (nm_len st1) (nm_packet st1)"]] by (simp add: st2_def f(3))
          have sc: "nmea_scan (nm_pending st) (view (nm_packet st) s) =
              nmea_then [Packet (nm_pending st @ [LFEED])] (nmea_scan [] (view (nm_packet st2) s))"
            unfolding st2(1) f(1,2) by (rule nmea_scan_verdict(7)) (simp add: f(9) good)
          have "nmea_ok st2" using f(5) st2 delivers_ok [OF d] by (simp add: nmea_ok_def)
          moreover have "((s, st2), s, st) \<in> nm_work"
            using f(11) by (simp add: nm_work_def st2(1,2) f(1,2)) linarith
          moreover have "src_ok (nm_packet st2) 1 s"
            unfolding st2(1) by (rule src_ok_less [OF src1]) (simp add: f(4))
          ultimately have "nm_moves s st s st2"
            unfolding nm_moves_def using d sc f(10) by (auto simp: st2(1,2))
          then show ?thesis using u good by (intro moves [of s st2]) (simp_all add: st2_def)
        next
          case bad
          define st2 where "st2 = FilterBase_write_rest (take 1 (nm_packet st1)) st1"
          have st2: "nm_packet st2 = nm_packet st1" "nm_pending st2 = []" "nm_state st2 = NmBefore"
            by (simp_all add: st2_def nm_pending_def f(8))
          have hd: "hd (nm_pending st @ [LFEED]) = DOLLAR"
            by (rule nmea_class_hd) (simp add: f(9) bad)
          have "take 1 (nm_packet st1) = take 1 (take (nm_len st1) (nm_packet st1))"
            using f(4) by (simp add: min_def)
          also have "\<dots> = [DOLLAR]"
            unfolding f(3) using f(11) hd by (cases "nm_pending st") auto
          finally have d: "delivers st st2 [Stray DOLLAR]"
            using delivers_trans [OF f(7) delivers_write_rest [OF delivers_ok [OF f(7)],
                of "take 1 (nm_packet st1)"]] by (simp add: st2_def)
          have q: "drop 1 (take (nm_len st1) (nm_packet st1)) = tl (nm_pending st @ [LFEED])"
            unfolding f(3) using f(11) by (cases "nm_pending st") simp_all
          have sc: "nmea_scan (nm_pending st) (view (nm_packet st) s) = nmea_then [Stray DOLLAR]
              (nmea_scan [] (drop 1 (take (nm_len st1) (nm_packet st2)) @ view (nm_packet st2) s))"
            unfolding st2(1) q f(1,2) hd [symmetric] by (rule nmea_scan_verdict(6)) (simp add: f(9) bad)
          have ok2: "nmea_ok st2" using f(5) st2 delivers_ok [OF d] by (simp add: nmea_ok_def)
          have dol: "Suc (dollars (tl (nm_pending st @ [LFEED]))) = dollars (nm_pending st)"
            using dollars_tl [OF _ hd] by (simp add: DOLLAR_def LFEED_def)
          obtain r where r: "NMEA_loop (Own 1 (nm_len st1 - 1)) st2 = Some r"
            "nm_good (Own 1 (nm_len st1 - 1)) st2 r"
          proof -
            have v: "view (nm_packet st2) (Own 1 (nm_len st1 - 1)) = tl (nm_pending st @ [LFEED])"
              using q by (simp add: drop_take st2(1))
            have "\<exists>r. NMEA_loop (Own 1 (nm_len st1 - 1)) st2 = Some r \<and>
                nm_good (Own 1 (nm_len st1 - 1)) st2 r"
            proof (rule IH [OF ok2])
              show "((Own 1 (nm_len st1 - 1), st2), s, st) \<in> nm_work"
                using dol v unfolding nm_work_def by (simp add: st2(2) del: view.simps)
            qed (use f(4,5,6) in \<open>auto simp: st2\<close>)
            then show ?thesis using that by blast
          qed
          have "\<exists>r'. (case r of Inl e \<Rightarrow> Some (Inl e)
              | Inr st3 \<Rightarrow> NMEA_loop s (fb_add ''badcrc'' 1 st3)) = Some r' \<and> nm_good s st r'"
          proof (rule nm_good_inner [OF d st2(2) _ _ f(6) _ sc _ r(2)])
            show "src_ok (nm_packet st2) (nm_len st1) s" using src1 by (simp add: st2(1))
            show "\<forall>i. behind s i \<longrightarrow> i < 1024 \<longrightarrow> nm_packet st2 ! i = nm_packet st ! i \<and> nm_len st1 \<le> i"
              using f(10) by (simp add: st2(1))
            fix st3
            assume st3: "nmea_ok st3" "length (nm_pending st3) < nm_len st1"
              "dollars (nm_pending st3 @ view (nm_packet st3) s) \<le>
                 dollars (drop 1 (take (nm_len st1) (nm_packet st2)) @ view (nm_packet st2) s)"
            let ?st4 = "fb_add ''badcrc'' 1 st3"
            have d4: "delivers st3 ?st4 []" using st3(1) by (intro delivers_badcrc) (simp add: nmea_ok_def)
            have st4: "nm_packet ?st4 = nm_packet st3" "nm_pending ?st4 = nm_pending st3"
              by (simp_all add: nm_pending_def split: nmea_state.split)
            have "\<exists>r'. NMEA_loop s ?st4 = Some r' \<and> nm_good s ?st4 r'"
            proof (rule IH)
              show "nmea_ok ?st4" using st3(1) delivers_ok [OF d4] by (simp add: nmea_ok_def)
              show "((s, ?st4), s, st) \<in> nm_work"
                using st3(3) [unfolded st2(1) q f(2)] dol unfolding nm_work_def st4 by (simp add: f(1) st4)
              have "src_ok (nm_packet st3) (nm_len st1) s"
                using src1 f(5) st3(1) by (cases s) (auto simp: nmea_ok_def)
              then show "src_ok (nm_packet ?st4) (length (nm_pending ?st4) + 1) s"
                unfolding st4 by (rule src_ok_less) (use st3(2) in simp)
            qed
            then show "\<exists>r'. NMEA_loop s ?st4 = Some r' \<and> (\<exists>st5. delivers st3 st5 [] \<and>
                nm_pending st5 = nm_pending st3 \<and> nm_packet st5 = nm_packet st3 \<and> nm_good s st5 r')"
              using d4 st4 by blast
          qed (use f(4,5) in \<open>auto simp: st2(1)\<close>)
          then show ?thesis
            using u bad r(1) by (simp add: st2_def)
        qed
      qed
    qed
  qed
qed (simp add: nm_work_def)

section \<open>A stream in several calls\<close>

fun nmea_feeds :: "bytes list \<Rightarrow> nmea \<Rightarrow> (nmea_fault + nmea) option" where
  "nmea_feeds [] st = Some (Inr st)"
| "nmea_feeds (b # bs) st =
     Option.bind (NMEA_write b st)
       (\<lambda>r. case r of Inl e \<Rightarrow> Some (Inl e) | Inr (n, st1) \<Rightarrow> nmea_feeds bs st1)"

lemma NMEA_write_scan:
  assumes "nmea_ok st"
  shows "case nmea_scan (nm_pending st) bs of
      None \<Rightarrow> NMEA_write bs st = Some (Inl NmeaOutOfBounds)
    | Some (p, is) \<Rightarrow> \<exists>t. NMEA_write bs st = Some (Inr (int (length bs), t)) \<and> nmea_ok t \<and>
        nm_pending t = p \<and> delivers st t is"
  using NMEA_loop_good [OF assms, of "Ext bs"]
  by (auto simp: nm_good_def NMEA_write_def split: option.splits)

lemma nmea_feeds_scan:
  "nmea_ok st \<Longrightarrow>
   case nmea_scan (nm_pending st) (concat bss) of
      None \<Rightarrow> nmea_feeds bss st = Some (Inl NmeaOutOfBounds)
    | Some (p, is) \<Rightarrow> \<exists>t. nmea_feeds bss st = Some (Inr t) \<and> nmea_ok t \<and>
        nm_pending t = p \<and> delivers st t is"
proof (induction bss arbitrary: st)
  case Nil
  then show ?case by (auto simp: nmea_ok_def intro: delivers_same)
next
  case (Cons b bss)
  note w = NMEA_write_scan [OF Cons.prems, of b]
  show ?case
  proof (cases "nmea_scan (nm_pending st) b")
    case None
    with w show ?thesis by (simp add: nmea_scan_append)
  next
    case (Some q)
    obtain p js where q: "nmea_scan (nm_pending st) b = Some (p, js)" using Some by (cases q) auto
    with w obtain t where t: "NMEA_write b st = Some (Inr (int (length b), t))" "nmea_ok t"
      "nm_pending t = p" "delivers st t js" by auto
    from Cons.IH [OF t(2)] t q show ?thesis
      by (auto simp: nmea_scan_append split: option.splits intro: delivers_trans)
  qed
qed

section \<open>Sentences as they are sent\<close>

definition hex_char :: "nat \<Rightarrow> byte" where
  "hex_char d = (if d < 10 then 0x30 + of_nat d else 0x37 + of_nat d)"

definition nmea_encode :: "bytes \<Rightarrow> bytes" where
  "nmea_encode body =
     (let c = unat (xor_sum body)
      in [DOLLAR] @ body @ [STAR, hex_char (c div 16), hex_char (c mod 16), CRET, LFEED])"

lemma hex_char_value: "d < 16 \<Longrightarrow> hex_value (hex_char d) = Some d \<and> \<not> is_space (hex_char d) \<and>
    hex_char d \<noteq> 0x2d \<and> hex_char d \<noteq> 0x2b \<and> hex_char d \<noteq> CRET"
proof -
  have "list_all (\<lambda>d. hex_value (hex_char d) = Some d \<and> \<not> is_space (hex_char d) \<and>
      hex_char d \<noteq> 0x2d \<and> hex_char d \<noteq> 0x2b \<and> hex_char d \<noteq> CRET) [0..<16]"
    by code_simp
  then show "d < 16 \<Longrightarrow> ?thesis" by (simp add: list_all_iff)
qed

lemma strtol16_hex: "a < 16 \<Longrightarrow> b < 16 \<Longrightarrow> strtol16 [hex_char a, hex_char b] = int (16 * a + b)"
  using hex_char_value [of a] hex_char_value [of b] by (simp add: strtol16_def Let_def hex_prefix_def)

lemma nmea_encode_class:
  assumes "CRET \<notin> set body" "length body \<le> 1018"
  shows "\<exists>f. nmea_encode body = f @ [LFEED] \<and> f \<noteq> [] \<and> nmea_class (f @ [LFEED]) = NSentence \<and>
    nmea_scan [] (f @ ys) = nmea_scan f ys"
proof -
  define c where "c = unat (xor_sum body)"
  have c: "c div 16 < 16" "c mod 16 < 16" using unat_byte_less [of "xor_sum body"] by (auto simp: c_def)
  define g where "g = [DOLLAR] @ body @ [STAR, hex_char (c div 16), hex_char (c mod 16)]"
  have enc: "nmea_encode body = (g @ [CRET]) @ [LFEED]"
    by (simp add: nmea_encode_def g_def c_def Let_def)
  have g: "g \<noteq> []" "g ! 0 = DOLLAR" "CRET \<notin> set g" "length g \<le> 1022" "length g = length body + 4"
    using assms c hex_char_value [of "c div 16"] hex_char_value [of "c mod 16"]
    by (auto simp: g_def DOLLAR_def CRET_def STAR_def)
  have "nmea_scan [] (g @ CRET # ys) = nmea_scan g (CRET # ys)"
  proof -
    have "nmea_class ([] @ take k g) = NWait" if "0 < k" "k \<le> length g" for k
      using that g by (intro nmea_class_Wait) (auto dest: in_set_takeD)
    from nmea_scan_Waits [of g "[]", OF this] show ?thesis by simp
  qed
  also have "\<dots> = nmea_scan (g @ [CRET]) ys"
    by (rule nmea_scan_verdict(1) [OF nmea_class_Cr [OF g(1-3)]])
  finally have sc: "nmea_scan [] ((g @ [CRET]) @ ys) = nmea_scan (g @ [CRET]) ys" by simp
  have sum: "int c = strtol16 [hex_char (c div 16), hex_char (c mod 16)]"
    by (simp add: strtol16_hex c)
  have "nmea_checksum_ok ((g @ [CRET]) @ [LFEED])"
    using sum g(5) by (simp add: nmea_checksum_ok_def g_def c_def nth_append)
  then have "nmea_class ((g @ [CRET]) @ [LFEED]) = NSentence"
    using g by (subst nmea_class_Lf) (auto simp: nth_append)
  with enc sc show ?thesis by (intro exI [of _ "g @ [CRET]"]) auto
qed

lemma nmea_scan_sentences:
  "\<forall>m \<in> set ms. CRET \<notin> set m \<and> length m \<le> 1018 \<Longrightarrow>
   nmea_scan [] (concat (map nmea_encode ms)) =
     Some ([], concat (map (\<lambda>m. [Packet (nmea_encode m), Stray LFEED]) ms))"
proof (induction ms)
  case (Cons m ms)
  then obtain f where f: "nmea_encode m = f @ [LFEED]" "nmea_class (f @ [LFEED]) = NSentence"
    "\<And>ys. nmea_scan [] (f @ ys) = nmea_scan f ys"
    using nmea_encode_class [of m] by (metis list.set_intros(1) same_append_eq append_same_eq)
  have "nmea_scan [] (nmea_encode m @ concat (map nmea_encode ms)) =
      nmea_then [Packet (nmea_encode m)] (nmea_scan [] (LFEED # concat (map nmea_encode ms)))"
    unfolding f(1) append_assoc f(3) append_Cons append_Nil by (rule nmea_scan_verdict(7) [OF f(2)])
  also have "\<dots> = nmea_then [Packet (nmea_encode m)] (nmea_then [Stray LFEED] (nmea_scan [] (concat (map nmea_encode ms))))"
    using nmea_scan_strays [of "[LFEED]" "concat (map nmea_encode ms)"] by (simp add: DOLLAR_def LFEED_def)
  finally show ?case using Cons by simp
qed simp

text \<open>A filter with both outputs connected, as the examples use it.\<close>

definition nmea_demo :: nmea where
  "nmea_demo = Filter_rest (Pipe_chain (NMEA_new (replicate 1024 0)))"

lemma nmea_demo_simps [simp]:
  "nmea_ok nmea_demo" "nm_pending nmea_demo = []" "emitted nmea_demo = []" "fb_next nmea_demo" "fb_rest nmea_demo"
  by (simp_all add: nmea_demo_def nmea_ok_def Filter_rest_def Pipe_chain_def NMEA_new_def nm_pending_def
      emitted_def counters_ok_def int32_def)

section \<open>Properties\<close>

text \<open>C12: However the stream is cut into buffers, feeding it to the NMEA filter returns. It
  ends with the out-of-bounds error exactly when the byte-wise specification meets a
  sentence that is too short to hold a checksum; otherwise it keeps the invariant (so it
  never writes outside its 1024 bytes) and leaves the bytes held back, the output and the
  statistics of the specification.\<close>

theorem nmea_refines:
  assumes "nmea_ok st"
  shows "case nmea_scan (nm_pending st) (concat bss) of
      None \<Rightarrow> nmea_feeds bss st = Some (Inl NmeaOutOfBounds)
    | Some (p, is) \<Rightarrow> \<exists>t. nmea_feeds bss st = Some (Inr t) \<and> nmea_ok t \<and> nm_pending t = p \<and>
        emitted t = emitted st @ filter (wants st) is \<and>
        (\<forall>n \<in> {''pack'', ''next'', ''rest''}.
           counter n (fb_cnt t) = wrap32 (counter n (fb_cnt st) + tally n is))"
  using nmea_feeds_scan [OF assms, of bss] unfolding delivers_def by (auto split: option.splits)

theorem nmea_refines_witness:
  "\<exists>t. nmea_feeds [[1, 2], [3]] nmea_demo = Some (Inr t) \<and> emitted t = [Stray 1, Stray 2, Stray 3]"
proof -
  have "nmea_scan [] [1, 2, 3] = Some ([], [Stray 1, Stray 2, Stray 3])"
    using nmea_scan_strays [of "[1, 2, 3]" "[]"] by (simp add: DOLLAR_def)
  with nmea_refines [of nmea_demo "[[1, 2], [3]]"] show ?thesis by auto
qed

text \<open>Sentences with a correct checksum come out of the filter as packets, however the
  stream is cut into buffers; but the line feed of each of them is written to the rest
  output as well, because the \<open>LF\<close> state does not move past it.\<close>

theorem nmea_roundtrip:
  assumes "nmea_ok st" "nm_pending st = []"
    and "\<forall>m \<in> set ms. CRET \<notin> set m \<and> length m \<le> 1018"
    and "concat bss = concat (map nmea_encode ms)"
  shows "\<exists>t. nmea_feeds bss st = Some (Inr t) \<and> nm_pending t = [] \<and>
    emitted t = emitted st @
      filter (wants st) (concat (map (\<lambda>m. [Packet (nmea_encode m), Stray LFEED]) ms))"
  using nmea_feeds_scan [OF assms(1), of bss] nmea_scan_sentences [OF assms(3)] assms(2,4)
  by (auto simp: delivers_def)

theorem nmea_roundtrip_witness:
  "\<exists>t. nmea_feeds [take 4 (nmea_encode [0x47, 0x50]), drop 4 (nmea_encode [0x47, 0x50])] nmea_demo = Some (Inr t) \<and>
     emitted t = [Packet (nmea_encode [0x47, 0x50]), Stray LFEED]"
  using nmea_roundtrip [of nmea_demo "[[0x47, 0x50]]"
      "[take 4 (nmea_encode [0x47, 0x50]), drop 4 (nmea_encode [0x47, 0x50])]"]
  by (auto simp: CRET_def)

text \<open>A dollar sign, at most one more byte, carriage return and line feed make the filter
  read outside its array, from any state in which it holds nothing back.\<close>

theorem nmea_short_sentence_faults:
  assumes "nmea_ok st" "nm_pending st = []" "length x \<le> 1" "CRET \<notin> set x"
  shows "NMEA_write ([DOLLAR] @ x @ [CRET, LFEED]) st = Some (Inl NmeaOutOfBounds)"
proof -
  let ?g = "[DOLLAR] @ x"
  have g: "?g \<noteq> []" "?g ! 0 = DOLLAR" "CRET \<notin> set ?g" "length ?g \<le> 2"
    using assms(3,4) by (auto simp: DOLLAR_def CRET_def)
  have "nmea_scan [] (?g @ [CRET, LFEED]) = nmea_scan ?g [CRET, LFEED]"
  proof -
    have "nmea_class ([] @ take k ?g) = NWait" if "0 < k" "k \<le> length ?g" for k
      using that g by (intro nmea_class_Wait) (auto simp: nth_append dest: in_set_takeD split: if_splits)
    from nmea_scan_Waits [of ?g "[]", OF this] show ?thesis by simp
  qed
  also have "\<dots> = nmea_scan (?g @ [CRET]) [LFEED]"
    by (rule nmea_scan_verdict(1) [OF nmea_class_Cr [OF g(1-3)]])
  also have "\<dots> = None"
    using g by (intro nmea_scan_verdict(5), subst nmea_class_Lf) auto
  finally show ?thesis using NMEA_write_scan [OF assms(1), of "?g @ [CRET, LFEED]"] assms(2) by simp
qed

theorem nmea_short_sentence_faults_witness:
  "NMEA_write [DOLLAR, CRET, LFEED] nmea_demo = Some (Inl NmeaOutOfBounds)"
  using nmea_short_sentence_faults [of nmea_demo "[]"] by simp

text \<open>With both outputs connected, the NMEA filter loses and reorders nothing; the only
  bytes it repeats are line feeds.\<close>

theorem nmea_conserves:
  assumes "nmea_ok st" "fb_next st" "fb_rest st" "nmea_feeds bss st = Some (Inr t)"
  shows "\<exists>out. emitted t = emitted st @ out \<and>
    filter (\<lambda>b. b \<noteq> LFEED) (concat (map item_bytes out) @ nm_pending t) =
    filter (\<lambda>b. b \<noteq> LFEED) (nm_pending st @ concat bss)"
proof -
  from nmea_feeds_scan [OF assms(1), of bss] assms(4) obtain "is" where
    s: "nmea_scan (nm_pending st) (concat bss) = Some (nm_pending t, is)" "delivers st t is"
    by (auto split: option.splits)
  have "wants st i" for i using assms(2,3) by (cases i) simp_all
  with s(2) have "emitted t = emitted st @ is" by (simp add: delivers_def)
  then show ?thesis using nmea_scan_bytes [OF s(1)] by blast
qed

theorem nmea_conserves_witness:
  "\<exists>t out. nmea_feeds [[1, 2], [3]] nmea_demo = Some (Inr t) \<and> emitted t = out \<and>
     filter (\<lambda>b. b \<noteq> LFEED) (concat (map item_bytes out) @ nm_pending t) = [1, 2, 3]"
proof -
  have "nmea_scan [] [1, 2, 3] = Some ([], [Stray 1, Stray 2, Stray 3])"
    using nmea_scan_strays [of "[1, 2, 3]" "[]"] by (simp add: DOLLAR_def)
  with nmea_feeds_scan [of nmea_demo "[[1, 2], [3]]"] obtain t where
    "nmea_feeds [[1, 2], [3]] nmea_demo = Some (Inr t)" by auto
  with nmea_conserves [of nmea_demo "[[1, 2], [3]]" t] show ?thesis by (auto simp: LFEED_def)
qed

end
