(* ===== verification/Yaml_Config.thy ===== *)
theory Yaml_Config
  imports Router_Prelude
begin

text \<open>
  Configuration values. The tree a YAML document is parsed to is data; the library that
  parses it and converts scalars to numbers is not part of the repository: the conversions
  the sources use are the arguments \<open>as_int\<close> and \<open>as_bool\<close> of the definitions, \<open>None\<close>
  standing for the exception the library throws. The helper functions are those of
  \<open>src/impl/yaml.h\<close>.
\<close>

datatype yaml =
    YUndef                          \<comment> \<open>a missing entry\<close>
  | YNull
  | YScalar string
  | YSeq "yaml list"
  | YMap "(yaml \<times> yaml) list"

text \<open>Exceptions the sources do not catch where they arise.\<close>

datatype exn = BadSubscript | BadConversion | InvalidArgument | OutOfRange | RegexError

type_synonym 'a res = "exn + 'a"

definition bind_res :: "'a res \<Rightarrow> ('a \<Rightarrow> 'b res) \<Rightarrow> 'b res" where
  "bind_res r f = (case r of Inl e \<Rightarrow> Inl e | Inr x \<Rightarrow> f x)"

lemma bind_res_simps [simp]: "bind_res (Inl e) f = Inl e" "bind_res (Inr x) f = f x"
  by (simp_all add: bind_res_def)

lemma bind_res_Inr: "bind_res r f = Inr y \<longleftrightarrow> (\<exists>x. r = Inr x \<and> f x = Inr y)"
  by (cases r) auto

fun map_res :: "('a \<Rightarrow> 'b res) \<Rightarrow> 'a list \<Rightarrow> 'b list res" where
  "map_res f [] = Inr []"
| "map_res f (x # xs) = bind_res (f x) (\<lambda>y. bind_res (map_res f xs) (\<lambda>ys. Inr (y # ys)))"

fun yaml_find :: "string \<Rightarrow> (yaml \<times> yaml) list \<Rightarrow> yaml" where
  "yaml_find key [] = YUndef"
| "yaml_find key ((k, v) # kvs) = (if k = YScalar key then v else yaml_find key kvs)"

text \<open>\<open>cfg[key]\<close>: subscripting a scalar throws.\<close>

fun yaml_at :: "string \<Rightarrow> yaml \<Rightarrow> yaml res" where
  "yaml_at key (YMap kvs) = Inr (yaml_find key kvs)"
| "yaml_at key (YScalar s) = Inl BadSubscript"
| "yaml_at key y = Inr YUndef"

fun is_map :: "yaml \<Rightarrow> bool" where
  "is_map (YMap kvs) = True" | "is_map _ = False"

fun is_scalar :: "yaml \<Rightarrow> bool" where
  "is_scalar (YScalar s) = True" | "is_scalar _ = False"

fun is_seq :: "yaml \<Rightarrow> bool" where
  "is_seq (YSeq ys) = True" | "is_seq _ = False"

text \<open>The conversion of a node to \<open>bool\<close> is false for a missing entry only.\<close>

definition is_defined :: "yaml \<Rightarrow> bool" where
  "is_defined y \<longleftrightarrow> y \<noteq> YUndef"

fun as_string :: "yaml \<Rightarrow> string res" where
  "as_string (YScalar s) = Inr s"
| "as_string _ = Inl BadConversion"

fun as_number :: "(string \<Rightarrow> 'a option) \<Rightarrow> yaml \<Rightarrow> 'a res" where
  "as_number conv (YScalar s) = (case conv s of None \<Rightarrow> Inl BadConversion | Some n \<Rightarrow> Inr n)"
| "as_number conv _ = Inl BadConversion"

fun as_list :: "(string \<Rightarrow> 'a option) \<Rightarrow> yaml \<Rightarrow> 'a list res" where
  "as_list conv (YSeq ys) = map_res (as_number conv) ys"
| "as_list conv _ = Inl BadConversion"

fun yaml_size :: "yaml \<Rightarrow> nat" where
  "yaml_size (YSeq ys) = Suc (sum_list (map yaml_size ys))"
| "yaml_size (YMap kvs) = Suc (sum_list (map (\<lambda>e. yaml_size (snd e)) kvs))"
| "yaml_size _ = 1"

lemma yaml_find_size: "yaml_size (yaml_find key kvs) \<le> Suc (sum_list (map (\<lambda>e. yaml_size (snd e)) kvs))"
  by (induction key kvs rule: yaml_find.induct) auto

lemma yaml_find_smaller:
  "yaml_find key kvs \<noteq> YUndef \<Longrightarrow> yaml_size (yaml_find key kvs) < Suc (sum_list (map (\<lambda>e. yaml_size (snd e)) kvs))"
  by (induction key kvs rule: yaml_find.induct) (auto split: if_splits)

lemma yaml_size_elem: "y \<in> set ys \<Longrightarrow> yaml_size y < Suc (sum_list (map yaml_size ys))"
  by (induction ys) auto

section \<open>std::stoi\<close>

definition is_blank :: "char \<Rightarrow> bool" where
  "is_blank c \<longleftrightarrow> c \<in> set '' '' \<or> (9 \<le> (of_char c :: nat) \<and> (of_char c :: nat) \<le> 13)"

text \<open>Leading blanks, a sign, digits; the result and how many characters were used.\<close>

definition stoi :: "string \<Rightarrow> (int \<times> nat) res" where
  "stoi s =
     (let t = dropWhile is_blank s;
          neg = (t \<noteq> [] \<and> hd t = CHR ''-'');
          u = (if t \<noteq> [] \<and> (hd t = CHR ''-'' \<or> hd t = CHR ''+'') then tl t else t);
          ds = takeWhile is_digit u;
          v = int (read_digits ds);
          i = (if neg then - v else v)
      in if ds = [] then Inl InvalidArgument
         else if \<not> int32 i then Inl OutOfRange
         else Inr (i, length s - length u + length ds))"

lemma is_digit_not_blank: "is_digit c \<Longrightarrow> \<not> is_blank c \<and> c \<noteq> CHR ''-'' \<and> c \<noteq> CHR ''+''"
  by (auto simp: is_digit_def is_blank_def)

text \<open>A printed number is read back, and the suffix is left.\<close>

lemma stoi_show_nat:
  assumes "int n < 2 ^ 31" "suffix = [] \<or> \<not> is_digit (hd suffix)"
  shows "stoi (show_nat n @ suffix) = Inr (int n, length (show_nat n))"
proof -
  have d: "\<forall>c \<in> set (show_nat n). is_digit c" by (rule show_nat_digits)
  obtain c cs where s: "show_nat n = c # cs" by (cases "show_nat n") auto
  have c: "is_digit c" using d s by simp
  have tw: "takeWhile is_digit (show_nat n @ suffix) = show_nat n"
    using d assms(2) by (cases suffix) (auto simp: takeWhile_append)
  have dw: "dropWhile is_blank (show_nat n @ suffix) = show_nat n @ suffix"
    using is_digit_not_blank [OF c] s by simp
  have hd: "hd (show_nat n @ suffix) = c" "show_nat n @ suffix \<noteq> []" using s by simp_all
  show ?thesis
    using assms(1) is_digit_not_blank [OF c]
    by (simp add: stoi_def Let_def dw tw hd int32_def)
qed

section \<open>Durations, address families, UDP modes\<close>

definition wrap64 :: "int \<Rightarrow> int" where
  "wrap64 x = (x + 2 ^ 63) mod 2 ^ 64 - 2 ^ 63"

definition ns_of :: "int \<Rightarrow> string \<Rightarrow> int" where
  "ns_of count suffix =
     (if suffix = [] then wrap64 (count * 1000000000)
      else if suffix = ''s'' then wrap64 (count * 1000000000)
      else if suffix = ''ms'' then wrap64 (count * 1000000)
      else if suffix = ''us'' then wrap64 (count * 1000)
      else if suffix = ''ns'' then count
      else if suffix = ''m'' then wrap64 (count * 60000000000)
      else if suffix = ''h'' then wrap64 (count * 3600000000000)
      else 0)"

definition duration :: "yaml \<Rightarrow> int res" where
  "duration cfg =
     (if \<not> is_defined cfg then Inr 0
      else bind_res (as_string cfg) (\<lambda>period.
        bind_res (stoi period) (\<lambda>(count, pos). Inr (ns_of count (drop pos period)))))"

datatype family = AF_UNSPEC | AF_INET | AF_INET6 | AF_OTHER nat

definition address_family :: "yaml \<Rightarrow> family res" where
  "address_family cfg =
     (if \<not> is_defined cfg then Inr AF_UNSPEC
      else bind_res (as_string cfg) (\<lambda>d.
        Inr (if d = ''v4'' then AF_INET else if d = ''v6'' then AF_INET6 else AF_UNSPEC)))"

datatype udp_mode = UNICAST | BROADCAST | MULTICAST

definition udp_type :: "yaml \<Rightarrow> udp_mode res" where
  "udp_type cfg =
     (if \<not> is_defined cfg then Inr UNICAST
      else bind_res (as_string cfg) (\<lambda>d.
        Inr (if d = ''unicast'' then UNICAST else if d = ''broadcast'' then BROADCAST
             else if d = ''multicast'' then MULTICAST else UNICAST)))"

section \<open>Properties\<close>

text \<open>A period written as a number and a unit is read as that many nanoseconds: seconds
  without a unit, and s, ms, us, ns, m and h, as long as the value fits.\<close>

theorem duration_roundtrip:
  assumes "(u, k) \<in> {('''', 1000000000), (''s'', 1000000000), (''ms'', 1000000), (''us'', 1000),
      (''ns'', 1), (''m'', 60000000000), (''h'', 3600000000000)}"
    and "int n < 2 ^ 31" "int n * k < 2 ^ 63"
  shows "duration (YScalar (show_nat n @ u)) = Inr (int n * k)"
proof -
  have w: "wrap64 x = x" if "0 \<le> x" "x < 2 ^ 63" for x
    using that unfolding wrap64_def by (subst mod_pos_pos_trivial) simp_all
  have "u = [] \<or> \<not> is_digit (hd u)" using assms(1) by (auto simp: is_digit_def)
  from stoi_show_nat [OF assms(2) this] have
    "duration (YScalar (show_nat n @ u)) = Inr (ns_of (int n) u)"
    by (simp add: duration_def is_defined_def)
  moreover have "ns_of (int n) u = int n * k"
    using assms(1,3) w [of "int n * k"]
    by (simp only: insert_iff empty_iff prod.inject) (elim disjE conjE; simp add: ns_of_def)
  ultimately show ?thesis by simp
qed

theorem duration_roundtrip_witness: "duration (YScalar (show_nat 250 @ ''ms'')) = Inr 250000000"
  using duration_roundtrip [of "''ms''" 1000000 250] by simp

end
