(* ===== verification/Mavlink_Filter.thy ===== *)
theory Mavlink_Filter
  imports Filter_Base Yaml_Config Mavlink1
begin

text \<open>
  The selection of MAVLink messages by system, component and message id and the limit of
  their frequency (\<open>src/filters/mavlink1.h\<close>, class \<open>Mavlink_v1_filter\<close>), and the
  configuration of both MAVLink filters. Times are nanoseconds of the steady clock, whose
  epoch is what a default time point holds.
\<close>

section \<open>State\<close>

datatype mavlink_filter_type = SYSID | COMPID | SYSID_COMPID

record mavlink_filter = filter_base +
  mf_sys :: "int set"
  mf_allow_sys :: bool
  mf_type :: mavlink_filter_type
  mf_msg :: "int set"
  mf_allow_msg :: bool
  mf_silence :: "(int, int) omap"       \<comment> \<open>\<open>silence_period\<close>\<close>
  mf_last :: "(int, int) omap"          \<comment> \<open>\<open>last_send_time\<close>\<close>

text \<open>\<open>type\<close> has no initialiser.\<close>

definition Mavlink_v1_filter_new :: "mavlink_filter_type \<Rightarrow> mavlink_filter" where
  "Mavlink_v1_filter_new junk =
     \<lparr>fb_next = False, fb_rest = False, fb_outs = [], fb_cnt = StatCounters_new ''mavlink_v1'',
      mf_sys = {}, mf_allow_sys = False, mf_type = junk, mf_msg = {}, mf_allow_msg = False,
      mf_silence = [], mf_last = []\<rparr>"

section \<open>Setting up\<close>

definition sys_filter :: "bool \<Rightarrow> mavlink_filter_type \<Rightarrow> int list \<Rightarrow> mavlink_filter \<Rightarrow> mavlink_filter" where
  "sys_filter allow t vs st = st\<lparr>mf_allow_sys := allow, mf_type := t, mf_sys := set vs\<rparr>"

text \<open>The code assigns \<open>allow_sys\<close> here, too.\<close>

definition msg_filter :: "bool \<Rightarrow> int list \<Rightarrow> mavlink_filter \<Rightarrow> mavlink_filter" where
  "msg_filter allow vs st = st\<lparr>mf_allow_sys := allow, mf_msg := set vs\<rparr>"

text \<open>C's division truncates toward zero; dividing by zero traps (\<open>None\<close>).\<close>

definition c_div :: "int \<Rightarrow> int \<Rightarrow> int option" where
  "c_div a b = (if b = 0 then None else Some (sgn a * sgn b * (\<bar>a\<bar> div \<bar>b\<bar>)))"

fun freq_filter :: "(int, int) omap \<Rightarrow> mavlink_filter \<Rightarrow> mavlink_filter option" where
  "freq_filter [] st = Some st"
| "freq_filter ((m, f) # rest) st =
     Option.bind (c_div 1000000000 f)
       (\<lambda>p. freq_filter rest (st\<lparr>mf_silence := om_put m p (mf_silence st)\<rparr>))"

text \<open>\<open>sysid + (compid << 8)\<close> for the pairs of a map of scalars and sequences.\<close>

fun sys_compid_values :: "(string \<Rightarrow> int option) \<Rightarrow> (yaml \<times> yaml) list \<Rightarrow> int list res" where
  "sys_compid_values as_int [] = Inr []"
| "sys_compid_values as_int ((k, v) # kvs) =
     bind_res (as_number as_int k) (\<lambda>sysid.
       bind_res
         (case v of
            YScalar s \<Rightarrow> bind_res (as_number as_int v) (\<lambda>c. Inr [wrap32 (sysid + c * 256)])
          | YSeq cs \<Rightarrow> map_res (\<lambda>y. bind_res (as_number as_int y) (\<lambda>c. Inr (wrap32 (sysid + c * 256)))) cs
          | _ \<Rightarrow> Inr [])
         (\<lambda>here. bind_res (sys_compid_values as_int kvs) (\<lambda>rest. Inr (here @ rest))))"

definition int_values :: "(string \<Rightarrow> int option) \<Rightarrow> yaml \<Rightarrow> int list option res" where
  "int_values as_int y =
     (case y of
        YSeq ys \<Rightarrow> bind_res (as_list as_int y) (\<lambda>vs. Inr (Some vs))
      | YScalar s \<Rightarrow> bind_res (as_number as_int y) (\<lambda>v. Inr (Some [v]))
      | _ \<Rightarrow> Inr None)"

text \<open>One chapter: nothing when it is missing, an error message (no effect here) when it has
  the wrong shape.\<close>

definition setup_chapter ::
    "(string \<Rightarrow> int option) \<Rightarrow> string \<Rightarrow> yaml \<Rightarrow> (int list \<Rightarrow> mavlink_filter \<Rightarrow> mavlink_filter) \<Rightarrow>
     mavlink_filter \<Rightarrow> mavlink_filter res" where
  "setup_chapter as_int key cfg f st =
     bind_res (yaml_at key cfg) (\<lambda>chapter.
       if \<not> is_defined chapter then Inr st
       else bind_res (int_values as_int chapter)
         (\<lambda>vs. Inr (case vs of None \<Rightarrow> st | Some vs \<Rightarrow> f vs st)))"

definition setup_filter ::
    "(string \<Rightarrow> int option) \<Rightarrow> bool \<Rightarrow> yaml \<Rightarrow> mavlink_filter \<Rightarrow> mavlink_filter res" where
  "setup_filter as_int allow cfg st =
     bind_res (setup_chapter as_int ''msgs'' cfg (msg_filter allow) st) (\<lambda>st.
     bind_res (setup_chapter as_int ''sysid'' cfg (sys_filter allow SYSID) st) (\<lambda>st.
     bind_res (setup_chapter as_int ''compid'' cfg (sys_filter allow COMPID) st) (\<lambda>st.
     bind_res (yaml_at ''sys_compid'' cfg) (\<lambda>chapter.
       case chapter of
         YMap kvs \<Rightarrow> bind_res (sys_compid_values as_int kvs)
           (\<lambda>vs. Inr (if vs \<noteq> [] then sys_filter allow SYSID_COMPID vs st else st))
       | _ \<Rightarrow> setup_chapter as_int ''sys_compid'' cfg (sys_filter allow SYSID_COMPID) st))))"

fun int_map :: "(string \<Rightarrow> int option) \<Rightarrow> (yaml \<times> yaml) list \<Rightarrow> (int, int) omap res" where
  "int_map as_int [] = Inr []"
| "int_map as_int ((k, v) # kvs) =
     bind_res (as_number as_int k) (\<lambda>k. bind_res (as_number as_int v) (\<lambda>v.
       bind_res (int_map as_int kvs) (\<lambda>m. Inr (om_put k v m))))"

text \<open>The outer \<open>None\<close> is the trap of a zero frequency.\<close>

definition Mavlink_v1_filter_init_yaml ::
    "(string \<Rightarrow> int option) \<Rightarrow> yaml \<Rightarrow> mavlink_filter \<Rightarrow> mavlink_filter res option" where
  "Mavlink_v1_filter_init_yaml as_int cfg st =
     (let r = bind_res (yaml_at ''allow'' cfg) (\<lambda>a. bind_res (setup_filter as_int True a st) (\<lambda>st.
              bind_res (yaml_at ''deny'' cfg) (\<lambda>d. bind_res (setup_filter as_int False d st) (\<lambda>st.
              bind_res (yaml_at ''freq'' cfg) (\<lambda>q. Inr (q, st))))))
      in case r of
           Inl e \<Rightarrow> Some (Inl e)
         | Inr (YMap kvs, st) \<Rightarrow>
             (case int_map as_int kvs of
                Inl e \<Rightarrow> Some (Inl e)
              | Inr m \<Rightarrow> map_option Inr (freq_filter m st))
         | Inr (_, st) \<Rightarrow> Some (Inr st))"

text \<open>\<open>Mavlink_v1::init_yaml\<close>: the table of extra CRC bytes.\<close>

definition Mavlink_v1_init_yaml ::
    "(string \<Rightarrow> byte option) \<Rightarrow> yaml \<Rightarrow> mavlink_v1 \<Rightarrow> mavlink_v1 res" where
  "Mavlink_v1_init_yaml as_byte cfg st =
     bind_res (yaml_at ''crc_extra'' cfg) (\<lambda>crcs.
       case crcs of
         YSeq ys \<Rightarrow> bind_res (as_list as_byte crcs) (\<lambda>holder.
             let holder = (if length holder < 256 then holder @ replicate (256 - length holder) 0 else holder)
             in Inr (st\<lparr>ml_crc_extra := Some holder\<rparr>))
       | _ \<Rightarrow> Inr (st\<lparr>ml_crc_extra := Some crc_extra\<rparr>))"

section \<open>Passing packets\<close>

text \<open>\<open>msg.find(msgid) != sys.end()\<close> compares an iterator of one set with the end of
  another. Iterators of different containers are never equal in the library the project is
  built with, so the test is always true.\<close>

definition msg_found :: "byte \<Rightarrow> mavlink_filter \<Rightarrow> bool" where
  "msg_found msgid st \<longleftrightarrow> True"

definition sys_value :: "byte \<Rightarrow> byte \<Rightarrow> mavlink_filter \<Rightarrow> int" where
  "sys_value sysid compid st =
     (case mf_type st of SYSID \<Rightarrow> uint sysid | COMPID \<Rightarrow> uint compid
      | SYSID_COMPID \<Rightarrow> uint sysid + uint compid * 256)"

definition passed :: "int \<Rightarrow> byte \<Rightarrow> byte \<Rightarrow> byte \<Rightarrow> mavlink_filter \<Rightarrow> bool \<times> mavlink_filter" where
  "passed now sysid compid msgid st =
     (if mf_sys st \<noteq> {} \<and> (mf_allow_sys st \<noteq> (sys_value sysid compid st \<in> mf_sys st))
      then (False, fb_add ''sysfilter'' 1 st)
      else if mf_msg st \<noteq> {} \<and> (mf_allow_msg st \<noteq> msg_found msgid st)
      then (False, fb_add ''msgfilter'' 1 st)
      else if mf_silence st \<noteq> [] then
        (case map_of (mf_silence st) (uint msgid) of
           None \<Rightarrow> (True, st)
         | Some period \<Rightarrow>
             (let last = (case map_of (mf_last st) (uint msgid) of None \<Rightarrow> 0 | Some t \<Rightarrow> t)
              in if now - last < period
                 then (False, fb_add ''freqfilter'' 1
                        (st\<lparr>mf_last := om_put (uint msgid) last (mf_last st)\<rparr>))
                 else (True, st\<lparr>mf_last := om_put (uint msgid) now (mf_last st)\<rparr>)))
      else (True, st))"

definition Mavlink_v1_filter_write :: "int \<Rightarrow> bytes \<Rightarrow> mavlink_filter \<Rightarrow> mavlink_filter" where
  "Mavlink_v1_filter_write now buf st =
     (case passed now (buf ! 3) (buf ! 4) (buf ! 5) st of
        (True, st1) \<Rightarrow> FilterBase_write_next buf st1
      | (False, st1) \<Rightarrow> FilterBase_write_rest buf st1)"

section \<open>Lemmas\<close>

lemma mf_keeps [simp]:
  "mf_silence (fb_add n v st) = mf_silence st" "mf_last (fb_add n v st) = mf_last st"
  "mf_msg (fb_add n v st) = mf_msg st" "mf_allow_msg (fb_add n v st) = mf_allow_msg st"
  "mf_silence (FilterBase_write_next b st) = mf_silence st" "mf_last (FilterBase_write_next b st) = mf_last st"
  "mf_silence (FilterBase_write_rest b st) = mf_silence st" "mf_last (FilterBase_write_rest b st) = mf_last st"
  by (simp_all add: fb_add_def FilterBase_write_next_def FilterBase_write_rest_def Pipe_write_next_def
      Filter_write_rest_def)

definition last_sent :: "int \<Rightarrow> mavlink_filter \<Rightarrow> int" where
  "last_sent m st = (case map_of (mf_last st) m of None \<Rightarrow> 0 | Some t \<Rightarrow> t)"

lemma passed_silence [simp]: "mf_silence (snd (passed now s c m st)) = mf_silence st"
  by (simp add: passed_def Let_def split: option.split)

lemma passed_period:
  assumes "map_of (mf_silence st) m = Some p"
  shows "last_sent m (snd (passed now s c m' st)) =
      (if fst (passed now s c m' st) \<and> uint m' = m then now else last_sent m st)"
    and "fst (passed now s c m' st) \<Longrightarrow> uint m' = m \<Longrightarrow> p \<le> now - last_sent m st"
  using assms
  by (auto simp: passed_def last_sent_def Let_def om.get_put split: option.splits if_splits)

text \<open>A series of packets, each with the time it comes at; the times at which those of
  message \<open>m\<close> are passed.\<close>

fun pass_times :: "int \<Rightarrow> (int \<times> byte \<times> byte \<times> byte) list \<Rightarrow> mavlink_filter \<Rightarrow> int list" where
  "pass_times m [] st = []"
| "pass_times m ((now, s, c, msgid) # es) st =
     (case passed now s c msgid st of (ok, st1) \<Rightarrow>
        (if ok \<and> uint msgid = m then now # pass_times m es st1 else pass_times m es st1))"

lemma pass_times_spaced:
  assumes "map_of (mf_silence st) m = Some p" "0 \<le> p"
  shows "sorted_wrt (\<lambda>a b. p \<le> b - a) (last_sent m st # pass_times m es st)"
  using assms(1)
proof (induction es arbitrary: st)
  case (Cons e es)
  obtain now s c msgid where e: "e = (now, s, c, msgid)" by (cases e)
  obtain ok st1 where p: "passed now s c msgid st = (ok, st1)" by fastforce
  have s1: "map_of (mf_silence st1) m = Some p"
    using Cons.prems passed_silence [of now s c msgid st] p by simp
  note l = passed_period [OF Cons.prems, of now s c msgid, unfolded p, simplified]
  from Cons.IH [OF s1] l assms(2) show ?case
    by (fastforce simp: e p)
qed simp

section \<open>Properties\<close>

text \<open>C15: Of a message with a frequency limit, no two packets closer together than the silence
  period are passed, whatever comes in between and at whatever times.\<close>

theorem rate_limit_spacing:
  assumes "map_of (mf_silence st) m = Some p" "0 \<le> p"
  shows "sorted_wrt (\<lambda>a b. p \<le> b - a) (pass_times m es st)"
  using pass_times_spaced [OF assms] by simp

theorem rate_limit_spacing_witness:
  "sorted_wrt (\<lambda>a b. 10 \<le> b - a)
     (pass_times 30 [(20, 1, 1, 30), (25, 1, 1, 30), (26, 1, 1, 0), (31, 1, 1, 30)]
        ((Mavlink_v1_filter_new SYSID)\<lparr>mf_silence := [(30, 10)]\<rparr>))"
  using rate_limit_spacing [of "(Mavlink_v1_filter_new SYSID)\<lparr>mf_silence := [(30, 10)]\<rparr>" 30 10
      "[(20, 1, 1, 30), (25, 1, 1, 30), (26, 1, 1, 0), (31, 1, 1, 30)]"] by simp

text \<open>C16: However the message list was configured, with or without \<open>allow\<close>, a filter that has
  one passes no packet at all: \<open>msg_filter\<close> sets the wrong flag, and \<open>passed\<close> compares
  with the end of the wrong set.\<close>

theorem msg_filter_drops_all:
  assumes "vs \<noteq> []" "\<not> mf_allow_msg st"
  shows "\<not> fst (passed now sysid compid msgid (msg_filter allow vs st))"
  using assms by (simp add: passed_def msg_filter_def msg_found_def)

theorem msg_filter_drops_all_witness:
  "\<not> fst (passed 5 1 1 30 (msg_filter True [30] (Mavlink_v1_filter_new SYSID)))"
  using msg_filter_drops_all [of "[30]" "Mavlink_v1_filter_new SYSID" 5 1 1 30 True]
  by (simp add: Mavlink_v1_filter_new_def)

end
