(* ===== verification/Hex_Dump.thy ===== *)
theory Hex_Dump
  imports Filter_Base
begin

text \<open>
  The hex dump (\<open>src/filters/hex.h\<close>, class \<open>Hex\<close>): sixteen bytes a line, with the offset,
  the printable characters and the hexadecimal values. The stream manipulators leave the
  state they leave in the code: the adjustment is \<open>right\<close> for the offset and \<open>left\<close> for
  the two columns.
\<close>

definition pad_left :: "nat \<Rightarrow> char \<Rightarrow> string \<Rightarrow> string" where
  "pad_left w c s = replicate (w - length s) c @ s"

definition pad_right :: "nat \<Rightarrow> char \<Rightarrow> string \<Rightarrow> string" where
  "pad_right w c s = s @ replicate (w - length s) c"

text \<open>\<open>std::isprint\<close> in the C locale, which a byte outside ASCII is not.\<close>

definition hex_printable :: "byte \<Rightarrow> bool" where
  "hex_printable b \<longleftrightarrow> 32 \<le> b \<and> b \<le> 126"

definition hex_raw :: "bytes \<Rightarrow> string" where
  "hex_raw bs = map (\<lambda>b. if hex_printable b then char_of (unat b) else CHR ''.'') bs"

definition hex_digits :: "bytes \<Rightarrow> string" where
  "hex_digits bs = concat (map (\<lambda>b. pad_left 2 CHR ''0'' (show_hex (unat b)) @ '' '') bs)"

definition hex_line :: "nat \<Rightarrow> bytes \<Rightarrow> string" where
  "hex_line offset bs =
     pad_left 4 CHR ''0'' (show_hex offset) @ '' : '' @
     pad_right 17 CHR '' '' (hex_raw bs) @ pad_right 48 CHR '' '' (hex_digits bs) @ [CHR 0x0A]"

function hex_lines :: "nat \<Rightarrow> bytes \<Rightarrow> string" where
  "hex_lines offset bs =
     (if bs = [] then []
      else hex_line offset (take 16 bs) @ hex_lines (offset + length (take 16 bs)) (drop 16 bs))"
  by pat_completeness auto
termination by (relation "measure (\<lambda>(offset, bs). length bs)") auto

declare hex_lines.simps [simp del]

definition string_bytes :: "string \<Rightarrow> bytes" where
  "string_bytes s = map (\<lambda>c. of_nat (of_char c)) s"

definition Hex_write :: "bytes \<Rightarrow> 'a filter_base_scheme \<Rightarrow> int \<times> 'a filter_base_scheme" where
  "Hex_write buf st =
     (int (length buf), FilterBase_write_next (string_bytes (hex_lines 0 buf)) st)"

lemma length_show_hex_byte: "length (show_hex (unat (b :: byte))) \<le> 2 \<and> 1 \<le> length (show_hex (unat b))"
proof -
  have b: "unat b < 256" by (rule unat_byte_less)
  show ?thesis
  proof (cases "unat b < 16")
    case True
    then have "show_hex (unat b) = [digit_char (unat b)]"
      unfolding show_hex_def by (subst show_base.simps) simp
    then show ?thesis by simp
  next
    case False
    have "unat b div 16 < 16" using b by simp
    then have "length (show_base 16 (unat b div 16)) = 1" by (subst show_base.simps) simp
    moreover have "show_hex (unat b) = show_base 16 (unat b div 16) @ [digit_char (unat b mod 16)]"
      using False unfolding show_hex_def by (subst show_base.simps) simp
    ultimately show ?thesis by simp
  qed
qed

lemma length_hex_digits: "length (hex_digits bs) = 3 * length bs"
  using length_show_hex_byte
  by (induction bs) (auto simp: hex_digits_def pad_left_def max_def le_antisym)

lemma length_hex_line:
  assumes "length bs \<le> 16" "length (show_hex offset) \<le> 4"
  shows "length (hex_line offset bs) = 73"
  using assms by (simp add: hex_line_def pad_left_def pad_right_def hex_raw_def length_hex_digits)

lemma length_show_hex_bound: "n < 16 ^ Suc k \<Longrightarrow> length (show_hex n) \<le> Suc k"
proof (induction k arbitrary: n)
  case 0
  then show ?case unfolding show_hex_def by (subst show_base.simps) simp
next
  case (Suc k)
  have "n div 16 < 16 ^ Suc k" using Suc.prems by (simp add: less_mult_imp_div_less mult.commute)
  from Suc.IH [OF this] show ?case
    unfolding show_hex_def by (subst show_base.simps) simp
qed

text \<open>The dump of a buffer of at most 65536 bytes has one line of 73 characters for every
  sixteen bytes begun, and the filter hands on exactly that, once, whatever the buffer
  holds.\<close>

theorem hex_dump_size:
  assumes "offset + length bs \<le> 65536"
  shows "length (hex_lines offset bs) = 73 * ((length bs + 15) div 16)"
  using assms
proof (induction offset bs rule: hex_lines.induct)
  case (1 offset bs)
  show ?case
  proof (cases "bs = []")
    case False
    have "length (show_hex offset) \<le> 4"
      using 1(2) False length_show_hex_bound [of offset 3] by (cases bs) auto
    then have l: "length (hex_line offset (take 16 bs)) = 73" by (intro length_hex_line) auto
    have "length (hex_lines (offset + length (take 16 bs)) (drop 16 bs)) =
        73 * ((length (drop 16 bs) + 15) div 16)"
      using 1(2) by (intro 1(1) [OF False]) auto
    moreover have "Suc ((length (drop 16 bs) + 15) div 16) = (length bs + 15) div 16"
    proof (cases "length bs \<le> 16")
      case True
      moreover have "length bs \<noteq> 0" using False by simp
      ultimately have "(length bs + 15) div 16 = 1" by linarith
      with True show ?thesis by simp
    next
      case False
      then have "length bs + 15 = 16 + (length bs - 16 + 15)" by simp
      then show ?thesis by simp
    qed
    ultimately show ?thesis using False l by (subst hex_lines.simps) simp
  qed (simp add: hex_lines.simps)
qed

theorem hex_dump_size_witness: "length (hex_lines 0 (replicate 20 7)) = 146"
  using hex_dump_size [of 0 "replicate 20 7"] by simp

end
