(* ===== verification/Filters_Factory.thy ===== *)
theory Filters_Factory
  imports Mavlink_Filter Nmea Rtcm3 Ubx Hex_Dump
begin

text \<open>
  The filters as the router creates and calls them (\<open>src/filters.cpp\<close>): a filter by name,
  with its configuration, and the virtual \<open>write\<close> of whichever filter it is.
\<close>

datatype filter_obj =
    FMavlink mavlink_v1
  | FNmea nmea
  | FRtcm rtcm
  | FUbx ubx
  | FHex filter_base

definition Hex_new :: filter_base where
  "Hex_new = \<lparr>fb_next = False, fb_rest = False, fb_outs = [], fb_cnt = StatCounters_new ''hex''\<rparr>"

text \<open>\<open>junk\<close> is what the memory of a new array of the given size holds.\<close>

definition Filters_create :: "(nat \<Rightarrow> bytes) \<Rightarrow> string \<Rightarrow> filter_obj option" where
  "Filters_create junk name =
     (if name = ''mavlink1'' then Some (FMavlink (Mavlink_v1_new (junk 263)))
      else if name = ''nmea'' then Some (FNmea (NMEA_new (junk 1024)))
      else if name = ''rtcm3'' then Some (FRtcm (RTCM_v3_new (junk 1029)))
      else if name = ''ubx'' then Some (FUbx (UBX_new (junk 65543)))
      else if name = ''hex'' then Some (FHex Hex_new)
      else None)"

text \<open>\<open>init_yaml\<close> of all filters but MAVLink does nothing; none of them returns an error, but
  a conversion may throw.\<close>

definition filter_init_yaml :: "(string \<Rightarrow> byte option) \<Rightarrow> yaml \<Rightarrow> filter_obj \<Rightarrow> filter_obj res" where
  "filter_init_yaml as_byte cfg f =
     (case f of
        FMavlink st \<Rightarrow> bind_res (Mavlink_v1_init_yaml as_byte cfg st) (\<lambda>st. Inr (FMavlink st))
      | _ \<Rightarrow> Inr f)"

definition Filters_create_yaml ::
    "(nat \<Rightarrow> bytes) \<Rightarrow> (string \<Rightarrow> byte option) \<Rightarrow> string \<Rightarrow> yaml \<Rightarrow> filter_obj option res" where
  "Filters_create_yaml junk as_byte name cfg =
     (case Filters_create junk name of
        None \<Rightarrow> Inr None
      | Some f \<Rightarrow> bind_res (filter_init_yaml as_byte cfg f) (\<lambda>f. Inr (Some f)))"

fun filter_chain :: "filter_obj \<Rightarrow> filter_obj" where
  "filter_chain (FMavlink st) = FMavlink (Pipe_chain st)"
| "filter_chain (FNmea st) = FNmea (Pipe_chain st)"
| "filter_chain (FRtcm st) = FRtcm (Pipe_chain st)"
| "filter_chain (FUbx st) = FUbx (Pipe_chain st)"
| "filter_chain (FHex st) = FHex (Pipe_chain st)"

fun filter_rest :: "filter_obj \<Rightarrow> filter_obj" where
  "filter_rest (FMavlink st) = FMavlink (Filter_rest st)"
| "filter_rest (FNmea st) = FNmea (Filter_rest st)"
| "filter_rest (FRtcm st) = FRtcm (Filter_rest st)"
| "filter_rest (FUbx st) = FUbx (Filter_rest st)"
| "filter_rest (FHex st) = FHex (Filter_rest st)"

text \<open>The calls a filter has made since its list of calls was emptied.\<close>

fun filter_outs :: "filter_obj \<Rightarrow> (port \<times> bytes) list" where
  "filter_outs (FMavlink st) = fb_outs st"
| "filter_outs (FNmea st) = fb_outs st"
| "filter_outs (FRtcm st) = fb_outs st"
| "filter_outs (FUbx st) = fb_outs st"
| "filter_outs (FHex st) = fb_outs st"

text \<open>One call of \<open>write\<close>: the calls it makes downstream, and the filter afterwards;
  \<open>None\<close> when it does not return or reads outside its array.\<close>

fun filter_write :: "bytes \<Rightarrow> filter_obj \<Rightarrow> filter_obj option" where
  "filter_write buf (FMavlink st) = map_option (\<lambda>r. FMavlink (snd r)) (Mavlink_v1_write buf (st\<lparr>fb_outs := []\<rparr>))"
| "filter_write buf (FNmea st) =
     Option.bind (NMEA_write buf (st\<lparr>fb_outs := []\<rparr>))
       (\<lambda>r. case r of Inl e \<Rightarrow> None | Inr q \<Rightarrow> Some (FNmea (snd q)))"
| "filter_write buf (FRtcm st) = map_option (\<lambda>r. FRtcm (snd r)) (RTCM_v3_write buf (st\<lparr>fb_outs := []\<rparr>))"
| "filter_write buf (FUbx st) = map_option (\<lambda>r. FUbx (snd r)) (UBX_write buf (st\<lparr>fb_outs := []\<rparr>))"
| "filter_write buf (FHex st) = Some (FHex (snd (Hex_write buf (st\<lparr>fb_outs := []\<rparr>))))"

text \<open>The invariant of every kind of filter, and that creating one establishes it.\<close>

fun filter_ok :: "filter_obj \<Rightarrow> bool" where
  "filter_ok (FMavlink st) = mavlink_ok st"
| "filter_ok (FNmea st) = nmea_ok st"
| "filter_ok (FRtcm st) = rtcm_ok st"
| "filter_ok (FUbx st) = ubx_ok st"
| "filter_ok (FHex st) = counters_ok st"

lemma filter_ok_outs:
  "mavlink_ok st1 \<Longrightarrow> mavlink_ok (st1\<lparr>fb_outs := []\<rparr>)" "nmea_ok st2 \<Longrightarrow> nmea_ok (st2\<lparr>fb_outs := []\<rparr>)"
  "rtcm_ok st3 \<Longrightarrow> rtcm_ok (st3\<lparr>fb_outs := []\<rparr>)" "ubx_ok st4 \<Longrightarrow> ubx_ok (st4\<lparr>fb_outs := []\<rparr>)"
  by (auto simp: mavlink_ok_def nmea_ok_def rtcm_ok_def ubx_ok_def counters_ok_def ml_size_def)

text \<open>Every call of \<open>write\<close> on a filter in order keeps it in order and returns, except that NMEA may
  read outside its array.\<close>

fun is_nmea :: "filter_obj \<Rightarrow> bool" where
  "is_nmea (FNmea st) = True" | "is_nmea _ = False"

lemma filter_write_returns:
  assumes "filter_ok f" "\<not> is_nmea f"
  shows "\<exists>f'. filter_write buf f = Some f' \<and> filter_ok f'"
proof (cases f)
  case (FMavlink st)
  with assms ml.loop_refines [OF filter_ok_outs(1), of st buf] show ?thesis by auto
next
  case (FRtcm st)
  with assms rt.loop_refines [OF filter_ok_outs(3), of st buf] show ?thesis by auto
next
  case (FUbx st)
  with assms ub.loop_refines [OF filter_ok_outs(4), of st buf] show ?thesis by auto
next
  case (FHex st)
  with assms have "counters_ok (st\<lparr>fb_outs := []\<rparr>)" by (simp add: counters_ok_def)
  from delivers_ok [OF delivers_write_next [OF this]] FHex show ?thesis by (simp add: Hex_write_def)
qed (use assms in simp)

lemma filter_write_kind: "filter_write buf f = Some f' \<Longrightarrow> is_nmea f' = is_nmea f"
  by (cases f) (auto simp: bind_eq_Some_conv split: sum.splits, metis is_nmea.simps(1) prod.collapse sum.exhaust)

lemma filter_write_keeps:
  assumes "filter_ok f" "filter_write buf f = Some f'"
  shows "filter_ok f'"
proof (cases "is_nmea f")
  case True
  then obtain st where f: "f = FNmea st" by (cases f) auto
  with assms(1) NMEA_write_scan [OF filter_ok_outs(2), of st buf] assms(2) show ?thesis
    by (auto split: option.splits)
qed (use filter_write_returns [OF assms(1), of buf] assms(2) in auto)

lemma Filters_create_ok:
  "(\<And>n. length (junk n) = n) \<Longrightarrow> Filters_create junk name = Some f \<Longrightarrow> filter_ok f"
  by (auto simp: Filters_create_def Hex_new_def counters_ok_def int32_def nmea_ok_def NMEA_new_def
      intro!: mavlink_ok_new rtcm_ok_new ubx_ok_new split: if_splits)

end
