(* ===== verification/Destinations.thy ===== *)
theory Destinations
  imports Filters_Factory "HOL-Library.Multiset"
begin

text \<open>
  Collections of endpoints (\<open>app/uav-router.cpp\<close>, class \<open>Destination\<close>) and the graph of
  writable objects they and the filters form. Objects have addresses; 0 is the null
  pointer. A weak pointer is an address whose object may be gone; what holds the objects
  alive is modelled in \<open>Router\<close>. An address collection is a list without duplicates in
  address order, as a \<open>std::map\<close> keyed by pointers iterates.
\<close>

type_synonym wid = nat

datatype wobj =
    WDest "wid list"                          \<comment> \<open>\<open>Destination::endpoints\<close>\<close>
  | WFilter filter_obj wid wid                \<comment> \<open>a filter, its \<open>_next\<close> and \<open>_rest\<close>\<close>
  | WSink                                     \<comment> \<open>a client, UDP client or file\<close>

type_synonym heap = "wid \<Rightarrow> wobj option"      \<comment> \<open>\<open>None\<close>: destroyed, \<open>expired()\<close>\<close>

section \<open>Destination\<close>

fun insert_wid :: "wid \<Rightarrow> wid list \<Rightarrow> wid list" where
  "insert_wid x [] = [x]"
| "insert_wid x (y # ys) = (if x < y then x # y # ys else if x = y then y # ys else y # insert_wid x ys)"

definition Destination_add :: "wid \<Rightarrow> wid list \<Rightarrow> wid list" where
  "Destination_add e es = insert_wid e es"

text \<open>\<open>Destination::write\<close>: the result, the endpoints kept, and the endpoints written to, in
  order. \<open>alive\<close> is what the weak pointers answer, \<open>reply\<close> what a single endpoint's \<open>write\<close>
  returns.\<close>

definition Destination_write ::
    "(wid \<Rightarrow> bool) \<Rightarrow> (wid \<Rightarrow> int) \<Rightarrow> int \<Rightarrow> wid list \<Rightarrow> int \<times> wid list \<times> wid list" where
  "Destination_write alive reply len es =
     (if es = [] then (0, [], [])
      else if length es = 1 then
        (if \<not> alive (hd es) then (0, [], []) else (reply (hd es), es, es))
      else (len, filter alive es, filter alive es))"

lemma insert_wid_set [simp]: "set (insert_wid x ys) = insert x (set ys)"
  by (induction x ys rule: insert_wid.induct) auto

lemma insert_wid_sorted: "sorted_wrt (<) ys \<Longrightarrow> sorted_wrt (<) (insert_wid x ys)"
  by (induction x ys rule: insert_wid.induct) auto

lemma Destination_write_targets:
  "snd (snd (Destination_write alive reply len es)) = filter alive es"
  by (cases es) (auto simp: Destination_write_def)

lemma Destination_write_kept:
  "fst (snd (Destination_write alive reply len es)) = filter alive es"
  by (cases es) (auto simp: Destination_write_def)

section \<open>Writing into the graph\<close>

definition filter_target :: "port \<Rightarrow> wid \<Rightarrow> wid \<Rightarrow> wid" where
  "filter_target p nxt rst = (case p of NextPort \<Rightarrow> nxt | RestPort \<Rightarrow> rst)"

text \<open>
  The calls still to be made, the first one first: a call on a destination is replaced by
  the calls on its endpoints, one on a filter by the calls it makes, one on a sink is
  recorded. This is the order of the nested calls of the code, as long as no call destroys
  an object the calls around it still use. \<open>None\<close> is a run that does not end, or in which
  a filter fails.
\<close>

partial_function (option) run_writes ::
    "(wid \<times> bytes) list \<Rightarrow> heap \<Rightarrow> (heap \<times> (wid \<times> bytes) list) option" where
  "run_writes ts h =
     (case ts of
        [] \<Rightarrow> Some (h, [])
      | (o1, buf) # ts1 \<Rightarrow>
          (case h o1 of
             None \<Rightarrow> run_writes ts1 h
           | Some WSink \<Rightarrow> Option.bind (run_writes ts1 h) (\<lambda>r. Some (fst r, (o1, buf) # snd r))
           | Some (WDest es) \<Rightarrow>
               (case Destination_write (\<lambda>e. h e \<noteq> None) (\<lambda>e. 0) 0 es of (_, kept, targets) \<Rightarrow>
                  run_writes (map (\<lambda>e. (e, buf)) targets @ ts1) (h(o1 \<mapsto> WDest kept)))
           | Some (WFilter f nxt rst) \<Rightarrow>
               (case filter_write buf f of
                  None \<Rightarrow> None
                | Some f1 \<Rightarrow>
                    run_writes (map (\<lambda>(p, b). (filter_target p nxt rst, b)) (filter_outs f1) @ ts1)
                      (h(o1 \<mapsto> WFilter f1 nxt rst)))))"

definition write_to :: "wid \<Rightarrow> bytes \<Rightarrow> heap \<Rightarrow> (heap \<times> (wid \<times> bytes) list) option" where
  "write_to d buf h = run_writes [(d, buf)] h"

text \<open>A rank on the live objects that every connection decreases: the graph has no cycle.\<close>

definition acyclic_heap :: "(wid \<Rightarrow> nat) \<Rightarrow> heap \<Rightarrow> bool" where
  "acyclic_heap rank h \<longleftrightarrow>
     (\<forall>d es. h d = Some (WDest es) \<longrightarrow> (\<forall>e \<in> set es. h e \<noteq> None \<longrightarrow> rank e < rank d)) \<and>
     (\<forall>d f n r. h d = Some (WFilter f n r) \<longrightarrow>
        (h n \<noteq> None \<longrightarrow> rank n < rank d) \<and> (h r \<noteq> None \<longrightarrow> rank r < rank d))"

text \<open>What a write delivers when no filter is involved: the sinks below a destination, in
  the order of the endpoints, as a function of the rank.\<close>

fun sinks_below :: "nat \<Rightarrow> heap \<Rightarrow> wid \<Rightarrow> wid list" where
  "sinks_below 0 h d = (case h d of Some WSink \<Rightarrow> [d] | _ \<Rightarrow> [])"
| "sinks_below (Suc n) h d =
     (case h d of
        Some WSink \<Rightarrow> [d]
      | Some (WDest es) \<Rightarrow> concat (map (sinks_below n h) es)
      | _ \<Rightarrow> [])"

text \<open>Two heaps that differ only in dropped dead endpoints.\<close>

definition pruned :: "heap \<Rightarrow> heap \<Rightarrow> bool" where
  "pruned h h' \<longleftrightarrow> (\<forall>d. case h d of
      Some (WDest es) \<Rightarrow> h' d = Some (WDest es) \<or> h' d = Some (WDest (filter (\<lambda>e. h e \<noteq> None) es))
    | x \<Rightarrow> h' d = x)"

definition no_filters :: "heap \<Rightarrow> bool" where
  "no_filters h \<longleftrightarrow> (\<forall>d f n r. h d \<noteq> Some (WFilter f n r))"

lemma pruned_cases:
  assumes "pruned h h'"
  obtains "h d = None" "h' d = None"
  | "h d = Some WSink" "h' d = Some WSink"
  | f n r where "h d = Some (WFilter f n r)" "h' d = Some (WFilter f n r)"
  | es where "h d = Some (WDest es)" "h' d = Some (WDest es) \<or> h' d = Some (WDest (filter (\<lambda>e. h e \<noteq> None) es))"
proof -
  have c: "case h d of Some (WDest es) \<Rightarrow> h' d = Some (WDest es) \<or>
      h' d = Some (WDest (filter (\<lambda>e. h e \<noteq> None) es)) | x \<Rightarrow> h' d = x"
    using assms by (simp add: pruned_def)
  show thesis
  proof (cases "h d")
    case None
    with c that(1) show thesis by simp
  next
    case (Some x)
    with c that(2-4) show thesis by (cases x) auto
  qed
qed

lemma pruned_alive: "pruned h h' \<Longrightarrow> h' e = None \<longleftrightarrow> h e = None"
  by (erule pruned_cases [of h h' e]) auto

lemma pruned_dest:
  assumes "pruned h h'" "h' d = Some (WDest es)"
  shows "\<exists>es'. h d = Some (WDest es') \<and> (es = es' \<or> es = filter (\<lambda>e. h e \<noteq> None) es')"
  by (rule pruned_cases [OF assms(1), of d]) (use assms(2) in \<open>auto simp del: not_None_eq\<close>)

lemma pruned_sink: "pruned h h' \<Longrightarrow> h' d = Some WSink \<longleftrightarrow> h d = Some WSink"
  by (erule pruned_cases [of h h' d]) auto

lemma pruned_refl [simp]: "pruned h h"
  by (auto simp: pruned_def split: option.split wobj.split)

lemma pruned_step:
  assumes "pruned h h'" "h' d = Some (WDest es)"
  shows "pruned h (h'(d \<mapsto> WDest (filter (\<lambda>e. h' e \<noteq> None) es)))"
proof -
  have a: "(\<lambda>e. h' e \<noteq> None) = (\<lambda>e. h e \<noteq> None)" using pruned_alive [OF assms(1)] by auto
  obtain es' where "h d = Some (WDest es')" "es = es' \<or> es = filter (\<lambda>e. h e \<noteq> None) es'"
    using pruned_dest [OF assms] by blast
  note d = this
  show ?thesis
    unfolding pruned_def
  proof
    fix c
    show "case h c of Some (WDest es0) \<Rightarrow>
          (h'(d \<mapsto> WDest (filter (\<lambda>e. h' e \<noteq> None) es))) c = Some (WDest es0) \<or>
          (h'(d \<mapsto> WDest (filter (\<lambda>e. h' e \<noteq> None) es))) c = Some (WDest (filter (\<lambda>e. h e \<noteq> None) es0))
        | x \<Rightarrow> (h'(d \<mapsto> WDest (filter (\<lambda>e. h' e \<noteq> None) es))) c = x"
      unfolding a using d
      by (cases "c = d"; cases rule: pruned_cases [OF assms(1), of c]) (auto simp del: not_None_eq)
  qed
qed

lemma sinks_below_dead [simp]: "h e = None \<Longrightarrow> sinks_below n h e = []"
  by (cases n) auto

lemma sinks_below_live:
  "concat (map (sinks_below n h) (filter (\<lambda>e. h e \<noteq> None) es)) = concat (map (sinks_below n h) es)"
  by (induction es) auto

lemma sinks_below_pruned: "pruned h h' \<Longrightarrow> sinks_below n h' d = sinks_below n h d"
proof (induction n arbitrary: d)
  case 0
  then show ?case by (cases rule: pruned_cases [OF 0, of d]) auto
next
  case (Suc n)
  have m: "map (sinks_below n h') es = map (sinks_below n h) es" for es
    using Suc by simp
  from Suc.prems show ?case
    by (cases rule: pruned_cases [OF Suc.prems, of d])
      (auto simp: m sinks_below_live simp del: not_None_eq)
qed

lemma sinks_below_mono:
  "acyclic_heap rank h \<Longrightarrow> rank d \<le> n \<Longrightarrow> sinks_below n h d = sinks_below (rank d) h d"
proof (induction n arbitrary: d rule: less_induct)
  case (less n)
  show ?case
  proof (cases "h d")
    case (Some x)
    show ?thesis
    proof (cases x)
      case (WDest es)
      have es: "sinks_below (k - 1) h e = sinks_below (rank e) h e"
        if "e \<in> set es" "h e \<noteq> None" "rank d \<le> k" "k \<le> n" for e k
      proof -
        have "rank e < rank d" using less.prems(1) that WDest Some by (auto simp: acyclic_heap_def)
        then show ?thesis using that less.IH [of "k - 1" e] less.prems by (cases k) auto
      qed
      have dead: "sinks_below k h e = []" if "h e = None" for e k using that by (cases k) auto
      have step: "sinks_below k h d = concat (map (\<lambda>e. sinks_below (rank e) h e) es)"
        if k: "rank d \<le> k" "k \<le> n" for k
      proof (cases k)
        case 0
        then have "h e = None" if "e \<in> set es" for e
          using that less.prems(1) WDest Some k by (fastforce simp: acyclic_heap_def)
        then show ?thesis using 0 WDest Some dead by (simp add: concat_eq_Nil_conv)
      next
        case (Suc j)
        have "sinks_below j h e = sinks_below (rank e) h e" if "e \<in> set es" for e
          using es [of e k] that k Suc dead by (cases "h e") auto
        then show ?thesis using Suc WDest Some by (auto cong: map_cong)
      qed
      show ?thesis using step [of n] step [of "rank d"] less.prems(2) by simp
    next
      case (WFilter f a b)
      then show ?thesis using Some by (cases n; cases "rank d") auto
    next
      case WSink
      then show ?thesis using Some by (cases n; cases "rank d") auto
    qed
  next
    case None
    then show ?thesis by (cases n; cases "rank d") auto
  qed
qed

text \<open>Without filters, a run visits the sinks below each of its targets, in order.\<close>

lemma no_filters_pruned: "no_filters h \<Longrightarrow> pruned h h' \<Longrightarrow> no_filters h'"
  unfolding no_filters_def
proof (intro allI notI)
  fix d f n r
  assume a: "\<forall>d f n r. h d \<noteq> Some (WFilter f n r)" "pruned h h'" "h' d = Some (WFilter f n r)"
  show False by (cases rule: pruned_cases [OF a(2), of d]) (use a(1,3) in auto)
qed

text \<open>How much is left to do: every task counts its rank, nested.\<close>

definition task_order :: "(wid \<Rightarrow> nat) \<Rightarrow> ((wid \<times> bytes) list \<times> (wid \<times> bytes) list) set" where
  "task_order rank = inv_image (mult less_than) (\<lambda>ts. image_mset (\<lambda>t. rank (fst t)) (mset ts))"

lemma wf_task_order: "wf (task_order rank)"
  unfolding task_order_def by (intro wf_inv_image wf_mult) simp

lemma task_order_drop: "(ts, t # ts) \<in> task_order rank"
  unfolding task_order_def
  by (auto intro!: one_step_implies_mult [where I = "image_mset (\<lambda>t. rank (fst t)) (mset ts)" and
      J = "{#rank (fst t)#}" and K = "{#}", simplified])

lemma task_order_expand:
  assumes "\<And>e. e \<in> fst ` set us \<Longrightarrow> rank e < rank (fst t)"
  shows "(us @ ts, t # ts) \<in> task_order rank"
proof -
  have "\<forall>k \<in> set_mset (image_mset (\<lambda>t. rank (fst t)) (mset us)).
      \<exists>j \<in> set_mset {#rank (fst t)#}. (k, j) \<in> less_than"
    using assms by auto
  from one_step_implies_mult [OF _ this, of "image_mset (\<lambda>t. rank (fst t)) (mset ts)"]
  show ?thesis by (simp add: task_order_def add.commute)
qed

lemma run_writes_sinks:
  assumes "acyclic_heap rank h0" "no_filters h0"
  shows "pruned h0 h \<Longrightarrow> \<exists>h'. pruned h0 h' \<and>
    run_writes ts h = Some (h', concat (map (\<lambda>t. map (\<lambda>s. (s, snd t)) (sinks_below (rank (fst t)) h0 (fst t))) ts))"
proof (induction ts arbitrary: h rule: wf_induct_rule [OF wf_task_order [of rank]])
  case (1 ts)
  note IH = 1(1)
  show ?case
  proof (cases ts)
    case Nil
    with 1(2) show ?thesis by (auto simp: run_writes.simps [of "[]"])
  next
    case (Cons t ts1)
    obtain d buf where t: "t = (d, buf)" by (cases t)
    note unf = run_writes.simps [of "(d, buf) # ts1" h]
    have rest: "\<exists>h'. pruned h0 h' \<and> run_writes ts1 h = Some (h',
        concat (map (\<lambda>t. map (\<lambda>s. (s, snd t)) (sinks_below (rank (fst t)) h0 (fst t))) ts1))"
      using IH [of ts1, OF _ 1(2)] task_order_drop [of ts1 t rank] Cons by simp
    show ?thesis
    proof (cases "h d")
      case None
      then have "h0 d = None" using pruned_alive [OF 1(2)] by simp
      then have "sinks_below (rank d) h0 d = []" by (cases "rank d") auto
      with rest None show ?thesis unfolding Cons t by (subst unf) auto
    next
      case (Some x)
      show ?thesis
      proof (cases x)
        case WSink
        with Some pruned_sink [OF 1(2)] have "sinks_below (rank d) h0 d = [d]" by (cases "rank d") auto
        with rest Some WSink show ?thesis unfolding Cons t by (subst unf) auto
      next
        case (WFilter f a b)
        with Some no_filters_pruned [OF assms(2) 1(2)] show ?thesis by (auto simp: no_filters_def)
      next
        case (WDest es)
        define live where "live = filter (\<lambda>e. h e \<noteq> None) es"
        define h1 where "h1 = h(d \<mapsto> WDest live)"
        obtain w where w: "Destination_write (\<lambda>e. h e \<noteq> None) (\<lambda>e. 0) 0 es = (w, live, live)"
          using Destination_write_targets [of "\<lambda>e. h e \<noteq> None" "\<lambda>e. 0" 0 es]
            Destination_write_kept [of "\<lambda>e. h e \<noteq> None" "\<lambda>e. 0" 0 es]
          by (metis live_def prod.collapse)
        have u: "run_writes ts h = run_writes (map (\<lambda>e. (e, buf)) live @ ts1) h1"
          unfolding Cons t using Some WDest by (subst unf) (simp add: w h1_def del: not_None_eq)
        have p1: "pruned h0 h1"
          unfolding h1_def live_def using pruned_step [OF 1(2)] Some WDest by simp
        obtain es' where es': "h0 d = Some (WDest es')" "es = es' \<or> es = filter (\<lambda>e. h0 e \<noteq> None) es'"
          using pruned_dest [OF 1(2)] Some WDest by blast
        have le: "live = filter (\<lambda>e. h0 e \<noteq> None) es'"
          using es'(2) pruned_alive [OF 1(2)] by (auto simp: live_def)
        have rk: "rank e < rank d" if "e \<in> set live" for e
          using that le es'(1) assms(1) by (auto simp: acyclic_heap_def)
        have "(map (\<lambda>e. (e, buf)) live @ ts1, ts) \<in> task_order rank"
          unfolding Cons t by (rule task_order_expand) (auto intro: rk)
        from IH [OF this p1] obtain h' where h': "pruned h0 h'"
          "run_writes ts h = Some (h', concat (map (\<lambda>t. map (\<lambda>s. (s, snd t))
             (sinks_below (rank (fst t)) h0 (fst t))) (map (\<lambda>e. (e, buf)) live @ ts1)))"
          unfolding u by blast
        have dead: "sinks_below k h0 e = []" if "h0 e = None" for e k using that by (cases k) auto
        have "sinks_below (rank d) h0 d = concat (map (\<lambda>e. sinks_below (rank e) h0 e) live)"
        proof (cases "rank d")
          case 0
          then have "live = []" using rk by (cases live) auto
          then show ?thesis using es'(1) 0 by simp
        next
          case (Suc n)
          have "rank e < rank d" if "e \<in> set es'" "h0 e \<noteq> None" for e
            using that es'(1) assms(1) unfolding acyclic_heap_def by blast
          then have "sinks_below n h0 e = sinks_below (rank e) h0 e" if "e \<in> set es'" for e
            using that dead sinks_below_mono [OF assms(1), of e n] Suc
            by (cases "h0 e = None") (simp, fastforce)
          then have "concat (map (sinks_below n h0) es') = concat (map (\<lambda>e. sinks_below (rank e) h0 e) es')"
            by (auto cong: map_cong)
          also have "\<dots> = concat (map (\<lambda>e. sinks_below (rank e) h0 e) live)"
            unfolding le by (induction es') (auto simp: dead)
          finally show ?thesis using es'(1) Suc by simp
        qed
        then have "map (\<lambda>s. (s, buf)) (sinks_below (rank d) h0 d) =
            concat (map (\<lambda>e. map (\<lambda>s. (s, buf)) (sinks_below (rank e) h0 e)) live)"
          by (simp add: map_concat comp_def)
        with h' show ?thesis unfolding Cons t by (auto simp: comp_def)
      qed
    qed
  qed
qed

section \<open>Properties\<close>

text \<open>One destination: a write goes, whole, to each of its endpoints that still exist, in
  order, each exactly once, and to no other; the ones that no longer exist are dropped.\<close>

theorem destination_fanout:
  assumes "sorted_wrt (<) es" "Destination_write alive reply len es = (ret, kept, targets)"
  shows "set targets = {e \<in> set es. alive e} \<and> distinct targets \<and> kept = targets \<and>
    (length es > 1 \<longrightarrow> ret = len)"
proof -
  have "targets = filter alive es" "kept = filter alive es"
    using Destination_write_targets [of alive reply len es] Destination_write_kept [of alive reply len es]
      assms(2) by auto
  moreover have "distinct es" using assms(1) by (induction es) auto
  ultimately show ?thesis using assms(2) by (auto simp: Destination_write_def split: if_splits)
qed

theorem destination_fanout_witness:
  "\<exists>ret kept targets. Destination_write (\<lambda>e. e \<noteq> 4) (\<lambda>e. 7) 9 [2, 4, 5] = (ret, kept, targets) \<and>
     set targets = {2, 5} \<and> ret = 9"
proof -
  obtain ret kept targets where r: "Destination_write (\<lambda>e. e \<noteq> 4) (\<lambda>e. 7) 9 [2, 4, 5] = (ret, kept, targets)"
    using prod_cases3 by blast
  have "sorted_wrt (<) [2, 4, 5 :: nat]" by simp
  note f = destination_fanout [OF this r]
  have "{e \<in> set [2, 4, 5 :: nat]. e \<noteq> 4} = {2, 5}" by auto
  with f have "set targets = {2, 5}" by (simp only:)
  moreover from f have "ret = 9" by simp
  ultimately show ?thesis using r by (intro exI conjI)

qed

text \<open>C14: In a graph of destinations without a cycle, a write returns, and the sinks it
  reaches, each with the whole buffer and as often as there are ways to it, are those
  below the destination; the graph is left as it was but for endpoints that are gone.\<close>

theorem write_reaches_sinks:
  assumes "acyclic_heap rank h" "no_filters h"
  shows "\<exists>h'. write_to d buf h = Some (h', map (\<lambda>s. (s, buf)) (sinks_below (rank d) h d)) \<and> pruned h h'"
  using run_writes_sinks [OF assms pruned_refl, of "[(d, buf)]"] by (auto simp: write_to_def)

theorem write_reaches_sinks_witness:
  "\<exists>h'. write_to 1 [7] [1 \<mapsto> WDest [2, 3], 2 \<mapsto> WDest [3], 3 \<mapsto> WSink] = Some (h', [(3, [7]), (3, [7])])"
proof -
  have a: "acyclic_heap (\<lambda>d. 3 - d) [1 \<mapsto> WDest [2, 3], 2 \<mapsto> WDest [3], 3 \<mapsto> WSink]"
    by (auto simp: acyclic_heap_def split: if_splits)
  have n: "no_filters [1 \<mapsto> WDest [2, 3], 2 \<mapsto> WDest [3], 3 \<mapsto> WSink]"
    by (auto simp: no_filters_def split: if_splits)
  from write_reaches_sinks [OF a n, of 1 "[7]"] show ?thesis
    by (auto simp: numeral_2_eq_2)
qed

end
