(* ===== verification/Router.thy ===== *)
theory Router
  imports Destinations
begin

text \<open>
  The routing of \<open>app/uav-router.cpp\<close>: the store of named destinations, the routes of the
  configuration, and what is set up when endpoints are created and clients connect.
  Addresses are handed out in ascending order and not reused. The regular expression
  engine is an argument: compiling a pattern gives what the pattern matches, or throws.
\<close>

section \<open>State\<close>

record source_entry =
  src_dest :: wid
  src_filters :: "wid list"

record client_entry =
  cli_obj :: wid
  cli_dest :: wid
  cli_filters :: "wid list"

record router =
  rt_heap :: heap
  rt_alloc :: wid
  rt_named :: "(string, wid) omap"              \<comment> \<open>\<open>EndpointStore::endpoints\<close>\<close>
  rt_regex :: "(string \<times> wid) list"             \<comment> \<open>\<open>EndpointStore::regex_endpoints\<close>\<close>
  rt_routes :: "(string \<times> string \<times> yaml) list"
  rt_sources :: "(string, source_entry) omap"
  rt_clients :: "(string, client_entry) omap"
  rt_files :: "wid list"

definition router_new :: router where
  "router_new =
     \<lparr>rt_heap = Map.empty, rt_alloc = 1, rt_named = [], rt_regex = [], rt_routes = [],
      rt_sources = [], rt_clients = [], rt_files = []\<rparr>"

definition new_obj :: "wobj \<Rightarrow> router \<Rightarrow> wid \<times> router" where
  "new_obj o1 rt =
     (rt_alloc rt, rt\<lparr>rt_heap := (rt_heap rt)(rt_alloc rt \<mapsto> o1), rt_alloc := rt_alloc rt + 1\<rparr>)"

definition free_objs :: "wid list \<Rightarrow> router \<Rightarrow> router" where
  "free_objs ds rt = rt\<lparr>rt_heap := (\<lambda>d. if d \<in> set ds then None else rt_heap rt d)\<rparr>"

definition dest_add :: "wid \<Rightarrow> wid \<Rightarrow> router \<Rightarrow> router" where
  "dest_add d e rt =
     (case rt_heap rt d of
        Some (WDest es) \<Rightarrow> rt\<lparr>rt_heap := (rt_heap rt)(d \<mapsto> WDest (Destination_add e es))\<rparr>
      | _ \<Rightarrow> rt)"

definition dest_clear :: "wid \<Rightarrow> router \<Rightarrow> router" where
  "dest_clear d rt = rt\<lparr>rt_heap := (rt_heap rt)(d \<mapsto> WDest [])\<rparr>"

definition is_pattern :: "string \<Rightarrow> bool" where
  "is_pattern name \<longleftrightarrow> name \<noteq> [] \<and> hd name = CHR ''/''"

text \<open>\<open>std::regex(pattern)\<close>: \<open>None\<close> is \<open>std::regex_error\<close>.\<close>

type_synonym regex = "string \<Rightarrow> (string \<Rightarrow> bool) option"

text \<open>\<open>std::regex_match\<close> with a pattern that was compiled.\<close>

definition rx_match :: "regex \<Rightarrow> string \<Rightarrow> string \<Rightarrow> bool" where
  "rx_match rx pat name = (case rx pat of None \<Rightarrow> False | Some m \<Rightarrow> m name)"

section \<open>EndpointStore\<close>

text \<open>A second registration of a name replaces its destination, which is freed unless the
  list of patterns still holds it. A pattern that does not compile throws when its name is
  registered already; it is in no list then.\<close>

definition register_name :: "regex \<Rightarrow> string \<Rightarrow> router \<Rightarrow> unit res \<times> router" where
  "register_name rx name rt =
     (case new_obj (WDest []) rt of (d, rt1) \<Rightarrow>
        (let old = (case map_of (rt_named rt) name of None \<Rightarrow> [] | Some o1 \<Rightarrow> [o1]);
             rt2 = rt1\<lparr>rt_named := om_put name d (rt_named rt1)\<rparr>
         in if is_pattern name
            then (case rx (tl name) of
                    None \<Rightarrow> (Inl RegexError, free_objs old rt2)
                  | Some m \<Rightarrow> (Inr (), rt2\<lparr>rt_regex := rt_regex rt2 @ [(tl name, d)]\<rparr>))
            else (Inr (), free_objs old rt2)))"

text \<open>\<open>endpoints[name]\<close> inserts a null pointer for an unknown name.\<close>

definition register_write_end :: "(string \<Rightarrow> string \<Rightarrow> bool) \<Rightarrow> string \<Rightarrow> wid \<Rightarrow> router \<Rightarrow> router" where
  "register_write_end rmatch name sink rt =
     (let rt1 = (case map_of (rt_named rt) name of
                   None \<Rightarrow> rt\<lparr>rt_named := om_put name 0 (rt_named rt)\<rparr>
                 | Some d \<Rightarrow> if d \<noteq> 0 then dest_add d sink rt else rt)
      in fold (\<lambda>(pat, d) rt. if rmatch pat name then dest_add d sink rt else rt) (rt_regex rt1) rt1)"

definition connect_to_dest :: "(string \<Rightarrow> string \<Rightarrow> bool) \<Rightarrow> string \<Rightarrow> wid \<Rightarrow> router \<Rightarrow> router" where
  "connect_to_dest rmatch name dest rt =
     (let rt1 = (case map_of (rt_named rt) name of None \<Rightarrow> rt | Some e \<Rightarrow> dest_add dest e rt)
      in if is_pattern name then rt1
         else fold (\<lambda>(pat, d) rt. if rmatch pat name then dest_add dest d rt else rt) (rt_regex rt1) rt1)"

definition store_clear :: "router \<Rightarrow> router" where
  "store_clear rt = rt\<lparr>rt_named := [], rt_regex := []\<rparr>"

section \<open>Routes\<close>

text \<open>What building a filter takes that is not in the repository: the pattern engine, the
  contents of fresh memory, and the conversion of scalars to bytes.\<close>

type_synonym renv = "regex \<times> (nat \<Rightarrow> bytes) \<times> (string \<Rightarrow> byte option)"

type_synonym cstate = "router \<times> wid list"       \<comment> \<open>the router and \<open>filters\<close>\<close>

definition set_next :: "wid \<Rightarrow> wid \<Rightarrow> router \<Rightarrow> router" where
  "set_next fid d rt =
     (case rt_heap rt fid of
        Some (WFilter f _ r) \<Rightarrow> rt\<lparr>rt_heap := (rt_heap rt)(fid \<mapsto> WFilter (filter_chain f) d r)\<rparr>
      | _ \<Rightarrow> rt)"

definition set_rest :: "wid \<Rightarrow> wid \<Rightarrow> router \<Rightarrow> router" where
  "set_rest fid d rt =
     (case rt_heap rt fid of
        Some (WFilter f n _) \<Rightarrow> rt\<lparr>rt_heap := (rt_heap rt)(fid \<mapsto> WFilter (filter_rest f) n d)\<rparr>
      | _ \<Rightarrow> rt)"

lemma yaml_size_pos [simp]: "0 < yaml_size y"
  by (cases y) auto

text \<open>An exception leaves the state as it is at that point.\<close>

function (sequential) construct_route :: "renv \<Rightarrow> yaml \<Rightarrow> wid \<Rightarrow> cstate \<Rightarrow> bool res \<times> cstate"
  and construct_route_seq :: "renv \<Rightarrow> yaml list \<Rightarrow> wid \<Rightarrow> cstate \<Rightarrow> bool res \<times> cstate" where
  "construct_route env (YScalar name) dest st =
     (Inr True, (connect_to_dest (rx_match (fst env)) name dest (fst st), snd st))"
| "construct_route env (YSeq ys) dest st = construct_route_seq env ys dest st"
| "construct_route env (YMap kvs) dest st =
     (let type = yaml_find ''type'' kvs in
      if \<not> is_defined type then (Inr False, st)
      else case bind_res (as_string type) (\<lambda>t. Filters_create_yaml (fst (snd env)) (snd (snd env)) t (YMap kvs)) of
        Inl e \<Rightarrow> (Inl e, st)
      | Inr None \<Rightarrow> (Inr False, st)
      | Inr (Some f) \<Rightarrow>
          (case new_obj (WFilter f 0 0) (fst st) of (fid, rt1) \<Rightarrow>
             (let st1 = (rt1, snd st @ [fid]);
                  dst = yaml_find ''dst'' kvs;
                  r2 = (if is_defined dst
                        then (case new_obj (WDest []) (fst st1) of (d, rt) \<Rightarrow>
                                construct_route env dst d (set_next fid d rt, snd st1))
                        else (Inr True, st1))
              in case fst r2 of
                Inl e \<Rightarrow> (Inl e, snd r2)
              | Inr _ \<Rightarrow>
                  (let rest = yaml_find ''rest'' kvs;
                       r3 = (if is_defined rest
                             then (case new_obj (WDest []) (fst (snd r2)) of (d, rt) \<Rightarrow>
                                     construct_route env rest d (set_rest fid d rt, snd (snd r2)))
                             else (Inr True, snd r2))
                   in case fst r3 of
                     Inl e \<Rightarrow> (Inl e, snd r3)
                   | Inr _ \<Rightarrow> (Inr True, (dest_add dest fid (fst (snd r3)), snd (snd r3)))))))"
| "construct_route env _ dest st = (Inr False, st)"
| "construct_route_seq env [] dest st = (Inr True, st)"
| "construct_route_seq env (y # ys) dest st =
     (case construct_route env y dest st of
        (Inl e, st1) \<Rightarrow> (Inl e, st1)
      | (Inr _, st1) \<Rightarrow> construct_route_seq env ys dest st1)"
  by pat_completeness auto
termination
proof (relation "measure (\<lambda>x. case x of Inl (env, cfg, d, st) \<Rightarrow> 2 * yaml_size cfg
    | Inr (env, ys, d, st) \<Rightarrow> 1 + 2 * sum_list (map yaml_size ys))", goal_cases)
  case (3 env kvs)
  then show ?case using yaml_find_smaller [of "''dst''" kvs] by (simp add: is_defined_def)
next
  case (4 env kvs)
  then show ?case using yaml_find_smaller [of "''rest''" kvs] by (simp add: is_defined_def)
qed auto

definition equal_name :: "regex \<Rightarrow> string \<Rightarrow> string \<Rightarrow> bool res" where
  "equal_name rx pattern name =
     (if is_pattern pattern
      then (case rx (tl pattern) of None \<Rightarrow> Inl RegexError | Some m \<Rightarrow> Inr (m name))
      else Inr (pattern = name))"

fun construct_routes_loop ::
    "renv \<Rightarrow> (string \<times> string \<times> yaml) list \<Rightarrow> string \<Rightarrow> wid \<Rightarrow> cstate \<Rightarrow> unit res \<times> cstate" where
  "construct_routes_loop env [] name dest st = (Inr (), st)"
| "construct_routes_loop env ((endpoint_name, route_name, dst) # rs) name dest st =
     (case equal_name (fst env) endpoint_name name of
        Inl e \<Rightarrow> (Inl e, st)
      | Inr False \<Rightarrow> construct_routes_loop env rs name dest st
      | Inr True \<Rightarrow>
          (case construct_route env dst dest st of
             (Inl e, st1) \<Rightarrow> (Inl e, st1)
           | (Inr _, st1) \<Rightarrow> construct_routes_loop env rs name dest st1))"

definition construct_routes :: "renv \<Rightarrow> string \<Rightarrow> wid \<Rightarrow> cstate \<Rightarrow> unit res \<times> cstate" where
  "construct_routes env name dest st = construct_routes_loop env (rt_routes (fst st)) name dest st"

function (sequential) scan_dst :: "regex \<Rightarrow> yaml \<Rightarrow> router \<Rightarrow> bool res \<times> router"
  and scan_dst_seq :: "regex \<Rightarrow> yaml list \<Rightarrow> router \<Rightarrow> bool res \<times> router" where
  "scan_dst rx (YScalar name) rt =
     (case register_name rx name rt of (Inl e, rt1) \<Rightarrow> (Inl e, rt1) | (Inr _, rt1) \<Rightarrow> (Inr True, rt1))"
| "scan_dst rx (YSeq ys) rt = scan_dst_seq rx ys rt"
| "scan_dst rx (YMap kvs) rt =
     (let dst = yaml_find ''dst'' kvs; rest = yaml_find ''rest'' kvs in
      if \<not> is_defined dst \<and> \<not> is_defined rest then (Inr False, rt)
      else (let r1 = (if is_defined dst then scan_dst rx dst rt else (Inr True, rt))
            in if fst r1 \<noteq> Inr True then r1
               else if is_defined rest then scan_dst rx rest (snd r1)
               else (Inr True, snd r1)))"
| "scan_dst rx _ rt = (Inr False, rt)"
| "scan_dst_seq rx [] rt = (Inr True, rt)"
| "scan_dst_seq rx (y # ys) rt =
     (case scan_dst rx y rt of (ok, rt1) \<Rightarrow> if ok \<noteq> Inr True then (ok, rt1) else scan_dst_seq rx ys rt1)"
  by pat_completeness auto
termination
proof (relation "measure (\<lambda>x. case x of Inl (rx, cfg, rt) \<Rightarrow> 2 * yaml_size cfg
    | Inr (rx, ys, rt) \<Rightarrow> 1 + 2 * sum_list (map yaml_size ys))", goal_cases)
  case (3 rx kvs)
  then show ?case using yaml_find_smaller [of "''dst''" kvs] by (simp add: is_defined_def)
next
  case (4 rx kvs)
  then show ?case using yaml_find_smaller [of "''rest''" kvs] by (simp add: is_defined_def)
qed auto

definition add_route :: "string \<Rightarrow> string \<Rightarrow> yaml \<Rightarrow> router \<Rightarrow> router" where
  "add_route src name dst rt = rt\<lparr>rt_routes := rt_routes rt @ [(src, name, dst)]\<rparr>"

fun add_routes :: "yaml list \<Rightarrow> yaml \<Rightarrow> yaml \<Rightarrow> router \<Rightarrow> unit res \<times> router" where
  "add_routes [] key dst rt = (Inr (), rt)"
| "add_routes (n # ns) key dst rt =
     (case bind_res (as_string n) (\<lambda>s. bind_res (as_string key) (\<lambda>k. Inr (s, k))) of
        Inl e \<Rightarrow> (Inl e, rt)
      | Inr (s, k) \<Rightarrow> add_routes ns key dst (add_route s k dst rt))"

text \<open>One entry of the routes section. Where the code only prints the name of the route, the
  conversion of that name can still throw.\<close>

definition load_route :: "regex \<Rightarrow> yaml \<Rightarrow> yaml \<Rightarrow> router \<Rightarrow> unit res \<times> router" where
  "load_route rx key val rt =
     (let complain = (\<lambda>rt. (bind_res (as_string key) (\<lambda>_. Inr ()), rt)) in
      case val of
        YMap kvs \<Rightarrow>
          (let dst = yaml_find ''dst'' kvs in
           case scan_dst rx dst rt of
             (Inl e, rt1) \<Rightarrow> (Inl e, rt1)
           | (Inr False, rt1) \<Rightarrow> complain rt1
           | (Inr True, rt1) \<Rightarrow>
               (case yaml_find ''src'' kvs of
                  YUndef \<Rightarrow> complain rt1
                | YScalar s \<Rightarrow> add_routes [YScalar s] key dst rt1
                | YSeq ns \<Rightarrow> add_routes ns key dst rt1
                | _ \<Rightarrow> (Inr (), rt1)))
      | _ \<Rightarrow> complain rt)"

fun load_routes_loop :: "regex \<Rightarrow> (yaml \<times> yaml) list \<Rightarrow> router \<Rightarrow> bool res \<times> router" where
  "load_routes_loop rx [] rt = (Inr True, rt)"
| "load_routes_loop rx ((k, v) # kvs) rt =
     (case load_route rx k v rt of
        (Inl e, rt1) \<Rightarrow> (Inl e, rt1)
      | (Inr _, rt1) \<Rightarrow> load_routes_loop rx kvs rt1)"

definition load_routes :: "regex \<Rightarrow> yaml \<Rightarrow> router \<Rightarrow> bool res \<times> router" where
  "load_routes rx cfg rt =
     (case cfg of YMap kvs \<Rightarrow> load_routes_loop rx kvs rt | _ \<Rightarrow> (Inr False, rt))"

section \<open>Endpoints and clients\<close>

text \<open>\<open>source_entries[name]\<close>: an existing entry keeps its destination and filters.\<close>

definition source_entry_of :: "string \<Rightarrow> router \<Rightarrow> source_entry \<times> router" where
  "source_entry_of name rt =
     (case map_of (rt_sources rt) name of
        Some e \<Rightarrow> (e, rt)
      | None \<Rightarrow>
          (case new_obj (WDest []) rt of (d, rt1) \<Rightarrow>
             (let e = \<lparr>src_dest = d, src_filters = []\<rparr>
              in (e, rt1\<lparr>rt_sources := om_put name e (rt_sources rt1)\<rparr>))))"

definition setup_endpoint :: "renv \<Rightarrow> string \<Rightarrow> router \<Rightarrow> unit res \<times> router" where
  "setup_endpoint env name rt =
     (case source_entry_of name rt of (e, rt1) \<Rightarrow>
        (case construct_routes env name (src_dest e) (rt1, src_filters e) of (r, (rt2, fs)) \<Rightarrow>
           (r, rt2\<lparr>rt_sources := om_put name (e\<lparr>src_filters := fs\<rparr>) (rt_sources rt2)\<rparr>)))"

definition client_entry_of :: "string \<Rightarrow> router \<Rightarrow> client_entry \<times> router" where
  "client_entry_of name rt =
     (case map_of (rt_clients rt) name of
        Some e \<Rightarrow> (e, rt)
      | None \<Rightarrow>
          (case new_obj (WDest []) rt of (d, rt1) \<Rightarrow>
             (let e = \<lparr>cli_obj = 0, cli_dest = d, cli_filters = []\<rparr>
              in (e, rt1\<lparr>rt_clients := om_put name e (rt_clients rt1)\<rparr>))))"

text \<open>The handler of \<open>on_connect\<close> that \<open>setup_endpoint\<close> installs, for a new client object.
  A client of the same name is dropped, its destination emptied and filled again.\<close>

definition on_connect_client :: "renv \<Rightarrow> string \<Rightarrow> bool \<Rightarrow> string \<Rightarrow> router \<Rightarrow> unit res \<times> router" where
  "on_connect_client env name register cli_name rt =
     (case new_obj WSink rt of (cli, rt0) \<Rightarrow>
      (let rt1 = (if register
                  then register_write_end (rx_match (fst env)) name cli (register_write_end (rx_match (fst env)) cli_name cli rt0)
                  else rt0)
       in case client_entry_of cli_name rt1 of (e, rt2) \<Rightarrow>
          (let rt3 = dest_clear (cli_dest e) (free_objs [cli_obj e] rt2)
           in case construct_routes env cli_name (cli_dest e) (rt3, cli_filters e) of (r, (rt4, fs)) \<Rightarrow>
              (let rt5 = rt4\<lparr>rt_clients := om_put cli_name (e\<lparr>cli_obj := cli, cli_filters := fs\<rparr>) (rt_clients rt4)\<rparr>
               in case r of
                    Inl x \<Rightarrow> (Inl x, rt5)
                  | Inr _ \<Rightarrow> (Inr (),
                      (case map_of (rt_sources rt5) name of
                         None \<Rightarrow> rt5
                       | Some s \<Rightarrow> dest_add (cli_dest e) (src_dest s) rt5))))))"

text \<open>\<open>client_entries.erase(cli_name)\<close>: the client, its destination, its filters and the
  destinations behind them go.\<close>

definition filter_dests :: "heap \<Rightarrow> wid \<Rightarrow> wid list" where
  "filter_dests h f = (case h f of Some (WFilter _ n r) \<Rightarrow> [f, n, r] | _ \<Rightarrow> [f])"

definition on_close_client :: "string \<Rightarrow> router \<Rightarrow> router" where
  "on_close_client cli_name rt =
     (case map_of (rt_clients rt) cli_name of
        None \<Rightarrow> rt
      | Some e \<Rightarrow>
          free_objs ([cli_obj e, cli_dest e] @ concat (map (filter_dests (rt_heap rt)) (cli_filters e)))
            (rt\<lparr>rt_clients := om_del cli_name (rt_clients rt)\<rparr>))"

text \<open>The client's \<open>on_read\<close>: the sinks written to.\<close>

definition on_read_client :: "string \<Rightarrow> bytes \<Rightarrow> router \<Rightarrow> ((wid \<times> bytes) list \<times> router) option" where
  "on_read_client cli_name buf rt =
     (case map_of (rt_clients rt) cli_name of
        None \<Rightarrow> Some ([], rt)
      | Some e \<Rightarrow>
          map_option (\<lambda>(h, out). (out, rt\<lparr>rt_heap := h\<rparr>)) (write_to (cli_dest e) buf (rt_heap rt)))"

datatype endpoint_kind = KUart | KTcpServer | KTcpClient | KUdpServer | KUdpClient | KFile

datatype init_result = InitOk | InitError | InitThrows exn

text \<open>A UDP client is a sink of its own, registered under its name; the other endpoints get
  theirs when somebody connects. Exceptions of one endpoint do not touch the others.\<close>

definition load_udp_client ::
    "renv \<Rightarrow> (endpoint_kind \<Rightarrow> string \<Rightarrow> yaml \<Rightarrow> init_result) \<Rightarrow> string \<Rightarrow> yaml \<Rightarrow> router \<Rightarrow> router" where
  "load_udp_client env init name cfg rt =
     (case init KUdpClient name cfg of
        InitOk \<Rightarrow>
          (case new_obj WSink rt of (c, rt1) \<Rightarrow>
             snd (setup_endpoint env name (register_write_end (rx_match (fst env)) name c rt1)))
      | _ \<Rightarrow> rt)"

definition load_endpoint ::
    "renv \<Rightarrow> (endpoint_kind \<Rightarrow> string \<Rightarrow> yaml \<Rightarrow> init_result) \<Rightarrow> endpoint_kind \<Rightarrow> string \<Rightarrow> yaml \<Rightarrow> router \<Rightarrow> router" where
  "load_endpoint env init kind name cfg rt =
     (case init kind name cfg of
        InitOk \<Rightarrow> snd (setup_endpoint env name rt)
      | _ \<Rightarrow> rt)"

definition load_file ::
    "renv \<Rightarrow> (endpoint_kind \<Rightarrow> string \<Rightarrow> yaml \<Rightarrow> init_result) \<Rightarrow> string \<Rightarrow> yaml \<Rightarrow> router \<Rightarrow> unit res \<times> router" where
  "load_file env init name cfg rt =
     (if \<not> is_map cfg then (Inr (), rt)
      else case init KFile name cfg of
        InitThrows e \<Rightarrow> (Inl e, rt)
      | InitError \<Rightarrow> (Inr (), rt)
      | InitOk \<Rightarrow>
          (case new_obj WSink rt of (f, rt1) \<Rightarrow>
             (Inr (), register_write_end (rx_match (fst env)) name f (rt1\<lparr>rt_files := rt_files rt1 @ [f]\<rparr>))))"

text \<open>The entries of one section of the configuration, in order; a key that is no string ends
  the loading with an exception.\<close>

fun each_entry :: "(string \<Rightarrow> yaml \<Rightarrow> router \<Rightarrow> unit res \<times> router) \<Rightarrow> (yaml \<times> yaml) list \<Rightarrow> router \<Rightarrow> unit res \<times> router" where
  "each_entry f [] rt = (Inr (), rt)"
| "each_entry f ((k, v) # kvs) rt =
     (case as_string k of
        Inl e \<Rightarrow> (Inl e, rt)
      | Inr name \<Rightarrow>
          (case f name v rt of
             (Inl e, rt1) \<Rightarrow> (Inl e, rt1)
           | (Inr _, rt1) \<Rightarrow> each_entry f kvs rt1))"

definition section_of :: "string \<Rightarrow> yaml \<Rightarrow> (yaml \<times> yaml) list" where
  "section_of key y =
     (case y of YMap kvs \<Rightarrow> (case yaml_find key kvs of YMap es \<Rightarrow> es | _ \<Rightarrow> []) | _ \<Rightarrow> [])"

fun in_order :: "(router \<Rightarrow> unit res \<times> router) list \<Rightarrow> router \<Rightarrow> bool res \<times> router" where
  "in_order [] rt = (Inr True, rt)"
| "in_order (f # fs) rt =
     (case f rt of (Inl e, rt1) \<Rightarrow> (Inl e, rt1) | (Inr _, rt1) \<Rightarrow> in_order fs rt1)"

definition load_endpoints ::
    "renv \<Rightarrow> (endpoint_kind \<Rightarrow> string \<Rightarrow> yaml \<Rightarrow> init_result) \<Rightarrow> yaml \<Rightarrow> router \<Rightarrow> bool res \<times> router" where
  "load_endpoints env init cfg rt =
     (case cfg of
        YMap kvs \<Rightarrow>
          (let tcp = yaml_find ''tcp'' kvs; udp = yaml_find ''udp'' kvs;
               many = (\<lambda>kind. each_entry (\<lambda>name v rt. (Inr (), load_endpoint env init kind name v rt)))
           in in_order
                [each_entry (\<lambda>name v rt. (Inr (), load_udp_client env init name v rt)) (section_of ''clients'' udp),
                 many KUart (section_of ''uart'' cfg),
                 many KTcpClient (section_of ''clients'' tcp),
                 many KTcpServer (section_of ''servers'' tcp),
                 many KUdpServer (section_of ''servers'' udp),
                 each_entry (load_file env init) (section_of ''file'' cfg)] rt)
      | _ \<Rightarrow> (Inr False, rt))"

text \<open>The sink of the statistics: a destination for the endpoint of that name; \<open>None\<close> when
  nothing has that name.\<close>

definition connect_stats :: "renv \<Rightarrow> string \<Rightarrow> router \<Rightarrow> wid option \<times> router" where
  "connect_stats env name rt =
     (case new_obj (WDest []) rt of (d, rt1) \<Rightarrow>
        (let rt2 = connect_to_dest (rx_match (fst env)) name d rt1
         in if rt_heap rt2 d = Some (WDest []) then (None, free_objs [d] rt2) else (Some d, rt2)))"

definition router_cleanup :: "router \<Rightarrow> router" where
  "router_cleanup rt =
     (store_clear rt)\<lparr>rt_routes := [], rt_sources := [], rt_clients := [], rt_files := [],
        rt_heap := Map.empty\<rparr>"

section \<open>Who is connected to whom\<close>

definition members :: "router \<Rightarrow> wid \<Rightarrow> wid set" where
  "members rt d = (case rt_heap rt d of Some (WDest es) \<Rightarrow> set es | _ \<Rightarrow> {})"

definition is_dest :: "router \<Rightarrow> wid \<Rightarrow> bool" where
  "is_dest rt d \<longleftrightarrow> (\<exists>es. rt_heap rt d = Some (WDest es))"

lemma dest_add_facts [simp]:
  "rt_named (dest_add d e rt) = rt_named rt" "rt_regex (dest_add d e rt) = rt_regex rt"
  "rt_routes (dest_add d e rt) = rt_routes rt" "rt_alloc (dest_add d e rt) = rt_alloc rt"
  "rt_sources (dest_add d e rt) = rt_sources rt" "rt_clients (dest_add d e rt) = rt_clients rt"
  "is_dest (dest_add d e rt) x = is_dest rt x"
  by (auto simp: dest_add_def is_dest_def split: option.split wobj.split)

lemma members_dest_add:
  "members (dest_add d e rt) x = (if x = d \<and> is_dest rt d then insert e (members rt x) else members rt x)"
  by (auto simp: dest_add_def is_dest_def members_def Destination_add_def split: option.split wobj.split)

lemma fold_dest_add:
  fixes P :: "string \<Rightarrow> bool" and entries :: "(string \<times> wid) list" and s :: wid
  defines "f \<equiv> \<lambda>(pat, d) rt. if P pat then dest_add d s rt else rt"
  shows "rt_named (fold f entries rt) = rt_named rt" "rt_regex (fold f entries rt) = rt_regex rt"
    "rt_routes (fold f entries rt) = rt_routes rt" "is_dest (fold f entries rt) x = is_dest rt x"
    "members (fold f entries rt) x =
       members rt x \<union> (if is_dest rt x \<and> (\<exists>pat. (pat, x) \<in> set entries \<and> P pat) then {s} else {})"
proof -
  have "rt_named (fold f entries rt) = rt_named rt \<and> rt_regex (fold f entries rt) = rt_regex rt \<and>
    rt_routes (fold f entries rt) = rt_routes rt \<and> is_dest (fold f entries rt) x = is_dest rt x \<and>
    members (fold f entries rt) x =
       members rt x \<union> (if is_dest rt x \<and> (\<exists>pat. (pat, x) \<in> set entries \<and> P pat) then {s} else {})"
    by (induction entries arbitrary: rt) (auto simp: f_def members_dest_add split: if_splits)
  then show "rt_named (fold f entries rt) = rt_named rt" "rt_regex (fold f entries rt) = rt_regex rt"
    "rt_routes (fold f entries rt) = rt_routes rt" "is_dest (fold f entries rt) x = is_dest rt x"
    "members (fold f entries rt) x =
       members rt x \<union> (if is_dest rt x \<and> (\<exists>pat. (pat, x) \<in> set entries \<and> P pat) then {s} else {})"
    by blast+
qed

text \<open>\<open>fold\<close> the other way round: one destination takes in many.\<close>

lemma fold_dest_take:
  fixes P :: "string \<Rightarrow> bool" and entries :: "(string \<times> wid) list" and dest :: wid
  defines "f \<equiv> \<lambda>(pat, d) rt. if P pat then dest_add dest d rt else rt"
  shows "rt_named (fold f entries rt) = rt_named rt \<and> rt_regex (fold f entries rt) = rt_regex rt \<and>
    rt_routes (fold f entries rt) = rt_routes rt \<and> is_dest (fold f entries rt) x = is_dest rt x \<and>
    members (fold f entries rt) x =
       members rt x \<union> (if is_dest rt x \<and> x = dest then {d. \<exists>pat. (pat, d) \<in> set entries \<and> P pat} else {})"
  by (induction entries arbitrary: rt) (auto simp: f_def members_dest_add split: if_splits)

end
