(* ===== verification/Errors.thy ===== *)
theory Errors
  imports Yaml_Config "HOL-Library.State_Monad"
begin

text \<open>
  The error values of \<open>src/err.h\<close> and \<open>src/err.cpp\<close>: a number, the category it belongs to
  and a context string, and the objects' way of reporting them. A value of \<open>0\<close> means
  success. What \<open>errno\<close> holds when a constructor reads it is an argument.
\<close>

datatype category = SystemCategory | EaiCategory | AvahiCategory | RegexCategory

record error_c =
  ec_value :: int
  ec_category :: category
  ec_context :: string

definition no_error :: error_c where
  "no_error = \<lparr>ec_value = 0, ec_category = SystemCategory, ec_context = []\<rparr>"

definition failed :: "error_c \<Rightarrow> bool" where
  "failed e \<longleftrightarrow> ec_value e \<noteq> 0"

definition add_context :: "string \<Rightarrow> error_c \<Rightarrow> error_c" where
  "add_context ctx e = e\<lparr>ec_context := ctx @ ''->'' @ ec_context e\<rparr>"

definition errno_c :: "int \<Rightarrow> string \<Rightarrow> error_c" where
  "errno_c val ctx = \<lparr>ec_value = val, ec_category = SystemCategory, ec_context = ctx\<rparr>"

text \<open>\<open>to_errno_c(ret, context)\<close>: \<open>errno\<close> is looked at only when the call failed.\<close>

definition to_errno_c :: "int \<Rightarrow> int \<Rightarrow> string \<Rightarrow> error_c" where
  "to_errno_c r errno ctx = (if r \<noteq> 0 then errno_c errno ctx else errno_c 0 [])"

definition eai_code :: "int \<Rightarrow> string \<Rightarrow> error_c" where
  "eai_code val ctx = \<lparr>ec_value = val, ec_category = EaiCategory, ec_context = ctx\<rparr>"

definition avahi_code :: "int \<Rightarrow> string \<Rightarrow> error_c" where
  "avahi_code val ctx = \<lparr>ec_value = val, ec_category = AvahiCategory, ec_context = ctx\<rparr>"

text \<open>\<open>regex_category()\<close> hands out the instance of the Avahi category.\<close>

definition regex_category :: category where
  "regex_category = AvahiCategory"

definition regex_code :: "int \<Rightarrow> string \<Rightarrow> error_c" where
  "regex_code val ctx = \<lparr>ec_value = val, ec_category = regex_category, ec_context = ctx\<rparr>"

definition category_name :: "category \<Rightarrow> string" where
  "category_name c =
     (case c of SystemCategory \<Rightarrow> ''system'' | EaiCategory \<Rightarrow> ''addrinfo''
      | AvahiCategory \<Rightarrow> ''avahi'' | RegexCategory \<Rightarrow> ''regex'')"

text \<open>The messages of the categories. Those of the C library and of Avahi are the arguments
  \<open>strerror\<close>, \<open>gai\<close> and \<open>avahi\<close>; those of a pattern are written out, numbered as in the library.\<close>

definition regex_message :: "int \<Rightarrow> string" where
  "regex_message ev =
     (if ev = 0 then ''The expression contained an invalid collating element name.''
      else if ev = 1 then ''The expression contained an invalid character class name.''
      else if ev = 2 then ''The expression contained an invalid escaped character, or a trailing escape.''
      else if ev = 3 then ''The expression contained an invalid back reference.''
      else if ev = 4 then ''The expression contained mismatched [ and ].''
      else if ev = 5 then ''The expression contained mismatched ( and ).''
      else if ev = 6 then ''The expression contained mismatched { and }''
      else if ev = 7 then ''The expression contained an invalid range in a {} expression.''
      else if ev = 8 then ''The expression contained an invalid character range, such as [b-a] in most encodings.''
      else if ev = 9 then ''There was insufficient memory to convert the expression into a finite state machine.''
      else if ev = 10 then ''One of <em>*?+{</em> was not preceded by a valid regular expression.''
      else if ev = 11 then ''The complexity of an attempted match against a regular expression exceeded a pre-set level.''
      else if ev = 12 then ''There was insufficient memory to determine whether the regular expression could match the specified character sequence.''
      else ''Unknown regex error'')"

definition category_message ::
    "(int \<Rightarrow> string) \<Rightarrow> (int \<Rightarrow> string) \<Rightarrow> (int \<Rightarrow> string) \<Rightarrow> category \<Rightarrow> int \<Rightarrow> string" where
  "category_message strerror gai avahi c ev =
     (case c of SystemCategory \<Rightarrow> strerror ev | EaiCategory \<Rightarrow> gai ev
      | AvahiCategory \<Rightarrow> avahi ev | RegexCategory \<Rightarrow> regex_message ev)"

text \<open>\<open>operator<<\<close>; the message of a value is the business of its category.\<close>

definition error_text :: "(category \<Rightarrow> int \<Rightarrow> string) \<Rightarrow> error_c \<Rightarrow> string" where
  "error_text message e = ec_context e @ '': '' @ message (ec_category e) (ec_value e)"

section \<open>Reporting\<close>

text \<open>
  \<open>error_handler::on_error\<close>: what is reported, and whether there was an error. Only the
  variants with a context prefix it. The report goes to the handler when one is set and to
  the log otherwise.
\<close>

datatype report = ToHandler error_c | ToLog error_c

definition report_to :: "bool \<Rightarrow> error_c \<Rightarrow> report" where
  "report_to handled e = (if handled then ToHandler e else ToLog e)"

definition on_error_ctx :: "bool \<Rightarrow> error_c \<Rightarrow> string \<Rightarrow> bool \<times> report option" where
  "on_error_ctx handled e ctx =
     (if \<not> failed e then (False, None)
      else (True, Some (report_to handled (if ctx \<noteq> [] then add_context ctx e else e))))"

definition on_error_plain :: "bool \<Rightarrow> error_c \<Rightarrow> bool \<times> report option" where
  "on_error_plain handled e =
     (if \<not> failed e then (False, None) else (True, Some (report_to handled e)))"

definition on_error_ret :: "bool \<Rightarrow> int \<Rightarrow> int \<Rightarrow> string \<Rightarrow> bool \<times> report option" where
  "on_error_ret handled r errno ctx =
     (if r = 0 then (False, None)
      else (True, Some (report_to handled
             (if ctx \<noteq> [] then add_context ctx (errno_c errno []) else errno_c errno []))))"

lemma failed_simps [simp]:
  "\<not> failed no_error" "failed (errno_c v c) = (v \<noteq> 0)" "failed (avahi_code v c) = (v \<noteq> 0)"
  "failed (eai_code v c) = (v \<noteq> 0)" "failed (regex_code v c) = (v \<noteq> 0)"
  "failed (add_context c e) = failed e"
  "failed (to_errno_c r n c) = (r \<noteq> 0 \<and> n \<noteq> 0)"
  by (simp_all add: failed_def no_error_def errno_c_def avahi_code_def eai_code_def regex_code_def
      add_context_def to_errno_c_def)

lemma on_error_result [simp]:
  "fst (on_error_ctx h e c) = failed e" "fst (on_error_plain h e) = failed e"
  "fst (on_error_ret h r n c) = (r \<noteq> 0)"
  by (simp_all add: on_error_ctx_def on_error_plain_def on_error_ret_def)

text \<open>A pattern that does not compile is reported in the words of Avahi, whatever they are for its number.\<close>

lemma regex_code_text:
  "error_text (category_message strerror gai avahi) (regex_code val ctx) = ctx @ '': '' @ avahi val"
  by (simp add: error_text_def regex_code_def regex_category_def category_message_def)

end
