(* ===== verification/Sockaddr.thy ===== *)
theory Sockaddr
  imports Errors
begin

text \<open>
  Socket addresses, \<open>src/sockaddr.cpp\<close>. A \<open>SockAddr\<close> is a pointer that may be null to the
  bytes of a \<open>sockaddr_storage\<close> and a length. The union of the address structures is kept
  as the bytes it is: the family in bytes 0 and 1 (little endian), the port in bytes 2 and 3
  (network order), the IPv4 address in bytes 4 to 7 and the IPv6 address in bytes 8 to 23.
  Bytes a constructor leaves unset are zero in the model; nothing below depends on them.
  The C library's conversions and interface tables are the argument \<open>netlib\<close>.
\<close>

section \<open>Memory layout\<close>

definition splice :: "nat \<Rightarrow> 'a list \<Rightarrow> 'a list \<Rightarrow> 'a list" where
  "splice off bs st = take off st @ bs @ drop (off + length bs) st"

definition field :: "nat \<Rightarrow> nat \<Rightarrow> 'a list \<Rightarrow> 'a list" where
  "field off n st = take n (drop off st)"

lemma length_splice [simp]: "off + length bs \<le> length st \<Longrightarrow> length (splice off bs st) = length st"
  by (simp add: splice_def)

lemma field_splice_same [simp]:
  "length bs = n \<Longrightarrow> off + n \<le> length st \<Longrightarrow> field off n (splice off bs st) = bs"
  by (simp add: splice_def field_def)

lemma nth_splice:
  "off + length bs \<le> length st \<Longrightarrow> i < length st \<Longrightarrow>
     splice off bs st ! i = (if off \<le> i \<and> i < off + length bs then bs ! (i - off) else st ! i)"
  by (auto simp: splice_def nth_append min_def)

lemma field_splice_other [simp]:
  assumes "off + length bs \<le> length st" "o1 + n \<le> length st" "o1 + n \<le> off \<or> off + length bs \<le> o1"
  shows "field o1 n (splice off bs st) = field o1 n st"
  by (rule nth_equalityI) (use assms in \<open>auto simp: field_def nth_splice\<close>)

definition net16 :: "u16 \<Rightarrow> bytes" where
  "net16 p = [ucast (drop_bit 8 p), ucast p]"

definition host16 :: "bytes \<Rightarrow> u16" where
  "host16 bs = push_bit 8 (ucast (bs ! 0)) OR ucast (bs ! 1)"

lemma length_net16 [simp]: "length (net16 p) = 2"
  by (simp add: net16_def)

lemma host16_net16 [simp]: "host16 (net16 p) = p"
  unfolding host16_def net16_def
  by (intro bit_word_eqI) (auto simp: bit_simps)

text \<open>An \<open>in_addr_t\<close> in memory, on a little endian machine.\<close>

definition mem32 :: "u32 \<Rightarrow> bytes" where
  "mem32 w = [ucast w, ucast (drop_bit 8 w), ucast (drop_bit 16 w), ucast (drop_bit 24 w)]"

lemma length_mem32 [simp]: "length (mem32 w) = 4"
  by (simp add: mem32_def)

definition fam_bytes :: "family \<Rightarrow> bytes" where
  "fam_bytes f = (case f of AF_UNSPEC \<Rightarrow> [0, 0] | AF_INET \<Rightarrow> [2, 0] | AF_INET6 \<Rightarrow> [10, 0]
                  | AF_OTHER n \<Rightarrow> [of_nat n, of_nat (n div 256)])"

definition fam_of :: "bytes \<Rightarrow> family" where
  "fam_of bs = (let n = unat (bs ! 0) + 256 * unat (bs ! 1)
                in if n = 0 then AF_UNSPEC else if n = 2 then AF_INET else if n = 10 then AF_INET6
                   else AF_OTHER n)"

record sock_impl =
  sa_store :: bytes
  sa_length :: nat

type_synonym sock_addr = "sock_impl option"

definition sizeof_storage :: nat where
  "sizeof_storage = 128"

definition sizeof_in :: nat where
  "sizeof_in = 16"

definition sizeof_in6 :: nat where
  "sizeof_in6 = 28"

definition impl_new :: sock_impl where
  "impl_new = \<lparr>sa_store = replicate sizeof_storage 0, sa_length = 0\<rparr>"

definition impl_of :: "sock_addr \<Rightarrow> sock_impl" where
  "impl_of a = (case a of None \<Rightarrow> impl_new | Some i \<Rightarrow> i)"

definition sa_ok :: "sock_addr \<Rightarrow> bool" where
  "sa_ok a \<longleftrightarrow> (case a of None \<Rightarrow> True
              | Some i \<Rightarrow> length (sa_store i) = sizeof_storage \<and> sa_length i \<le> sizeof_storage)"

section \<open>Setting an address\<close>

definition sa_init_raw :: "bytes \<Rightarrow> sock_addr \<Rightarrow> sock_addr" where
  "sa_init_raw bs a =
     (let i = impl_of a in Some (i\<lparr>sa_store := splice 0 bs (sa_store i), sa_length := length bs\<rparr>))"

text \<open>\<open>init(in_addr_t, port)\<close>, also the constructor with these arguments.\<close>

definition sa_init4 :: "bytes \<Rightarrow> u16 \<Rightarrow> sock_addr \<Rightarrow> sock_addr" where
  "sa_init4 ip p a =
     (let i = impl_of a
      in Some (i\<lparr>sa_store := splice 2 (net16 p) (splice 4 ip (splice 0 (fam_bytes AF_INET) (sa_store i))),
                 sa_length := sizeof_in\<rparr>))"

definition sa_init6 :: "bytes \<Rightarrow> u16 \<Rightarrow> sock_addr \<Rightarrow> sock_addr" where
  "sa_init6 ip p a =
     (let i = impl_of a
      in Some (i\<lparr>sa_store := splice 8 ip (splice 2 (net16 p) (splice 4 [0, 0, 0, 0]
                   (splice 0 (fam_bytes AF_INET6) (sa_store i)))),
                 sa_length := sizeof_in6\<rparr>))"

text \<open>\<open>init(fd)\<close>: the result of \<open>getsockname\<close>, its bytes and length.\<close>

definition sa_init_fd :: "int \<Rightarrow> bytes \<Rightarrow> sock_addr \<Rightarrow> sock_addr" where
  "sa_init_fd r bs a =
     (let i = impl_of a
      in if r \<noteq> 0 then Some (i\<lparr>sa_length := 0\<rparr>)
         else Some (i\<lparr>sa_store := splice 0 bs (sa_store i), sa_length := length bs\<rparr>))"

text \<open>An Avahi address is a family and its bytes.\<close>

datatype avahi_address = AvahiInet bytes | AvahiInet6 bytes | AvahiUnspec

definition sa_init_avahi :: "avahi_address \<Rightarrow> u16 \<Rightarrow> sock_addr \<Rightarrow> sock_addr" where
  "sa_init_avahi av p a =
     (case av of
        AvahiInet ip \<Rightarrow>
          Some \<lparr>sa_store = splice 2 (net16 p) (splice 4 ip (splice 0 (fam_bytes AF_INET) (sa_store impl_new))),
                sa_length = sizeof_in\<rparr>
      | AvahiInet6 ip \<Rightarrow>
          Some \<lparr>sa_store = splice 2 (net16 p) (splice 8 ip (splice 0 (fam_bytes AF_INET6) (sa_store impl_new))),
                sa_length = sizeof_in6\<rparr>
      | AvahiUnspec \<Rightarrow> Some impl_new)"

definition in6addr_any :: bytes where
  "in6addr_any = replicate 16 0"

definition in6addr_loopback :: bytes where
  "in6addr_loopback = replicate 15 0 @ [1]"

text \<open>One entry of the interface table: the name, the flags, the address and the broadcast
  address as socket addresses (\<open>None\<close> a null pointer).\<close>

record ifaddr =
  ifa_name :: "string option"
  ifa_addr :: "bytes option"
  ifa_broadaddr :: "bytes option"
  ifa_flags :: nat

record netlib =
  inet_pton4 :: "string \<Rightarrow> bytes option"
  inet_pton6 :: "string \<Rightarrow> bytes option"
  inet_ntop4 :: "bytes \<Rightarrow> string"
  inet_ntop6 :: "bytes \<Rightarrow> string"
  ifaddrs :: "ifaddr list option"
  nametoindex :: "string \<Rightarrow> int"
  indextoname :: "int \<Rightarrow> string option"
  stale_errno :: int                       \<comment> \<open>what \<open>errno\<close> was left at\<close>

text \<open>\<open>init(address, port)\<close>. \<open>inet_pton\<close> does not set \<open>errno\<close> for a string it rejects, so the
  error returned is whatever was there before. The named IPv4 addresses are given in host
  order and stored as they are.\<close>

definition sa_init_str :: "netlib \<Rightarrow> string \<Rightarrow> u16 \<Rightarrow> sock_addr \<Rightarrow> error_c \<times> sock_addr" where
  "sa_init_str nl s p a0 =
     (let a = Some ((impl_of a0)\<lparr>sa_length := 0\<rparr>) in
      if s = [] then (no_error, sa_init4 (mem32 0) p a)
      else if s = ''<loopback>'' then (no_error, sa_init4 (mem32 0x7F000001) p a)
      else if s = ''<broadcast>'' then (no_error, sa_init4 (mem32 0xFFFFFFFF) p a)
      else if s = ''<any6>'' then (no_error, sa_init6 in6addr_any p a)
      else if s = ''<loopback6>'' then (no_error, sa_init6 in6addr_loopback p a)
      else case inet_pton4 nl s of
        Some ip \<Rightarrow> (no_error, sa_init4 ip p a)
      | None \<Rightarrow>
          (case inet_pton6 nl s of
             Some ip \<Rightarrow>
               (no_error, map_option (\<lambda>i. i\<lparr>sa_store := splice 2 (net16 p) (splice 0 (fam_bytes AF_INET6)
                            (splice 8 ip (sa_store i))), sa_length := sizeof_in6\<rparr>) a)
           | None \<Rightarrow> (errno_c (stale_errno nl) [], a)))"

section \<open>Reading an address\<close>

definition sa_len :: "sock_addr \<Rightarrow> nat" where
  "sa_len a = (case a of None \<Rightarrow> 0 | Some i \<Rightarrow> sa_length i)"

text \<open>\<open>size()\<close>: makes the whole storage available to a system call.\<close>

definition sa_size :: "sock_addr \<Rightarrow> sock_addr" where
  "sa_size a = Some ((impl_of a)\<lparr>sa_length := sizeof_storage\<rparr>)"

definition sa_family :: "sock_addr \<Rightarrow> family" where
  "sa_family a = (case a of None \<Rightarrow> AF_UNSPEC | Some i \<Rightarrow> fam_of (field 0 2 (sa_store i)))"

definition sa_is_ip4 :: "sock_addr \<Rightarrow> bool" where
  "sa_is_ip4 a \<longleftrightarrow> a \<noteq> None \<and> sa_family a = AF_INET"

definition sa_is_any :: "sock_addr \<Rightarrow> bool" where
  "sa_is_any a =
     (case a of None \<Rightarrow> False
      | Some i \<Rightarrow> sa_family a = AF_INET \<and> field 4 4 (sa_store i) = mem32 0)"

definition sa_ip4 :: "sock_addr \<Rightarrow> bytes" where
  "sa_ip4 a = (case a of None \<Rightarrow> mem32 0
     | Some i \<Rightarrow> if sa_family a \<noteq> AF_INET then mem32 0 else field 4 4 (sa_store i))"

definition sa_ip6 :: "sock_addr \<Rightarrow> bytes option" where
  "sa_ip6 a = (case a of None \<Rightarrow> None
     | Some i \<Rightarrow> if sa_family a \<noteq> AF_INET6 then None else Some (field 8 16 (sa_store i)))"

definition sa_port :: "sock_addr \<Rightarrow> u16" where
  "sa_port a =
     (case a of None \<Rightarrow> 0
      | Some i \<Rightarrow> if sa_family a = AF_INET \<or> sa_family a = AF_INET6
                  then host16 (field 2 2 (sa_store i)) else 0)"

definition sa_set_port :: "u16 \<Rightarrow> sock_addr \<Rightarrow> sock_addr" where
  "sa_set_port p a =
     (case a of None \<Rightarrow> None
      | Some i \<Rightarrow> if sa_family a = AF_INET \<or> sa_family a = AF_INET6
                  then Some (i\<lparr>sa_store := splice 2 (net16 p) (sa_store i)\<rparr>) else a)"

text \<open>Copy assignment copies as many bytes as the length of the source says, over what was
  there; from an address without storage it reads through a null pointer (\<open>None\<close>).\<close>

definition sa_assign :: "sock_addr \<Rightarrow> sock_addr \<Rightarrow> sock_addr option" where
  "sa_assign other this =
     (case other of
        None \<Rightarrow> None
      | Some o1 \<Rightarrow>
          (let i = impl_of this
           in Some (Some (i\<lparr>sa_store := splice 0 (take (sa_length o1) (sa_store o1)) (sa_store i),
                            sa_length := sa_length o1\<rparr>))))"

definition sa_copy :: "sock_addr \<Rightarrow> sock_addr" where
  "sa_copy a = (case a of None \<Rightarrow> None
     | Some i \<Rightarrow> Some (impl_new\<lparr>sa_store := splice 0 (take (sa_length i) (sa_store i)) (sa_store impl_new),
                               sa_length := sa_length i\<rparr>))"

definition sa_to_avahi :: "sock_addr \<Rightarrow> avahi_address option" where
  "sa_to_avahi a =
     (case a of None \<Rightarrow> None
      | Some i \<Rightarrow>
          (case sa_family a of
             AF_INET \<Rightarrow> Some (AvahiInet (field 4 4 (sa_store i)))
           | AF_INET6 \<Rightarrow> Some (AvahiInet6 (field 8 16 (sa_store i)))
           | _ \<Rightarrow> None))"

definition sa_any :: "family \<Rightarrow> u16 \<Rightarrow> sock_addr" where
  "sa_any f p =
     (case f of AF_INET \<Rightarrow> sa_init4 (mem32 0) p None
      | AF_INET6 \<Rightarrow> sa_init6 in6addr_any p None
      | _ \<Rightarrow> None)"

section \<open>Order and text\<close>

fun memcmp_less :: "bytes \<Rightarrow> bytes \<Rightarrow> bool" where
  "memcmp_less (x # xs) (y # ys) = (x < y \<or> x = y \<and> memcmp_less xs ys)"
| "memcmp_less _ _ = False"

definition sa_less :: "sock_addr \<Rightarrow> sock_addr \<Rightarrow> bool" where
  "sa_less a b =
     (case (a, b) of
        (None, None) \<Rightarrow> True
      | (Some i, Some j) \<Rightarrow>
          if sa_length i \<noteq> sa_length j then sa_length i < sa_length j
          else memcmp_less (take (sa_length i) (sa_store i)) (take (sa_length j) (sa_store j))
      | _ \<Rightarrow> False)"

datatype addr_format = REG_SERVICE | IPADDR_ONLY

definition sa_format :: "netlib \<Rightarrow> addr_format \<Rightarrow> string \<Rightarrow> sock_addr \<Rightarrow> string" where
  "sa_format nl f suffix a =
     (case a of None \<Rightarrow> []
      | Some i \<Rightarrow>
          if sa_length i = 0 then []
          else (let portno = show_nat (unat (host16 (field 2 2 (sa_store i)))) in
                case sa_family a of
                  AF_INET \<Rightarrow>
                    (case f of
                       REG_SERVICE \<Rightarrow> portno @ ''-'' @ inet_ntop4 nl (field 4 4 (sa_store i)) @ suffix
                     | IPADDR_ONLY \<Rightarrow> inet_ntop4 nl (field 4 4 (sa_store i)))
                | AF_INET6 \<Rightarrow>
                    (case f of
                       REG_SERVICE \<Rightarrow> portno @ ''-'' @ inet_ntop6 nl (field 8 16 (sa_store i)) @ suffix
                     | IPADDR_ONLY \<Rightarrow> inet_ntop6 nl (field 8 16 (sa_store i)))
                | _ \<Rightarrow> []))"

definition sa_show :: "netlib \<Rightarrow> sock_addr \<Rightarrow> string" where
  "sa_show nl a =
     (case a of None \<Rightarrow> ''empty address''
      | Some i \<Rightarrow>
          if sa_length i = 0 then ''0-length address''
          else (case sa_family a of
                  AF_INET \<Rightarrow> inet_ntop4 nl (field 4 4 (sa_store i)) @ '':'' @ show_nat (unat (host16 (field 2 2 (sa_store i))))
                | AF_INET6 \<Rightarrow> inet_ntop6 nl (field 8 16 (sa_store i)) @ '':'' @ show_nat (unat (host16 (field 2 2 (sa_store i))))
                | _ \<Rightarrow> ''unknown address of length '' @ show_nat (sa_length i)))"

section \<open>Interfaces\<close>

text \<open>\<open>itf(broadcast)\<close>: the first interface that has the address. \<open>None\<close> is a read through
  a null broadcast address. The test of the broadcast flag is an \<open>or\<close> with a constant and so
  never fails, and an IPv6 address is compared with the beginning of the socket address of
  the interface.\<close>

definition IFF_BROADCAST :: nat where
  "IFF_BROADCAST = 2"

definition ifa_family :: "bytes \<Rightarrow> family" where
  "ifa_family bs = fam_of (field 0 2 bs)"

fun itf_scan :: "bool \<Rightarrow> sock_addr \<Rightarrow> ifaddr list \<Rightarrow> string option" where
  "itf_scan bc a [] = Some []"
| "itf_scan bc a (ifa # ifas) =
     (case (ifa_addr ifa, ifa_name ifa) of
        (Some bs, Some name) \<Rightarrow>
          if ifa_family bs \<noteq> sa_family a then itf_scan bc a ifas
          else if bc \<and> ifa_family bs \<noteq> AF_INET \<and> or (ifa_flags ifa) IFF_BROADCAST = 0 then itf_scan bc a ifas
          else if ifa_family bs = AF_INET then
            (if bc
             then (case ifa_broadaddr ifa of
                     None \<Rightarrow> None
                   | Some br \<Rightarrow>
                       if field 4 4 br = field 4 4 (sa_store (impl_of a)) then Some name
                       else itf_scan bc a ifas)
             else if field 4 4 bs = field 4 4 (sa_store (impl_of a)) then Some name
             else itf_scan bc a ifas)
          else if ifa_family bs = AF_INET6 then
            (if field 0 16 bs = field 8 16 (sa_store (impl_of a)) then Some name
             else itf_scan bc a ifas)
          else itf_scan bc a ifas
      | _ \<Rightarrow> itf_scan bc a ifas)"

definition sa_itf :: "netlib \<Rightarrow> bool \<Rightarrow> sock_addr \<Rightarrow> string option" where
  "sa_itf nl bc a =
     (case a of None \<Rightarrow> Some []
      | Some i \<Rightarrow> (case ifaddrs nl of None \<Rightarrow> Some [] | Some ifas \<Rightarrow> itf_scan bc a ifas))"

text \<open>\<open>SockAddrList\<close> is a list that grows at the front.\<close>

definition ENODATA :: int where
  "ENODATA = 61"

definition sl_add :: "sock_addr \<Rightarrow> sock_addr list \<Rightarrow> sock_addr list" where
  "sl_add a as = sa_copy a # as"

definition sl_of_addrinfo :: "bytes list \<Rightarrow> sock_addr list" where
  "sl_of_addrinfo ai = fold (\<lambda>bs. sl_add (sa_init_raw bs None)) ai []"

text \<open>An address has to have both families at once to get into the list.\<close>

fun interface_scan :: "string \<Rightarrow> family \<Rightarrow> ifaddr list \<Rightarrow> sock_addr list \<Rightarrow> sock_addr list" where
  "interface_scan name f [] as = as"
| "interface_scan name f (ifa # ifas) as =
     (case ifa_addr ifa of
        None \<Rightarrow> interface_scan name f ifas as
      | Some bs \<Rightarrow>
          if f \<noteq> AF_UNSPEC \<and> ifa_family bs \<noteq> f then interface_scan name f ifas as
          else if ifa_family bs \<noteq> AF_INET then interface_scan name f ifas as
          else if ifa_family bs \<noteq> AF_INET6 then interface_scan name f ifas as
          else if ifa_name ifa = Some name
          then interface_scan name f ifas
                 (sl_add (sa_init_raw (take (if ifa_family bs = AF_INET then sizeof_in else sizeof_in6) bs) None) as)
          else interface_scan name f ifas as)"

definition sl_interface :: "netlib \<Rightarrow> string \<Rightarrow> u16 \<Rightarrow> family \<Rightarrow> error_c \<times> sock_addr list" where
  "sl_interface nl name p f =
     (case ifaddrs nl of
        None \<Rightarrow> (errno_c (stale_errno nl) ''getifaddrs'', [])
      | Some ifas \<Rightarrow>
          (let as = interface_scan name f ifas []
           in (if as = [] then errno_c ENODATA [] else no_error, as)))"

text \<open>The address of an entry is read before it is tested; \<open>None\<close> when it is null, or when the
  broadcast address is.\<close>

fun broadcast_scan :: "string \<Rightarrow> ifaddr list \<Rightarrow> sock_addr list \<Rightarrow> sock_addr list option" where
  "broadcast_scan name [] as = Some as"
| "broadcast_scan name (ifa # ifas) as =
     (case ifa_addr ifa of
        None \<Rightarrow> None
      | Some bs \<Rightarrow>
          if ifa_family bs \<noteq> AF_INET then broadcast_scan name ifas as
          else if or (ifa_flags ifa) IFF_BROADCAST = 0 then broadcast_scan name ifas as
          else if ifa_name ifa = Some name
          then (case ifa_broadaddr ifa of
                  None \<Rightarrow> None
                | Some br \<Rightarrow> broadcast_scan name ifas (sl_add (sa_init_raw (take sizeof_in br) None) as))
          else broadcast_scan name ifas as)"

definition sl_broadcast :: "netlib \<Rightarrow> string \<Rightarrow> u16 \<Rightarrow> (error_c \<times> sock_addr list) option" where
  "sl_broadcast nl name p =
     (case ifaddrs nl of
        None \<Rightarrow> Some (errno_c (stale_errno nl) ''getifaddrs'', [])
      | Some ifas \<Rightarrow>
          map_option (\<lambda>as. (if as = [] then errno_c ENODATA [] else no_error, as)) (broadcast_scan name ifas []))"

text \<open>\<open>strtol(s, nullptr, 10)\<close> of an interface index: digits after blanks and a sign, held at the bounds
  of a \<open>long\<close> of 64 bits; the conversion to \<open>int\<close> keeps the low 32.\<close>

definition strtol10 :: "string \<Rightarrow> int" where
  "strtol10 s =
     (let t = dropWhile is_blank s;
          neg = (t \<noteq> [] \<and> hd t = CHR ''-'');
          u = (if t \<noteq> [] \<and> (hd t = CHR ''-'' \<or> hd t = CHR ''+'') then tl t else t);
          n = int (read_digits (takeWhile is_digit u))
      in if neg then max (- (2 ^ 63)) (- n) else min (2 ^ 63 - 1) n)"

definition itf_from_str :: "netlib \<Rightarrow> string \<Rightarrow> string \<times> int" where
  "itf_from_str nl s =
     (let idx = nametoindex nl s in
      if idx \<noteq> 0 then (s, idx)
      else (let idx2 = wrap32 (strtol10 s) in
            if idx2 = 0 then ([], 0)
            else (case indextoname nl idx2 of None \<Rightarrow> ([], 0) | Some name \<Rightarrow> (name, idx2))))"

definition sa_local :: "netlib \<Rightarrow> string \<Rightarrow> family \<Rightarrow> u16 \<Rightarrow> sock_addr" where
  "sa_local nl itf_name f p =
     (if itf_name = [] then sa_any f 0
      else (let as = snd (sl_interface nl itf_name p f) in
            case as of [] \<Rightarrow> sa_any f p | [a] \<Rightarrow> sa_copy a | _ \<Rightarrow> sa_any f 0))"

definition sa_broadcast :: "netlib \<Rightarrow> string \<Rightarrow> u16 \<Rightarrow> sock_addr option" where
  "sa_broadcast nl itf_name p =
     (if itf_name = [] then Some (sa_any AF_INET 0)
      else map_option (\<lambda>(e, as). case as of [a] \<Rightarrow> sa_copy a | _ \<Rightarrow> sa_any AF_INET 0)
             (sl_broadcast nl itf_name p))"

section \<open>Facts\<close>

lemma fam_of_bytes [simp]:
  "fam_of (fam_bytes AF_INET) = AF_INET" "fam_of (fam_bytes AF_INET6) = AF_INET6"
  "length (fam_bytes f) = 2"
  by (simp_all add: fam_of_def fam_bytes_def split: family.split)

lemma impl_of_ok: "sa_ok a \<Longrightarrow> length (sa_store (impl_of a)) = 128"
  by (auto simp: sa_ok_def impl_of_def impl_new_def sizeof_storage_def split: option.splits)

lemma sa_init4_facts:
  assumes "sa_ok a" "length ip = 4"
  shows "sa_ok (sa_init4 ip p a)" "sa_family (sa_init4 ip p a) = AF_INET"
    "sa_port (sa_init4 ip p a) = p" "sa_ip4 (sa_init4 ip p a) = ip" "sa_len (sa_init4 ip p a) = 16"
  using impl_of_ok [OF assms(1)] assms(2)
  by (simp_all add: sa_init4_def sa_ok_def Let_def sa_family_def sa_port_def sa_ip4_def sa_len_def
      sizeof_storage_def sizeof_in_def)

lemma sa_init6_facts:
  assumes "sa_ok a" "length ip = 16"
  shows "sa_ok (sa_init6 ip p a)" "sa_family (sa_init6 ip p a) = AF_INET6"
    "sa_port (sa_init6 ip p a) = p" "sa_ip6 (sa_init6 ip p a) = Some ip" "sa_len (sa_init6 ip p a) = 28"
  using impl_of_ok [OF assms(1)] assms(2)
  by (simp_all add: sa_init6_def sa_ok_def Let_def sa_family_def sa_port_def sa_ip6_def sa_len_def
      sizeof_storage_def sizeof_in6_def)

lemma memcmp_less_irrefl: "\<not> memcmp_less xs xs"
  by (induction xs) auto

lemma memcmp_less_trans: "memcmp_less xs ys \<Longrightarrow> memcmp_less ys zs \<Longrightarrow> memcmp_less xs zs"
proof (induction xs ys arbitrary: zs rule: memcmp_less.induct)
  case (1 x xs y ys)
  then show ?case by (cases zs) auto
qed simp_all

lemma memcmp_less_total: "length xs = length ys \<Longrightarrow> memcmp_less xs ys \<or> xs = ys \<or> memcmp_less ys xs"
  by (induction xs ys rule: list_induct2) auto

lemma interface_scan_same: "interface_scan name f ifas as = as"
  by (induction ifas arbitrary: as) (auto split: option.split)

lemma sl_interface_empty: "snd (sl_interface nl name p f) = []"
  by (simp add: sl_interface_def interface_scan_same split: option.split)

text \<open>What tells two addresses apart: the length and the bytes within it.\<close>

definition sa_key :: "sock_addr \<Rightarrow> nat \<times> bytes" where
  "sa_key a = (case a of None \<Rightarrow> (0, []) | Some i \<Rightarrow> (sa_length i, take (sa_length i) (sa_store i)))"

lemma sa_less_some:
  assumes "a \<noteq> None" "b \<noteq> None"
  shows "sa_less a b \<longleftrightarrow>
    fst (sa_key a) < fst (sa_key b) \<or> fst (sa_key a) = fst (sa_key b) \<and> memcmp_less (snd (sa_key a)) (snd (sa_key b))"
  using assms by (auto simp: sa_less_def sa_key_def split: option.splits)

lemma sa_key_length: "sa_ok a \<Longrightarrow> length (snd (sa_key a)) = fst (sa_key a)"
  by (auto simp: sa_key_def sa_ok_def split: option.splits)

section \<open>Properties\<close>

text \<open>C25: On addresses that are set, the comparison the maps use is a strict weak order, and two
  addresses are equivalent under it just when they have the same length and the same bytes: no
  map merges different peers.\<close>

theorem addresses_ordered:
  assumes "a \<noteq> None" "b \<noteq> None" "c \<noteq> None" "sa_ok a" "sa_ok b"
  shows "\<not> sa_less a a \<and> (sa_less a b \<and> sa_less b c \<longrightarrow> sa_less a c) \<and>
    (\<not> sa_less a b \<and> \<not> sa_less b a \<longleftrightarrow> sa_key a = sa_key b)"
proof (intro conjI impI)
  show "\<not> sa_less a a" using assms by (simp add: sa_less_some memcmp_less_irrefl)
  assume "sa_less a b \<and> sa_less b c"
  then show "sa_less a c"
    using assms by (auto simp: sa_less_some intro: memcmp_less_trans)
next
  obtain m xs where a: "sa_key a = (m, xs)" by fastforce
  obtain n ys where b: "sa_key b = (n, ys)" by fastforce
  have "length xs = m" "length ys = n"
    using sa_key_length [OF assms(4)] sa_key_length [OF assms(5)] a b by simp_all
  then show "(\<not> sa_less a b \<and> \<not> sa_less b a) = (sa_key a = sa_key b)"
    unfolding sa_less_some [OF assms(1,2)] sa_less_some [OF assms(2,1)] a b
    using memcmp_less_total [of xs ys] memcmp_less_irrefl [of xs] by auto
qed

theorem addresses_ordered_witness:
  "\<not> sa_less (sa_init4 [10, 0, 0, 1] 80 None) (sa_init4 [10, 0, 0, 1] 80 None) \<and>
   (\<not> sa_less (sa_init4 [10, 0, 0, 1] 80 None) (sa_init4 [10, 0, 0, 2] 80 None) \<and>
    \<not> sa_less (sa_init4 [10, 0, 0, 2] 80 None) (sa_init4 [10, 0, 0, 1] 80 None) \<longleftrightarrow>
    sa_key (sa_init4 [10, 0, 0, 1] 80 None) = sa_key (sa_init4 [10, 0, 0, 2] 80 None))"
proof -
  have ok: "sa_ok (sa_init4 ip p None)" "sa_init4 ip p None \<noteq> None" if "length ip = 4" for ip p
    using sa_init4_facts(1) [of None ip p] that by (simp_all add: sa_ok_def sa_init4_def Let_def)
  from addresses_ordered [OF ok(2) ok(2) ok(2) ok(1) ok(1), of "[10, 0, 0, 1]" "[10, 0, 0, 2]" "[10, 0, 0, 1]" 80 80 80]
  show ?thesis by simp
qed

text \<open>An interface given by name never yields an address: the list of its addresses stays
  empty, whatever interfaces there are, so that a server or client bound to one listens on all
  of them.\<close>

theorem interface_address_is_any:
  "sa_local nl itf_name f p = (if itf_name = [] then sa_any f 0 else sa_any f p)"
  by (simp add: sa_local_def sl_interface_empty Let_def)

end
