(* ===== verification/Object_Io.thy ===== *)
theory Object_Io
  imports Sockaddr "HOL-Library.Multiset"
begin

text \<open>
  What the event-driven objects of \<open>src/impl\<close> share. An object is a record that extends
  \<open>io\<close>. Everything it asks of the outside -- a system call, a call of the event loop, a
  timer, the resolver, the service directory, or a callback of its user -- is an \<open>action\<close>;
  the answer is a \<open>reply\<close> of the environment \<open>env\<close>, an arbitrary function of all that
  happened to the object so far. Nothing is assumed about it unless a theorem says so.
  The operations are programs of the state monad over the object.
\<close>

section \<open>Actions and replies\<close>

datatype sockopt =
    KeepAlive | Broadcast | ReuseAddr | ReusePort
  | MulticastTtl nat | MulticastIf int | MulticastHops nat | MulticastIf6 int
  | AddMembership bytes int

datatype (plugins only: code size) syscall =
    Socket family int | Close int | Bind int sock_addr | Connect int sock_addr
  | Listen int int | Accept int | GetSockName int | GetSockError int | SetSockOpt int sockopt
  | Fionread int | Recv int int | RecvFrom int int | Send int bytes | SendTo int bytes sock_addr
  | ReadFd int nat | WriteFd int bytes | OpenTty string | FcntlGet int | FcntlSet int int
  | TtyCall string int | TimerfdCreate int | TimerfdSettime int "int \<times> int" "int \<times> int" int
  | SigProcMask "int list" | SignalFd "int list"
  | GetAddrInfo string string int int int int | GaiError | FreeAddrInfo

text \<open>The event loop and what it offers: timers, the resolver, the directory of services and
  its registration groups, the device directory, statistics.\<close>

datatype (plugins only: code size) service =
    PollAdd int u32 | PollMod int u32 | PollDel int
  | TimerOneshot int | TimerStop | ResolverInit string u16 family int int int | Requery
  | HasZeroconf | QueryServiceName sock_addr int | WatchServices int | ServiceInfo string
  | PortClaimed u16 sock_addr | RandomPort u16 u16
  | GroupNew | GroupCreate | GroupReset | GroupCommit | GroupDrop
  | GroupAdd string family int u16 "(string \<times> string) list"
  | FindId string | FindPath string | WatchDevices
  | RegisterReport string int | CountAdd string int
  | NewStream int string                 \<comment> \<open>hand an accepted descriptor to a new stream\<close>

datatype (plugins only: code size) upcall =
    Reported report | OnConnect string | OnRead bytes | OnClose | OnWriteable | OnShoot
  | OnSignal bytes | OnResolved "sock_addr list"
  | OnStreamRead string bytes | OnStreamClose string | OnStreamWriteable string
                                         \<comment> \<open>of one of the object's streams, by its name\<close>

datatype action = Sys syscall | Svc service | Up upcall

record reply =
  rp_ret :: int
  rp_errno :: int
  rp_size :: int
  rp_data :: bytes
  rp_name :: string
  rp_canon :: string
  rp_addr :: sock_addr
  rp_addrs :: "sock_addr list"
  rp_txt :: "(string \<times> string) list"
  rp_gone :: bool                        \<comment> \<open>the object was destroyed meanwhile\<close>

definition reply_ok :: reply where
  "reply_ok = \<lparr>rp_ret = 0, rp_errno = 0, rp_size = 0, rp_data = [], rp_name = [], rp_canon = [],
     rp_addr = None, rp_addrs = [], rp_txt = [], rp_gone = False\<rparr>"

type_synonym trace = "(action \<times> reply) list"    \<comment> \<open>latest first\<close>

type_synonym env = "trace \<Rightarrow> action \<Rightarrow> reply"

record io =
  io_trace :: trace
  io_handler :: bool                     \<comment> \<open>an error handler is set\<close>
  io_exists :: bool                      \<comment> \<open>\<open>_exists\<close>\<close>
  io_fault :: bool                       \<comment> \<open>something undefined was done, e.g. through a dead iterator\<close>

text \<open>A call that fails says why: the kernel sets \<open>errno\<close>.\<close>

definition errno_set :: "env \<Rightarrow> bool" where
  "errno_set env \<longleftrightarrow> (\<forall>tr a. rp_ret (env tr a) = -1 \<longrightarrow> rp_errno (env tr a) \<noteq> 0)"

section \<open>Programs\<close>

definition ask :: "env \<Rightarrow> action \<Rightarrow> ('a io_scheme, reply) state" where
  "ask env a = State (\<lambda>s. (env (io_trace s) a, s\<lparr>io_trace := (a, env (io_trace s) a) # io_trace s\<rparr>))"

definition sys :: "env \<Rightarrow> syscall \<Rightarrow> ('a io_scheme, reply) state" where
  "sys env c = ask env (Sys c)"

definition svc :: "env \<Rightarrow> service \<Rightarrow> ('a io_scheme, reply) state" where
  "svc env c = ask env (Svc c)"

definition modify :: "('s \<Rightarrow> 's) \<Rightarrow> ('s, unit) state" where
  "modify f = State (\<lambda>s. ((), f s))"

definition gets :: "('s \<Rightarrow> 'b) \<Rightarrow> ('s, 'b) state" where
  "gets f = State (\<lambda>s. (f s, s))"

definition whenM :: "bool \<Rightarrow> ('s, unit) state \<Rightarrow> ('s, unit) state" where
  "whenM c m = (if c then m else State_Monad.return ())"

definition fault :: "('a io_scheme, unit) state" where
  "fault = modify (\<lambda>s. s\<lparr>io_fault := True\<rparr>)"

text \<open>A callback runs code of the user, who may destroy the object.\<close>

definition callback :: "env \<Rightarrow> upcall \<Rightarrow> ('a io_scheme, unit) state" where
  "callback env a =
     do { r \<leftarrow> ask env (Up a);
          modify (\<lambda>s. s\<lparr>io_exists := (io_exists s \<and> \<not> rp_gone r)\<rparr>) }"

text \<open>A callback whose answer matters.\<close>

definition ask_user :: "env \<Rightarrow> upcall \<Rightarrow> ('a io_scheme, reply) state" where
  "ask_user env a =
     do { r \<leftarrow> ask env (Up a);
          modify (\<lambda>s. s\<lparr>io_exists := (io_exists s \<and> \<not> rp_gone r)\<rparr>);
          State_Monad.return r }"

text \<open>\<open>on_error\<close> of an object: was there an error?\<close>

definition on_error :: "env \<Rightarrow> error_c \<Rightarrow> string \<Rightarrow> ('a io_scheme, bool) state" where
  "on_error env ec ctx =
     do { h \<leftarrow> gets io_handler;
          (case on_error_ctx h ec ctx of
             (b, None) \<Rightarrow> State_Monad.return b
           | (b, Some rep) \<Rightarrow> do { callback env (Reported rep); State_Monad.return b }) }"

text \<open>A system call whose result is turned into an error value at once.\<close>

definition call :: "env \<Rightarrow> syscall \<Rightarrow> string \<Rightarrow> ('a io_scheme, error_c) state" where
  "call env c ctx = do { r \<leftarrow> sys env c; State_Monad.return (to_errno_c (rp_ret r) (rp_errno r) ctx) }"

definition svc_call :: "env \<Rightarrow> service \<Rightarrow> string \<Rightarrow> ('a io_scheme, error_c) state" where
  "svc_call env c ctx = do { r \<leftarrow> svc env c; State_Monad.return (to_errno_c (rp_ret r) (rp_errno r) ctx) }"

text \<open>The calls of the event loop; their errors carry the context of \<open>src/impl/epoll.h\<close>.\<close>

definition poll_add :: "env \<Rightarrow> int \<Rightarrow> u32 \<Rightarrow> ('a io_scheme, error_c) state" where
  "poll_add env fd evs = svc_call env (PollAdd fd evs) ''epoll_ctl add''"

definition poll_mod :: "env \<Rightarrow> int \<Rightarrow> u32 \<Rightarrow> ('a io_scheme, error_c) state" where
  "poll_mod env fd evs = svc_call env (PollMod fd evs) ''epoll_ctl mod''"

definition poll_del :: "env \<Rightarrow> int \<Rightarrow> ('a io_scheme, error_c) state" where
  "poll_del env fd = svc_call env (PollDel fd) ''epoll_ctl del''"

definition sa_bind :: "env \<Rightarrow> sock_addr \<Rightarrow> int \<Rightarrow> ('a io_scheme, error_c) state" where
  "sa_bind env a fd =
     (case a of None \<Rightarrow> State_Monad.return (errno_c 22 ''bind no address'')
      | Some _ \<Rightarrow> call env (Bind fd a) ''bind'')"

definition sa_connect :: "env \<Rightarrow> sock_addr \<Rightarrow> int \<Rightarrow> ('a io_scheme, error_c) state" where
  "sa_connect env a fd =
     (case a of None \<Rightarrow> State_Monad.return (errno_c 22 ''connect no address'')
      | Some _ \<Rightarrow> call env (Connect fd a) ''bind'')"

text \<open>The constructor from a socket: what \<open>getsockname\<close> finds.\<close>

definition sa_of_fd :: "env \<Rightarrow> int \<Rightarrow> ('a io_scheme, sock_addr) state" where
  "sa_of_fd env fd =
     do { r \<leftarrow> sys env (GetSockName fd);
          State_Monad.return (sa_init_fd (rp_ret r) (rp_data r) (Some impl_new)) }"

text \<open>The operations of a service group give back the directory's own error numbers, and a
  service is announced on one interface or on all of them.\<close>

definition group_call :: "env \<Rightarrow> service \<Rightarrow> string \<Rightarrow> ('a io_scheme, error_c) state" where
  "group_call env c ctx = do { r \<leftarrow> svc env c; State_Monad.return (avahi_code (rp_ret r) ctx) }"

definition family_code :: "family \<Rightarrow> int" where
  "family_code f = (case f of AF_UNSPEC \<Rightarrow> 0 | AF_INET \<Rightarrow> 2 | AF_INET6 \<Rightarrow> 10 | AF_OTHER n \<Rightarrow> int n)"

definition service_itf :: "netlib \<Rightarrow> string \<Rightarrow> int" where
  "service_itf nl itf = (if itf = [] then -1 else let i = nametoindex nl itf in if i \<noteq> 0 then i else -1)"

text \<open>An operation as a step of the object.\<close>

definition exec :: "('s, 'a) state \<Rightarrow> 's \<Rightarrow> 's option" where
  "exec m s = Some (snd (run_state m s))"

section \<open>Loops\<close>

text \<open>\<open>while (true)\<close> around a body that says when to leave; \<open>None\<close> if it never does.\<close>

partial_function (option) loop_until :: "('s, 'r option) state \<Rightarrow> 's \<Rightarrow> ('r \<times> 's) option" where
  "loop_until body s =
     (case run_state body s of
        (None, t) \<Rightarrow> loop_until body t
      | (Some r, t) \<Rightarrow> Some (r, t))"

text \<open>What a handler tells the event loop.\<close>

datatype handled = NOT_HANDLED | HANDLED | STOP

definition EAGAIN :: int where "EAGAIN = 11"
definition EINTR :: int where "EINTR = 4"
definition EPIPE :: int where "EPIPE = 32"
definition EINPROGRESS :: int where "EINPROGRESS = 115"
definition ENOTSUP :: int where "ENOTSUP = 95"
definition EPROTONOSUPPORT :: int where "EPROTONOSUPPORT = 93"
definition EADDRINUSE :: int where "EADDRINUSE = 98"
definition EADDRNOTAVAIL :: int where "EADDRNOTAVAIL = 99"
definition EINVAL :: int where "EINVAL = 22"
definition ENODEV :: int where "ENODEV = 19"
definition ENOENT :: int where "ENOENT = 2"
definition EAFNOSUPPORT :: int where "EAFNOSUPPORT = 97"

definition EPOLLIN :: u32 where "EPOLLIN = 0x1"
definition EPOLLPRI :: u32 where "EPOLLPRI = 0x2"
definition EPOLLOUT :: u32 where "EPOLLOUT = 0x4"
definition EPOLLERR :: u32 where "EPOLLERR = 0x8"
definition EPOLLHUP :: u32 where "EPOLLHUP = 0x10"
definition EPOLLRDHUP :: u32 where "EPOLLRDHUP = 0x2000"
definition EPOLLET :: u32 where "EPOLLET = 0x80000000"

definition SOCK_STREAM :: int where "SOCK_STREAM = 1"
definition SOCK_DGRAM :: int where "SOCK_DGRAM = 2"

section \<open>What holds after a program\<close>

definition after :: "('s, 'a) state \<Rightarrow> ('a \<Rightarrow> 's \<Rightarrow> bool) \<Rightarrow> 's \<Rightarrow> bool" where
  "after m Q s = (case run_state m s of (x, t) \<Rightarrow> Q x t)"

named_theorems after_simps "the weakest precondition of the monad's operations"
named_theorems after_rules "what the objects' operations establish"

lemma after_return [after_simps]: "after (State_Monad.return x) Q s = Q x s"
  by (simp add: after_def)

lemma after_bind [after_simps]: "after (State_Monad.bind m f) Q s = after m (\<lambda>x. after (f x) Q) s"
  by (simp add: after_def split: prod.split)

lemma after_gets [after_simps]: "after (gets f) Q s = Q (f s) s"
  by (simp add: after_def gets_def)

lemma after_modify [after_simps]: "after (modify f) Q s = Q () (f s)"
  by (simp add: after_def modify_def)

lemma after_ask [after_simps]:
  "after (ask env a) Q s =
     Q (env (io_trace s) a) (s\<lparr>io_trace := (a, env (io_trace s) a) # io_trace s\<rparr>)"
  by (simp add: after_def ask_def)

lemma after_sys [after_simps]: "after (sys env c) Q s = after (ask env (Sys c)) Q s"
  by (simp add: sys_def)

lemma after_svc [after_simps]: "after (svc env c) Q s = after (ask env (Svc c)) Q s"
  by (simp add: svc_def)

lemma after_if [after_simps]: "after (if c then m else n) Q s = (if c then after m Q s else after n Q s)"
  by simp

lemma after_whenM [after_simps]: "after (whenM c m) Q s = (if c then after m Q s else Q () s)"
  by (simp add: whenM_def after_simps)

lemma after_mono: "after m Q s \<Longrightarrow> (\<And>x t. Q x t \<Longrightarrow> R x t) \<Longrightarrow> after m R s"
  by (auto simp: after_def split: prod.splits)

lemma after_run: "after m Q s \<Longrightarrow> run_state m s = (x, t) \<Longrightarrow> Q x t"
  by (simp add: after_def)

lemma exec_after: "exec m s = Some t \<Longrightarrow> after m (\<lambda>_. P) s \<Longrightarrow> P t"
  by (auto simp: exec_def after_def split: prod.splits)

lemma after_conj: "after m Q s \<Longrightarrow> after m R s \<Longrightarrow> after m (\<lambda>x t. Q x t \<and> R x t) s"
  by (auto simp: after_def split: prod.splits)

lemma after_fault [after_simps]: "after fault Q s = Q () (s\<lparr>io_fault := True\<rparr>)"
  by (simp add: fault_def after_simps)

lemma after_callback [after_simps]:
  "after (callback env u) Q s =
     Q () (s\<lparr>io_trace := (Up u, env (io_trace s) (Up u)) # io_trace s,
             io_exists := (io_exists s \<and> \<not> rp_gone (env (io_trace s) (Up u)))\<rparr>)"
  by (simp add: callback_def after_simps)

lemma after_ask_user [after_simps]:
  "after (ask_user env u) Q s =
     Q (env (io_trace s) (Up u))
       (s\<lparr>io_trace := (Up u, env (io_trace s) (Up u)) # io_trace s,
          io_exists := (io_exists s \<and> \<not> rp_gone (env (io_trace s) (Up u)))\<rparr>)"
  by (simp add: ask_user_def after_simps)

lemma after_call [after_simps]:
  "after (call env c ctx) Q s =
     after (ask env (Sys c)) (\<lambda>r. Q (to_errno_c (rp_ret r) (rp_errno r) ctx)) s"
  by (simp add: call_def after_simps)

lemma after_svc_call [after_simps]:
  "after (svc_call env c ctx) Q s =
     after (ask env (Svc c)) (\<lambda>r. Q (to_errno_c (rp_ret r) (rp_errno r) ctx)) s"
  by (simp add: svc_call_def after_simps)

text \<open>The report \<open>on_error\<close> makes, and the program as a case distinction.\<close>

definition report_action :: "bool \<Rightarrow> error_c \<Rightarrow> string \<Rightarrow> upcall" where
  "report_action h ec ctx = Reported (report_to h (if ctx \<noteq> [] then add_context ctx ec else ec))"

lemma after_on_error [after_simps]:
  "after (on_error env ec ctx) Q s =
     (if failed ec
      then after (callback env (report_action (io_handler s) ec ctx)) (\<lambda>_. Q True) s
      else Q False s)"
  by (simp add: on_error_def after_simps on_error_ctx_def report_action_def)

lemma after_sa_bind [after_simps]:
  "after (sa_bind env a fd) Q s =
     (if a = None then Q (errno_c 22 ''bind no address'') s else after (call env (Bind fd a) ''bind'') Q s)"
  by (auto simp: sa_bind_def after_simps split: option.split)

lemma after_sa_connect [after_simps]:
  "after (sa_connect env a fd) Q s =
     (if a = None then Q (errno_c 22 ''connect no address'') s else after (call env (Connect fd a) ''bind'') Q s)"
  by (auto simp: sa_connect_def after_simps split: option.split)

lemma after_group_call [after_simps]:
  "after (group_call env c ctx) Q s = after (ask env (Svc c)) (\<lambda>r. Q (avahi_code (rp_ret r) ctx)) s"
  by (simp add: group_call_def after_simps)

lemma after_sa_of_fd [after_simps]:
  "after (sa_of_fd env fd) Q s =
     after (ask env (Sys (GetSockName fd))) (\<lambda>r. Q (sa_init_fd (rp_ret r) (rp_data r) (Some impl_new))) s"
  by (simp add: sa_of_fd_def after_simps)

lemmas after_poll = poll_add_def poll_mod_def poll_del_def

text \<open>Programs that keep an invariant, composed along their structure.\<close>

definition keeps :: "('s \<Rightarrow> bool) \<Rightarrow> ('s, 'a) state \<Rightarrow> bool" where
  "keeps P m \<longleftrightarrow> (\<forall>s. P s \<longrightarrow> after m (\<lambda>_. P) s)"

named_theorems keeps_intros "programs that keep an invariant"

lemma keepsI: "(\<And>s. P s \<Longrightarrow> after m (\<lambda>_. P) s) \<Longrightarrow> keeps P m"
  by (simp add: keeps_def)

lemma keepsD: "keeps P m \<Longrightarrow> P s \<Longrightarrow> run_state m s = (x, t) \<Longrightarrow> P t"
  by (auto simp: keeps_def after_def split: prod.splits)

lemma keeps_run: "keeps P m \<Longrightarrow> P s \<Longrightarrow> P (snd (run_state m s))"
  by (cases "run_state m s") (auto dest: keepsD)

lemma keeps_bind [keeps_intros]:
  "keeps P m \<Longrightarrow> (\<And>x. keeps P (f x)) \<Longrightarrow> keeps P (State_Monad.bind m f)"
  unfolding keeps_def after_bind by (blast intro: after_mono)

lemma keeps_return [keeps_intros]: "keeps P (State_Monad.return x)"
  by (simp add: keeps_def after_simps)

lemma keeps_gets [keeps_intros]: "keeps P (gets f)"
  by (simp add: keeps_def after_simps)

lemma keeps_if [keeps_intros]:
  "(c \<Longrightarrow> keeps P m) \<Longrightarrow> (\<not> c \<Longrightarrow> keeps P n) \<Longrightarrow> keeps P (if c then m else n)"
  by simp

lemma keeps_whenM [keeps_intros]: "(c \<Longrightarrow> keeps P m) \<Longrightarrow> keeps P (whenM c m)"
  by (simp add: keeps_def after_simps)

lemma keeps_option [keeps_intros]:
  "keeps P a \<Longrightarrow> (\<And>y. keeps P (b y)) \<Longrightarrow> keeps P (case x of None \<Rightarrow> a | Some y \<Rightarrow> b y)"
  by (cases x) simp_all

lemma keeps_prod [keeps_intros]: "(\<And>y z. keeps P (b y z)) \<Longrightarrow> keeps P (case x of (y, z) \<Rightarrow> b y z)"
  by (cases x) simp

lemma keeps_sum [keeps_intros]:
  "(\<And>y. keeps P (a y)) \<Longrightarrow> (\<And>y. keeps P (b y)) \<Longrightarrow> keeps P (case x of Inl y \<Rightarrow> a y | Inr y \<Rightarrow> b y)"
  by (cases x) simp_all

lemma keeps_modify [keeps_intros]: "(\<And>s. P s \<Longrightarrow> P (f s)) \<Longrightarrow> keeps P (modify f)"
  by (simp add: keeps_def after_simps)

lemma keeps_ask [keeps_intros]:
  "(\<And>s r. P s \<Longrightarrow> P (s\<lparr>io_trace := (a, r) # io_trace s\<rparr>)) \<Longrightarrow> keeps P (ask env a)"
  by (simp add: keeps_def after_simps)

lemma keeps_sys [keeps_intros]:
  "(\<And>s r. P s \<Longrightarrow> P (s\<lparr>io_trace := (Sys c, r) # io_trace s\<rparr>)) \<Longrightarrow> keeps P (sys env c)"
  unfolding sys_def by (intro keeps_intros)

lemma keeps_svc [keeps_intros]:
  "(\<And>s r. P s \<Longrightarrow> P (s\<lparr>io_trace := (Svc c, r) # io_trace s\<rparr>)) \<Longrightarrow> keeps P (svc env c)"
  unfolding svc_def by (intro keeps_intros)

lemma keeps_call [keeps_intros]:
  "(\<And>s r. P s \<Longrightarrow> P (s\<lparr>io_trace := (Sys c, r) # io_trace s\<rparr>)) \<Longrightarrow> keeps P (call env c ctx)"
  unfolding call_def by (intro keeps_intros)

lemma keeps_svc_call [keeps_intros]:
  "(\<And>s r. P s \<Longrightarrow> P (s\<lparr>io_trace := (Svc c, r) # io_trace s\<rparr>)) \<Longrightarrow> keeps P (svc_call env c ctx)"
  unfolding svc_call_def by (intro keeps_intros)

lemma keeps_group_call [keeps_intros]:
  "(\<And>s r. P s \<Longrightarrow> P (s\<lparr>io_trace := (Svc c, r) # io_trace s\<rparr>)) \<Longrightarrow> keeps P (group_call env c ctx)"
  unfolding group_call_def by (intro keeps_intros)

lemma keeps_sa_of_fd [keeps_intros]:
  "(\<And>s r. P s \<Longrightarrow> P (s\<lparr>io_trace := (Sys (GetSockName fd), r) # io_trace s\<rparr>)) \<Longrightarrow> keeps P (sa_of_fd env fd)"
  unfolding sa_of_fd_def by (intro keeps_intros)

lemma keeps_sa_bind [keeps_intros]:
  "(\<And>s r. P s \<Longrightarrow> P (s\<lparr>io_trace := (Sys (Bind fd a), r) # io_trace s\<rparr>)) \<Longrightarrow> keeps P (sa_bind env a fd)"
  unfolding sa_bind_def by (intro keeps_intros)

lemma keeps_sa_connect [keeps_intros]:
  "(\<And>s r. P s \<Longrightarrow> P (s\<lparr>io_trace := (Sys (Connect fd a), r) # io_trace s\<rparr>)) \<Longrightarrow> keeps P (sa_connect env a fd)"
  unfolding sa_connect_def by (intro keeps_intros)

lemma keeps_callback [keeps_intros]:
  "(\<And>s r e. P s \<Longrightarrow> P (s\<lparr>io_trace := (Up u, r) # io_trace s, io_exists := e\<rparr>)) \<Longrightarrow> keeps P (callback env u)"
  by (simp add: keeps_def after_simps)

lemma keeps_ask_user [keeps_intros]:
  "(\<And>s r e. P s \<Longrightarrow> P (s\<lparr>io_trace := (Up u, r) # io_trace s, io_exists := e\<rparr>)) \<Longrightarrow> keeps P (ask_user env u)"
  by (simp add: keeps_def after_simps)

lemma keeps_on_error [keeps_intros]:
  "(\<And>s r e rep. P s \<Longrightarrow> P (s\<lparr>io_trace := (Up (Reported rep), r) # io_trace s, io_exists := e\<rparr>)) \<Longrightarrow>
     keeps P (on_error env ec ctx)"
  by (simp add: keeps_def after_simps report_action_def)

lemma keeps_poll_add [keeps_intros]:
  "(\<And>s r. P s \<Longrightarrow> P (s\<lparr>io_trace := (Svc (PollAdd fd evs), r) # io_trace s\<rparr>)) \<Longrightarrow> keeps P (poll_add env fd evs)"
  unfolding poll_add_def by (intro keeps_intros)

lemma keeps_poll_mod [keeps_intros]:
  "(\<And>s r. P s \<Longrightarrow> P (s\<lparr>io_trace := (Svc (PollMod fd evs), r) # io_trace s\<rparr>)) \<Longrightarrow> keeps P (poll_mod env fd evs)"
  unfolding poll_mod_def by (intro keeps_intros)

lemma keeps_poll_del [keeps_intros]:
  "(\<And>s r. P s \<Longrightarrow> P (s\<lparr>io_trace := (Svc (PollDel fd), r) # io_trace s\<rparr>)) \<Longrightarrow> keeps P (poll_del env fd)"
  unfolding poll_del_def by (intro keeps_intros)

lemma keeps_fault [keeps_intros]: "(\<And>s. P s \<Longrightarrow> P (s\<lparr>io_fault := True\<rparr>)) \<Longrightarrow> keeps P fault"
  by (simp add: keeps_def after_simps)

lemma exec_keeps: "exec m s = Some t \<Longrightarrow> keeps P m \<Longrightarrow> P s \<Longrightarrow> P t"
  by (cases "run_state m s") (auto simp: exec_def dest: keepsD)

text \<open>Programs that lead from one condition to another, in front of and behind which invariants
  hold.\<close>

definition leads :: "('s \<Rightarrow> bool) \<Rightarrow> ('s \<Rightarrow> bool) \<Rightarrow> ('s, 'a) state \<Rightarrow> bool" where
  "leads P Q m \<longleftrightarrow> (\<forall>s. P s \<longrightarrow> after m (\<lambda>_. Q) s)"

lemma leadsI: "(\<And>s. P s \<Longrightarrow> after m (\<lambda>_. Q) s) \<Longrightarrow> leads P Q m"
  by (simp add: leads_def)

lemma leads_first: "keeps P m \<Longrightarrow> (\<And>x. leads P Q (f x)) \<Longrightarrow> leads P Q (State_Monad.bind m f)"
  unfolding leads_def keeps_def after_bind by (blast intro: after_mono)

lemma leads_last: "leads P Q m \<Longrightarrow> (\<And>x. keeps Q (f x)) \<Longrightarrow> leads P Q (State_Monad.bind m f)"
  unfolding leads_def keeps_def after_bind by (blast intro: after_mono)

lemma leads_if: "(c \<Longrightarrow> leads P Q m) \<Longrightarrow> (\<not> c \<Longrightarrow> leads P Q n) \<Longrightarrow> leads P Q (if c then m else n)"
  by simp

section \<open>Reasoning about loops\<close>

lemma loop_until_step:
  "loop_until body s =
     (case run_state body s of (None, t) \<Rightarrow> loop_until body t | (Some r, t) \<Rightarrow> Some (r, t))"
  by (rule loop_until.simps)


lemma loop_until_invariant:
  assumes run: "loop_until body s = Some y" and init: "I s"
    and body: "\<And>s. I s \<Longrightarrow> after body (\<lambda>x t. case x of None \<Rightarrow> I t | Some r \<Rightarrow> Q (r, t)) s"
  shows "Q y"
proof -
  have "I s \<longrightarrow> (\<forall>s. I s \<longrightarrow> after body (\<lambda>x t. case x of None \<Rightarrow> I t | Some r \<Rightarrow> Q (r, t)) s) \<longrightarrow> Q y"
  proof (rule loop_until.raw_induct [OF _ run, where P = "\<lambda>body s y. I s \<longrightarrow>
      (\<forall>s. I s \<longrightarrow> after body (\<lambda>x t. case x of None \<Rightarrow> I t | Some r \<Rightarrow> Q (r, t)) s) \<longrightarrow> Q y"], goal_cases)
    case (1 loop body s y)
    show ?case
    proof (intro impI)
      assume I: "I s" and B: "\<forall>s. I s \<longrightarrow> after body (\<lambda>x t. case x of None \<Rightarrow> I t | Some r \<Rightarrow> Q (r, t)) s"
      then have "after body (\<lambda>x t. case x of None \<Rightarrow> I t | Some r \<Rightarrow> Q (r, t)) s" by blast
      then show "Q y"
      proof (cases "run_state body s")
        case (Pair x t)
        show ?thesis
        proof (cases x)
          case None
          with 1(2) Pair have "loop body t = Some y" by simp
          then have "I t \<longrightarrow> (\<forall>s. I s \<longrightarrow> after body (\<lambda>x t. case x of None \<Rightarrow> I t | Some r \<Rightarrow> Q (r, t)) s) \<longrightarrow> Q y"
            by (rule 1(1))
          then show ?thesis using B None Pair \<open>after _ _ s\<close> by (simp add: after_def)
        qed (use 1(2) Pair \<open>after _ _ s\<close> in \<open>auto simp: after_def\<close>)
      qed
    qed
  qed
  then show ?thesis using init body by blast
qed

lemma loop_until_keeps:
  assumes "loop_until body s = Some (r, t)" "keeps I body" "I s"
  shows "I t"
proof -
  have "(\<lambda>(r, t). I t) (r, t)"
    by (rule loop_until_invariant [OF assms(1), where I = I], rule assms(3))
       (use assms(2) in \<open>auto simp: keeps_def intro: after_mono split: option.split\<close>)
  then show ?thesis by simp
qed

text \<open>A loop whose body never says it is done does not return.\<close>

lemma loop_until_forever:
  assumes "I s" and "\<And>s. I s \<Longrightarrow> after body (\<lambda>x t. x = None \<and> I t) s"
  shows "loop_until body s = None"
proof (rule ccontr)
  assume "loop_until body s \<noteq> None"
  then obtain y where "loop_until body s = Some y" by auto
  then have False
    by (rule loop_until_invariant [where I = I and Q = "\<lambda>_. False"])
       (use assms in \<open>fastforce simp: after_def split: prod.splits option.splits\<close>)+
  then show False .
qed

text \<open>A loop returns when its body makes a measure smaller each time it goes on.\<close>

lemma loop_until_returns:
  assumes "I s" and "\<And>s. I s \<Longrightarrow> after body (\<lambda>x t. x = None \<longrightarrow> I t \<and> m t < (m s :: nat)) s"
  shows "\<exists>r t. loop_until body s = Some (r, t)"
  using assms(1)
proof (induction "m s" arbitrary: s rule: less_induct)
  case less
  from assms(2) [OF less.prems]
  have "after body (\<lambda>x t. x = None \<longrightarrow> I t \<and> m t < m s) s" .
  then show ?case
    using less.hyps
    by (subst loop_until_step) (auto simp: after_def split: prod.splits option.splits)
qed

end
