(* ===== verification/Descriptors.thy ===== *)
theory Descriptors
  imports Object_Io
begin

text \<open>
  Who owns which file descriptor. Replaying an object's history tells the descriptors it has
  obtained and not yet closed, and whether it ever closed one it did not have. The contract
  of an object with one descriptor is stated over its single steps and holds for all runs.
\<close>

fun acquires :: "action \<Rightarrow> bool" where
  "acquires (Sys (Socket f t)) = True"
| "acquires (Sys (Accept f)) = True"
| "acquires (Sys (TimerfdCreate c)) = True"
| "acquires (Sys (SignalFd m)) = True"
| "acquires (Sys (OpenTty p)) = True"
| "acquires _ = False"

fun closes :: "action \<Rightarrow> int option" where
  "closes (Sys (Close f)) = Some f"
| "closes (Svc (NewStream f n)) = Some f"
| "closes _ = None"

fun held :: "trace \<Rightarrow> int multiset" where
  "held [] = {#}"
| "held ((a, r) # tr) =
     (if acquires a \<and> rp_ret r \<noteq> -1 then add_mset (rp_ret r) (held tr)
      else case closes a of None \<Rightarrow> held tr | Some f \<Rightarrow> held tr - {#f#})"

text \<open>A descriptor given to another object is not held any more either.\<close>

text \<open>No descriptor was closed that was not held; closing \<open>-1\<close> does nothing.\<close>

fun closes_held :: "trace \<Rightarrow> bool" where
  "closes_held [] = True"
| "closes_held ((a, r) # tr) =
     ((case closes a of None \<Rightarrow> True | Some f \<Rightarrow> f = -1 \<or> f \<in># held tr) \<and> closes_held tr)"

definition owns :: "int \<Rightarrow> trace \<Rightarrow> bool" where
  "owns fd tr \<longleftrightarrow> closes_held tr \<and> held tr = (if fd = -1 then {#} else {#fd#})"

named_theorems owns_simps

lemma report_action_facts [simp]:
  "\<not> acquires (Up u)" "closes (Up u) = None" "\<not> acquires (Svc c)"
  by simp_all

lemma owns_other [owns_simps]:
  "\<not> acquires a \<Longrightarrow> closes a = None \<Longrightarrow> owns fd ((a, r) # tr) = owns fd tr"
  by (simp add: owns_def)

lemma owns_close [owns_simps]: "owns fd tr \<Longrightarrow> owns (-1) ((Sys (Close fd), r) # tr)"
  by (simp add: owns_def split: if_splits)

lemma owns_acquire [owns_simps]:
  "owns (-1) tr \<Longrightarrow> acquires a \<Longrightarrow> closes a = None \<Longrightarrow> rp_ret r = fd \<Longrightarrow> owns fd ((a, r) # tr)"
  by (simp add: owns_def)

lemma owns_empty [simp]: "owns (-1) []"
  by (simp add: owns_def)

text \<open>An object that holds a second descriptor for a while, such as a client it has accepted.\<close>

definition owns_also :: "int \<Rightarrow> int \<Rightarrow> trace \<Rightarrow> bool" where
  "owns_also c fd tr \<longleftrightarrow> closes_held tr \<and> held tr = add_mset c (if fd = -1 then {#} else {#fd#})"

lemma owns_also_other [owns_simps]:
  "\<not> acquires a \<Longrightarrow> closes a = None \<Longrightarrow> owns_also c fd ((a, r) # tr) = owns_also c fd tr"
  by (simp add: owns_also_def)

lemma owns_also_acquire [owns_simps]:
  "owns fd tr \<Longrightarrow> acquires a \<Longrightarrow> closes a = None \<Longrightarrow> rp_ret r = c \<Longrightarrow> c \<noteq> -1 \<Longrightarrow> owns_also c fd ((a, r) # tr)"
  by (simp add: owns_def owns_also_def)

lemma owns_also_release [owns_simps]:
  "owns_also c fd tr \<Longrightarrow> \<not> acquires a \<Longrightarrow> closes a = Some c \<Longrightarrow> owns fd ((a, r) # tr)"
  by (simp add: owns_def owns_also_def)

lemma owns_failed [owns_simps]:
  "owns fd tr \<Longrightarrow> rp_ret r = -1 \<Longrightarrow> closes a = None \<Longrightarrow> owns fd ((a, r) # tr)"
  by (simp add: owns_def)

text \<open>A history in which nothing is left open and nothing was closed twice.\<close>

lemma owns_none: "owns (-1) tr \<longleftrightarrow> closes_held tr \<and> held tr = {#}"
  by (simp add: owns_def)

section \<open>Objects that own one descriptor\<close>

locale descriptor_owner =
  fixes step :: "'e \<Rightarrow> 's \<Rightarrow> 's option"
    and fd :: "'s \<Rightarrow> int"
    and tr :: "'s \<Rightarrow> trace"
  assumes step_owns: "owns (fd s) (tr s) \<Longrightarrow> step e s = Some t \<Longrightarrow> owns (fd t) (tr t)"

sublocale descriptor_owner \<subseteq> state_machine step "\<lambda>s. owns (fd s) (tr s)"
  by unfold_locales (rule step_owns)

context descriptor_owner
begin

lemma run_owns:
  assumes "owns (fd s) (tr s)" "run_events step es s = Some t"
  shows "closes_held (tr t)" "held (tr t) = (if fd t = -1 then {#} else {#fd t#})"
  using run_inv [OF assms] by (simp_all add: owns_def)

end

end
