(* ===== verification/Tcp_Client.thy ===== *)
theory Tcp_Client
  imports Descriptors
begin

text \<open>
  The TCP client endpoint, \<open>src/impl/tcpcli.h\<close>. The list of addresses is walked by an index
  that stands for the iterator \<open>_addr\<close>; its end is the length of the list. The stream handed
  to the user on connecting is kept by a weak pointer: \<open>None\<close> once the user has let it go.
\<close>

section \<open>State\<close>

record client_stream =
  cs_fd :: int
  cs_writeable :: bool

datatype timer_job = ShootConnect | ShootRetry

record tcp_client = io +
  tc_name :: string
  tc_addresses :: "sock_addr list"
  tc_addr :: nat
  tc_itf :: "string \<times> int"
  tc_fd :: int
  tc_peer :: string
  tc_canon :: string
  tc_group :: "(u16 \<times> family \<times> string) option"   \<comment> \<open>\<open>_group\<close> and what its handlers captured\<close>
  tc_job :: timer_job                              \<comment> \<open>what the timer shoots\<close>
  tc_client :: "client_stream option"
  tc_pollable :: bool
  tc_stat_period :: int
  tc_stat_tags :: "(string \<times> string) list"

definition TcpClient_new :: "string \<Rightarrow> tcp_client" where
  "TcpClient_new name =
     \<lparr>io_trace = [], io_handler = False, io_exists = True, io_fault = False,
      tc_name = name, tc_addresses = [], tc_addr = 0, tc_itf = ([], 0), tc_fd = -1, tc_peer = [],
      tc_canon = [], tc_group = None, tc_job = ShootConnect, tc_client = None, tc_pollable = False,
      tc_stat_period = 1000000000, tc_stat_tags = []\<rparr>"

section \<open>The stream\<close>

text \<open>\<open>TCPClientStream::write\<close>. Nothing but a new stream makes it writeable again.\<close>

definition TcpClient_write :: "env \<Rightarrow> bytes \<Rightarrow> client_stream \<Rightarrow> (tcp_client, int) state" where
  "TcpClient_write env buf cs =
     (if \<not> cs_writeable cs then State_Monad.return 0
      else do {
        r \<leftarrow> sys env (Send (cs_fd cs) buf);
        modify (\<lambda>s. s\<lparr>tc_client := Some (cs\<lparr>cs_writeable := (rp_ret r = int (length buf))\<rparr>)\<rparr>);
        (if rp_ret r = -1
         then whenM (rp_errno r \<noteq> EAGAIN)
                (do { on_error env (errno_c (rp_errno r) []) ''tcp client write''; State_Monad.return () })
         else do { svc env (CountAdd ''write'' (rp_ret r)); State_Monad.return () });
        State_Monad.return (rp_ret r) })"

definition TcpClient_stream_on_read :: "env \<Rightarrow> bytes \<Rightarrow> (tcp_client, unit) state" where
  "TcpClient_stream_on_read env buf =
     do { callback env (OnRead buf); svc env (CountAdd ''read'' (int (length buf))); State_Monad.return () }"

text \<open>\<open>cli()\<close>: the stream, a new one if there is none. The new stream is announced before
  anything is known of the connection. It counts under the name of the peer.\<close>

definition TcpClient_cli :: "env \<Rightarrow> (tcp_client, client_stream) state" where
  "TcpClient_cli env =
     do { s \<leftarrow> gets id;
          (case tc_client s of
             Some cs \<Rightarrow> State_Monad.return cs
           | None \<Rightarrow> do {
               whenM (tc_stat_period s \<noteq> 0)
                 (do { svc env (RegisterReport ''tcpcli'' (tc_stat_period s)); State_Monad.return () });
               modify (\<lambda>s. s\<lparr>tc_client := Some \<lparr>cs_fd = tc_fd s, cs_writeable = True\<rparr>\<rparr>);
               callback env (OnConnect (tc_peer s));
               State_Monad.return \<lparr>cs_fd = tc_fd s, cs_writeable = True\<rparr> }) }"

section \<open>Connecting\<close>

definition TcpClient_cleanup :: "env \<Rightarrow> (tcp_client, unit) state" where
  "TcpClient_cleanup env =
     do { fd \<leftarrow> gets tc_fd;
          whenM (fd \<noteq> -1) (do {
            e \<leftarrow> call env (Close fd) ''close'';
            on_error env e [];
            modify (\<lambda>s. s\<lparr>tc_fd := -1\<rparr>) }) }"

text \<open>\<open>close(_fd); _fd = -1;\<close>\<close>

definition TcpClient_drop_fd :: "env \<Rightarrow> (tcp_client, unit) state" where
  "TcpClient_drop_fd env =
     do { fd \<leftarrow> gets tc_fd; sys env (Close fd); modify (\<lambda>s. s\<lparr>tc_fd := -1\<rparr>) }"

definition TcpClient_connect_to_peer :: "env \<Rightarrow> (tcp_client, error_c) state" where
  "TcpClient_connect_to_peer env =
     do { s \<leftarrow> gets id;
          (if length (tc_addresses s) \<le> tc_addr s
           then do { fault; State_Monad.return no_error }
           else do {
             e \<leftarrow> sa_connect env (tc_addresses s ! tc_addr s) (tc_fd s);
             (if failed e \<and> ec_value e \<noteq> EINPROGRESS
              then do { TcpClient_drop_fd env; State_Monad.return e }
              else do {
                e2 \<leftarrow> poll_add env (tc_fd s) (EPOLLIN OR EPOLLOUT OR EPOLLRDHUP OR EPOLLET);
                whenM (failed e2) (TcpClient_drop_fd env);
                State_Monad.return e2 }) }) }"

text \<open>\<open>create_connection\<close>. With a service directory the socket is bound and announced first, and
  the connection is made by the handlers of the service group.\<close>

definition TcpClient_register :: "netlib \<Rightarrow> env \<Rightarrow> family \<Rightarrow> (tcp_client, error_c) state" where
  "TcpClient_register nl env f =
     do { s \<leftarrow> gets id;
          whenM (\<not> tc_pollable s) (do {
            modify (\<lambda>s. s\<lparr>tc_pollable := True\<rparr>);
            svc env (WatchServices SOCK_STREAM);
            State_Monad.return () });
          e \<leftarrow> sa_bind env (sa_any f 0) (tc_fd s);
          (if failed e then State_Monad.return e
           else do {
             me \<leftarrow> sa_of_fd env (tc_fd s);
             svc env GroupNew;
             modify (\<lambda>s. s\<lparr>tc_group := Some (sa_port me, sa_family me,
               case sa_itf nl False me of None \<Rightarrow> [] | Some n \<Rightarrow> n)\<rparr>);
             svc env GroupCreate;
             State_Monad.return no_error }) }"

definition TcpClient_name_peer :: "netlib \<Rightarrow> env \<Rightarrow> sock_addr \<Rightarrow> (tcp_client, error_c) state" where
  "TcpClient_name_peer nl env addr =
     do { modify (\<lambda>s. s\<lparr>tc_canon := []\<rparr>);
          z \<leftarrow> svc env HasZeroconf;
          (if rp_ret z = 0
           then do {
             modify (\<lambda>s. s\<lparr>tc_peer := sa_format nl REG_SERVICE [] addr\<rparr>);
             TcpClient_connect_to_peer env }
           else do {
             names \<leftarrow> svc env (QueryServiceName addr SOCK_STREAM);
             modify (\<lambda>s. s\<lparr>tc_peer := rp_name names\<rparr>);
             (if rp_name names = []
              then do {
                modify (\<lambda>s. s\<lparr>tc_peer := sa_format nl REG_SERVICE [] addr\<rparr>);
                TcpClient_connect_to_peer env }
              else do {
                modify (\<lambda>s. s\<lparr>tc_canon := rp_canon names\<rparr>);
                TcpClient_register nl env (sa_family addr) }) }) }"

definition TcpClient_open_socket :: "netlib \<Rightarrow> env \<Rightarrow> sock_addr \<Rightarrow> (tcp_client, error_c) state" where
  "TcpClient_open_socket nl env addr =
     do { r \<leftarrow> sys env (Socket (sa_family addr) SOCK_STREAM);
          modify (\<lambda>s. s\<lparr>tc_fd := rp_ret r\<rparr>);
          (if rp_ret r = -1 then State_Monad.return (errno_c (rp_errno r) ''tcp client socket'')
           else do {
             e \<leftarrow> call env (SetSockOpt (rp_ret r) KeepAlive) ''keepalive'';
             (if failed e then State_Monad.return e else TcpClient_name_peer nl env addr) }) }"

definition TcpClient_create_connection :: "netlib \<Rightarrow> env \<Rightarrow> (tcp_client, error_c) state" where
  "TcpClient_create_connection nl env =
     do { s \<leftarrow> gets id;
          whenM (tc_fd s \<noteq> -1) (TcpClient_cleanup env);
          alive \<leftarrow> gets io_exists;
          (if tc_fd s \<noteq> -1 \<and> \<not> alive then State_Monad.return no_error
           else if length (tc_addresses s) \<le> tc_addr s then do { fault; State_Monad.return no_error }
           else TcpClient_open_socket nl env (tc_addresses s ! tc_addr s)) }"

text \<open>The walk over the addresses is not disturbed by any of this.\<close>

definition same_walk :: "tcp_client \<Rightarrow> tcp_client \<Rightarrow> bool" where
  "same_walk s t \<longleftrightarrow> tc_addresses t = tc_addresses s \<and> tc_addr t = tc_addr s"

lemmas tcp_client_defs =
  TcpClient_cleanup_def TcpClient_drop_fd_def TcpClient_connect_to_peer_def TcpClient_register_def
  TcpClient_name_peer_def TcpClient_open_socket_def TcpClient_create_connection_def
  TcpClient_cli_def TcpClient_stream_on_read_def TcpClient_write_def

lemma same_walk_update [simp]:
  "same_walk u (s\<lparr>io_trace := x1\<rparr>) = same_walk u s" "same_walk u (s\<lparr>io_exists := x2\<rparr>) = same_walk u s"
  "same_walk u (s\<lparr>io_fault := x3\<rparr>) = same_walk u s" "same_walk u (s\<lparr>tc_fd := x4\<rparr>) = same_walk u s"
  "same_walk u (s\<lparr>tc_peer := x5\<rparr>) = same_walk u s" "same_walk u (s\<lparr>tc_canon := x5\<rparr>) = same_walk u s"
  "same_walk u (s\<lparr>tc_group := x6\<rparr>) = same_walk u s" "same_walk u (s\<lparr>tc_pollable := x7\<rparr>) = same_walk u s"
  "same_walk u (s\<lparr>tc_client := x8\<rparr>) = same_walk u s" "same_walk u (s\<lparr>tc_job := x9\<rparr>) = same_walk u s"
  by (simp_all add: same_walk_def)

lemma same_walk_refl [simp]: "same_walk s s"
  by (simp add: same_walk_def)

lemma cleanup_walk [after_rules]:
  "same_walk u s \<Longrightarrow> after (TcpClient_cleanup env) (\<lambda>_ t. same_walk u t) s"
  by (simp add: TcpClient_cleanup_def after_simps)

lemma connect_to_peer_walk [after_rules]:
  "same_walk u s \<Longrightarrow> after (TcpClient_connect_to_peer env) (\<lambda>_ t. same_walk u t) s"
  by (simp add: TcpClient_connect_to_peer_def TcpClient_drop_fd_def after_simps after_poll)

lemma register_walk [after_rules]:
  "same_walk u s \<Longrightarrow> after (TcpClient_register nl env f) (\<lambda>_ t. same_walk u t) s"
  by (simp add: TcpClient_register_def after_simps)

lemma name_peer_walk [after_rules]:
  "same_walk u s \<Longrightarrow> after (TcpClient_name_peer nl env a) (\<lambda>_ t. same_walk u t) s"
  by (simp add: TcpClient_name_peer_def after_simps after_rules)

lemma open_socket_walk [after_rules]:
  "same_walk u s \<Longrightarrow> after (TcpClient_open_socket nl env a) (\<lambda>_ t. same_walk u t) s"
  by (simp add: TcpClient_open_socket_def after_simps after_rules)

lemma create_connection_walk [after_rules]:
  "same_walk u s \<Longrightarrow> after (TcpClient_create_connection nl env) (\<lambda>_ t. same_walk u t) s"
  by (simp add: TcpClient_create_connection_def TcpClient_cleanup_def after_simps after_rules)

text \<open>\<open>connect()\<close>: try the addresses from the current one on; at the end of the list, wait three
  seconds and start over; with no address, ask the resolver again.\<close>

function TcpClient_connect_run :: "netlib \<Rightarrow> env \<Rightarrow> tcp_client \<Rightarrow> unit \<times> tcp_client" where
  "TcpClient_connect_run nl env s =
     (if tc_addresses s = [] then run_state (do { svc env Requery; State_Monad.return () }) s
      else if length (tc_addresses s) \<le> tc_addr s
      then run_state (do { svc env (TimerOneshot 3000000000); modify (\<lambda>s. s\<lparr>tc_addr := 0\<rparr>) }) s
      else (case run_state (TcpClient_create_connection nl env) s of
              (e, s1) \<Rightarrow>
                if failed e
                then (case run_state (on_error env e ''create tcp connection'') s1 of
                        (_, s2) \<Rightarrow> TcpClient_connect_run nl env (s2\<lparr>tc_addr := Suc (tc_addr s2)\<rparr>))
                else ((), s1)))"
  by pat_completeness auto
termination
proof (relation "measure (\<lambda>(nl, env, s). length (tc_addresses s) - tc_addr s)", goal_cases)
  case (2 nl env s e s1 b s2)
  have s1: "same_walk s s1"
    using after_run [OF create_connection_walk [OF same_walk_refl] 2(3) [symmetric]] .
  then have "after (on_error env e ''create tcp connection'') (\<lambda>_ t. same_walk s t) s1"
    by (simp add: after_simps)
  then have "same_walk s s2" by (rule after_run [OF _ 2(5) [symmetric]])
  with 2(1,2) show ?case by (simp add: same_walk_def)
qed simp

declare TcpClient_connect_run.simps [simp del]

definition TcpClient_connect :: "netlib \<Rightarrow> env \<Rightarrow> (tcp_client, unit) state" where
  "TcpClient_connect nl env = State (TcpClient_connect_run nl env)"

definition TcpClient_connect_to_peer_retry :: "netlib \<Rightarrow> env \<Rightarrow> (tcp_client, unit) state" where
  "TcpClient_connect_to_peer_retry nl env =
     do { e \<leftarrow> TcpClient_connect_to_peer env;
          whenM (failed e) (do {
            on_error env e ''connect to peer'';
            modify (\<lambda>s. s\<lparr>tc_addr := Suc (tc_addr s)\<rparr>);
            TcpClient_connect nl env }) }"

section \<open>Setting up\<close>

text \<open>\<open>init\<close> only starts the resolver; the addresses come with its callback.\<close>

definition TcpClient_init :: "env \<Rightarrow> string \<Rightarrow> u16 \<Rightarrow> family \<Rightarrow> (tcp_client, error_c) state" where
  "TcpClient_init env host p f = svc_call env (ResolverInit host p f SOCK_STREAM 6 0) ''address_resolving''"

definition TcpClient_on_resolved :: "netlib \<Rightarrow> env \<Rightarrow> sock_addr list \<Rightarrow> (tcp_client, unit) state" where
  "TcpClient_on_resolved nl env addrs =
     do { modify (\<lambda>s. s\<lparr>tc_addresses := addrs, tc_addr := 0\<rparr>); TcpClient_connect nl env }"

definition TcpClient_init_service :: "netlib \<Rightarrow> env \<Rightarrow> string \<Rightarrow> string \<Rightarrow> (tcp_client, error_c) state" where
  "TcpClient_init_service nl env service interface =
     do { modify (\<lambda>s. s\<lparr>tc_canon := service\<rparr>);
          whenM (interface \<noteq> []) (modify (\<lambda>s. s\<lparr>tc_itf := itf_from_str nl interface\<rparr>));
          z \<leftarrow> svc env HasZeroconf;
          (if rp_ret z = 0 then State_Monad.return (errno_c EPROTONOSUPPORT ''Zeroconf not available'')
           else do {
             p \<leftarrow> gets tc_pollable;
             whenM (\<not> p) (do {
               modify (\<lambda>s. s\<lparr>tc_pollable := True\<rparr>);
               svc env (WatchServices SOCK_STREAM);
               State_Monad.return () });
             r \<leftarrow> svc env (ServiceInfo service);
             whenM (rp_ret r \<noteq> 0) (do {
               modify (\<lambda>s. s\<lparr>tc_addresses := rp_addrs r, tc_addr := 0\<rparr>);
               TcpClient_connect nl env });
             State_Monad.return no_error }) }"

text \<open>\<open>stat_tags.push_front\<close> for each entry of the \<open>tags\<close> section, shared by the endpoints.\<close>

fun yaml_tags :: "(yaml \<times> yaml) list \<Rightarrow> (string \<times> string) list \<Rightarrow> (string \<times> string) list res" where
  "yaml_tags [] tags = Inr tags"
| "yaml_tags ((k, v) # kvs) tags =
     bind_res (as_string k) (\<lambda>key. bind_res (as_string v) (\<lambda>val. yaml_tags kvs ((key, val) # tags)))"

text \<open>The \<open>stat\<close> section of an endpoint: a period other than zero, and tags.\<close>

definition yaml_stat ::
    "yaml \<Rightarrow> int \<times> (string \<times> string) list \<Rightarrow> (int \<times> (string \<times> string) list) res" where
  "yaml_stat cfg st =
     bind_res (yaml_at ''stat'' cfg) (\<lambda>stat. case stat of
        YMap kvs \<Rightarrow>
          bind_res (duration (yaml_find ''period'' kvs)) (\<lambda>period.
            (let st1 = (if period \<noteq> 0 then (period, snd st) else st) in
             case yaml_find ''tags'' kvs of
               YMap tags \<Rightarrow> bind_res (yaml_tags tags (snd st1)) (\<lambda>t. Inr (fst st1, t))
             | _ \<Rightarrow> Inr st1))
      | _ \<Rightarrow> Inr st)"

definition opt_string :: "string \<Rightarrow> yaml \<Rightarrow> string res" where
  "opt_string key cfg =
     bind_res (yaml_at key cfg) (\<lambda>y. if is_defined y then as_string y else Inr [])"

text \<open>What \<open>init_yaml\<close> makes of the configuration: a call of \<open>init_service\<close>, a call of \<open>init\<close>, an
  error, or an exception. A port is an \<open>int\<close> cut to 16 bits.\<close>

datatype tcp_plan = PlanService string string | PlanAddress string u16 family | PlanError error_c

definition TcpClient_plan :: "(string \<Rightarrow> int option) \<Rightarrow> yaml \<Rightarrow> tcp_plan res" where
  "TcpClient_plan as_int cfg =
     bind_res (yaml_at ''service'' cfg) (\<lambda>service.
       if is_defined service
       then bind_res (opt_string ''interface'' cfg) (\<lambda>itf.
              bind_res (as_string service) (\<lambda>sv. Inr (PlanService sv itf)))
       else bind_res (yaml_at ''address'' cfg) (\<lambda>address.
              if \<not> is_defined address then Inr (PlanError (errno_c ENOTSUP ''tcp client address''))
              else bind_res (as_string address) (\<lambda>addr.
                bind_res (yaml_at ''port'' cfg) (\<lambda>portno.
                  if \<not> is_defined portno then Inr (PlanError (errno_c ENOTSUP ''tcp client address''))
                  else bind_res (as_number as_int portno) (\<lambda>p.
                    bind_res (yaml_at ''family'' cfg) (\<lambda>f.
                      bind_res (address_family f) (\<lambda>fam. Inr (PlanAddress addr (of_int p) fam))))))))"

definition TcpClient_init_yaml ::
    "netlib \<Rightarrow> env \<Rightarrow> (string \<Rightarrow> int option) \<Rightarrow> yaml \<Rightarrow> (tcp_client, error_c res) state" where
  "TcpClient_init_yaml nl env as_int cfg =
     do { s \<leftarrow> gets id;
          (case yaml_stat cfg (tc_stat_period s, tc_stat_tags s) of
             Inl x \<Rightarrow> State_Monad.return (Inl x)
           | Inr (period, tags) \<Rightarrow> do {
               modify (\<lambda>s. s\<lparr>tc_stat_period := period, tc_stat_tags := tags\<rparr>);
               (case TcpClient_plan as_int cfg of
                  Inl x \<Rightarrow> State_Monad.return (Inl x)
                | Inr (PlanError e) \<Rightarrow> State_Monad.return (Inr e)
                | Inr (PlanService sv itf) \<Rightarrow> do { e \<leftarrow> TcpClient_init_service nl env sv itf; State_Monad.return (Inr e) }
                | Inr (PlanAddress a p f) \<Rightarrow> do { e \<leftarrow> TcpClient_init env a p f; State_Monad.return (Inr e) }) }) }"

section \<open>Events\<close>

text \<open>\<open>error()\<close> reports a failure of \<open>getsockopt\<close> itself, not the pending error it reads.\<close>

definition TcpClient_error :: "env \<Rightarrow> (tcp_client, bool) state" where
  "TcpClient_error env =
     do { fd \<leftarrow> gets tc_fd;
          e \<leftarrow> call env (GetSockError fd) ''getsockopt'';
          on_error env e [];
          State_Monad.return (failed e) }"

text \<open>One round of the loop in \<open>epollIN\<close>; \<open>None\<close> goes round again.\<close>

definition TcpClient_read_step :: "env \<Rightarrow> (tcp_client, handled option) state" where
  "TcpClient_read_step env =
     do { fd \<leftarrow> gets tc_fd;
          r \<leftarrow> sys env (Fionread fd);
          (if failed (to_errno_c (rp_ret r) (rp_errno r) ''tcp ioctl'')
           then do {
             on_error env (to_errno_c (rp_ret r) (rp_errno r) ''tcp ioctl'') ''Query buffer size error'';
             alive \<leftarrow> gets io_exists;
             State_Monad.return (if alive then None else Some STOP) }
           else if rp_size r = 0 then State_Monad.return (Some HANDLED)
           else do {
             d \<leftarrow> sys env (Recv fd (rp_size r));
             (if rp_ret d < 0
              then (if rp_errno d \<noteq> EAGAIN
                    then do {
                      on_error env (errno_c (rp_errno d) []) ''tcp recv'';
                      alive \<leftarrow> gets io_exists;
                      State_Monad.return (if alive then None else Some STOP) }
                    else State_Monad.return None)
              else do {
                TcpClient_cli env;
                TcpClient_stream_on_read env (rp_data d);
                alive \<leftarrow> gets io_exists;
                State_Monad.return (if alive then None else Some STOP) }) }) }"

definition TcpClient_epollIN :: "env \<Rightarrow> tcp_client \<Rightarrow> (handled \<times> tcp_client) option" where
  "TcpClient_epollIN env s =
     (case run_state (TcpClient_error env) s of
        (True, t) \<Rightarrow> Some (HANDLED, t)
      | (False, t) \<Rightarrow> loop_until (TcpClient_read_step env) t)"

definition TcpClient_epollOUT :: "env \<Rightarrow> (tcp_client, handled) state" where
  "TcpClient_epollOUT env =
     do { TcpClient_cli env;
          alive \<leftarrow> gets io_exists;
          State_Monad.return (if alive then HANDLED else STOP) }"

definition TcpClient_poll_del :: "env \<Rightarrow> (tcp_client, unit) state" where
  "TcpClient_poll_del env =
     do { fd \<leftarrow> gets tc_fd;
          whenM (fd \<noteq> -1) (do { e \<leftarrow> poll_del env fd; on_error env e ''tcp event''; State_Monad.return () }) }"

text \<open>The connection is gone: try the next address. The iterator is moved without a test.\<close>

definition TcpClient_epollRDHUP :: "netlib \<Rightarrow> env \<Rightarrow> (tcp_client, handled) state" where
  "TcpClient_epollRDHUP nl env =
     do { TcpClient_poll_del env;
          alive \<leftarrow> gets io_exists;
          (if \<not> alive then State_Monad.return STOP
           else do {
             TcpClient_cleanup env;
             s \<leftarrow> gets id;
             (if \<not> io_exists s then State_Monad.return STOP
              else do {
                whenM (tc_canon s = []) (do {
                  whenM (length (tc_addresses s) \<le> tc_addr s) fault;
                  modify (\<lambda>s. s\<lparr>tc_addr := Suc (tc_addr s)\<rparr>);
                  TcpClient_connect nl env });
                State_Monad.return HANDLED }) }) }"

definition TcpClient_epollERR :: "env \<Rightarrow> (tcp_client, handled) state" where
  "TcpClient_epollERR env = do { TcpClient_error env; State_Monad.return HANDLED }"

definition TcpClient_svc_resolved ::
    "netlib \<Rightarrow> env \<Rightarrow> string \<Rightarrow> int \<Rightarrow> sock_addr \<Rightarrow> (tcp_client, unit) state" where
  "TcpClient_svc_resolved nl env name itf addr =
     do { s \<leftarrow> gets id;
          whenM (name = tc_canon s \<and> \<not> (snd (tc_itf s) \<noteq> 0 \<and> snd (tc_itf s) \<noteq> itf)) (do {
            modify (\<lambda>s. s\<lparr>tc_addresses := sl_add addr (tc_addresses s), tc_addr := Suc (tc_addr s)\<rparr>);
            whenM (tc_addresses s = []) (do {
              modify (\<lambda>s. s\<lparr>tc_addr := 0\<rparr>);
              TcpClient_connect nl env }) }) }"

definition TcpClient_svc_removed :: "env \<Rightarrow> string \<Rightarrow> (tcp_client, unit) state" where
  "TcpClient_svc_removed env name =
     do { s \<leftarrow> gets id;
          whenM (name = tc_canon s) (do {
            TcpClient_poll_del env;
            alive \<leftarrow> gets io_exists;
            whenM alive (do {
              TcpClient_cleanup env;
              alive2 \<leftarrow> gets io_exists;
              whenM alive2 (modify (\<lambda>s. s\<lparr>tc_addresses := [], tc_addr := 0\<rparr>)) }) }) }"

text \<open>The handlers of the service group.\<close>

definition TcpClient_on_create :: "netlib \<Rightarrow> env \<Rightarrow> u16 \<times> family \<times> string \<Rightarrow> (tcp_client, unit) state" where
  "TcpClient_on_create nl env cap =
     (case cap of (portno, f, itf) \<Rightarrow>
        do { s \<leftarrow> gets id;
             e \<leftarrow> group_call env (GroupAdd (tc_name s) f (service_itf nl itf) portno []) ''avahi_entry_group_add_service'';
             (if failed e
              then do {
                on_error env e ''add service'';
                e2 \<leftarrow> group_call env GroupReset ''avahi_entry_group_commit'';
                on_error env e2 ''reset service'';
                TcpClient_connect_to_peer_retry nl env }
              else do {
                e2 \<leftarrow> group_call env GroupCommit ''avahi_entry_group_commit'';
                on_error env e2 ''commit service'';
                State_Monad.return () }) })"

definition TcpClient_on_collision :: "netlib \<Rightarrow> env \<Rightarrow> (tcp_client, unit) state" where
  "TcpClient_on_collision nl env = do { svc env GroupReset; TcpClient_connect_to_peer_retry nl env }"

definition TcpClient_on_established :: "env \<Rightarrow> (tcp_client, unit) state" where
  "TcpClient_on_established env =
     do { modify (\<lambda>s. s\<lparr>tc_job := ShootRetry\<rparr>); svc env (TimerOneshot 500000000); State_Monad.return () }"

definition TcpClient_on_group_failure :: "netlib \<Rightarrow> env \<Rightarrow> error_c \<Rightarrow> (tcp_client, unit) state" where
  "TcpClient_on_group_failure nl env ec =
     do { on_error env ec ''registration failure''; TcpClient_connect_to_peer_retry nl env }"

definition TcpClient_shoot :: "netlib \<Rightarrow> env \<Rightarrow> (tcp_client, unit) state" where
  "TcpClient_shoot nl env =
     do { job \<leftarrow> gets tc_job;
          (case job of
             ShootConnect \<Rightarrow> TcpClient_connect nl env
           | ShootRetry \<Rightarrow> do {
               modify (\<lambda>s. s\<lparr>tc_job := ShootConnect\<rparr>);
               TcpClient_connect_to_peer_retry nl env }) }"

definition TcpClient_destroy :: "env \<Rightarrow> (tcp_client, unit) state" where
  "TcpClient_destroy env =
     do { modify (\<lambda>s. s\<lparr>io_exists := False\<rparr>);
          fd \<leftarrow> gets tc_fd;
          whenM (fd \<noteq> -1) (do { svc env (PollDel fd); State_Monad.return () });
          TcpClient_cleanup env }"

datatype tcp_client_event =
    TcIn | TcOut | TcRdHup | TcHup | TcErr
  | TcResolved "sock_addr list" | TcTimer
  | TcGroupCreate | TcGroupCollision | TcGroupEstablished | TcGroupFailure error_c
  | TcSvcResolved string int sock_addr | TcSvcRemoved string
  | TcWrite bytes | TcForget | TcDestroy

fun TcpClient_event :: "netlib \<Rightarrow> env \<Rightarrow> tcp_client_event \<Rightarrow> tcp_client \<Rightarrow> tcp_client option" where
  "TcpClient_event nl env TcIn s = map_option snd (TcpClient_epollIN env s)"
| "TcpClient_event nl env TcOut s = exec (TcpClient_epollOUT env) s"
| "TcpClient_event nl env TcRdHup s = exec (TcpClient_epollRDHUP nl env) s"
| "TcpClient_event nl env TcHup s = exec (TcpClient_epollRDHUP nl env) s"
| "TcpClient_event nl env TcErr s = exec (TcpClient_epollERR env) s"
| "TcpClient_event nl env (TcResolved as) s = exec (TcpClient_on_resolved nl env as) s"
| "TcpClient_event nl env TcTimer s = exec (TcpClient_shoot nl env) s"
| "TcpClient_event nl env TcGroupCreate s =
     (case tc_group s of None \<Rightarrow> Some s | Some cap \<Rightarrow> exec (TcpClient_on_create nl env cap) s)"
| "TcpClient_event nl env TcGroupCollision s = exec (TcpClient_on_collision nl env) s"
| "TcpClient_event nl env TcGroupEstablished s = exec (TcpClient_on_established env) s"
| "TcpClient_event nl env (TcGroupFailure ec) s = exec (TcpClient_on_group_failure nl env ec) s"
| "TcpClient_event nl env (TcSvcResolved n itf a) s = exec (TcpClient_svc_resolved nl env n itf a) s"
| "TcpClient_event nl env (TcSvcRemoved n) s = exec (TcpClient_svc_removed env n) s"
| "TcpClient_event nl env (TcWrite buf) s =
     (case tc_client s of None \<Rightarrow> Some s | Some cs \<Rightarrow> exec (TcpClient_write env buf cs) s)"
| "TcpClient_event nl env TcForget s = Some (s\<lparr>tc_client := None\<rparr>)"
| "TcpClient_event nl env TcDestroy s = exec (TcpClient_destroy env) s"

section \<open>One descriptor, never lost, never closed twice\<close>

abbreviation tc_own :: "tcp_client \<Rightarrow> bool" where
  "tc_own s \<equiv> owns (tc_fd s) (io_trace s)"

lemma cleanup_own [keeps_intros]: "keeps tc_own (TcpClient_cleanup env)"
proof (rule keepsI)
  fix s assume "tc_own s"
  then show "after (TcpClient_cleanup env) (\<lambda>_. tc_own) s"
    by (cases "tc_fd s = -1") (simp_all add: TcpClient_cleanup_def after_simps owns_simps)
qed

lemma cli_own [keeps_intros]: "keeps tc_own (TcpClient_cli env)"
  unfolding TcpClient_cli_def by (intro keeps_intros; simp add: owns_simps)

lemma on_read_own [keeps_intros]: "keeps tc_own (TcpClient_stream_on_read env buf)"
  unfolding TcpClient_stream_on_read_def by (intro keeps_intros; simp add: owns_simps)

lemma write_own [keeps_intros]: "keeps tc_own (TcpClient_write env buf cs)"
  unfolding TcpClient_write_def by (intro keeps_intros; simp add: owns_simps)

lemma connect_to_peer_own [keeps_intros]: "keeps tc_own (TcpClient_connect_to_peer env)"
  by (rule keepsI)
     (simp add: TcpClient_connect_to_peer_def TcpClient_drop_fd_def after_simps after_poll owns_simps)

lemma register_own [keeps_intros]: "keeps tc_own (TcpClient_register nl env f)"
  unfolding TcpClient_register_def by (intro keeps_intros; simp add: owns_simps)

lemma name_peer_own [keeps_intros]: "keeps tc_own (TcpClient_name_peer nl env a)"
  unfolding TcpClient_name_peer_def by (intro keeps_intros; simp add: owns_simps)

lemma open_socket_own:
  "owns (-1) (io_trace s) \<Longrightarrow> after (TcpClient_open_socket nl env a) (\<lambda>_. tc_own) s"
  using name_peer_own by (simp add: TcpClient_open_socket_def after_simps keeps_def owns_simps)

lemma create_connection_own [keeps_intros]: "keeps tc_own (TcpClient_create_connection nl env)"
proof (rule keepsI)
  fix s assume "tc_own s"
  then show "after (TcpClient_create_connection nl env) (\<lambda>_. tc_own) s"
    by (cases "tc_fd s = -1")
       (simp_all add: TcpClient_create_connection_def TcpClient_cleanup_def after_simps open_socket_own owns_simps)
qed

text \<open>What one attempt keeps and what the walk's own actions keep, \<open>connect()\<close> keeps.\<close>

lemma connect_run_keeps:
  assumes "keeps P (TcpClient_create_connection nl env)"
    and "\<And>e. keeps P (on_error env e ''create tcp connection'')"
    and "keeps P (svc env Requery)" and "keeps P (svc env (TimerOneshot 3000000000))"
    and upd: "\<And>s n. P s \<Longrightarrow> P (s\<lparr>tc_addr := n\<rparr>)"
  shows "P s \<Longrightarrow> P (snd (TcpClient_connect_run nl env s))"
  using assms(1-4)
proof (induction nl env s rule: TcpClient_connect_run.induct)
  case (1 nl env s)
  show ?case
  proof (cases "tc_addresses s = [] \<or> length (tc_addresses s) \<le> tc_addr s")
    case True
    obtain r t where q: "run_state (svc env Requery) s = (r, t)" by fastforce
    obtain r' t' where w: "run_state (svc env (TimerOneshot 3000000000)) s = (r', t')" by fastforce
    have "P t" "P (t'\<lparr>tc_addr := 0\<rparr>)"
      by (rule keepsD [OF 1(5) 1(2) q]) (rule upd [OF keepsD [OF 1(6) 1(2) w]])
    with True show ?thesis
      by (auto simp: TcpClient_connect_run.simps [of nl env s] q w modify_def)
  next
    case False
    obtain e s1 where c: "run_state (TcpClient_create_connection nl env) s = (e, s1)" by fastforce
    have s1: "P s1" by (rule keepsD [OF 1(3) 1(2) c])
    obtain b s2 where o: "run_state (on_error env e ''create tcp connection'') s1 = (b, s2)" by fastforce
    have s2: "P s2" by (rule keepsD [OF 1(4) s1 o])
    have "P (snd (TcpClient_connect_run nl env (s2\<lparr>tc_addr := Suc (tc_addr s2)\<rparr>)))" if "failed e"
      by (rule 1(1) [OF _ _ c [symmetric] _ o [symmetric]]) (use False that s2 upd 1(3-6) in auto)
    then show ?thesis
      using False s1 c o by (simp add: TcpClient_connect_run.simps [of nl env s])
  qed
qed

lemma connect_keeps:
  assumes "keeps P (TcpClient_create_connection nl env)"
    and "\<And>e. keeps P (on_error env e ''create tcp connection'')"
    and "keeps P (svc env Requery)" and "keeps P (svc env (TimerOneshot 3000000000))"
    and "\<And>s n. P s \<Longrightarrow> P (s\<lparr>tc_addr := n\<rparr>)"
  shows "keeps P (TcpClient_connect nl env)"
proof (rule keepsI)
  fix s assume "P s"
  from connect_run_keeps [OF assms this] show "after (TcpClient_connect nl env) (\<lambda>_. P) s"
    by (cases "TcpClient_connect_run nl env s") (simp add: after_def TcpClient_connect_def)
qed

lemma connect_own [keeps_intros]: "keeps tc_own (TcpClient_connect nl env)"
  by (rule connect_keeps; (intro keeps_intros)?; simp add: owns_simps)

lemma connect_to_peer_retry_own [keeps_intros]: "keeps tc_own (TcpClient_connect_to_peer_retry nl env)"
  unfolding TcpClient_connect_to_peer_retry_def by (intro keeps_intros; simp add: owns_simps)

lemma error_own [keeps_intros]: "keeps tc_own (TcpClient_error env)"
  unfolding TcpClient_error_def by (intro keeps_intros; simp add: owns_simps)

lemma read_step_own [keeps_intros]: "keeps tc_own (TcpClient_read_step env)"
  unfolding TcpClient_read_step_def by (intro keeps_intros; simp add: owns_simps)

lemma epollIN_own:
  assumes "tc_own s" "TcpClient_epollIN env s = Some (h, t)" shows "tc_own t"
proof -
  obtain b u where e: "run_state (TcpClient_error env) s = (b, u)" by fastforce
  have u: "tc_own u" by (rule keepsD [OF error_own assms(1) e])
  show ?thesis
  proof (cases b)
    case False
    then have "loop_until (TcpClient_read_step env) u = Some (h, t)"
      using assms(2) e by (simp add: TcpClient_epollIN_def)
    then show ?thesis by (rule loop_until_keeps) (rule read_step_own, rule u)
  qed (use assms(2) e u in \<open>simp add: TcpClient_epollIN_def\<close>)
qed

lemma poll_del_own [keeps_intros]: "keeps tc_own (TcpClient_poll_del env)"
  unfolding TcpClient_poll_del_def by (intro keeps_intros; simp add: owns_simps)

lemma epollRDHUP_own [keeps_intros]: "keeps tc_own (TcpClient_epollRDHUP nl env)"
  unfolding TcpClient_epollRDHUP_def by (intro keeps_intros; simp add: owns_simps)

lemma handlers_own [keeps_intros]:
  "keeps tc_own (TcpClient_epollOUT env)" "keeps tc_own (TcpClient_epollERR env)"
  "keeps tc_own (TcpClient_on_resolved nl env as)" "keeps tc_own (TcpClient_svc_resolved nl env n i a)"
  "keeps tc_own (TcpClient_svc_removed env n)" "keeps tc_own (TcpClient_on_create nl env cap)"
  "keeps tc_own (TcpClient_on_collision nl env)" "keeps tc_own (TcpClient_on_established env)"
  "keeps tc_own (TcpClient_on_group_failure nl env ec)" "keeps tc_own (TcpClient_destroy env)"
  unfolding TcpClient_epollOUT_def TcpClient_epollERR_def TcpClient_on_resolved_def
    TcpClient_svc_resolved_def TcpClient_svc_removed_def TcpClient_on_create_def TcpClient_on_collision_def
    TcpClient_on_established_def TcpClient_on_group_failure_def TcpClient_destroy_def
  by (intro keeps_intros; simp add: owns_simps)+

lemma shoot_own [keeps_intros]: "keeps tc_own (TcpClient_shoot nl env)"
  unfolding TcpClient_shoot_def
  by (intro keeps_bind keeps_gets, case_tac x; simp; intro keeps_intros; simp add: owns_simps)

lemma event_own: "tc_own s \<Longrightarrow> TcpClient_event nl env e s = Some t \<Longrightarrow> tc_own t"
proof (cases e)
  case TcIn
  assume "tc_own s" "TcpClient_event nl env e s = Some t"
  with TcIn show ?thesis by (auto intro: epollIN_own)
qed (auto elim!: exec_keeps intro!: keeps_intros split: option.splits)

interpretation tc: descriptor_owner "TcpClient_event nl env" tc_fd io_trace
  by unfold_locales (rule event_own)

section \<open>Something is always under way\<close>

text \<open>The last thing asked for will lead to another event: an answer of the resolver, the timer,
  the service group, or the registered socket itself.\<close>

definition tc_pending :: "tcp_client \<Rightarrow> bool" where
  "tc_pending s \<longleftrightarrow>
     (case io_trace s of [] \<Rightarrow> False
      | (a, r) # _ \<Rightarrow>
          a = Svc Requery \<or> a = Svc (TimerOneshot 3000000000) \<or> a = Svc GroupCreate \<or>
          (a = Svc (PollAdd (tc_fd s) (EPOLLIN OR EPOLLOUT OR EPOLLRDHUP OR EPOLLET)) \<and>
             \<not> failed (to_errno_c (rp_ret r) (rp_errno r) [])))"

abbreviation in_walk :: "tcp_client \<Rightarrow> bool" where
  "in_walk s \<equiv> tc_addr s < length (tc_addresses s)"

lemma connect_to_peer_pending:
  "in_walk s \<Longrightarrow> after (TcpClient_connect_to_peer env) (\<lambda>e t. failed e \<or> tc_pending t) s"
  by (simp add: TcpClient_connect_to_peer_def TcpClient_drop_fd_def after_simps after_poll tc_pending_def)

lemma register_pending: "after (TcpClient_register nl env f) (\<lambda>e t. failed e \<or> tc_pending t) s"
  by (simp add: TcpClient_register_def after_simps tc_pending_def errno_c_def)

lemma name_peer_pending:
  "in_walk s \<Longrightarrow> after (TcpClient_name_peer nl env a) (\<lambda>e t. failed e \<or> tc_pending t) s"
  by (simp add: TcpClient_name_peer_def after_simps connect_to_peer_pending register_pending)

lemma open_socket_pending:
  "errno_set env \<Longrightarrow> in_walk s \<Longrightarrow>
     after (TcpClient_open_socket nl env a) (\<lambda>e t. failed e \<or> tc_pending t) s"
  by (simp add: TcpClient_open_socket_def after_simps name_peer_pending errno_set_def)

lemma create_connection_pending:
  "errno_set env \<Longrightarrow> in_walk s \<Longrightarrow>
     after (TcpClient_create_connection nl env) (\<lambda>e t. failed e \<or> tc_pending t \<or> \<not> io_exists t) s"
  by (auto simp: TcpClient_create_connection_def TcpClient_cleanup_def after_simps
      intro: after_mono [OF open_socket_pending])

lemma connect_run_pending:
  "errno_set env \<Longrightarrow> (case TcpClient_connect_run nl env s of (_, t) \<Rightarrow> tc_pending t \<or> \<not> io_exists t)"
proof (induction nl env s rule: TcpClient_connect_run.induct)
  case (1 nl env s)
  show ?case
  proof (cases "tc_addresses s = [] \<or> length (tc_addresses s) \<le> tc_addr s")
    case True
    then show ?thesis
      by (auto simp: TcpClient_connect_run.simps [of nl env s] svc_def ask_def modify_def tc_pending_def)
  next
    case False
    obtain e s1 where c: "run_state (TcpClient_create_connection nl env) s = (e, s1)" by fastforce
    obtain b s2 where o: "run_state (on_error env e ''create tcp connection'') s1 = (b, s2)" by fastforce
    from False have "in_walk s" by simp
    from after_run [OF create_connection_pending [OF 1(2) this] c]
    have "failed e \<or> tc_pending s1 \<or> \<not> io_exists s1" .
    moreover have "case TcpClient_connect_run nl env (s2\<lparr>tc_addr := Suc (tc_addr s2)\<rparr>) of
        (_, t) \<Rightarrow> tc_pending t \<or> \<not> io_exists t" if "failed e"
      by (rule 1(1) [OF _ _ c [symmetric] _ o [symmetric] 1(2)]) (use False that in auto)
    ultimately show ?thesis
      using False c o by (auto simp: TcpClient_connect_run.simps [of nl env s])
  qed
qed

section \<open>The stream after a short write\<close>

definition tc_stuck :: "client_stream \<Rightarrow> tcp_client \<Rightarrow> bool" where
  "tc_stuck cs s \<longleftrightarrow> tc_client s = Some cs \<and> \<not> cs_writeable cs"

lemma tc_stuck_update [simp]:
  "tc_stuck cs (s\<lparr>io_trace := x1\<rparr>) = tc_stuck cs s" "tc_stuck cs (s\<lparr>io_exists := x2\<rparr>) = tc_stuck cs s"
  "tc_stuck cs (s\<lparr>io_fault := x3\<rparr>) = tc_stuck cs s" "tc_stuck cs (s\<lparr>tc_fd := x4\<rparr>) = tc_stuck cs s"
  "tc_stuck cs (s\<lparr>tc_peer := x5\<rparr>) = tc_stuck cs s" "tc_stuck cs (s\<lparr>tc_canon := x5\<rparr>) = tc_stuck cs s"
  "tc_stuck cs (s\<lparr>tc_group := x6\<rparr>) = tc_stuck cs s" "tc_stuck cs (s\<lparr>tc_pollable := x7\<rparr>) = tc_stuck cs s"
  "tc_stuck cs (s\<lparr>tc_addresses := x8\<rparr>) = tc_stuck cs s" "tc_stuck cs (s\<lparr>tc_addr := x9\<rparr>) = tc_stuck cs s"
  "tc_stuck cs (s\<lparr>tc_job := x10\<rparr>) = tc_stuck cs s"
  by (simp_all add: tc_stuck_def)

lemma cli_stuck [keeps_intros]: "keeps (tc_stuck cs) (TcpClient_cli env)"
  by (rule keepsI) (auto simp: TcpClient_cli_def after_simps tc_stuck_def split: option.split)

lemmas tcp_client_handlers =
  TcpClient_cleanup_def TcpClient_drop_fd_def TcpClient_connect_to_peer_def TcpClient_register_def
  TcpClient_name_peer_def TcpClient_open_socket_def TcpClient_create_connection_def
  TcpClient_stream_on_read_def TcpClient_connect_to_peer_retry_def TcpClient_error_def
  TcpClient_read_step_def TcpClient_poll_del_def TcpClient_epollRDHUP_def TcpClient_epollOUT_def
  TcpClient_epollERR_def TcpClient_on_resolved_def TcpClient_svc_resolved_def TcpClient_svc_removed_def
  TcpClient_on_create_def TcpClient_on_collision_def TcpClient_on_established_def
  TcpClient_on_group_failure_def TcpClient_destroy_def

lemma connect_stuck [keeps_intros]: "keeps (tc_stuck cs) (TcpClient_connect nl env)"
  by (rule connect_keeps; (unfold tcp_client_handlers)?; (intro keeps_intros)?; simp)

lemma shoot_stuck [keeps_intros]: "keeps (tc_stuck cs) (TcpClient_shoot nl env)"
  unfolding TcpClient_shoot_def tcp_client_handlers
  by (intro keeps_bind keeps_gets, case_tac x; simp; intro keeps_intros; simp)

lemma event_stuck:
  "tc_stuck cs s \<Longrightarrow> e \<noteq> TcForget \<Longrightarrow> TcpClient_event nl env e s = Some t \<Longrightarrow> tc_stuck cs t"
proof (cases e)
  case TcIn
  assume st: "tc_stuck cs s" "TcpClient_event nl env e s = Some t"
  obtain b u where q: "run_state (TcpClient_error env) s = (b, u)" by fastforce
  have "keeps (tc_stuck cs) (TcpClient_error env)" "keeps (tc_stuck cs) (TcpClient_read_step env)"
    unfolding tcp_client_handlers by (intro keeps_intros; simp)+
  with st TcIn q show ?thesis
    by (cases b) (auto simp: TcpClient_epollIN_def dest: keepsD loop_until_keeps)
next
  case (TcWrite buf)
  assume "tc_stuck cs s" "TcpClient_event nl env e s = Some t"
  with TcWrite show ?thesis
    by (auto simp: exec_def tc_stuck_def TcpClient_write_def)
qed (auto elim!: exec_keeps simp: tcp_client_handlers intro!: keeps_intros split: option.splits)

text \<open>Only reading can fail to return.\<close>

lemma event_returns: "e \<noteq> TcIn \<Longrightarrow> \<exists>t. TcpClient_event nl env e s = Some t"
  by (cases e) (simp_all add: exec_def split: option.split)

lemma run_returns: "TcIn \<notin> set es \<Longrightarrow> \<exists>t. run_events (TcpClient_event nl env) es s = Some t"
proof (induction es arbitrary: s)
  case (Cons e es)
  from Cons.prems event_returns [of e nl env s] obtain u where "TcpClient_event nl env e s = Some u" by auto
  with Cons.IH [of u] Cons.prems show ?case by simp
qed simp

section \<open>Properties\<close>

text \<open>A kernel for examples: sockets are numbered 5, a first read of the socket finds three
  bytes, a send takes at most two.\<close>

definition demo_env :: env where
  "demo_env tr a =
     (case a of
        Sys (Socket f k) \<Rightarrow> reply_ok\<lparr>rp_ret := 5\<rparr>
      | Sys (Fionread fd) \<Rightarrow> reply_ok\<lparr>rp_size := (if \<exists>r \<in> set tr. fst r = Sys (Recv 5 3) then 0 else 3)\<rparr>
      | Sys (Recv fd n) \<Rightarrow> reply_ok\<lparr>rp_ret := 3, rp_data := [1, 2, 3]\<rparr>
      | Sys (Send fd buf) \<Rightarrow> reply_ok\<lparr>rp_ret := min 2 (int (length buf))\<rparr>
      | _ \<Rightarrow> reply_ok)"

definition demo_netlib :: netlib where
  "demo_netlib =
     \<lparr>inet_pton4 = (\<lambda>s. if s = ''10.0.0.1'' then Some [10, 0, 0, 1] else None), inet_pton6 = (\<lambda>_. None),
      inet_ntop4 = (\<lambda>bs. concat (map (\<lambda>b. ''.'' @ show_nat (unat b)) bs)), inet_ntop6 = (\<lambda>_. ''::''),
      ifaddrs = Some [], nametoindex = (\<lambda>_. 0), indextoname = (\<lambda>_. None), stale_errno = 0\<rparr>"

definition demo_addr :: sock_addr where
  "demo_addr = sa_init4 [10, 0, 0, 1] 5760 None"

text \<open>C17: Whatever the kernel, the resolver, the service directory and the user do, and in
  whatever order events arrive, the TCP client closes only descriptors it has, none twice, and
  holds exactly the one it stores: no descriptor leaks over any number of reconnections.\<close>

theorem tcp_client_descriptors:
  "case run_events (TcpClient_event nl env) events (TcpClient_new name) of
     None \<Rightarrow> True
   | Some s \<Rightarrow> closes_held (io_trace s) \<and> held (io_trace s) = (if tc_fd s = -1 then {#} else {#tc_fd s#})"
proof -
  have "owns (tc_fd (TcpClient_new name)) (io_trace (TcpClient_new name))"
    by (simp add: TcpClient_new_def)
  then show ?thesis by (auto split: option.split dest: tc.run_owns)
qed

text \<open>C18: The client never stops trying. When \<open>connect()\<close> returns and the object still exists,
  the last thing it did was to register a socket, to start the timer, to ask the resolver again
  or to start the registration of its service, whatever failed before.\<close>

theorem tcp_client_keeps_trying:
  assumes "errno_set env"
  shows "after (TcpClient_connect nl env) (\<lambda>_ s. tc_pending s \<or> \<not> io_exists s) s0"
  using connect_run_pending [OF assms, of nl s0]
  by (simp add: after_def TcpClient_connect_def)

theorem tcp_client_keeps_trying_witness:
  "after (TcpClient_connect demo_netlib demo_env) (\<lambda>_ s. \<not> (\<not> tc_pending s \<and> io_exists s))
     (TcpClient_new ''up''\<lparr>tc_addresses := [demo_addr]\<rparr>)"
proof -
  have "errno_set demo_env"
    by (auto simp: errno_set_def demo_env_def reply_ok_def split: action.split syscall.split)
  from tcp_client_keeps_trying [OF this, of demo_netlib "TcpClient_new ''up''\<lparr>tc_addresses := [demo_addr]\<rparr>"]
  show ?thesis by (rule after_mono) blast
qed

text \<open>C19: A stream that once took only part of a buffer is dead: as long as the user keeps it, no
  event -- not the socket's becoming writeable, not a reconnection -- makes it writeable again or
  binds it to the new descriptor.\<close>

theorem tcp_client_stream_stays_stuck:
  assumes "tc_client s = Some cs" "\<not> cs_writeable cs" "TcForget \<notin> set events"
    and "run_events (TcpClient_event nl env) events s = Some t"
  shows "tc_client t = Some cs"
proof -
  have "tc_stuck cs s" using assms(1,2) by (simp add: tc_stuck_def)
  then have "tc_stuck cs t"
    using assms(3,4)
    by (induction events arbitrary: s) (auto simp: bind_eq_Some_conv, metis event_stuck)
  then show ?thesis by (simp add: tc_stuck_def)
qed

definition tc_demo :: tcp_client where
  "tc_demo = TcpClient_new ''up''\<lparr>tc_addresses := [demo_addr], tc_fd := 5,
     tc_client := Some \<lparr>cs_fd = 5, cs_writeable = False\<rparr>\<rparr>"

theorem tcp_client_stream_stays_stuck_witness:
  "\<exists>t. run_events (TcpClient_event demo_netlib demo_env) [TcOut, TcHup, TcTimer, TcErr, TcWrite [9]] tc_demo
         = Some t \<and> tc_client t = Some \<lparr>cs_fd = 5, cs_writeable = False\<rparr>"
proof -
  let ?es = "[TcOut, TcHup, TcTimer, TcErr, TcWrite [9]]"
  have 1: "tc_client tc_demo = Some \<lparr>cs_fd = 5, cs_writeable = False\<rparr>" by (simp add: tc_demo_def)
  obtain t where 2: "run_events (TcpClient_event demo_netlib demo_env) ?es tc_demo = Some t"
    using run_returns [of ?es demo_netlib demo_env tc_demo] by auto
  from tcp_client_stream_stays_stuck [OF 1 _ _ 2] 2 show ?thesis by simp
qed

end
