(* ===== verification/Event_Loop.thy ===== *)
theory Event_Loop
  imports Tcp_Client
begin

text \<open>
  The event loop: \<open>src/impl/epoll.h\<close> and \<open>IOLoopImpl\<close> of \<open>src/loop.cpp\<close>. The loop is generic
  in the world its objects live in: an object is the record of its handlers, functions on the
  loop and the world that may fail to return. The epoll calls are the argument \<open>kernel\<close>.
\<close>

section \<open>Objects and the kernel\<close>

type_synonym obj_id = nat                    \<comment> \<open>the address of an object\<close>

datatype ctl_op = CtlAdd | CtlMod | CtlDel

datatype wait_result = WaitError int | WaitEvents "(obj_id \<times> u32) list"

record 'w loop_kernel =
  k_create :: "'w \<Rightarrow> (int \<times> int) \<times> 'w"                              \<comment> \<open>result and \<open>errno\<close>\<close>
  k_ctl :: "ctl_op \<Rightarrow> int \<Rightarrow> u32 \<Rightarrow> obj_id \<Rightarrow> 'w \<Rightarrow> (int \<times> int) \<times> 'w"
  k_wait :: "nat \<Rightarrow> 'w \<Rightarrow> wait_result \<times> 'w"

record 'w pollable =
  ob_name :: string
  ob_event :: "u32 \<Rightarrow> 'w \<Rightarrow> (bool \<times> 'w) option"                      \<comment> \<open>\<open>epollEvent\<close>\<close>
  ob_in :: "'w \<Rightarrow> (handled \<times> 'w) option"
  ob_out :: "'w \<Rightarrow> (handled \<times> 'w) option"
  ob_pri :: "'w \<Rightarrow> (handled \<times> 'w) option"
  ob_err :: "'w \<Rightarrow> (handled \<times> 'w) option"
  ob_hup :: "'w \<Rightarrow> (handled \<times> 'w) option"
  ob_rdhup :: "'w \<Rightarrow> (handled \<times> 'w) option"
  ob_cleanup :: "'w \<Rightarrow> 'w"

text \<open>The handlers \<open>IOPollable\<close> has unless an object defines its own.\<close>

definition IOPollable_default :: "string \<Rightarrow> 'w pollable" where
  "IOPollable_default name =
     \<lparr>ob_name = name, ob_event = (\<lambda>_ w. Some (False, w)), ob_in = (\<lambda>w. Some (NOT_HANDLED, w)),
      ob_out = (\<lambda>w. Some (NOT_HANDLED, w)), ob_pri = (\<lambda>w. Some (NOT_HANDLED, w)),
      ob_err = (\<lambda>w. Some (NOT_HANDLED, w)), ob_hup = (\<lambda>w. Some (NOT_HANDLED, w)),
      ob_rdhup = (\<lambda>w. Some (NOT_HANDLED, w)), ob_cleanup = id\<rparr>"

section \<open>Epoll\<close>

definition Epoll_create :: "'w loop_kernel \<Rightarrow> 'w \<Rightarrow> error_c \<times> int \<times> 'w" where
  "Epoll_create k w =
     (case k_create k w of ((r, errno), w1) \<Rightarrow>
        (if r = -1 then errno_c errno ''epoll_create'' else errno_c 0 [], r, w1))"

definition Epoll_ctl :: "'w loop_kernel \<Rightarrow> ctl_op \<Rightarrow> string \<Rightarrow> int \<Rightarrow> u32 \<Rightarrow> obj_id \<Rightarrow> 'w \<Rightarrow> error_c \<times> 'w" where
  "Epoll_ctl k op ctx fd evs obj w =
     (case k_ctl k op fd evs obj w of ((r, errno), w1) \<Rightarrow> (to_errno_c r errno ctx, w1))"

definition Epoll_add :: "'w loop_kernel \<Rightarrow> int \<Rightarrow> u32 \<Rightarrow> obj_id \<Rightarrow> 'w \<Rightarrow> error_c \<times> 'w" where
  "Epoll_add k = Epoll_ctl k CtlAdd ''epoll_ctl add''"

definition Epoll_mod :: "'w loop_kernel \<Rightarrow> int \<Rightarrow> u32 \<Rightarrow> obj_id \<Rightarrow> 'w \<Rightarrow> error_c \<times> 'w" where
  "Epoll_mod k = Epoll_ctl k CtlMod ''epoll_ctl mod''"

definition Epoll_del :: "'w loop_kernel \<Rightarrow> int \<Rightarrow> 'w \<Rightarrow> error_c \<times> 'w" where
  "Epoll_del k fd = Epoll_ctl k CtlDel ''epoll_ctl del'' fd 0 0"

definition Epoll_wait :: "'w loop_kernel \<Rightarrow> nat \<Rightarrow> 'w \<Rightarrow> wait_result \<times> 'w" where
  "Epoll_wait k n w = k_wait k n w"

section \<open>The loop object\<close>

record 'w io_loop =
  lp_events :: nat                                  \<comment> \<open>\<open>_epoll_events_number\<close>\<close>
  lp_stop :: bool
  lp_watches :: "obj_id list"                          \<comment> \<open>\<open>_iowatches\<close>\<close>
  lp_block_udev :: bool
  lp_block_zeroconf :: bool
  lp_udev :: bool                                   \<comment> \<open>the services made so far\<close>
  lp_zeroconf :: bool
  lp_stats :: bool
  lp_on_ready :: bool                               \<comment> \<open>a ready handler waits in the directory\<close>
  lp_warnings :: "(string \<times> string) list"           \<comment> \<open>object and event not handled\<close>
  lp_errors :: "error_c list"
  lp_world :: 'w

definition IOLoop_new :: "nat \<Rightarrow> 'w \<Rightarrow> 'w io_loop" where
  "IOLoop_new n w =
     \<lparr>lp_events = n, lp_stop = False, lp_watches = [], lp_block_udev = False, lp_block_zeroconf = False,
      lp_udev = False, lp_zeroconf = False, lp_stats = False, lp_on_ready = False, lp_warnings = [],
      lp_errors = [], lp_world = w\<rparr>"

text \<open>The constructor throws when no epoll instance can be made.\<close>

definition IOLoop_create :: "'w loop_kernel \<Rightarrow> nat \<Rightarrow> 'w \<Rightarrow> error_c + 'w io_loop" where
  "IOLoop_create k n w =
     (case Epoll_create k w of (e, fd, w1) \<Rightarrow>
        if failed e then Inl (add_context ''IOLoop'' e) else Inr (IOLoop_new n w1))"

definition IOLoop_add :: "'w loop_kernel \<Rightarrow> int \<Rightarrow> u32 \<Rightarrow> obj_id \<Rightarrow> 'w io_loop \<Rightarrow> error_c \<times> 'w io_loop" where
  "IOLoop_add k fd evs obj lp =
     (case Epoll_add k fd evs obj (lp_world lp) of (e, w) \<Rightarrow>
        (e, lp\<lparr>lp_world := w, lp_watches := (if failed e then lp_watches lp else obj # lp_watches lp)\<rparr>))"

definition IOLoop_mod :: "'w loop_kernel \<Rightarrow> int \<Rightarrow> u32 \<Rightarrow> obj_id \<Rightarrow> 'w io_loop \<Rightarrow> error_c \<times> 'w io_loop" where
  "IOLoop_mod k fd evs obj lp =
     (case Epoll_mod k fd evs obj (lp_world lp) of (e, w) \<Rightarrow> (e, lp\<lparr>lp_world := w\<rparr>))"

definition IOLoop_del :: "'w loop_kernel \<Rightarrow> int \<Rightarrow> obj_id \<Rightarrow> 'w io_loop \<Rightarrow> error_c \<times> 'w io_loop" where
  "IOLoop_del k fd obj lp =
     (case Epoll_del k fd (lp_world lp) of (e, w) \<Rightarrow>
        (e, lp\<lparr>lp_world := w,
              lp_watches := (if failed e then lp_watches lp else removeAll obj (lp_watches lp))\<rparr>))"

definition IOLoop_stop :: "'w io_loop \<Rightarrow> 'w io_loop" where
  "IOLoop_stop lp = lp\<lparr>lp_stop := True\<rparr>"

text \<open>The services are made when first asked for, unless they are blocked.\<close>

definition IOLoop_block_udev :: "'w io_loop \<Rightarrow> 'w io_loop" where
  "IOLoop_block_udev lp = lp\<lparr>lp_block_udev := True\<rparr>"

definition IOLoop_udev :: "('w \<Rightarrow> error_c \<times> 'w) \<Rightarrow> 'w io_loop \<Rightarrow> bool \<times> 'w io_loop" where
  "IOLoop_udev mk lp =
     (if lp_block_udev lp then (False, lp)
      else if lp_udev lp then (True, lp)
      else (case mk (lp_world lp) of (e, w) \<Rightarrow>
              if failed e then (False, lp\<lparr>lp_world := w\<rparr>) else (True, lp\<lparr>lp_world := w, lp_udev := True\<rparr>)))"

definition IOLoop_block_zeroconf :: "'w io_loop \<Rightarrow> 'w io_loop" where
  "IOLoop_block_zeroconf lp = lp\<lparr>lp_block_zeroconf := True, lp_zeroconf := False\<rparr>"

definition IOLoop_zeroconf :: "('w \<Rightarrow> 'w) \<Rightarrow> 'w io_loop \<Rightarrow> bool \<times> 'w io_loop" where
  "IOLoop_zeroconf mk lp =
     (if lp_block_zeroconf lp then (False, lp)
      else if lp_zeroconf lp then (True, lp)
      else (True, lp\<lparr>lp_zeroconf := True, lp_world := mk (lp_world lp)\<rparr>))"

text \<open>Without a directory the handler runs at once; otherwise it is handed to the directory.\<close>

definition IOLoop_zeroconf_ready ::
    "('w \<Rightarrow> 'w) \<Rightarrow> ('w io_loop \<Rightarrow> 'w io_loop) \<Rightarrow> 'w io_loop \<Rightarrow> 'w io_loop" where
  "IOLoop_zeroconf_ready mk func lp =
     (if lp_block_zeroconf lp then func lp
      else (let lp1 = (if \<not> lp_zeroconf lp then lp\<lparr>lp_zeroconf := True, lp_world := mk (lp_world lp)\<rparr> else lp)
            in lp1\<lparr>lp_on_ready := True\<rparr>))"

definition IOLoop_stats :: "('w \<Rightarrow> 'w) \<Rightarrow> 'w io_loop \<Rightarrow> 'w io_loop" where
  "IOLoop_stats mk lp = (if lp_stats lp then lp else lp\<lparr>lp_stats := True, lp_world := mk (lp_world lp)\<rparr>)"

section \<open>Dispatching one event\<close>

text \<open>The handlers in the order the loop asks for them. A handler that was not handled leaves a
  warning; \<open>STOP\<close> ends the treatment of this event.\<close>

definition handlers_of :: "'w pollable \<Rightarrow> (u32 \<times> string \<times> ('w \<Rightarrow> (handled \<times> 'w) option)) list" where
  "handlers_of ob =
     [(EPOLLIN, ''EPOLLIN'', ob_in ob), (EPOLLOUT, ''EPOLLOUT'', ob_out ob), (EPOLLPRI, ''EPOLLPRI'', ob_pri ob),
      (EPOLLERR, ''EPOLLERR'', ob_err ob), (EPOLLHUP, ''EPOLLHUP'', ob_hup ob),
      (EPOLLRDHUP, ''EPOLLRDHUP'', ob_rdhup ob)]"

fun run_handlers ::
    "(u32 \<times> string \<times> ('w \<Rightarrow> (handled \<times> 'w) option)) list \<Rightarrow> u32 \<Rightarrow> 'w \<Rightarrow> (string list \<times> 'w) option" where
  "run_handlers [] evs w = Some ([], w)"
| "run_handlers ((bit1, name, h) # hs) evs w =
     (if evs AND bit1 = 0 then run_handlers hs evs w
      else (case h w of
              None \<Rightarrow> None
            | Some (NOT_HANDLED, w1) \<Rightarrow> map_option (\<lambda>(ws, w2). (name # ws, w2)) (run_handlers hs evs w1)
            | Some (HANDLED, w1) \<Rightarrow> run_handlers hs evs w1
            | Some (STOP, w1) \<Rightarrow> Some ([], w1)))"

definition dispatch :: "'w pollable \<Rightarrow> u32 \<Rightarrow> 'w \<Rightarrow> (string list \<times> 'w) option" where
  "dispatch ob evs w =
     (case ob_event ob evs w of
        None \<Rightarrow> None
      | Some (True, w1) \<Rightarrow> Some ([], w1)
      | Some (False, w1) \<Rightarrow> run_handlers (handlers_of ob) evs w1)"

section \<open>The loop\<close>

text \<open>The objects act on the whole loop: a handler may stop it or change the watches.\<close>

type_synonym 'w objects = "obj_id \<Rightarrow> 'w io_loop pollable"

fun dispatch_all :: "'w objects \<Rightarrow> (obj_id \<times> u32) list \<Rightarrow> 'w io_loop \<Rightarrow> 'w io_loop option" where
  "dispatch_all obs [] lp = Some lp"
| "dispatch_all obs ((obj, evs) # es) lp =
     (case dispatch (obs obj) evs lp of
        None \<Rightarrow> None
      | Some (ws, lp1) \<Rightarrow>
          dispatch_all obs es (lp1\<lparr>lp_warnings := lp_warnings lp1 @ map (Pair (ob_name (obs obj))) ws\<rparr>))"

text \<open>An interrupted wait is repeated; any other failure is reported and the wait repeated too.\<close>

partial_function (option) run_loop :: "'w loop_kernel \<Rightarrow> 'w objects \<Rightarrow> 'w io_loop \<Rightarrow> 'w io_loop option" where
  "run_loop k obs lp =
     (if lp_stop lp then Some lp
      else (case Epoll_wait k (lp_events lp) (lp_world lp) of
              (WaitError errno, w) \<Rightarrow>
                (if errno = EINTR then run_loop k obs (lp\<lparr>lp_world := w\<rparr>)
                 else run_loop k obs (lp\<lparr>lp_world := w,
                        lp_errors := lp_errors lp @ (if errno \<noteq> 0 then [errno_c errno []] else [])\<rparr>))
            | (WaitEvents es, w) \<Rightarrow>
                Option.bind (dispatch_all obs es (lp\<lparr>lp_world := w\<rparr>)) (run_loop k obs)))"

definition cleanup_watches :: "'w objects \<Rightarrow> 'w io_loop \<Rightarrow> 'w io_loop" where
  "cleanup_watches obs lp = (fold (\<lambda>o1. ob_cleanup (obs o1)) (lp_watches lp) lp)\<lparr>lp_watches := []\<rparr>"

definition IOLoop_run ::
    "'w loop_kernel \<Rightarrow> 'w objects \<Rightarrow> ('w \<Rightarrow> 'w) \<Rightarrow> ('w \<Rightarrow> 'w) \<Rightarrow> 'w io_loop \<Rightarrow> 'w io_loop option" where
  "IOLoop_run k obs make_stats register lp =
     (let lp1 = IOLoop_stats make_stats lp;
          lp2 = lp1\<lparr>lp_world := register (lp_world lp1), lp_stop := False\<rparr>
      in map_option (cleanup_watches obs) (run_loop k obs lp2))"

section \<open>What the loop does with an event\<close>

text \<open>The handlers that are due for an event, up to the first that says \<open>STOP\<close>, for objects
  whose handlers only note in a list that they ran.\<close>

fun until_stop :: "(string \<times> handled) list \<Rightarrow> (string \<times> handled) list" where
  "until_stop [] = []"
| "until_stop ((n, h) # hs) = (if h = STOP then [(n, h)] else (n, h) # until_stop hs)"

definition due :: "u32 \<Rightarrow> (u32 \<times> string) list \<Rightarrow> string list" where
  "due evs bs = map snd (filter (\<lambda>(b, n). evs AND b \<noteq> 0) bs)"

definition event_order :: "(u32 \<times> string) list" where
  "event_order =
     [(EPOLLIN, ''EPOLLIN''), (EPOLLOUT, ''EPOLLOUT''), (EPOLLPRI, ''EPOLLPRI''), (EPOLLERR, ''EPOLLERR''),
      (EPOLLHUP, ''EPOLLHUP''), (EPOLLRDHUP, ''EPOLLRDHUP'')]"

definition noting :: "(string \<Rightarrow> handled) \<Rightarrow> string list pollable" where
  "noting res =
     (let h = (\<lambda>n w. Some (res n, w @ [n]))
      in \<lparr>ob_name = [], ob_event = (\<lambda>_ w. Some (False, w)), ob_in = h ''EPOLLIN'', ob_out = h ''EPOLLOUT'',
          ob_pri = h ''EPOLLPRI'', ob_err = h ''EPOLLERR'', ob_hup = h ''EPOLLHUP'', ob_rdhup = h ''EPOLLRDHUP'',
          ob_cleanup = id\<rparr>)"

lemma run_handlers_noting:
  "run_handlers (map (\<lambda>(b, n). (b, n, \<lambda>w. Some (res n, w @ [n]))) bs) evs w =
     (let ran = until_stop (map (\<lambda>n. (n, res n)) (due evs bs))
      in Some (map fst (filter (\<lambda>(n, h). h = NOT_HANDLED) ran), w @ map fst ran))"
proof (induction bs arbitrary: w)
  case (Cons x bs)
  obtain b n where x: "x = (b, n)" by fastforce
  show ?case
    by (cases "res n") (auto simp: x Cons due_def Let_def)
qed (simp add: due_def)

text \<open>A return of the loop: somebody stopped it.\<close>

lemma run_loop_stopped: "run_loop k obs lp = Some lp' \<Longrightarrow> lp_stop lp'"
proof -
  assume "run_loop k obs lp = Some lp'"
  then show ?thesis
  proof (rule run_loop.raw_induct [rotated, where P = "\<lambda>k obs lp lp'. lp_stop lp'"], goal_cases)
    case (1 run k obs lp lp')
    show ?case
      using 1(2)
      by (auto split: if_splits prod.splits wait_result.splits simp: bind_eq_Some_conv dest: 1(1))
  qed
qed

section \<open>Properties\<close>

text \<open>For each event the loop asks the handlers whose bit is set, in a fixed order, and no
  other; a handler that answers \<open>STOP\<close> is the last. What nobody handled is warned about.\<close>

theorem dispatch_order:
  "dispatch (noting res) evs w =
     (let ran = until_stop (map (\<lambda>n. (n, res n)) (due evs event_order))
      in Some (map fst (filter (\<lambda>(n, h). h = NOT_HANDLED) ran), w @ map fst ran))"
  using run_handlers_noting [of res event_order evs w]
  by (simp add: dispatch_def noting_def handlers_of_def event_order_def Let_def)

text \<open>C21: The loop returns only when the rounds have ended because somebody stopped it, and then the cleanup of
  every object that was still watched has run, in the order of the list, on the state in which the
  rounds ended, and none is watched any more.\<close>

theorem loop_run_cleans_up:
  assumes "IOLoop_run k obs mk register lp = Some lp'"
  shows "\<exists>lp1. run_loop k obs ((IOLoop_stats mk lp)\<lparr>lp_world := register (lp_world (IOLoop_stats mk lp)), lp_stop := False\<rparr>) = Some lp1 \<and>
    lp_stop lp1 \<and> lp' = (fold (\<lambda>o1. ob_cleanup (obs o1)) (lp_watches lp1) lp1)\<lparr>lp_watches := []\<rparr>"
proof -
  from assms obtain lp1 where "run_loop k obs ((IOLoop_stats mk lp)\<lparr>lp_world :=
        register (lp_world (IOLoop_stats mk lp)), lp_stop := False\<rparr>) = Some lp1"
    and "lp' = cleanup_watches obs lp1"
    by (auto simp: IOLoop_run_def Let_def)
  then show ?thesis
    by (intro exI [of _ lp1]) (auto simp: cleanup_watches_def dest: run_loop_stopped)
qed

text \<open>A loop with one object whose input handler stops it.\<close>

definition stop_kernel :: "nat loop_kernel" where
  "stop_kernel =
     \<lparr>k_create = (\<lambda>w. ((3, 0), w)), k_ctl = (\<lambda>_ _ _ _ w. ((0, 0), w)),
      k_wait = (\<lambda>n w. (WaitEvents [(1, EPOLLIN)], w + 1))\<rparr>"

definition stop_objects :: "nat objects" where
  "stop_objects o1 = (IOPollable_default ''ctrlc'')
     \<lparr>ob_in := (\<lambda>lp. Some (HANDLED, IOLoop_stop lp)), ob_cleanup := (\<lambda>lp. lp\<lparr>lp_world := lp_world lp + 10\<rparr>)\<rparr>"

theorem loop_run_cleans_up_witness:
  "\<exists>lp'. IOLoop_run stop_kernel stop_objects id id (snd (IOLoop_add stop_kernel 4 EPOLLIN 1 (IOLoop_new 5 0))) = Some lp' \<and>
     lp_watches lp' = [] \<and> lp_world lp' = 11"
proof -
  have "\<exists>lp'. IOLoop_run stop_kernel stop_objects id id
      (snd (IOLoop_add stop_kernel 4 EPOLLIN 1 (IOLoop_new 5 0))) = Some lp' \<and> lp_world lp' = 11"
    by (simp add: IOLoop_run_def IOLoop_add_def Epoll_add_def Epoll_ctl_def stop_kernel_def IOLoop_new_def
        IOLoop_stats_def to_errno_c_def errno_c_def failed_def run_loop.simps Epoll_wait_def dispatch_def Let_def
        EPOLLIN_def EPOLLOUT_def EPOLLPRI_def EPOLLERR_def EPOLLHUP_def EPOLLRDHUP_def
        stop_objects_def IOPollable_default_def handlers_of_def IOLoop_stop_def cleanup_watches_def)
  then obtain lp' where "IOLoop_run stop_kernel stop_objects id id
      (snd (IOLoop_add stop_kernel 4 EPOLLIN 1 (IOLoop_new 5 0))) = Some lp'" "lp_world lp' = 11"
    by blast
  with loop_run_cleans_up [OF this(1)] show ?thesis by auto
qed

text \<open>A kernel whose wait always fails keeps the loop busy for ever.\<close>

lemma run_loop_forever:
  assumes "\<And>n w. \<exists>e w'. k_wait k n w = (WaitError e, w')" "\<not> lp_stop lp"
  shows "run_loop k obs lp = None"
proof (rule ccontr)
  assume "run_loop k obs lp \<noteq> None"
  then obtain lp' where "run_loop k obs lp = Some lp'" by auto
  then have "\<not> lp_stop lp \<longrightarrow> (\<forall>n w. \<exists>e w'. k_wait k n w = (WaitError e, w')) \<longrightarrow> False"
  proof (rule run_loop.raw_induct [rotated, where P = "\<lambda>k obs lp lp'.
      \<not> lp_stop lp \<longrightarrow> (\<forall>n w. \<exists>e w'. k_wait k n w = (WaitError e, w')) \<longrightarrow> False"], goal_cases)
    case (1 run k obs lp lp')
    show ?case
    proof (intro impI)
      assume s: "\<not> lp_stop lp" and a: "\<forall>n w. \<exists>e w'. k_wait k n w = (WaitError e, w')"
      then obtain e w' where "k_wait k (lp_events lp) (lp_world lp) = (WaitError e, w')" by blast
      with 1(2) s show False
        by (auto simp: Epoll_wait_def a split: if_splits dest!: 1(1))
    qed
  qed
  with assms show False by blast
qed

end
