(* ===== verification/Client_Loop.thy ===== *)
theory Client_Loop
  imports Event_Loop
begin

text \<open>
  The TCP client inside the event loop: its handlers as the loop's object, and what a refused
  connection does to the walk over the addresses of a host.
\<close>

definition TcpClient_pollable :: "netlib \<Rightarrow> env \<Rightarrow> tcp_client pollable" where
  "TcpClient_pollable nl env =
     (IOPollable_default ''tcpcli'')
       \<lparr>ob_in := TcpClient_epollIN env,
        ob_out := (\<lambda>s. Some (run_state (TcpClient_epollOUT env) s)),
        ob_err := (\<lambda>s. Some (run_state (TcpClient_epollERR env) s)),
        ob_hup := (\<lambda>s. Some (run_state (TcpClient_epollRDHUP nl env) s)),
        ob_rdhup := (\<lambda>s. Some (run_state (TcpClient_epollRDHUP nl env) s)),
        ob_cleanup := (\<lambda>s. snd (run_state (TcpClient_cleanup env) s))\<rparr>"

lemma reply_ok_simps [simp]:
  "rp_ret reply_ok = 0" "rp_errno reply_ok = 0" "\<not> rp_gone reply_ok"
  by (simp_all add: reply_ok_def)

lemmas state_runs = ask_def sys_def svc_def modify_def gets_def call_def svc_call_def whenM_def to_errno_c_def
  on_error_def on_error_ctx_def poll_add_def poll_del_def sa_connect_def fault_def failed_def
  errno_c_def no_error_def EINPROGRESS_def

section \<open>A refused connection\<close>

text \<open>What the kernel reports of the socket of a refused connection among the events the client asked
  for: it is readable and writeable, in error, and hung up by both sides.\<close>

definition refused :: u32 where
  "refused = EPOLLIN OR EPOLLOUT OR EPOLLERR OR EPOLLHUP OR EPOLLRDHUP"

lemma refused_bits:
  "refused AND EPOLLIN \<noteq> 0" "refused AND EPOLLOUT \<noteq> 0" "refused AND EPOLLPRI = 0"
  "refused AND EPOLLERR \<noteq> 0" "refused AND EPOLLHUP \<noteq> 0" "refused AND EPOLLRDHUP \<noteq> 0"
  by (simp_all add: refused_def EPOLLIN_def EPOLLOUT_def EPOLLPRI_def EPOLLERR_def EPOLLHUP_def EPOLLRDHUP_def)

text \<open>An environment without service directory in which nothing fails, connections take their time, no
  data wait and nobody destroys the client.\<close>

definition calm_reply :: "action \<Rightarrow> reply \<Rightarrow> bool" where
  "calm_reply a r =
     (case a of
       Sys (Socket f k) \<Rightarrow> rp_ret r \<noteq> -1
     | Sys (Connect fd x) \<Rightarrow> rp_ret r = 0 \<or> rp_errno r = EINPROGRESS
     | Sys (GetSockError fd) \<Rightarrow> rp_ret r = 0
     | Sys (Fionread fd) \<Rightarrow> rp_ret r = 0 \<and> rp_size r = 0
     | Sys (Close fd) \<Rightarrow> rp_ret r = 0
     | Sys (SetSockOpt fd opt) \<Rightarrow> rp_ret r = 0
     | Svc (PollAdd fd evs) \<Rightarrow> rp_ret r = 0
     | Svc (PollDel fd) \<Rightarrow> rp_ret r = 0
     | Svc HasZeroconf \<Rightarrow> rp_ret r = 0
     | Up u \<Rightarrow> \<not> rp_gone r
     | _ \<Rightarrow> True)"

definition calm :: "env \<Rightarrow> bool" where
  "calm env \<longleftrightarrow> (\<forall>tr a. calm_reply a (env tr a))"

lemma calm_ask:
  "calm env \<Longrightarrow> (\<And>r. calm_reply a r \<Longrightarrow> Q r (s\<lparr>io_trace := (a, r) # io_trace s\<rparr>)) \<Longrightarrow> after (ask env a) Q s"
  by (simp add: after_simps calm_def)

lemma calm_callback:
  "calm env \<Longrightarrow> (\<And>r. Q () (s\<lparr>io_trace := (Up u, r) # io_trace s, io_exists := io_exists s\<rparr>)) \<Longrightarrow> after (callback env u) Q s"
  unfolding callback_def after_bind
  by (rule calm_ask) (auto simp: after_simps calm_reply_def cong: conj_cong)

lemma ec_value_to_errno: "ec_value (to_errno_c r n c) = (if r = 0 then 0 else n)"
  by (simp add: to_errno_c_def errno_c_def)

lemmas calm_wp = after_return after_bind after_gets after_modify after_sys after_svc after_if after_whenM after_call
  after_svc_call after_on_error after_sa_connect after_poll ec_value_to_errno

text \<open>What the client asked for between two of its states.\<close>

definition asked :: "tcp_client \<Rightarrow> tcp_client \<Rightarrow> action list \<Rightarrow> bool" where
  "asked s t as \<longleftrightarrow> (\<exists>tr. io_trace t = tr @ io_trace s \<and> map fst (rev tr) = as)"

lemma asked_trans:
  assumes "asked s t as" "asked t u bs"
  shows "asked s u (as @ bs)"
proof -
  obtain tr1 tr2 where "io_trace t = tr1 @ io_trace s" "map fst (rev tr1) = as" "io_trace u = tr2 @ io_trace t"
    "map fst (rev tr2) = bs" using assms by (auto simp: asked_def)
  then have "io_trace u = (tr2 @ tr1) @ io_trace s \<and> map fst (rev (tr2 @ tr1)) = as @ bs" by simp
  then show ?thesis unfolding asked_def by blast
qed

lemma asked_more: "asked s u as \<Longrightarrow> io_trace t = (a, r) # io_trace u \<Longrightarrow> asked s t (as @ [a])"
  by (rule asked_trans) (auto simp: asked_def)

lemma asked_same: "io_trace t = io_trace s \<Longrightarrow> asked s t []"
  by (simp add: asked_def)

text \<open>Connecting to an address.\<close>

definition attempt :: "int \<Rightarrow> sock_addr \<Rightarrow> action list" where
  "attempt fd a =
     [Sys (Socket (sa_family a) SOCK_STREAM), Sys (SetSockOpt fd KeepAlive), Svc HasZeroconf, Sys (Connect fd a),
      Svc (PollAdd fd (EPOLLIN OR EPOLLOUT OR EPOLLRDHUP OR EPOLLET))]"

text \<open>The walk goes on from the address at \<open>i\<close> of the list: it stops at its end until the timer fires.\<close>

definition walk_from :: "nat \<Rightarrow> tcp_client \<Rightarrow> tcp_client \<Rightarrow> action list \<Rightarrow> bool" where
  "walk_from i s t as \<longleftrightarrow>
     (if i < length (tc_addresses s)
      then tc_addr t = i \<and> tc_fd t \<noteq> -1 \<and> as = attempt (tc_fd t) (tc_addresses s ! i)
      else tc_addr t = 0 \<and> tc_fd t = -1 \<and> as = [Svc (TimerOneshot 3000000000)])"

definition going_on :: "tcp_client \<Rightarrow> tcp_client \<Rightarrow> bool" where
  "going_on s t \<longleftrightarrow> tc_addresses t = tc_addresses s \<and> tc_canon t = [] \<and> io_exists t"

lemma connect_walks:
  assumes "calm env" "tc_fd s = -1" "tc_addr s = i" "None \<notin> set (tc_addresses s)" "tc_addresses s \<noteq> []"
    and "tc_canon s = []" "io_exists s" "run_state (TcpClient_connect nl env) s = (x, t)"
  shows "\<exists>as. asked s t as \<and> walk_from i s t as \<and> going_on s t"
proof (cases "i < length (tc_addresses s)")
  case False
  with assms(2-8) show ?thesis
    by (intro exI [of _ "[Svc (TimerOneshot 3000000000)]"])
       (auto simp: TcpClient_connect_def TcpClient_connect_run.simps walk_from_def going_on_def asked_def svc_def ask_def modify_def)
next
  case True
  then obtain a where a: "tc_addresses s ! i = Some a" using assms(4) by (metis not_None_eq nth_mem)
  let ?Q = "\<lambda>e t. \<not> failed e \<and> (\<exists>as. asked s t as \<and> walk_from i s t as \<and> going_on s t)"
  have "after (TcpClient_create_connection nl env) ?Q s"
    using assms(2-7) True a
    by (simp add: TcpClient_create_connection_def TcpClient_open_socket_def TcpClient_name_peer_def TcpClient_connect_to_peer_def
        calm_wp, intro calm_ask [OF assms(1)])
       (auto simp: TcpClient_name_peer_def TcpClient_connect_to_peer_def calm_reply_def asked_def walk_from_def
          going_on_def attempt_def calm_wp intro!: calm_ask [OF assms(1)])
  from this [unfolded after_def] True assms(3,5,8) show ?thesis
    by (auto simp: TcpClient_connect_def TcpClient_connect_run.simps [of nl env s] split: prod.splits if_splits)
qed

text \<open>The handler of a hang-up.\<close>

lemma hangup_walks:
  assumes "calm env" "tc_fd s \<noteq> -1" "tc_addr s < length (tc_addresses s)" "None \<notin> set (tc_addresses s)"
    and "tc_canon s = []" "io_exists s"
  shows "after (TcpClient_epollRDHUP nl env) (\<lambda>h t. h = HANDLED \<and> (\<exists>as.
    asked s t ([Svc (PollDel (tc_fd s)), Sys (Close (tc_fd s))] @ as) \<and> walk_from (Suc (tc_addr s)) s t as \<and> going_on s t)) s"
proof -
  have "tc_addresses s \<noteq> []" using assms(3) by auto
  then have c: "after (TcpClient_connect nl env) (\<lambda>_ t. \<exists>as.
      asked s t ([Svc (PollDel (tc_fd s)), Sys (Close (tc_fd s))] @ as) \<and> walk_from (Suc (tc_addr s)) s t as \<and> going_on s t) u"
    if "tc_fd u = -1" "tc_addr u = Suc (tc_addr s)" "tc_addresses u = tc_addresses s" "tc_canon u = []" "io_exists u"
      "asked s u [Svc (PollDel (tc_fd s)), Sys (Close (tc_fd s))]" for u
  proof -
    obtain x t where r: "run_state (TcpClient_connect nl env) u = (x, t)" by (cases "run_state (TcpClient_connect nl env) u")
    from connect_walks [OF assms(1) that(1,2) _ _ that(4,5) r] that(3) assms(4) \<open>tc_addresses s \<noteq> []\<close>
    obtain as where "asked u t as" "walk_from (Suc (tc_addr s)) u t as" "going_on u t" by auto
    with asked_trans [OF that(6) this(1)] that(3) show ?thesis
      by (auto simp: after_def r walk_from_def going_on_def)
  qed
  show ?thesis
    using assms(2-6)
    by (auto simp: TcpClient_epollRDHUP_def TcpClient_poll_del_def TcpClient_cleanup_def calm_wp calm_reply_def asked_def
        intro!: calm_ask [OF assms(1)] after_mono [OF c])
qed

text \<open>The client is announced when there is none yet.\<close>

definition announced :: "tcp_client \<Rightarrow> action list" where
  "announced s =
     (if tc_client s \<noteq> None then []
      else (if tc_stat_period s \<noteq> 0 then [Svc (RegisterReport ''tcpcli'' (tc_stat_period s))] else []) @
        [Up (OnConnect (tc_peer s))])"

text \<open>The other handlers of the event leave the connection as it is.\<close>

definition connection :: "tcp_client \<Rightarrow> int \<times> nat \<times> sock_addr list \<times> string \<times> bool" where
  "connection s = (tc_fd s, tc_addr s, tc_addresses s, tc_canon s, io_exists s)"

lemma readable_nothing:
  assumes "calm env" "io_exists s"
  shows "\<exists>t. TcpClient_epollIN env s = Some (HANDLED, t) \<and> asked s t [Sys (GetSockError (tc_fd s)), Sys (Fionread (tc_fd s))] \<and>
    connection t = connection s \<and> announced t = announced s"
proof -
  have "after (TcpClient_error env) (\<lambda>e t. \<not> e \<and> asked s t [Sys (GetSockError (tc_fd s))] \<and>
      connection t = connection s \<and> announced t = announced s) s"
    by (auto simp: TcpClient_error_def calm_wp calm_reply_def asked_def connection_def announced_def intro!: calm_ask [OF assms(1)])
  then obtain u where u: "run_state (TcpClient_error env) s = (False, u)" "asked s u [Sys (GetSockError (tc_fd s))]"
    "connection u = connection s" "announced u = announced s" by (auto simp: after_def split: prod.splits)
  have "after (TcpClient_read_step env) (\<lambda>h t. h = Some HANDLED \<and> asked u t [Sys (Fionread (tc_fd u))] \<and>
      connection t = connection u \<and> announced t = announced u) u"
    by (auto simp: TcpClient_read_step_def calm_wp calm_reply_def asked_def connection_def announced_def
        intro!: calm_ask [OF assms(1)])
  then obtain t where t: "run_state (TcpClient_read_step env) u = (Some HANDLED, t)" "asked u t [Sys (Fionread (tc_fd u))]"
    "connection t = connection u" "announced t = announced u" by (auto simp: after_def split: prod.splits)
  have "tc_fd u = tc_fd s" using u(3) by (simp add: connection_def)
  then show ?thesis
    using u t asked_trans [OF u(2) t(2)] by (auto simp: TcpClient_epollIN_def loop_until_step [of _ u])
qed

lemma writeable_announces:
  assumes "calm env" "io_exists s"
  shows "after (TcpClient_epollOUT env) (\<lambda>h t. h = HANDLED \<and> asked s t (announced s) \<and> connection t = connection s) s"
  using assms(2)
  by (cases "tc_client s")
     (auto simp: TcpClient_epollOUT_def TcpClient_cli_def announced_def calm_wp asked_def connection_def
        intro!: calm_ask [OF assms(1)] calm_callback [OF assms(1)])

lemma error_noted:
  assumes "calm env"
  shows "after (TcpClient_epollERR env) (\<lambda>h t. h = HANDLED \<and> asked s t [Sys (GetSockError (tc_fd s))] \<and>
    connection t = connection s) s"
  by (auto simp: TcpClient_epollERR_def TcpClient_error_def calm_wp calm_reply_def asked_def connection_def
      intro!: calm_ask [OF assms])

lemma refused_handlers:
  assumes "ob_in ob s = Some (HANDLED, t1)" "ob_out ob t1 = Some (HANDLED, t2)" "ob_err ob t2 = Some (HANDLED, t3)"
    and "ob_hup ob t3 = Some (HANDLED, t4)" "ob_rdhup ob t4 = Some (HANDLED, t5)" "ob_event ob refused s = Some (False, s)"
  shows "dispatch ob refused s = Some ([], t5)"
  using assms by (simp add: dispatch_def handlers_of_def refused_bits)

section \<open>Properties\<close>

text \<open>C20: A refused connection makes the client pass over the next address of the host. Its event runs the
  handlers of the hang-up and of the peer's hang-up, one after the other: the first starts the connection
  to the next address, the second drops it at once and goes on to the address behind it, or, at the end of the
  list, waits for the timer and starts over. Before that the application is handed a client, if it has none,
  though nothing was ever connected. This holds of any client that is not connecting to a service, whatever
  descriptors the kernel gives it, as long as there is no service directory, nothing else fails and
  nobody destroys it meanwhile.\<close>

theorem tcp_client_skips_next_address:
  assumes "calm env" "None \<notin> set (tc_addresses s)" "Suc (tc_addr s) < length (tc_addresses s)"
    and "tc_fd s \<noteq> -1" "tc_canon s = []" "io_exists s"
  shows "\<exists>t f as. dispatch (TcpClient_pollable nl env) refused s = Some ([], t) \<and>
     asked s t ([Sys (GetSockError (tc_fd s)), Sys (Fionread (tc_fd s))] @ announced s @
       [Sys (GetSockError (tc_fd s)), Svc (PollDel (tc_fd s)), Sys (Close (tc_fd s))] @
       attempt f (tc_addresses s ! Suc (tc_addr s)) @ [Svc (PollDel f), Sys (Close f)] @ as) \<and>
     walk_from (Suc (Suc (tc_addr s))) s t as"
proof -
  let ?fd = "tc_fd s" and ?i = "tc_addr s"
  obtain t1 where t1: "TcpClient_epollIN env s = Some (HANDLED, t1)" "asked s t1 [Sys (GetSockError ?fd), Sys (Fionread ?fd)]"
    "connection t1 = connection s" "announced t1 = announced s" using readable_nothing [OF assms(1,6)] by blast
  have "io_exists t1" using t1(3) assms(6) by (simp add: connection_def)
  from writeable_announces [OF assms(1) this] t1(4) obtain t2 where
    t2: "run_state (TcpClient_epollOUT env) t1 = (HANDLED, t2)" "asked t1 t2 (announced s)" "connection t2 = connection s"
    using t1(3) by (auto simp: after_def split: prod.splits)
  from error_noted [OF assms(1), of t2] obtain t3 where
    t3: "run_state (TcpClient_epollERR env) t2 = (HANDLED, t3)" "asked t2 t3 [Sys (GetSockError ?fd)]" "connection t3 = connection s"
    using t2(3) by (auto simp: after_def connection_def split: prod.splits)
  have c3: "tc_fd t3 = ?fd" "tc_addr t3 = ?i" "tc_addresses t3 = tc_addresses s" "tc_canon t3 = []" "io_exists t3"
    using t3(3) assms(5,6) by (simp_all add: connection_def)
  from hangup_walks [OF assms(1), of t3 nl] obtain t4 as4 where
    t4: "run_state (TcpClient_epollRDHUP nl env) t3 = (HANDLED, t4)" "asked t3 t4 ([Svc (PollDel ?fd), Sys (Close ?fd)] @ as4)"
      "walk_from (Suc ?i) t3 t4 as4" "going_on t3 t4"
    using assms(2-4) c3 by (auto simp: after_def split: prod.splits)
  have c4: "tc_addr t4 = Suc ?i" "tc_fd t4 \<noteq> -1" "as4 = attempt (tc_fd t4) (tc_addresses s ! Suc ?i)"
    "tc_addresses t4 = tc_addresses s" "tc_canon t4 = []" "io_exists t4"
    using t4(3,4) assms(3) c3 by (auto simp: walk_from_def going_on_def)
  from hangup_walks [OF assms(1) c4(2), of nl] obtain t5 as where
    t5: "run_state (TcpClient_epollRDHUP nl env) t4 = (HANDLED, t5)"
      "asked t4 t5 ([Svc (PollDel (tc_fd t4)), Sys (Close (tc_fd t4))] @ as)" "walk_from (Suc (Suc ?i)) t4 t5 as"
    using assms(2,3) c4 by (auto simp: after_def split: prod.splits)
  have "dispatch (TcpClient_pollable nl env) refused s = Some ([], t5)"
    by (rule refused_handlers [of _ _ t1 t2 t3 t4])
      (simp_all add: TcpClient_pollable_def IOPollable_default_def t1 t2 t3 t4 t5)
  moreover have "walk_from (Suc (Suc ?i)) s t5 as" using t5(3) c4(4) by (simp add: walk_from_def)
  ultimately show ?thesis
    using asked_trans [OF t1(2) asked_trans [OF t2(2) asked_trans [OF t3(2) asked_trans [OF t4(2) t5(2)]]]]
    unfolding c4(3) by (intro exI [of _ t5] exI [of _ "tc_fd t4"] exI [of _ as]) simp
qed

text \<open>Sockets are numbered by what happened so far and every connection is in progress when \<open>connect\<close> returns.\<close>

definition slow_env :: env where
  "slow_env tr a =
     (case a of
        Sys (Socket f k) \<Rightarrow> reply_ok\<lparr>rp_ret := 6 + int (length tr)\<rparr>
      | Sys (Connect fd x) \<Rightarrow> reply_ok\<lparr>rp_ret := -1, rp_errno := EINPROGRESS\<rparr>
      | _ \<Rightarrow> reply_ok)"

lemma slow_env_calm: "calm slow_env"
  by (auto simp: calm_def calm_reply_def slow_env_def reply_ok_def split: action.split syscall.split service.split)

definition two_addresses :: tcp_client where
  "two_addresses = TcpClient_new ''up''\<lparr>tc_addresses := [demo_addr, sa_init4 [10, 0, 0, 2] 5760 None], tc_fd := 5\<rparr>"

text \<open>With two addresses the second one is never waited for.\<close>

theorem tcp_client_skips_next_address_witness:
  "\<exists>t. dispatch (TcpClient_pollable demo_netlib slow_env) refused two_addresses = Some ([], t) \<and>
     tc_addr t = 0 \<and> tc_fd t = -1"
proof -
  have "tc_addresses two_addresses = [demo_addr, sa_init4 [10, 0, 0, 2] 5760 None]" "tc_addr two_addresses = 0"
    "tc_fd two_addresses = 5" "tc_canon two_addresses = []" "io_exists two_addresses"
    by (simp_all add: two_addresses_def TcpClient_new_def)
  moreover have "None \<notin> set (tc_addresses two_addresses)"
    by (simp add: calculation(1) demo_addr_def sa_init4_def Let_def)
  ultimately show ?thesis
    using tcp_client_skips_next_address [OF slow_env_calm, of two_addresses demo_netlib] by (auto simp: walk_from_def)
qed

end
