(* ===== verification/Tcp_Server.thy ===== *)
theory Tcp_Server
  imports Tcp_Client
begin

text \<open>
  The TCP server endpoint and the streams of its clients, \<open>src/impl/tcpsvr.h\<close>. A stream has two
  flags of the name \<open>_is_writeable\<close>: the one of its base class, which \<open>writeable()\<close> sets, and
  its own, which \<open>write\<close> looks at.
\<close>

section \<open>The stream of a client\<close>

record server_stream = io +
  ss_name :: string
  ss_fd :: int
  ss_base_writeable :: bool
  ss_writeable :: bool

definition ss_initial :: "string \<Rightarrow> int \<Rightarrow> server_stream" where
  "ss_initial name fd =
     \<lparr>io_trace = [(Sys (Accept 0), reply_ok\<lparr>rp_ret := fd\<rparr>)], io_handler = False, io_exists = True, io_fault = False,
      ss_name = name, ss_fd = fd, ss_base_writeable = False, ss_writeable = True\<rparr>"

text \<open>The constructor; the result of registering the descriptor is not looked at.\<close>

definition TCPServerStream_new :: "env \<Rightarrow> int \<Rightarrow> (server_stream, unit) state" where
  "TCPServerStream_new env period =
     do { fd \<leftarrow> gets ss_fd;
          poll_add env fd (EPOLLIN OR EPOLLOUT OR EPOLLET);
          whenM (period \<noteq> 0) (do { svc env (RegisterReport ''tcpsvr'' period); State_Monad.return () }) }"

definition Writeable_writeable :: "env \<Rightarrow> (server_stream, unit) state" where
  "Writeable_writeable env =
     do { w \<leftarrow> gets ss_base_writeable;
          whenM (\<not> w) (do {
            modify (\<lambda>s. s\<lparr>ss_base_writeable := True\<rparr>);
            callback env OnWriteable }) }"

text \<open>\<open>check()\<close>, which the server has too: the pending error of a socket.\<close>

definition socket_check :: "env \<Rightarrow> int \<Rightarrow> ('a io_scheme, error_c) state" where
  "socket_check env fd =
     do { r \<leftarrow> sys env (GetSockError fd);
          State_Monad.return
            (if failed (to_errno_c (rp_ret r) (rp_errno r) ''getsockopt'')
             then to_errno_c (rp_ret r) (rp_errno r) ''getsockopt''
             else errno_c (rp_size r) ''socket error'') }"

definition TCPServerStream_cleanup :: "env \<Rightarrow> (server_stream, unit) state" where
  "TCPServerStream_cleanup env =
     do { fd \<leftarrow> gets ss_fd;
          whenM (fd \<noteq> -1) (do { sys env (Close fd); modify (\<lambda>s. s\<lparr>ss_fd := -1\<rparr>) }) }"

text \<open>One round of \<open>epollIN\<close>. Nothing to read is taken for the end of the connection.\<close>

definition TCPServerStream_end :: "env \<Rightarrow> int \<Rightarrow> (server_stream, handled option) state" where
  "TCPServerStream_end env fd =
     do { e \<leftarrow> poll_del env fd;
          on_error env e ''tcp socket cleanup'';
          TCPServerStream_cleanup env;
          callback env OnClose;
          State_Monad.return (Some STOP) }"

definition TCPServerStream_receive :: "env \<Rightarrow> int \<Rightarrow> int \<Rightarrow> (server_stream, handled option) state" where
  "TCPServerStream_receive env fd sz =
     do { d \<leftarrow> sys env (Recv fd sz);
          (if rp_ret d = -1
           then (if rp_errno d \<noteq> EAGAIN
                 then do {
                   on_error env (errno_c (rp_errno d) []) ''tcp recv'';
                   alive \<leftarrow> gets io_exists;
                   State_Monad.return (if alive then None else Some STOP) }
                 else State_Monad.return None)
           else do {
             callback env (OnRead (rp_data d));
             svc env (CountAdd ''read'' (rp_ret d));
             alive \<leftarrow> gets io_exists;
             State_Monad.return (if alive then None else Some STOP) }) }"

definition TCPServerStream_read_step :: "env \<Rightarrow> (server_stream, handled option) state" where
  "TCPServerStream_read_step env =
     do { fd \<leftarrow> gets ss_fd;
          r \<leftarrow> sys env (Fionread fd);
          (if failed (to_errno_c (rp_ret r) (rp_errno r) ''tcp ioctl'')
           then do {
             on_error env (to_errno_c (rp_ret r) (rp_errno r) ''tcp ioctl'') ''Query data size error'';
             alive \<leftarrow> gets io_exists;
             State_Monad.return (Some (if alive then HANDLED else STOP)) }
           else if rp_size r = 0 then TCPServerStream_end env fd
           else TCPServerStream_receive env fd (rp_size r)) }"

definition TCPServerStream_epollIN :: "env \<Rightarrow> server_stream \<Rightarrow> (handled \<times> server_stream) option" where
  "TCPServerStream_epollIN env = loop_until (TCPServerStream_read_step env)"

definition TCPServerStream_epollOUT :: "env \<Rightarrow> (server_stream, handled) state" where
  "TCPServerStream_epollOUT env =
     do { Writeable_writeable env;
          alive \<leftarrow> gets io_exists;
          State_Monad.return (if alive then HANDLED else STOP) }"

definition TCPServerStream_epollERR :: "(server_stream, handled) state" where
  "TCPServerStream_epollERR = State_Monad.return HANDLED"

definition TCPServerStream_epollHUP :: "env \<Rightarrow> (server_stream, handled) state" where
  "TCPServerStream_epollHUP env =
     do { fd \<leftarrow> gets ss_fd;
          (if fd \<noteq> -1
           then do {
             e \<leftarrow> poll_del env fd;
             on_error env e ''loop del'';
             alive \<leftarrow> gets io_exists;
             (if failed e \<and> \<not> alive then State_Monad.return STOP
              else do {
                TCPServerStream_cleanup env;
                callback env OnClose;
                State_Monad.return HANDLED }) }
           else State_Monad.return HANDLED) }"

definition TCPServerStream_epollEvent :: "env \<Rightarrow> u32 \<Rightarrow> (server_stream, bool) state" where
  "TCPServerStream_epollEvent env evs =
     do { fd \<leftarrow> gets ss_fd;
          whenM (evs AND (EPOLLIN OR EPOLLERR) \<noteq> 0) (do {
            e \<leftarrow> socket_check env fd;
            whenM (failed e \<or> evs AND EPOLLERR \<noteq> 0) (do {
              on_error env e ''tcp socket error'';
              State_Monad.return () }) });
          State_Monad.return False }"

definition TCPServerStream_write :: "env \<Rightarrow> bytes \<Rightarrow> (server_stream, int) state" where
  "TCPServerStream_write env buf =
     do { s \<leftarrow> gets id;
          (if \<not> ss_writeable s then State_Monad.return 0
           else do {
             r \<leftarrow> sys env (Send (ss_fd s) buf);
             modify (\<lambda>s. s\<lparr>ss_writeable := (rp_ret r = int (length buf))\<rparr>);
             (if rp_ret r = -1
              then whenM (rp_errno r \<noteq> EAGAIN) (do {
                whenM (rp_errno r = EPIPE) (do {
                  poll_del env (ss_fd s);
                  TCPServerStream_cleanup env;
                  callback env OnClose });
                on_error env (errno_c (rp_errno r) []) ''tcp send'';
                State_Monad.return () })
              else do { svc env (CountAdd ''write'' (rp_ret r)); State_Monad.return () });
             State_Monad.return (rp_ret r) }) }"

definition TCPServerStream_destroy :: "env \<Rightarrow> (server_stream, unit) state" where
  "TCPServerStream_destroy env =
     do { modify (\<lambda>s. s\<lparr>io_exists := False\<rparr>); TCPServerStream_cleanup env }"

datatype stream_event = SsIn | SsOut | SsErr | SsHup | SsEvent u32 | SsWrite bytes | SsDestroy

fun TCPServerStream_event :: "env \<Rightarrow> stream_event \<Rightarrow> server_stream \<Rightarrow> server_stream option" where
  "TCPServerStream_event env SsIn s = map_option snd (TCPServerStream_epollIN env s)"
| "TCPServerStream_event env SsOut s = exec (TCPServerStream_epollOUT env) s"
| "TCPServerStream_event env SsErr s = exec TCPServerStream_epollERR s"
| "TCPServerStream_event env SsHup s = exec (TCPServerStream_epollHUP env) s"
| "TCPServerStream_event env (SsEvent evs) s = exec (TCPServerStream_epollEvent env evs) s"
| "TCPServerStream_event env (SsWrite buf) s = exec (TCPServerStream_write env buf) s"
| "TCPServerStream_event env SsDestroy s = exec (TCPServerStream_destroy env) s"

abbreviation ss_own :: "server_stream \<Rightarrow> bool" where
  "ss_own s \<equiv> owns (ss_fd s) (io_trace s)"

lemma ss_cleanup_own [keeps_intros]: "keeps ss_own (TCPServerStream_cleanup env)"
proof (rule keepsI)
  fix s assume "ss_own s"
  then show "after (TCPServerStream_cleanup env) (\<lambda>_. ss_own) s"
    by (cases "ss_fd s = -1") (simp_all add: TCPServerStream_cleanup_def after_simps owns_simps)
qed

lemma ss_read_step_own: "keeps ss_own (TCPServerStream_read_step env)"
  unfolding TCPServerStream_read_step_def TCPServerStream_end_def TCPServerStream_receive_def
  by (intro keeps_intros; simp add: owns_simps)

lemma ss_handlers_own [keeps_intros]:
  "keeps ss_own (TCPServerStream_epollOUT env)" "keeps ss_own TCPServerStream_epollERR"
  "keeps ss_own (TCPServerStream_epollHUP env)" "keeps ss_own (TCPServerStream_epollEvent env evs)"
  "keeps ss_own (TCPServerStream_write env buf)" "keeps ss_own (TCPServerStream_destroy env)"
  unfolding TCPServerStream_epollOUT_def TCPServerStream_epollERR_def TCPServerStream_epollHUP_def
    TCPServerStream_epollEvent_def TCPServerStream_write_def TCPServerStream_destroy_def
    Writeable_writeable_def socket_check_def
  by (intro keeps_intros; simp add: owns_simps)+

lemma ss_event_own: "ss_own s \<Longrightarrow> TCPServerStream_event env e s = Some t \<Longrightarrow> ss_own t"
proof (cases e)
  case SsIn
  assume "ss_own s" "TCPServerStream_event env e s = Some t"
  with SsIn show ?thesis
    by (auto simp: TCPServerStream_epollIN_def intro: loop_until_keeps [OF _ ss_read_step_own])
qed (auto elim!: exec_keeps intro!: keeps_intros)

interpretation ss: descriptor_owner "TCPServerStream_event env" ss_fd io_trace
  by unfold_locales (rule ss_event_own)

section \<open>The server\<close>

record tcp_server = io +
  sv_name :: string
  sv_addr :: sock_addr
  sv_address :: string
  sv_itf_name :: string
  sv_fd :: int
  sv_group :: bool
  sv_stat_period :: int
  sv_stat_tags :: "(string \<times> string) list"

definition TcpServer_new :: "string \<Rightarrow> tcp_server" where
  "TcpServer_new name =
     \<lparr>io_trace = [], io_handler = False, io_exists = True, io_fault = False, sv_name = name, sv_addr = None,
      sv_address = [], sv_itf_name = [], sv_fd = -1, sv_group = False, sv_stat_period = 1000000000, sv_stat_tags = []\<rparr>"

definition TcpServer_listen_socket :: "env \<Rightarrow> (tcp_server, error_c) state" where
  "TcpServer_listen_socket env =
     do { fd \<leftarrow> gets sv_fd;
          e \<leftarrow> call env (Listen fd 5) ''listen'';
          (if failed e
           then do { sys env (Close fd); modify (\<lambda>s. s\<lparr>sv_fd := -1\<rparr>); State_Monad.return e }
           else poll_add env fd EPOLLIN) }"

definition TcpServer_create_socket :: "env \<Rightarrow> bool \<Rightarrow> (tcp_server, error_c) state" where
  "TcpServer_create_socket env listen =
     do { s \<leftarrow> gets id;
          whenM (sv_fd s \<noteq> -1) (do {
            poll_del env (sv_fd s);
            sys env (Close (sv_fd s));
            State_Monad.return () });
          r \<leftarrow> sys env (Socket (sa_family (sv_addr s)) SOCK_STREAM);
          modify (\<lambda>s. s\<lparr>sv_fd := rp_ret r\<rparr>);
          (if rp_ret r = -1 then State_Monad.return (errno_c (rp_errno r) ''tcp server socket'')
           else do {
             e \<leftarrow> sa_bind env (sv_addr s) (rp_ret r);
             (if failed e
              then do { sys env (Close (rp_ret r)); modify (\<lambda>s. s\<lparr>sv_fd := -1\<rparr>); State_Monad.return e }
              else if listen then TcpServer_listen_socket env
              else State_Monad.return no_error) }) }"

definition TcpServer_rearm :: "env \<Rightarrow> error_c \<Rightarrow> string \<Rightarrow> (tcp_server, unit) state" where
  "TcpServer_rearm env e ctx =
     do { b \<leftarrow> on_error env e ctx;
          alive \<leftarrow> gets io_exists;
          whenM (b \<and> alive) (do { svc env (TimerOneshot 3000000000); State_Monad.return () }) }"

definition TcpServer_create_service :: "netlib \<Rightarrow> env \<Rightarrow> (tcp_server, unit) state" where
  "TcpServer_create_service nl env =
     do { e \<leftarrow> TcpServer_create_socket env False;
          (if failed e then TcpServer_rearm env e []
           else do {
             s \<leftarrow> gets id;
             me \<leftarrow> sa_of_fd env (sv_fd s);
             e2 \<leftarrow> group_call env (GroupAdd (sv_name s) (sa_family me) (service_itf nl (sv_itf_name s)) (sa_port me) [])
                     ''avahi_entry_group_add_service'';
             b \<leftarrow> on_error env e2 (''Error adding service '' @ sv_name s);
             e3 \<leftarrow> (if b then group_call env GroupReset ''avahi_entry_group_commit''
                    else group_call env GroupCommit ''avahi_entry_group_commit'');
             TcpServer_rearm env e3 [] }) }"

text \<open>\<open>create_prim\<close> looks the address up among the services of the type that is the number of the
  address family, and announces the service before the socket listens.\<close>

definition TcpServer_create_prim :: "netlib \<Rightarrow> env \<Rightarrow> (tcp_server, error_c) state" where
  "TcpServer_create_prim nl env =
     do { z \<leftarrow> svc env HasZeroconf;
          (if rp_ret z = 0 then TcpServer_create_socket env True
           else do {
             s \<leftarrow> gets id;
             taken \<leftarrow> (if sa_port (sv_addr s) \<noteq> 0
                      then do {
                        q \<leftarrow> svc env (QueryServiceName (sv_addr s) (family_code (sa_family (sv_addr s))));
                        State_Monad.return (rp_name q \<noteq> []) }
                      else State_Monad.return False);
             (if taken then State_Monad.return (errno_c EADDRINUSE ''register service'')
              else if sv_group s
              then do { TcpServer_create_service nl env; State_Monad.return no_error }
              else do {
                svc env GroupNew;
                modify (\<lambda>s. s\<lparr>sv_group := True\<rparr>);
                svc env GroupCreate;
                State_Monad.return no_error }) }) }"

definition TcpServer_create :: "netlib \<Rightarrow> env \<Rightarrow> (tcp_server, unit) state" where
  "TcpServer_create nl env =
     do { e \<leftarrow> TcpServer_create_prim nl env; TcpServer_rearm env e ''create TCP server'' }"

text \<open>The handlers of the service group.\<close>

definition TcpServer_on_collision :: "env \<Rightarrow> (tcp_server, unit) state" where
  "TcpServer_on_collision env =
     do { svc env GroupReset; svc env (TimerOneshot 3000000000); State_Monad.return () }"

definition TcpServer_on_established :: "env \<Rightarrow> (tcp_server, unit) state" where
  "TcpServer_on_established env =
     do { e \<leftarrow> TcpServer_listen_socket env; TcpServer_rearm env e ''listen'' }"

definition TcpServer_on_group_failure :: "env \<Rightarrow> error_c \<Rightarrow> (tcp_server, unit) state" where
  "TcpServer_on_group_failure env ec =
     do { on_error env ec ''Group failure'';
          alive \<leftarrow> gets io_exists;
          whenM alive (do {
            svc env GroupDrop;
            modify (\<lambda>s. s\<lparr>sv_group := False\<rparr>);
            svc env (TimerOneshot 3000000000);
            State_Monad.return () }) }"

text \<open>\<open>init\<close>: an address that is no literal goes to the resolver.\<close>

definition TcpServer_init :: "netlib \<Rightarrow> env \<Rightarrow> u16 \<Rightarrow> family \<Rightarrow> (tcp_server, error_c) state" where
  "TcpServer_init nl env p f =
     do { s \<leftarrow> gets id;
          (case (if sv_address s = [] then (no_error, sv_addr s) else sa_init_str nl (sv_address s) p (sv_addr s)) of
             (e, a) \<Rightarrow> do {
               modify (\<lambda>s. s\<lparr>sv_addr := a\<rparr>);
               (if failed e
                then svc_call env (ResolverInit (sv_address s) p f SOCK_STREAM 6 1) ''address_resolving''
                else do {
                  modify (\<lambda>s. s\<lparr>sv_addr := (if sa_len (sv_addr s) = 0 then sa_any f p else sa_set_port p (sv_addr s))\<rparr>);
                  TcpServer_create nl env;
                  State_Monad.return no_error }) }) }"

text \<open>The resolver's answer: an empty list or a single address is given up for any address.\<close>

definition TcpServer_on_resolved ::
    "netlib \<Rightarrow> env \<Rightarrow> u16 \<Rightarrow> family \<Rightarrow> sock_addr list \<Rightarrow> (tcp_server, unit) state" where
  "TcpServer_on_resolved nl env p f addrs =
     do { (case addrs of
             a # _ # _ \<Rightarrow>
               do { s \<leftarrow> gets id;
                    (case sa_assign a (sv_addr s) of
                       None \<Rightarrow> fault
                     | Some b \<Rightarrow> modify (\<lambda>s. s\<lparr>sv_addr := b\<rparr>)) }
           | _ \<Rightarrow> modify (\<lambda>s. s\<lparr>sv_addr := sa_any f p\<rparr>));
          TcpServer_create nl env }"

definition TcpServer_set_address :: "string \<Rightarrow> (tcp_server, unit) state" where
  "TcpServer_set_address a = modify (\<lambda>s. s\<lparr>sv_address := a\<rparr>)"

definition TcpServer_set_interface :: "netlib \<Rightarrow> string \<Rightarrow> family \<Rightarrow> (tcp_server, unit) state" where
  "TcpServer_set_interface nl itf f =
     do { modify (\<lambda>s. s\<lparr>sv_itf_name := itf\<rparr>);
          (case sl_interface nl itf 0 f of
             (e, as) \<Rightarrow>
               if failed e then modify (\<lambda>s. s\<lparr>sv_addr := sa_any f 0\<rparr>)
               else (case as of
                       [a] \<Rightarrow>
                         do { s \<leftarrow> gets id;
                              (case sa_assign a (sv_addr s) of
                                 None \<Rightarrow> fault
                               | Some b \<Rightarrow> modify (\<lambda>s. s\<lparr>sv_addr := b\<rparr>)) }
                     | _ \<Rightarrow> modify (\<lambda>s. s\<lparr>sv_addr := sa_any f 0\<rparr>))) }"

definition default_inet :: "family \<Rightarrow> family" where
  "default_inet f = (if f = AF_UNSPEC then AF_INET else f)"

definition TcpServer_init_yaml ::
    "netlib \<Rightarrow> env \<Rightarrow> (string \<Rightarrow> int option) \<Rightarrow> yaml \<Rightarrow> (tcp_server, error_c res) state" where
  "TcpServer_init_yaml nl env as_int cfg =
     do { s \<leftarrow> gets id;
          (case yaml_stat cfg (sv_stat_period s, sv_stat_tags s) of
             Inl x \<Rightarrow> State_Monad.return (Inl x)
           | Inr (period, tags) \<Rightarrow> do {
               modify (\<lambda>s. s\<lparr>sv_stat_period := period, sv_stat_tags := tags\<rparr>);
               (case bind_res (yaml_at ''family'' cfg) address_family of
                  Inl x \<Rightarrow> State_Monad.return (Inl x)
                | Inr f0 \<Rightarrow>
                    (case opt_string ''interface'' cfg of
                       Inl x \<Rightarrow> State_Monad.return (Inl x)
                     | Inr itf \<Rightarrow> do {
                         whenM (itf \<noteq> []) (TcpServer_set_interface nl itf (default_inet f0));
                         (case opt_string ''address'' cfg of
                            Inl x \<Rightarrow> State_Monad.return (Inl x)
                          | Inr addr \<Rightarrow> do {
                              whenM (addr \<noteq> []) (TcpServer_set_address addr);
                              (case bind_res (yaml_at ''port'' cfg)
                                      (\<lambda>y. if is_defined y then as_number as_int y else Inr 0) of
                                 Inl x \<Rightarrow> State_Monad.return (Inl x)
                               | Inr p \<Rightarrow> do {
                                   e \<leftarrow> TcpServer_init nl env (of_int p) (default_inet f0);
                                   State_Monad.return (Inr e) }) }) })) }) }"

text \<open>One round of \<open>epollIN\<close>: a client is accepted and prepared, and handed to its stream.\<close>

definition TcpServer_refuse :: "env \<Rightarrow> int \<Rightarrow> error_c \<Rightarrow> string \<Rightarrow> (tcp_server, handled option) state" where
  "TcpServer_refuse env client e ctx =
     do { on_error env e ctx;
          sys env (Close client);
          alive \<leftarrow> gets io_exists;
          State_Monad.return (Some (if alive then HANDLED else STOP)) }"

definition TcpServer_hand_over :: "netlib \<Rightarrow> env \<Rightarrow> int \<Rightarrow> sock_addr \<Rightarrow> (tcp_server, handled option) state" where
  "TcpServer_hand_over nl env client addr =
     do { z \<leftarrow> svc env HasZeroconf;
          found \<leftarrow> (if rp_ret z \<noteq> 0
                   then do { n \<leftarrow> svc env (QueryServiceName addr SOCK_STREAM); State_Monad.return (rp_name n) }
                   else State_Monad.return []);
          let name = (if found = [] then sa_format nl REG_SERVICE [] addr else found) in do {
            svc env (NewStream client name);
            callback env (OnConnect name);
            State_Monad.return None } }"

definition TcpServer_prepare :: "netlib \<Rightarrow> env \<Rightarrow> int \<Rightarrow> sock_addr \<Rightarrow> (tcp_server, handled option) state" where
  "TcpServer_prepare nl env client addr =
     do { e \<leftarrow> call env (SetSockOpt client KeepAlive) ''keepalive'';
          (if failed e then TcpServer_refuse env client e []
           else do {
             g \<leftarrow> sys env (FcntlGet client);
             (if rp_ret g = -1 then TcpServer_refuse env client (errno_c (rp_errno g) ''fcntl getfl'') []
              else do {
                q \<leftarrow> sys env (FcntlSet client (rp_ret g));
                (if rp_ret q \<noteq> 0 then TcpServer_refuse env client (errno_c (rp_ret q) []) ''fcntl setfl''
                 else TcpServer_hand_over nl env client addr) }) }) }"

definition TcpServer_accept_step :: "netlib \<Rightarrow> env \<Rightarrow> (tcp_server, handled option) state" where
  "TcpServer_accept_step nl env =
     do { fd \<leftarrow> gets sv_fd;
          r \<leftarrow> sys env (Accept fd);
          (if rp_ret r = -1
           then (if rp_errno r \<noteq> EAGAIN
                 then do {
                   on_error env (errno_c (rp_errno r) ''accept'') [];
                   alive \<leftarrow> gets io_exists;
                   State_Monad.return (Some (if alive then HANDLED else STOP)) }
                 else State_Monad.return (Some HANDLED))
           else TcpServer_prepare nl env (rp_ret r) (rp_addr r)) }"

definition TcpServer_epollIN :: "netlib \<Rightarrow> env \<Rightarrow> tcp_server \<Rightarrow> (handled \<times> tcp_server) option" where
  "TcpServer_epollIN nl env s =
     (case run_state (do { fd \<leftarrow> gets sv_fd; e \<leftarrow> socket_check env fd; on_error env e [] }) s of
        (True, t) \<Rightarrow> Some (if io_exists t then HANDLED else STOP, t)
      | (False, t) \<Rightarrow> loop_until (TcpServer_accept_step nl env) t)"

definition TcpServer_epollERR :: "env \<Rightarrow> (tcp_server, handled) state" where
  "TcpServer_epollERR env =
     do { fd \<leftarrow> gets sv_fd;
          e \<leftarrow> socket_check env fd;
          on_error env e ''sock error'';
          alive \<leftarrow> gets io_exists;
          State_Monad.return (if alive then HANDLED else STOP) }"

definition TcpServer_cleanup :: "env \<Rightarrow> (tcp_server, unit) state" where
  "TcpServer_cleanup env =
     do { fd \<leftarrow> gets sv_fd;
          whenM (fd \<noteq> -1) (do { sys env (Close fd); modify (\<lambda>s. s\<lparr>sv_fd := -1\<rparr>) }) }"

definition TcpServer_destroy :: "env \<Rightarrow> (tcp_server, unit) state" where
  "TcpServer_destroy env = do { modify (\<lambda>s. s\<lparr>io_exists := False\<rparr>); TcpServer_cleanup env }"

datatype tcp_server_event =
    SvIn | SvErr | SvTimer | SvResolved u16 family "sock_addr list"
  | SvGroupCreate | SvGroupCollision | SvGroupEstablished | SvGroupFailure error_c | SvCleanup | SvDestroy

fun TcpServer_event :: "netlib \<Rightarrow> env \<Rightarrow> tcp_server_event \<Rightarrow> tcp_server \<Rightarrow> tcp_server option" where
  "TcpServer_event nl env SvIn s = map_option snd (TcpServer_epollIN nl env s)"
| "TcpServer_event nl env SvErr s = exec (TcpServer_epollERR env) s"
| "TcpServer_event nl env SvTimer s = exec (TcpServer_create nl env) s"
| "TcpServer_event nl env (SvResolved p f as) s = exec (TcpServer_on_resolved nl env p f as) s"
| "TcpServer_event nl env SvGroupCreate s = exec (TcpServer_create_service nl env) s"
| "TcpServer_event nl env SvGroupCollision s = exec (TcpServer_on_collision env) s"
| "TcpServer_event nl env SvGroupEstablished s = exec (TcpServer_on_established env) s"
| "TcpServer_event nl env (SvGroupFailure ec) s = exec (TcpServer_on_group_failure env ec) s"
| "TcpServer_event nl env SvCleanup s = exec (TcpServer_cleanup env) s"
| "TcpServer_event nl env SvDestroy s = exec (TcpServer_destroy env) s"

abbreviation sv_own :: "tcp_server \<Rightarrow> bool" where
  "sv_own s \<equiv> owns (sv_fd s) (io_trace s)"

abbreviation sv_own_client :: "int \<Rightarrow> tcp_server \<Rightarrow> bool" where
  "sv_own_client c s \<equiv> owns_also c (sv_fd s) (io_trace s)"

lemma sv_listen_own [keeps_intros]: "keeps sv_own (TcpServer_listen_socket env)"
proof (rule keepsI)
  fix s assume "sv_own s"
  then show "after (TcpServer_listen_socket env) (\<lambda>_. sv_own) s"
    by (cases "sv_fd s = -1") (simp_all add: TcpServer_listen_socket_def after_simps after_poll owns_simps)
qed

lemma sv_cleanup_own [keeps_intros]: "keeps sv_own (TcpServer_cleanup env)"
proof (rule keepsI)
  fix s assume "sv_own s"
  then show "after (TcpServer_cleanup env) (\<lambda>_. sv_own) s"
    by (cases "sv_fd s = -1") (simp_all add: TcpServer_cleanup_def after_simps owns_simps)
qed

lemma sv_socket_own [keeps_intros]: "keeps sv_own (TcpServer_create_socket env listen)"
proof (rule keepsI)
  have l: "after (TcpServer_listen_socket env) (\<lambda>_. sv_own) u" if "sv_own u" for u
    using sv_listen_own [of env] that by (simp add: keeps_def)
  fix s assume "sv_own s"
  then show "after (TcpServer_create_socket env listen) (\<lambda>_. sv_own) s"
    by (cases "sv_fd s = -1")
       (auto simp: TcpServer_create_socket_def after_simps after_poll owns_simps intro!: l)
qed

lemma sv_rearm_own [keeps_intros]: "keeps sv_own (TcpServer_rearm env e ctx)"
  unfolding TcpServer_rearm_def by (intro keeps_intros; simp add: owns_simps)

lemma sv_service_own [keeps_intros]: "keeps sv_own (TcpServer_create_service nl env)"
  unfolding TcpServer_create_service_def by (intro keeps_intros; simp add: owns_simps)

lemma sv_create_own [keeps_intros]: "keeps sv_own (TcpServer_create nl env)"
  unfolding TcpServer_create_def TcpServer_create_prim_def
  by (intro keeps_intros; simp add: owns_simps)

lemma sv_check_own [keeps_intros]: "keeps sv_own (socket_check env fd)"
  unfolding socket_check_def by (intro keeps_intros; simp add: owns_simps)

lemmas tcp_server_handlers = TcpServer_epollERR_def TcpServer_on_resolved_def TcpServer_on_collision_def
  TcpServer_on_established_def TcpServer_on_group_failure_def TcpServer_destroy_def

lemma sv_refuse_own: "leads (sv_own_client c) sv_own (TcpServer_refuse env c e ctx)"
  by (rule leadsI) (simp add: TcpServer_refuse_def after_simps owns_simps report_action_def)

lemma sv_hand_over_own: "leads (sv_own_client c) sv_own (TcpServer_hand_over nl env c a)"
  unfolding TcpServer_hand_over_def Let_def
  by (intro leads_first leads_last keeps_intros leadsI; simp add: after_simps owns_simps)

lemma sv_prepare_own: "leads (sv_own_client c) sv_own (TcpServer_prepare nl env c a)"
  unfolding TcpServer_prepare_def
  by (intro leads_first leads_if sv_refuse_own sv_hand_over_own keeps_intros; simp add: owns_simps)

lemma sv_accept_own: "keeps sv_own (TcpServer_accept_step nl env)"
proof (rule keepsI)
  fix s assume "sv_own s"
  then show "after (TcpServer_accept_step nl env) (\<lambda>_. sv_own) s"
    using sv_prepare_own [of _ nl env]
    by (auto simp: TcpServer_accept_step_def after_simps owns_simps report_action_def leads_def)
qed

lemma sv_event_own: "sv_own s \<Longrightarrow> TcpServer_event nl env e s = Some t \<Longrightarrow> sv_own t"
proof (cases e)
  case SvIn
  assume own: "sv_own s" "TcpServer_event nl env e s = Some t"
  obtain b u where q: "run_state (do { fd \<leftarrow> gets sv_fd; e \<leftarrow> socket_check env fd; on_error env e [] }) s = (b, u)"
    by fastforce
  have "keeps sv_own (do { fd \<leftarrow> gets sv_fd; e \<leftarrow> socket_check env fd; on_error env e [] })"
    by (intro keeps_intros; simp add: owns_simps)
  from keepsD [OF this own(1) q] own(2) SvIn q show ?thesis
    by (cases b) (auto simp: TcpServer_epollIN_def intro: loop_until_keeps [OF _ sv_accept_own])
qed (auto elim!: exec_keeps simp: tcp_server_handlers owns_simps intro!: keeps_intros split: list.split option.split)

interpretation sv: descriptor_owner "TcpServer_event nl env" sv_fd io_trace
  by unfold_locales (rule sv_event_own)

section \<open>Properties\<close>

text \<open>C23: The server closes only descriptors it has, none twice, and holds exactly the listening
  socket it stores: every accepted client was either handed to a stream or closed, on every
  error path.\<close>

theorem tcp_server_descriptors:
  "case run_events (TcpServer_event nl env) events (TcpServer_new name) of
     None \<Rightarrow> True
   | Some s \<Rightarrow> closes_held (io_trace s) \<and> held (io_trace s) = (if sv_fd s = -1 then {#} else {#sv_fd s#})"
proof -
  have "owns (sv_fd (TcpServer_new name)) (io_trace (TcpServer_new name))"
    by (simp add: TcpServer_new_def)
  then show ?thesis by (auto split: option.split dest: sv.run_owns)
qed

text \<open>The kernel can always tell how much there is to read from a socket.\<close>

definition fionread_works :: "env \<Rightarrow> bool" where
  "fionread_works env \<longleftrightarrow> (\<forall>tr fd. rp_ret (env tr (Sys (Fionread fd))) = 0)"

text \<open>While the size of what can be read is known, a round only ends the loop when there is
  nothing, and then the stream is closed, or because the object is gone.\<close>

abbreviation closed_result :: "handled option \<Rightarrow> server_stream \<Rightarrow> bool" where
  "closed_result x t \<equiv> (case x of None \<Rightarrow> True | Some r \<Rightarrow> r = STOP \<and> (ss_fd t = -1 \<or> \<not> io_exists t))"

lemma end_closes: "after (TCPServerStream_end env fd) closed_result s"
  by (simp add: TCPServerStream_end_def TCPServerStream_cleanup_def after_simps after_poll)

lemma receive_closes: "after (TCPServerStream_receive env fd sz) closed_result s"
  by (simp add: TCPServerStream_receive_def after_simps)

lemma read_step_closes:
  assumes "fionread_works env"
  shows "after (TCPServerStream_read_step env) closed_result s"
proof -
  have ok: "rp_ret (env tr (Sys (Fionread fd))) = 0" for tr fd
    using assms by (simp add: fionread_works_def)
  show ?thesis
    by (simp add: TCPServerStream_read_step_def after_simps ok end_closes receive_closes)
qed

text \<open>C24: As long as the kernel can tell how much there is to read, no stream outlives a readable
  event: \<open>epollIN\<close> reads until the socket is drained, takes that for the end of the
  connection, closes it and tells the user so, whether or not the peer has hung up.\<close>

theorem tcp_stream_never_survives_read:
  assumes "fionread_works env"
    and "TCPServerStream_epollIN env s = Some (h, t)"
  shows "h = STOP \<and> (ss_fd t = -1 \<or> \<not> io_exists t)"
proof -
  have "(\<lambda>(r, t). r = STOP \<and> (ss_fd t = -1 \<or> \<not> io_exists t)) (h, t)"
    by (rule loop_until_invariant [OF assms(2) [unfolded TCPServerStream_epollIN_def], where I = "\<lambda>_. True"])
       (auto intro: after_mono [OF read_step_closes [OF assms(1)]] split: option.splits)
  then show ?thesis by simp
qed

lemma demo_env_simps [simp]:
  "demo_env tr (Svc c) = reply_ok" "demo_env tr (Up u) = reply_ok" "demo_env tr (Sys (Close fd)) = reply_ok"
  "demo_env tr (Sys (Fionread fd)) =
     reply_ok\<lparr>rp_size := (if \<exists>r \<in> set tr. fst r = Sys (Recv 5 3) then 0 else 3)\<rparr>"
  "demo_env tr (Sys (Recv fd n)) = reply_ok\<lparr>rp_ret := 3, rp_data := [1, 2, 3]\<rparr>"
  by (simp_all add: demo_env_def)

lemma demo_stream_reads:
  "\<exists>h t. TCPServerStream_epollIN demo_env (ss_initial ''peer'' 5) = Some (h, t)"
  by (simp add: TCPServerStream_epollIN_def loop_until_step [of _ "ss_initial ''peer'' 5"] ss_initial_def
        TCPServerStream_read_step_def TCPServerStream_end_def TCPServerStream_receive_def ask_def sys_def svc_def gets_def modify_def callback_def to_errno_c_def
        failed_def no_error_def reply_ok_def)
     (simp add: loop_until_step TCPServerStream_read_step_def TCPServerStream_end_def TCPServerStream_receive_def ask_def sys_def svc_def gets_def modify_def
        callback_def to_errno_c_def failed_def no_error_def reply_ok_def on_error_def on_error_ctx_def
        TCPServerStream_cleanup_def whenM_def poll_del_def svc_call_def)

theorem tcp_stream_never_survives_read_witness:
  "\<exists>t. TCPServerStream_epollIN demo_env (ss_initial ''peer'' 5) = Some (STOP, t) \<and>
     \<not> (ss_fd t \<noteq> -1 \<and> io_exists t)"
proof -
  obtain h t where r: "TCPServerStream_epollIN demo_env (ss_initial ''peer'' 5) = Some (h, t)"
    using demo_stream_reads by auto
  have "fionread_works demo_env" by (simp add: fionread_works_def reply_ok_def)
  from tcp_stream_never_survives_read [OF this r] r show ?thesis by auto
qed

end
