(* ===== verification/Timers.thy ===== *)
theory Timers
  imports Descriptors
begin

text \<open>
  The objects with a descriptor of their own that the others use: timers (\<open>src/impl/timer.h\<close>)
  and signal handlers (\<open>src/impl/signal.h\<close>).
\<close>

section \<open>Timers\<close>

record timer = io +
  ti_clock :: int
  ti_fd :: int
  ti_shoots :: bool                      \<comment> \<open>a handler is set\<close>

definition CLOCK_MONOTONIC :: int where
  "CLOCK_MONOTONIC = 1"

definition Timer_new :: timer where
  "Timer_new = \<lparr>io_trace = [], io_handler = False, io_exists = True, io_fault = False,
     ti_clock = CLOCK_MONOTONIC, ti_fd = -1, ti_shoots = False\<rparr>"

text \<open>Seconds and nanoseconds; division truncates.\<close>

definition timespec :: "int \<Rightarrow> int \<times> int" where
  "timespec n = (sgn n * (\<bar>n\<bar> div 1000000000), sgn n * (\<bar>n\<bar> mod 1000000000))"

definition Timer_arm :: "env \<Rightarrow> int \<times> int \<Rightarrow> int \<times> int \<Rightarrow> int \<Rightarrow> (timer, error_c) state" where
  "Timer_arm env value interval flags =
     do { s \<leftarrow> gets id;
          failure \<leftarrow>
            (if ti_fd s \<noteq> -1 then State_Monad.return None
             else do {
               r \<leftarrow> sys env (TimerfdCreate (ti_clock s));
               modify (\<lambda>s. s\<lparr>ti_fd := rp_ret r\<rparr>);
               (if rp_ret r = -1 then State_Monad.return (Some (errno_c (rp_errno r) ''timerfd_create''))
                else do {
                  e \<leftarrow> poll_add env (rp_ret r) EPOLLIN;
                  (if failed e
                   then do {
                     sys env (Close (rp_ret r));
                     modify (\<lambda>s. s\<lparr>ti_fd := -1\<rparr>);
                     State_Monad.return (Some (add_context ''loop add'' e)) }
                   else State_Monad.return None) }) });
          (case failure of
             Some e \<Rightarrow> State_Monad.return e
           | None \<Rightarrow> do {
               fd \<leftarrow> gets ti_fd;
               e \<leftarrow> call env (TimerfdSettime fd value interval flags) [];
               State_Monad.return (if failed e then add_context ''timerfd_settime'' e else e) }) }"

definition Timer_arm_periodic :: "env \<Rightarrow> int \<Rightarrow> (timer, error_c) state" where
  "Timer_arm_periodic env timeout = Timer_arm env (timespec timeout) (timespec timeout) 0"

definition Timer_arm_oneshoot :: "env \<Rightarrow> int \<Rightarrow> (timer, error_c) state" where
  "Timer_arm_oneshoot env timeout = Timer_arm env (timespec timeout) (0, 0) 0"

definition Timer_clockid :: "int \<Rightarrow> (timer, unit) state" where
  "Timer_clockid i = modify (\<lambda>s. s\<lparr>ti_clock := i\<rparr>)"

definition Timer_shoot :: "(timer, unit) state" where
  "Timer_shoot = modify (\<lambda>s. s\<lparr>ti_shoots := True\<rparr>)"

definition Timer_epollIN :: "env \<Rightarrow> (timer, handled) state" where
  "Timer_epollIN env =
     do { s \<leftarrow> gets id;
          r \<leftarrow> sys env (ReadFd (ti_fd s) 8);
          (if rp_ret r = 8
           then whenM (ti_shoots s) (callback env OnShoot)
           else do { on_error env (errno_c (rp_errno r) []) ''Wrong timerfd read''; State_Monad.return () });
          State_Monad.return HANDLED }"

definition Timer_cleanup :: "env \<Rightarrow> (timer, unit) state" where
  "Timer_cleanup env =
     do { fd \<leftarrow> gets ti_fd;
          whenM (fd \<noteq> -1) (do { sys env (Close fd); modify (\<lambda>s. s\<lparr>ti_fd := -1\<rparr>) }) }"

definition Timer_stop :: "env \<Rightarrow> (timer, unit) state" where
  "Timer_stop env =
     do { fd \<leftarrow> gets ti_fd;
          whenM (fd \<noteq> -1) (do { poll_del env fd; Timer_cleanup env }) }"

definition Timer_armed :: "timer \<Rightarrow> bool" where
  "Timer_armed s \<longleftrightarrow> ti_fd s \<noteq> -1"

datatype timer_event = TiPeriodic int | TiOneshoot int | TiClock int | TiShoot | TiIn | TiStop | TiCleanup

fun Timer_event :: "env \<Rightarrow> timer_event \<Rightarrow> timer \<Rightarrow> timer option" where
  "Timer_event env (TiPeriodic n) s = exec (Timer_arm_periodic env n) s"
| "Timer_event env (TiOneshoot n) s = exec (Timer_arm_oneshoot env n) s"
| "Timer_event env (TiClock i) s = exec (Timer_clockid i) s"
| "Timer_event env TiShoot s = exec Timer_shoot s"
| "Timer_event env TiIn s = exec (Timer_epollIN env) s"
| "Timer_event env TiStop s = exec (Timer_stop env) s"
| "Timer_event env TiCleanup s = exec (Timer_cleanup env) s"

abbreviation ti_own :: "timer \<Rightarrow> bool" where
  "ti_own s \<equiv> owns (ti_fd s) (io_trace s)"

lemma ti_cleanup_own [keeps_intros]: "keeps ti_own (Timer_cleanup env)"
proof (rule keepsI)
  fix s assume "ti_own s"
  then show "after (Timer_cleanup env) (\<lambda>_. ti_own) s"
    by (cases "ti_fd s = -1") (simp_all add: Timer_cleanup_def after_simps owns_simps)
qed

lemma ti_arm_own [keeps_intros]: "keeps ti_own (Timer_arm env v i f)"
proof (rule keepsI)
  fix s assume "ti_own s"
  then show "after (Timer_arm env v i f) (\<lambda>_. ti_own) s"
    by (cases "ti_fd s = -1") (simp_all add: Timer_arm_def after_simps after_poll owns_simps)
qed

lemma ti_event_own: "ti_own s \<Longrightarrow> Timer_event env e s = Some t \<Longrightarrow> ti_own t"
  by (cases e)
     (auto elim!: exec_keeps simp: owns_simps Timer_arm_periodic_def Timer_arm_oneshoot_def Timer_clockid_def
        Timer_shoot_def Timer_epollIN_def Timer_stop_def intro!: keeps_intros)

interpretation ti: descriptor_owner "Timer_event env" ti_fd io_trace
  by unfold_locales (rule ti_event_own)

section \<open>Signal handlers\<close>

record signal_handler = io +
  si_mask :: "int list"
  si_fd :: int
  si_handler :: bool

definition Signal_new :: signal_handler where
  "Signal_new = \<lparr>io_trace = [], io_handler = False, io_exists = True, io_fault = False,
     si_mask = [], si_fd = -1, si_handler = False\<rparr>"

definition Signal_cleanup :: "env \<Rightarrow> (signal_handler, unit) state" where
  "Signal_cleanup env =
     do { fd \<leftarrow> gets si_fd;
          whenM (fd \<noteq> -1) (do { sys env (Close fd); modify (\<lambda>s. s\<lparr>si_fd := -1\<rparr>) }) }"

definition Signal_destroy :: "env \<Rightarrow> (signal_handler, unit) state" where
  "Signal_destroy env =
     do { fd \<leftarrow> gets si_fd;
          whenM (fd \<noteq> -1) (do { poll_del env fd; Signal_cleanup env }) }"

definition Signal_init :: "env \<Rightarrow> int list \<Rightarrow> (signal_handler, error_c) state" where
  "Signal_init env signals =
     do { modify (\<lambda>s. s\<lparr>si_mask := signals, si_handler := True\<rparr>);
          e \<leftarrow> call env (SigProcMask signals) ''sigprocmask'';
          (if failed e then State_Monad.return e
           else do {
             r \<leftarrow> sys env (SignalFd signals);
             modify (\<lambda>s. s\<lparr>si_fd := rp_ret r\<rparr>);
             (if rp_ret r = -1 then State_Monad.return (errno_c (rp_errno r) ''signal_fd'')
              else do {
                p \<leftarrow> poll_add env (rp_ret r) EPOLLIN;
                State_Monad.return (if failed p then add_context ''loop add'' p else p) }) }) }"

text \<open>One round of \<open>epollIN\<close>. The user's handler says whether it is done; an object that the
  handler destroyed and that reads on does something undefined.\<close>

definition sizeof_siginfo :: int where
  "sizeof_siginfo = 128"

definition Signal_read_step :: "env \<Rightarrow> (signal_handler, handled option) state" where
  "Signal_read_step env =
     do { s \<leftarrow> gets id;
          r \<leftarrow> sys env (ReadFd (si_fd s) (nat sizeof_siginfo));
          (if rp_ret r = -1
           then do {
             (if rp_errno r = EAGAIN then State_Monad.return ()
              else do { on_error env (errno_c (rp_errno r) ''signal read'') []; State_Monad.return () });
             State_Monad.return (Some HANDLED) }
           else if rp_ret r \<noteq> sizeof_siginfo then State_Monad.return (Some HANDLED)
           else if \<not> si_handler s then State_Monad.return None
           else do {
             u \<leftarrow> ask_user env (OnSignal (rp_data r));
             (if rp_ret u \<noteq> 0 then State_Monad.return (Some HANDLED)
              else do { whenM (rp_gone u) fault; State_Monad.return None }) }) }"

definition Signal_epollIN :: "env \<Rightarrow> signal_handler \<Rightarrow> (handled \<times> signal_handler) option" where
  "Signal_epollIN env = loop_until (Signal_read_step env)"

text \<open>\<open>IOLoopImpl::handle_CtrlC\<close> listens to the two signals that end the program.\<close>

definition SIGINT :: int where "SIGINT = 2"
definition SIGTERM :: int where "SIGTERM = 15"

definition handle_CtrlC :: "env \<Rightarrow> (signal_handler, error_c) state" where
  "handle_CtrlC env = Signal_init env [SIGINT, SIGTERM]"

datatype signal_event = SiIn | SiCleanup | SiDestroy

fun Signal_event :: "env \<Rightarrow> signal_event \<Rightarrow> signal_handler \<Rightarrow> signal_handler option" where
  "Signal_event env SiIn s = map_option snd (Signal_epollIN env s)"
| "Signal_event env SiCleanup s = exec (Signal_cleanup env) s"
| "Signal_event env SiDestroy s = exec (Signal_destroy env) s"

abbreviation si_own :: "signal_handler \<Rightarrow> bool" where
  "si_own s \<equiv> owns (si_fd s) (io_trace s)"

lemma si_cleanup_own [keeps_intros]: "keeps si_own (Signal_cleanup env)"
proof (rule keepsI)
  fix s assume "si_own s"
  then show "after (Signal_cleanup env) (\<lambda>_. si_own) s"
    by (cases "si_fd s = -1") (simp_all add: Signal_cleanup_def after_simps owns_simps)
qed

lemma si_destroy_own [keeps_intros]: "keeps si_own (Signal_destroy env)"
  unfolding Signal_destroy_def by (intro keeps_intros; simp add: owns_simps)

lemma si_init_own: "leads (\<lambda>s. owns (-1) (io_trace s) \<and> si_fd s = -1) si_own (Signal_init env signals)"
  by (rule leadsI) (simp add: Signal_init_def after_simps after_poll owns_simps)

lemma si_read_own: "keeps si_own (Signal_read_step env)"
  unfolding Signal_read_step_def by (intro keeps_intros; simp add: owns_simps)

lemma si_event_own: "si_own s \<Longrightarrow> Signal_event env e s = Some t \<Longrightarrow> si_own t"
  by (cases e)
     (auto elim!: exec_keeps simp: Signal_epollIN_def intro!: keeps_intros
        intro: loop_until_keeps [OF _ si_read_own])

interpretation si: descriptor_owner "Signal_event env" si_fd io_trace
  by unfold_locales (rule si_event_own)

text \<open>A timer that was armed without an error is watched by the loop and set to the time asked for.\<close>

lemma timer_arm_sets:
  assumes "errno_set env"
  shows "after (Timer_arm env v i f)
     (\<lambda>e s. failed e \<or> ti_fd s \<noteq> -1 \<and> fst (hd (io_trace s)) = Sys (TimerfdSettime (ti_fd s) v i f)) s"
proof -
  have e: "rp_errno (env tr a) \<noteq> 0" if "rp_ret (env tr a) = -1" for tr a
    using assms that by (simp add: errno_set_def)
  show ?thesis
    by (cases "ti_fd s = -1") (simp_all add: Timer_arm_def after_simps after_poll e)
qed

end
