(* ===== verification/Address_Resolver.thy ===== *)
theory Address_Resolver
  imports Timers
begin

text \<open>
  The resolver of host names, \<open>src/impl/address.h\<close>: \<open>AddrInfo\<close>, which asks the C library in the
  background and waits for its signal, and \<open>AddressResolverImpl\<close>, which owns one and asks again
  later when it fails. Both are one record here.
\<close>

record resolver = io +
  rs_fd :: int                           \<comment> \<open>\<open>_sfd\<close>\<close>
  rs_hints :: "string \<times> string \<times> int \<times> int \<times> int \<times> int"
  rs_handler :: bool                     \<comment> \<open>\<open>_on_resolve\<close> is set\<close>
  rs_host :: string
  rs_port :: u16
  rs_family :: int
  rs_socktype :: int
  rs_protocol :: int
  rs_flags :: int

definition SIGUSR1 :: int where "SIGUSR1 = 10"
definition SI_ASYNCNL :: int where "SI_ASYNCNL = -60"
definition AI_DEFAULT :: int where "AI_DEFAULT = 0x28"       \<comment> \<open>\<open>AI_V4MAPPED | AI_ADDRCONFIG\<close>\<close>
definition AI_CANONNAME :: int where "AI_CANONNAME = 2"

definition Resolver_new :: resolver where
  "Resolver_new =
     \<lparr>io_trace = [], io_handler = False, io_exists = True, io_fault = False,
      rs_fd = -1, rs_hints = ([], [], 0, 0, 0, AI_DEFAULT), rs_handler = False, rs_host = [], rs_port = 0,
      rs_family = 0, rs_socktype = 0, rs_protocol = 0, rs_flags = AI_DEFAULT + AI_CANONNAME\<rparr>"

section \<open>The query\<close>

definition AddrInfo_cleanup :: "env \<Rightarrow> (resolver, unit) state" where
  "AddrInfo_cleanup env =
     do { fd \<leftarrow> gets rs_fd;
          whenM (fd \<noteq> -1) (do { sys env (Close fd); modify (\<lambda>s. s\<lparr>rs_fd := -1\<rparr>) }) }"

definition AddrInfo_destroy :: "env \<Rightarrow> (resolver, unit) state" where
  "AddrInfo_destroy env =
     do { fd \<leftarrow> gets rs_fd;
          whenM (fd \<noteq> -1) (do { poll_del env fd; State_Monad.return () });
          AddrInfo_cleanup env }"

text \<open>The request itself. When it cannot be made the descriptor is closed and still stored.\<close>

definition AddrInfo_ask :: "env \<Rightarrow> int \<Rightarrow> (resolver, error_c) state" where
  "AddrInfo_ask env fd =
     do { s \<leftarrow> gets id;
          r \<leftarrow> (case rs_hints s of (name, service, fam, st, pr, fl) \<Rightarrow>
                  sys env (GetAddrInfo name service fam st pr fl));
          b \<leftarrow> on_error env (eai_code (rp_ret r) []) ''getaddrinfo'';
          (if b
           then do {
             d \<leftarrow> poll_del env fd;
             on_error env d ''IOLoop del'';
             sys env (Close fd);
             State_Monad.return (add_context ''getaddrinfo'' (eai_code (rp_ret r) [])) }
           else State_Monad.return no_error) }"

definition AddrInfo_listen :: "env \<Rightarrow> (resolver, error_c) state" where
  "AddrInfo_listen env =
     do { e \<leftarrow> call env (SigProcMask [SIGUSR1]) [];
          (if failed e then State_Monad.return (add_context ''sigprocmask'' e)
           else do {
             r \<leftarrow> sys env (SignalFd [SIGUSR1]);
             modify (\<lambda>s. s\<lparr>rs_fd := rp_ret r\<rparr>);
             (if rp_ret r = -1 then State_Monad.return (errno_c (rp_errno r) ''signalfd'')
              else do {
                p \<leftarrow> poll_add env (rp_ret r) EPOLLIN;
                (if failed p
                 then do { sys env (Close (rp_ret r)); State_Monad.return (add_context ''IOLoop add'' p) }
                 else AddrInfo_ask env (rp_ret r)) }) }) }"

definition AddrInfo_init ::
    "env \<Rightarrow> string \<Rightarrow> string \<Rightarrow> int \<Rightarrow> int \<Rightarrow> int \<Rightarrow> int \<Rightarrow> (resolver, error_c) state" where
  "AddrInfo_init env name service fam st pr fl =
     do { AddrInfo_destroy env;
          modify (\<lambda>s. s\<lparr>rs_hints := (name, service, fam, st, pr, fl)\<rparr>);
          AddrInfo_listen env }"

section \<open>The resolver\<close>

definition Resolver_requery :: "env \<Rightarrow> (resolver, error_c) state" where
  "Resolver_requery env =
     do { s \<leftarrow> gets id;
          e \<leftarrow> AddrInfo_init env (rs_host s) (show_nat (unat (rs_port s))) (rs_family s) (rs_socktype s)
                 (rs_protocol s) (rs_flags s);
          b \<leftarrow> on_error env e ''address_resolving'';
          State_Monad.return (if b then add_context ''address_resolving'' e else no_error) }"

definition Resolver_init :: "env \<Rightarrow> string \<Rightarrow> u16 \<Rightarrow> (resolver, error_c) state" where
  "Resolver_init env host port =
     do { modify (\<lambda>s. s\<lparr>rs_handler := True, rs_host := host, rs_port := port, io_handler := True\<rparr>);
          Resolver_requery env }"

definition Resolver_set_family :: "int \<Rightarrow> (resolver, unit) state" where
  "Resolver_set_family f = modify (\<lambda>s. s\<lparr>rs_family := f\<rparr>)"

definition Resolver_set_socktype :: "int \<Rightarrow> (resolver, unit) state" where
  "Resolver_set_socktype t = modify (\<lambda>s. s\<lparr>rs_socktype := t\<rparr>)"

definition Resolver_set_protocol :: "int \<Rightarrow> (resolver, unit) state" where
  "Resolver_set_protocol p = modify (\<lambda>s. s\<lparr>rs_protocol := p\<rparr>)"

definition Resolver_set_flags :: "int \<Rightarrow> (resolver, unit) state" where
  "Resolver_set_flags f = modify (\<lambda>s. s\<lparr>rs_flags := f\<rparr>)"

definition Resolver_add_flags :: "int \<Rightarrow> (resolver, unit) state" where
  "Resolver_add_flags f = modify (\<lambda>s. s\<lparr>rs_flags := or (rs_flags s) f\<rparr>)"

text \<open>The list the user gets is built from the entries at its front. The user may query again
  from inside; if it destroys the resolver, what follows is undefined.\<close>

definition Resolver_on_addrinfo :: "env \<Rightarrow> int \<Rightarrow> sock_addr list \<Rightarrow> (resolver, unit) state" where
  "Resolver_on_addrinfo env code found =
     do { b \<leftarrow> on_error env (eai_code code []) ''addrinfo'';
          (if b
           then do { t \<leftarrow> svc_call env (TimerOneshot 5000000000) [];
                     on_error env t ''arm timer'';
                     State_Monad.return () }
           else do {
             h \<leftarrow> gets rs_handler;
             whenM h (do {
               u \<leftarrow> ask_user env
                      (OnResolved (sl_of_addrinfo (map (\<lambda>a. take (sa_len a) (sa_store (impl_of a))) found)));
               whenM (rp_gone u) fault;
               whenM (rp_ret u \<noteq> 0) (do { Resolver_requery env; State_Monad.return () }) }) }) }"

definition AddrInfo_finish :: "env \<Rightarrow> (resolver, unit) state" where
  "AddrInfo_finish env =
     do { g \<leftarrow> sys env GaiError;
          Resolver_on_addrinfo env (rp_ret g) (rp_addrs g);
          whenM (rp_addrs g \<noteq> []) (do { sys env FreeAddrInfo; State_Monad.return () });
          fd \<leftarrow> gets rs_fd;
          poll_del env fd;
          AddrInfo_cleanup env }"

text \<open>One round of \<open>epollIN\<close>: the signal's number and code are the first and the third word.\<close>

definition AddrInfo_read_step :: "env \<Rightarrow> (resolver, handled option) state" where
  "AddrInfo_read_step env =
     do { fd \<leftarrow> gets rs_fd;
          r \<leftarrow> sys env (ReadFd fd (nat sizeof_siginfo));
          (if rp_ret r = -1
           then do {
             (if rp_errno r = EAGAIN then State_Monad.return ()
              else do { on_error env (errno_c (rp_errno r) []) ''events read''; State_Monad.return () });
             State_Monad.return (Some HANDLED) }
           else if rp_ret r \<noteq> sizeof_siginfo then State_Monad.return None
           else if field 0 4 (rp_data r) \<noteq> mem32 (of_int SIGUSR1) then State_Monad.return None
           else if field 8 4 (rp_data r) \<noteq> mem32 (of_int SI_ASYNCNL) then State_Monad.return None
           else do { AddrInfo_finish env; State_Monad.return (Some HANDLED) }) }"

definition AddrInfo_epollIN :: "env \<Rightarrow> resolver \<Rightarrow> (handled \<times> resolver) option" where
  "AddrInfo_epollIN env = loop_until (AddrInfo_read_step env)"

datatype resolver_event = RsInit string u16 | RsRequery | RsIn | RsCleanup | RsDestroy

fun Resolver_event :: "env \<Rightarrow> resolver_event \<Rightarrow> resolver \<Rightarrow> resolver option" where
  "Resolver_event env (RsInit h p) s = exec (Resolver_init env h p) s"
| "Resolver_event env RsRequery s = exec (Resolver_requery env) s"
| "Resolver_event env RsIn s = map_option snd (AddrInfo_epollIN env s)"
| "Resolver_event env RsCleanup s = exec (AddrInfo_cleanup env) s"
| "Resolver_event env RsDestroy s = exec (AddrInfo_destroy env) s"

section \<open>Descriptors\<close>

text \<open>As long as the event loop takes every descriptor and the C library every request, the
  resolver owns the one it stores.\<close>

definition requests_succeed :: "env \<Rightarrow> bool" where
  "requests_succeed env \<longleftrightarrow>
     (\<forall>tr fd evs. rp_ret (env tr (Svc (PollAdd fd evs))) = 0) \<and>
     (\<forall>tr n p f st pr fl. rp_ret (env tr (Sys (GetAddrInfo n p f st pr fl))) = 0)"

abbreviation rs_own :: "resolver \<Rightarrow> bool" where
  "rs_own s \<equiv> owns (rs_fd s) (io_trace s)"

abbreviation rs_idle :: "resolver \<Rightarrow> bool" where
  "rs_idle s \<equiv> owns (-1) (io_trace s) \<and> rs_fd s = -1"

lemma rs_cleanup_idle: "leads rs_own rs_idle (AddrInfo_cleanup env)"
proof (rule leadsI)
  fix s assume "rs_own s"
  then show "after (AddrInfo_cleanup env) (\<lambda>_. rs_idle) s"
    by (cases "rs_fd s = -1") (simp_all add: AddrInfo_cleanup_def after_simps owns_simps)
qed

lemma rs_idle_own: "leads P rs_idle m \<Longrightarrow> leads P rs_own m"
  by (auto simp: leads_def intro: after_mono)

lemma rs_cleanup_own [keeps_intros]: "keeps rs_own (AddrInfo_cleanup env)"
  using rs_idle_own [OF rs_cleanup_idle [of env]] by (simp add: leads_def keeps_def)

lemma rs_destroy_idle: "leads rs_own rs_idle (AddrInfo_destroy env)"
  unfolding AddrInfo_destroy_def
  by (intro leads_first rs_cleanup_idle keeps_intros; simp add: owns_simps)

lemma rs_listen_own:
  assumes "requests_succeed env"
  shows "leads rs_idle rs_own (AddrInfo_listen env)"
proof (rule leadsI)
  have ok: "rp_ret (env tr (Svc (PollAdd fd evs))) = 0"
    "rp_ret (env tr (Sys (GetAddrInfo n p f st pr fl))) = 0" for tr fd evs n p f st pr fl
    using assms by (simp_all add: requests_succeed_def)
  fix s assume "rs_idle s"
  then show "after (AddrInfo_listen env) (\<lambda>_. rs_own) s"
    by (cases "rs_hints s")
       (simp add: AddrInfo_listen_def AddrInfo_ask_def after_simps after_poll owns_simps ok)
qed

lemma rs_init_own:
  assumes "requests_succeed env"
  shows "keeps rs_own (AddrInfo_init env n p f st pr fl)"
proof (rule keepsI)
  fix s assume own: "rs_own s"
  have "after (AddrInfo_destroy env) (\<lambda>_. rs_idle) s"
    using rs_destroy_idle own by (simp add: leads_def)
  moreover have "after (AddrInfo_listen env) (\<lambda>_. rs_own) t" if "rs_idle t" for t
    using rs_listen_own [OF assms] that by (simp add: leads_def)
  ultimately show "after (AddrInfo_init env n p f st pr fl) (\<lambda>_. rs_own) s"
    unfolding AddrInfo_init_def after_bind after_modify by (rule after_mono) simp
qed

lemma rs_requery_own:
  "requests_succeed env \<Longrightarrow> keeps rs_own (Resolver_requery env)"
  unfolding Resolver_requery_def
  by (intro keeps_intros rs_init_own; simp add: owns_simps)

lemma rs_read_own:
  assumes "requests_succeed env"
  shows "keeps rs_own (AddrInfo_read_step env)"
  unfolding AddrInfo_read_step_def AddrInfo_finish_def Resolver_on_addrinfo_def
  by (intro keeps_intros rs_requery_own [OF assms]; simp add: owns_simps)

lemma rs_event_own:
  "requests_succeed env \<Longrightarrow> rs_own s \<Longrightarrow> Resolver_event env e s = Some t \<Longrightarrow> rs_own t"
  by (cases e)
     (auto elim!: exec_keeps simp: AddrInfo_epollIN_def AddrInfo_destroy_def Resolver_init_def owns_simps
        intro!: keeps_intros rs_requery_own intro: loop_until_keeps [OF _ rs_read_own])

section \<open>Properties\<close>

text \<open>What is not held cannot be closed, and a history with such a close stays one.\<close>

lemma closes_held_mono: "\<not> closes_held tr \<Longrightarrow> \<not> closes_held (x # tr)"
  by (cases x) simp

definition loop_refuses :: "env \<Rightarrow> int \<Rightarrow> bool" where
  "loop_refuses env d \<longleftrightarrow>
     (\<forall>tr m. rp_ret (env tr (Sys (SigProcMask m))) = 0) \<and> (\<forall>tr m. rp_ret (env tr (Sys (SignalFd m))) = d) \<and>
     (\<forall>tr fd evs. rp_ret (env tr (Svc (PollAdd fd evs))) = -1)"

abbreviation rs_twice :: "resolver \<Rightarrow> bool" where
  "rs_twice s \<equiv> \<not> closes_held (io_trace s)"

lemma rs_listen_stale:
  assumes "loop_refuses env d" "errno_set env" "d \<noteq> -1"
  shows "leads rs_idle (\<lambda>s. owns (-1) (io_trace s) \<and> rs_fd s = d) (AddrInfo_listen env)"
proof (rule leadsI)
  have r: "rp_ret (env tr (Sys (SigProcMask m))) = 0" "rp_ret (env tr (Sys (SignalFd m))) = d"
    "rp_ret (env tr (Svc (PollAdd fd evs))) = -1" for tr m fd evs
    using assms(1) by (simp_all add: loop_refuses_def)
  have e: "rp_errno (env tr (Svc (PollAdd fd evs))) \<noteq> 0" for tr fd evs
    using assms(2) r(3) by (simp add: errno_set_def)
  fix s assume "rs_idle s"
  then show "after (AddrInfo_listen env) (\<lambda>_ s. owns (-1) (io_trace s) \<and> rs_fd s = d) s"
    using assms(3) by (simp add: AddrInfo_listen_def after_simps after_poll owns_simps r e)
qed

lemma rs_init_idle: "rs_idle s \<Longrightarrow> after (AddrInfo_listen env) Q (s\<lparr>rs_hints := h\<rparr>) \<Longrightarrow>
    h = (n, p, f, st, pr, fl) \<Longrightarrow> after (AddrInfo_init env n p f st pr fl) Q s"
  by (simp add: AddrInfo_init_def AddrInfo_destroy_def AddrInfo_cleanup_def after_simps)

lemma rs_requery_stale:
  assumes "loop_refuses env d" "errno_set env" "d \<noteq> -1" "rs_idle s"
  shows "after (Resolver_requery env) (\<lambda>_ s. owns (-1) (io_trace s) \<and> rs_fd s = d) s"
proof -
  have l: "after (AddrInfo_listen env) (\<lambda>_ s. owns (-1) (io_trace s) \<and> rs_fd s = d) (s\<lparr>rs_hints := h\<rparr>)" for h
    using rs_listen_stale [OF assms(1-3)] assms(4) by (simp add: leads_def)
  show ?thesis
    unfolding Resolver_requery_def after_bind after_gets
    by (rule rs_init_idle [OF assms(4) after_mono [OF l]])
       (simp_all add: after_simps owns_simps report_action_def)
qed

lemma rs_close_stale:
  assumes "owns (-1) (io_trace s)" "rs_fd s \<noteq> -1"
  shows "after (AddrInfo_destroy env) (\<lambda>_. rs_twice) s"
  using assms by (simp add: AddrInfo_destroy_def AddrInfo_cleanup_def after_simps after_poll owns_none)

lemma rs_twice_keeps: "keeps rs_twice (AddrInfo_listen env)"
  unfolding AddrInfo_listen_def AddrInfo_ask_def
  by (intro keeps_intros; simp add: closes_held_mono)

text \<open>C27: When the event loop does not take the resolver's descriptor, it is closed but stays
  stored, and the next query -- the client's next attempt -- closes the number a second time,
  whoever it belongs to by then.\<close>

theorem resolver_closes_twice:
  assumes "loop_refuses env d" "errno_set env" "d \<noteq> -1" "rs_fd s = -1" "owns (-1) (io_trace s)"
  shows "after (do { Resolver_requery env; Resolver_requery env }) (\<lambda>_ s. \<not> closes_held (io_trace s)) s"
proof -
  have "after (Resolver_requery env) (\<lambda>_. rs_twice) u" if u: "owns (-1) (io_trace u)" "rs_fd u = d" for u
  proof -
    have "after (AddrInfo_destroy env) (\<lambda>_. rs_twice) u"
      using rs_close_stale u assms(3) by simp
    then have "after (AddrInfo_init env n p f st pr fl) (\<lambda>_. rs_twice) u" for n p f st pr fl
      using rs_twice_keeps [of env]
      unfolding AddrInfo_init_def after_bind after_modify
      by (auto simp: keeps_def intro: after_mono)
    then show ?thesis
      unfolding Resolver_requery_def after_bind after_gets
      by (rule after_mono) (simp add: after_simps)
  qed
  then show ?thesis
    unfolding after_bind using rs_requery_stale [OF assms(1-3)] assms(4,5) by (auto intro: after_mono)
qed

definition full_env :: env where
  "full_env tr a =
     (case a of
        Sys (SignalFd m) \<Rightarrow> reply_ok\<lparr>rp_ret := 7\<rparr>
      | Svc (PollAdd fd evs) \<Rightarrow> reply_ok\<lparr>rp_ret := -1, rp_errno := 28\<rparr>
      | _ \<Rightarrow> reply_ok)"

theorem resolver_closes_twice_witness:
  "after (do { Resolver_requery full_env; Resolver_requery full_env })
     (\<lambda>_ s. \<not> closes_held (io_trace s)) Resolver_new"
proof (rule resolver_closes_twice [where d = 7])
  show "loop_refuses full_env 7"
    by (simp add: loop_refuses_def full_env_def reply_ok_def)
  show "errno_set full_env"
    by (auto simp: errno_set_def full_env_def reply_ok_def split: action.split syscall.split service.split)
qed (simp_all add: Resolver_new_def)

end
