(* ===== verification/Uart.thy ===== *)
theory Uart
  imports Tcp_Client
begin

text \<open>
  Serial ports, \<open>src/impl/uart.h\<close>, and the watcher of a descriptor under construction,
  \<open>src/impl/fd.h\<close>. The calls on the terminal are \<open>TtyCall\<close>s, named as their error contexts are.
\<close>

section \<open>State\<close>

record uart_client =
  uc_fd :: int
  uc_writeable :: bool

record uart = io +
  ua_name :: string
  ua_path :: string
  ua_usb :: string                       \<comment> \<open>\<open>_usb_id\<close>\<close>
  ua_baud :: int
  ua_flow :: bool
  ua_fd :: int
  ua_client :: "uart_client option"      \<comment> \<open>the client as long as the user keeps it\<close>
  ua_watching :: bool                    \<comment> \<open>\<open>_udev_pollable\<close>\<close>
  ua_udev :: bool                        \<comment> \<open>the loop has a device directory\<close>

definition Uart_new :: "string \<Rightarrow> bool \<Rightarrow> uart" where
  "Uart_new name udev =
     \<lparr>io_trace = [], io_handler = False, io_exists = True, io_fault = False,
      ua_name = name, ua_path = [], ua_usb = [], ua_baud = 115200, ua_flow = False, ua_fd = -1,
      ua_client = None, ua_watching = False, ua_udev = udev\<rparr>"

definition bauds :: "int list" where
  "bauds = [0, 50, 75, 110, 134, 150, 200, 300, 600, 1200, 1800, 2400, 4800, 9600, 19200, 38400, 57600,
     115200, 230400, 460800, 500000, 576000, 921600, 1000000, 1152000, 1500000, 2000000, 2500000,
     3000000, 3500000, 4000000]"

section \<open>The client\<close>

definition UARTClient_write :: "env \<Rightarrow> bytes \<Rightarrow> uart_client \<Rightarrow> (uart, int) state" where
  "UARTClient_write env buf uc =
     (if \<not> uc_writeable uc then State_Monad.return 0
      else do {
        r \<leftarrow> sys env (WriteFd (uc_fd uc) buf);
        modify (\<lambda>s. s\<lparr>ua_client := Some (uc\<lparr>uc_writeable := (rp_ret r = int (length buf))\<rparr>)\<rparr>);
        (if rp_ret r = -1
         then whenM (rp_errno r \<noteq> EAGAIN)
                (do { on_error env (errno_c (rp_errno r) []) ''uart write''; State_Monad.return () })
         else do { svc env (CountAdd ''write'' (rp_ret r)); State_Monad.return () });
        State_Monad.return (rp_ret r) })"

text \<open>\<open>cli()\<close>: the client, a new one if there is none, announced under the path or the device's
  identity.\<close>

definition Uart_cli :: "env \<Rightarrow> (uart, uart_client) state" where
  "Uart_cli env =
     do { s \<leftarrow> gets id;
          (case ua_client s of
             Some uc \<Rightarrow> State_Monad.return uc
           | None \<Rightarrow> do {
               modify (\<lambda>s. s\<lparr>ua_client := Some \<lparr>uc_fd = ua_fd s, uc_writeable = True\<rparr>\<rparr>);
               callback env (OnConnect (if ua_usb s = [] then ua_path s else ua_usb s));
               State_Monad.return \<lparr>uc_fd = ua_fd s, uc_writeable = True\<rparr> }) }"

definition Uart_cleanup :: "env \<Rightarrow> (uart, unit) state" where
  "Uart_cleanup env =
     do { s \<leftarrow> gets id;
          whenM (ua_client s \<noteq> None) (callback env OnClose);
          whenM (ua_fd s \<noteq> -1) (do { sys env (Close (ua_fd s)); modify (\<lambda>s. s\<lparr>ua_fd := -1\<rparr>) }) }"

section \<open>Opening\<close>

definition Uart_start_udev_watch :: "env \<Rightarrow> (uart, unit) state" where
  "Uart_start_udev_watch env =
     do { s \<leftarrow> gets id;
          whenM (ua_usb s \<noteq> [] \<and> \<not> ua_watching s) (do {
            modify (\<lambda>s. s\<lparr>ua_watching := True\<rparr>);
            svc env WatchDevices;
            State_Monad.return () }) }"

definition by_id_prefix :: string where
  "by_id_prefix = ''/dev/serial/by-id/''"

text \<open>Which device to open: a path under \<open>by-id\<close> is an identity, for another path the identity is
  looked up; with an identity the path is the one the directory has now.\<close>

definition Uart_find_device :: "env \<Rightarrow> (uart, error_c option) state" where
  "Uart_find_device env =
     do { s \<leftarrow> gets id;
          (if \<not> ua_udev s then State_Monad.return None
           else do {
             whenM (ua_usb s = []) (do {
               (if take (length by_id_prefix) (ua_path s) = by_id_prefix
                then modify (\<lambda>s. s\<lparr>ua_usb := ua_path s, ua_path := []\<rparr>)
                else do { r \<leftarrow> svc env (FindId (ua_path s)); modify (\<lambda>s. s\<lparr>ua_usb := rp_name r\<rparr>) });
               Uart_start_udev_watch env });
             usb \<leftarrow> gets ua_usb;
             (if usb = [] then State_Monad.return None
              else do {
                r \<leftarrow> svc env (FindPath usb);
                (if rp_name r = [] then State_Monad.return (Some (errno_c ENODEV (usb @ '' not found'')))
                 else do { modify (\<lambda>s. s\<lparr>ua_path := rp_name r\<rparr>); State_Monad.return None }) }) }) }"

text \<open>The calls that set up the terminal, in this order, up to the first that fails. The two that
  ask for low latency may fail.\<close>

fun tty_calls :: "env \<Rightarrow> int \<Rightarrow> (string \<times> int) list \<Rightarrow> (uart, error_c) state" where
  "tty_calls env fd [] = State_Monad.return no_error"
| "tty_calls env fd ((ctx, arg) # cs) =
     do { e \<leftarrow> call env (TtyCall ctx arg) ctx;
          (if failed e then State_Monad.return e else tty_calls env fd cs) }"

definition Uart_low_latency :: "env \<Rightarrow> string \<Rightarrow> (uart, unit) state" where
  "Uart_low_latency env path =
     do { e \<leftarrow> call env (TtyCall (''get serial '' @ path) 0) (''get serial '' @ path);
          whenM (\<not> failed e) (do {
            call env (TtyCall (''set serial '' @ path) 0) (''set serial '' @ path);
            State_Monad.return () }) }"

definition Uart_set_up :: "env \<Rightarrow> int \<Rightarrow> (uart, error_c) state" where
  "Uart_set_up env fd =
     do { s \<leftarrow> gets id;
          (if ua_baud s \<notin> set bauds then State_Monad.return (errno_c EINVAL (''uart '' @ ua_path s @ '' open''))
           else do {
             e \<leftarrow> tty_calls env fd
                    [(''tcgetaddr'', fd), (''cfsetospeed'', ua_baud s), (''cfsetispeed'', ua_baud s),
                     (''tcsetaddr'', if ua_flow s then 1 else 0), (''set dtr '' @ ua_path s, fd),
                     (''set rts '' @ ua_path s, fd)];
             (if failed e then State_Monad.return e
              else do {
                Uart_low_latency env (ua_path s);
                call env (TtyCall (''flush '' @ ua_path s) fd) (''flush '' @ ua_path s) }) }) }"

definition Uart_close :: "env \<Rightarrow> (uart, unit) state" where
  "Uart_close env =
     do { fd \<leftarrow> gets ua_fd;
          whenM (fd \<noteq> -1) (do { sys env (Close fd); modify (\<lambda>s. s\<lparr>ua_fd := -1\<rparr>) }) }"

text \<open>\<open>FD watcher\<close>: unless it was cleared it closes the descriptor when the scope is left.\<close>

definition FD_leave :: "bool \<Rightarrow> env \<Rightarrow> (uart, unit) state" where
  "FD_leave cleared env = whenM (\<not> cleared) (Uart_close env)"

definition Uart_opened :: "env \<Rightarrow> string \<Rightarrow> reply \<Rightarrow> (uart, error_c) state" where
  "Uart_opened env path r =
     (if rp_ret r = -1
      then do { FD_leave False env; State_Monad.return (errno_c (rp_errno r) (''uart '' @ path @ '' open'')) }
      else do {
        e \<leftarrow> Uart_set_up env (rp_ret r);
        FD_leave (\<not> failed e) env;
        State_Monad.return e })"

definition Uart_open :: "env \<Rightarrow> error_c option \<Rightarrow> (uart, error_c) state" where
  "Uart_open env missing =
     (case missing of
        Some e \<Rightarrow> do { FD_leave False env; State_Monad.return e }
      | None \<Rightarrow> do {
          path \<leftarrow> gets ua_path;
          r \<leftarrow> sys env (OpenTty path);
          modify (\<lambda>s. s\<lparr>ua_fd := rp_ret r\<rparr>);
          Uart_opened env path r })"

definition Uart_init_uart :: "env \<Rightarrow> (uart, error_c) state" where
  "Uart_init_uart env =
     do { Uart_close env;
          missing \<leftarrow> Uart_find_device env;
          Uart_open env missing }"

definition Uart_init_uart_retry :: "env \<Rightarrow> (uart, unit) state" where
  "Uart_init_uart_retry env =
     do { e \<leftarrow> Uart_init_uart env;
          b \<leftarrow> on_error env e ''init_uart'';
          s \<leftarrow> gets id;
          (if b
           then whenM (io_exists s \<and> (ua_usb s = [] \<or> ec_value e \<noteq> ENODEV)) (do {
             t \<leftarrow> svc_call env (TimerOneshot 5000000000) [];
             on_error env t ''rearm timer'';
             State_Monad.return () })
           else do {
             p \<leftarrow> poll_add env (ua_fd s) (EPOLLIN OR EPOLLOUT OR EPOLLET);
             on_error env p ''uart loop add'';
             State_Monad.return () }) }"

definition Uart_init :: "env \<Rightarrow> string \<Rightarrow> int \<Rightarrow> bool \<Rightarrow> (uart, error_c) state" where
  "Uart_init env path baudrate flow_control =
     do { s \<leftarrow> gets id;
          svc env (RegisterReport (ua_name s @ ''_uart_c'') 1000000000);
          modify (\<lambda>s. s\<lparr>ua_path := path, ua_baud := baudrate, ua_flow := flow_control\<rparr>);
          Uart_init_uart_retry env;
          State_Monad.return no_error }"

text \<open>The \<open>stat\<close> section of a port; an unreadable period has to be a text at least.\<close>

definition uart_stat :: "yaml \<Rightarrow> int option res" where
  "uart_stat cfg =
     bind_res (yaml_at ''stat'' cfg) (\<lambda>stat. case stat of
        YMap kvs \<Rightarrow>
          bind_res (duration (yaml_find ''period'' kvs)) (\<lambda>period.
            bind_res (if period \<noteq> 0 then Inr period
                      else bind_res (as_string (yaml_find ''period'' kvs)) (\<lambda>_. Inr 1000000000)) (\<lambda>p.
              case yaml_find ''tags'' kvs of
                YMap tags \<Rightarrow> bind_res (yaml_tags tags []) (\<lambda>_. Inr (Some p))
              | _ \<Rightarrow> Inr (Some p)))
      | _ \<Rightarrow> Inr None)"

definition Uart_plan ::
    "(string \<Rightarrow> int option) \<Rightarrow> (string \<Rightarrow> bool option) \<Rightarrow> yaml \<Rightarrow> (string \<times> int \<times> bool) option res" where
  "Uart_plan as_int as_bool cfg =
     bind_res (yaml_at ''path'' cfg) (\<lambda>path.
       if \<not> is_defined path then Inr None
       else bind_res (as_string path) (\<lambda>p.
         bind_res (yaml_at ''baudrate'' cfg) (\<lambda>baud.
           bind_res (if is_defined baud then as_number as_int baud else Inr 115200) (\<lambda>b.
             bind_res (yaml_at ''flow_control'' cfg) (\<lambda>flow.
               if \<not> is_defined flow then Inr (Some (p, b, False))
               else case flow of
                      YScalar t \<Rightarrow> (case as_bool t of None \<Rightarrow> Inl BadConversion | Some f \<Rightarrow> Inr (Some (p, b, f)))
                    | _ \<Rightarrow> Inl BadConversion)))))"

definition Uart_init_yaml ::
    "env \<Rightarrow> (string \<Rightarrow> int option) \<Rightarrow> (string \<Rightarrow> bool option) \<Rightarrow> yaml \<Rightarrow> (uart, error_c res) state" where
  "Uart_init_yaml env as_int as_bool cfg =
     (case Uart_plan as_int as_bool cfg of
        Inl x \<Rightarrow> State_Monad.return (Inl x)
      | Inr None \<Rightarrow> State_Monad.return (Inr (errno_c ENOTSUP ''uart device path''))
      | Inr (Some (path, baud, flow)) \<Rightarrow> do {
          modify (\<lambda>s. s\<lparr>ua_path := path, ua_baud := baud, ua_flow := flow\<rparr>);
          (case uart_stat cfg of
             Inl x \<Rightarrow> State_Monad.return (Inl x)
           | Inr stat \<Rightarrow> do {
               name \<leftarrow> gets ua_name;
               (case stat of
                  None \<Rightarrow> State_Monad.return ()
                | Some period \<Rightarrow> do { svc env (RegisterReport (name @ ''_uart_c'') period); State_Monad.return () });
               Uart_init_uart_retry env;
               State_Monad.return (Inr no_error) }) })"

section \<open>Events\<close>

text \<open>One round of \<open>epollIN\<close>; a full buffer means that there may be more.\<close>

definition Uart_read_step :: "env \<Rightarrow> (uart, handled option) state" where
  "Uart_read_step env =
     do { fd \<leftarrow> gets ua_fd;
          r \<leftarrow> sys env (ReadFd fd 1024);
          (if rp_ret r = -1
           then (if rp_errno r \<noteq> EAGAIN
                 then do {
                   on_error env (errno_c (rp_errno r) []) ''uart read'';
                   alive \<leftarrow> gets io_exists;
                   State_Monad.return (Some (if alive then HANDLED else STOP)) }
                 else State_Monad.return (Some HANDLED))
           else if rp_ret r = 0 then State_Monad.return (Some HANDLED)
           else do {
             svc env (CountAdd ''read'' (rp_ret r));
             Uart_cli env;
             alive \<leftarrow> gets io_exists;
             (if \<not> alive then State_Monad.return (Some STOP)
              else do {
                callback env (OnRead (rp_data r));
                alive2 \<leftarrow> gets io_exists;
                State_Monad.return
                  (if \<not> alive2 then Some STOP else if rp_ret r = 1024 then None else Some HANDLED) }) }) }"

definition Uart_epollIN :: "env \<Rightarrow> uart \<Rightarrow> (handled \<times> uart) option" where
  "Uart_epollIN env = loop_until (Uart_read_step env)"

definition Uart_epollOUT :: "env \<Rightarrow> (uart, handled) state" where
  "Uart_epollOUT env = do { Uart_cli env; State_Monad.return HANDLED }"

definition Uart_epollERR :: "(uart, handled) state" where
  "Uart_epollERR = State_Monad.return HANDLED"

definition Uart_epollHUP :: "env \<Rightarrow> (uart, handled) state" where
  "Uart_epollHUP env =
     do { fd \<leftarrow> gets ua_fd;
          whenM (fd \<noteq> -1) (do { poll_del env fd; State_Monad.return () });
          Uart_cleanup env;
          s \<leftarrow> gets id;
          (if \<not> io_exists s then State_Monad.return STOP
           else do {
             whenM (ua_usb s = []) (Uart_init_uart_retry env);
             State_Monad.return HANDLED }) }"

definition Uart_udev_add :: "env \<Rightarrow> string \<Rightarrow> string \<Rightarrow> (uart, unit) state" where
  "Uart_udev_add env node ident =
     do { usb \<leftarrow> gets ua_usb; whenM (ident = usb) (Uart_init_uart_retry env) }"

definition Uart_udev_remove :: "env \<Rightarrow> string \<Rightarrow> string \<Rightarrow> (uart, unit) state" where
  "Uart_udev_remove env node ident =
     do { s \<leftarrow> gets id;
          whenM (ident = ua_usb s \<and> ua_fd s \<noteq> -1) (do { poll_del env (ua_fd s); Uart_cleanup env }) }"

definition Uart_destroy :: "env \<Rightarrow> (uart, unit) state" where
  "Uart_destroy env =
     do { fd \<leftarrow> gets ua_fd;
          whenM (fd \<noteq> -1) (do { poll_del env fd; State_Monad.return () });
          Uart_cleanup env;
          modify (\<lambda>s. s\<lparr>io_exists := False\<rparr>) }"

datatype uart_event =
    UaInit string int bool | UaIn | UaOut | UaErr | UaHup | UaTimer | UaAdded string string
  | UaRemoved string string | UaWrite bytes | UaForget | UaCleanup | UaDestroy

fun Uart_event :: "env \<Rightarrow> uart_event \<Rightarrow> uart \<Rightarrow> uart option" where
  "Uart_event env (UaInit p b f) s = exec (Uart_init env p b f) s"
| "Uart_event env UaIn s = map_option snd (Uart_epollIN env s)"
| "Uart_event env UaOut s = exec (Uart_epollOUT env) s"
| "Uart_event env UaErr s = exec Uart_epollERR s"
| "Uart_event env UaHup s = exec (Uart_epollHUP env) s"
| "Uart_event env UaTimer s = exec (Uart_init_uart_retry env) s"
| "Uart_event env (UaAdded n i) s = exec (Uart_udev_add env n i) s"
| "Uart_event env (UaRemoved n i) s = exec (Uart_udev_remove env n i) s"
| "Uart_event env (UaWrite buf) s =
     (case ua_client s of None \<Rightarrow> Some s | Some uc \<Rightarrow> exec (UARTClient_write env buf uc) s)"
| "Uart_event env UaForget s = Some (s\<lparr>ua_client := None\<rparr>)"
| "Uart_event env UaCleanup s = exec (Uart_cleanup env) s"
| "Uart_event env UaDestroy s = exec (Uart_destroy env) s"

section \<open>Descriptors\<close>

abbreviation ua_own :: "uart \<Rightarrow> bool" where
  "ua_own s \<equiv> owns (ua_fd s) (io_trace s)"

abbreviation ua_idle :: "uart \<Rightarrow> bool" where
  "ua_idle s \<equiv> owns (-1) (io_trace s) \<and> ua_fd s = -1"

lemma ua_close_idle: "leads ua_own ua_idle (Uart_close env)"
proof (rule leadsI)
  fix s assume "ua_own s"
  then show "after (Uart_close env) (\<lambda>_. ua_idle) s"
    by (cases "ua_fd s = -1") (simp_all add: Uart_close_def after_simps owns_simps)
qed

lemma ua_close_own [keeps_intros]: "keeps ua_own (Uart_close env)"
  using ua_close_idle [of env] by (auto simp: leads_def keeps_def intro: after_mono)

lemma ua_cleanup_own [keeps_intros]: "keeps ua_own (Uart_cleanup env)"
proof (rule keepsI)
  fix s assume "ua_own s"
  then show "after (Uart_cleanup env) (\<lambda>_. ua_own) s"
    by (cases "ua_fd s = -1") (simp_all add: Uart_cleanup_def after_simps owns_simps)
qed

lemma ua_leave_own [keeps_intros]: "keeps ua_own (FD_leave c env)"
  unfolding FD_leave_def by (intro keeps_intros)

lemma ua_find_idle: "keeps ua_idle (Uart_find_device env)"
  unfolding Uart_find_device_def Uart_start_udev_watch_def
  by (intro keeps_intros; simp add: owns_simps)

lemma tty_calls_own [keeps_intros]: "keeps ua_own (tty_calls env fd cs)"
  by (induction cs rule: tty_calls.induct) (auto intro!: keeps_intros simp: owns_simps)

lemma ua_set_up_own [keeps_intros]: "keeps ua_own (Uart_set_up env fd)"
  unfolding Uart_set_up_def Uart_low_latency_def
  by (intro keeps_intros; simp add: owns_simps)

lemma ua_opened_own: "keeps ua_own (Uart_opened env path r)"
  unfolding Uart_opened_def by (intro keeps_intros)

lemma ua_open_own: "leads ua_idle ua_own (Uart_open env missing)"
proof (rule leadsI)
  fix s assume idle: "ua_idle s"
  show "after (Uart_open env missing) (\<lambda>_. ua_own) s"
  proof (cases missing)
    case None
    have "ua_own (s\<lparr>io_trace := (Sys (OpenTty (ua_path s)), r) # io_trace s, ua_fd := rp_ret r\<rparr>)" for r
      using idle by (simp add: owns_def)
    with None ua_opened_own show ?thesis
      unfolding Uart_open_def by (simp add: after_simps keeps_def)
  next
    case (Some e)
    have "keeps ua_own (Uart_open env missing)"
      unfolding Uart_open_def Some option.case by (intro keeps_intros)
    with idle show ?thesis by (simp add: keeps_def)
  qed
qed

lemma ua_init_uart_own [keeps_intros]: "keeps ua_own (Uart_init_uart env)"
proof (rule keepsI)
  fix s assume "ua_own s"
  then have "after (Uart_close env) (\<lambda>_. ua_idle) s" using ua_close_idle by (simp add: leads_def)
  then show "after (Uart_init_uart env) (\<lambda>_. ua_own) s"
    unfolding Uart_init_uart_def after_bind
    using ua_find_idle [of env] ua_open_own [of env]
    by (elim after_mono) (auto simp: keeps_def leads_def intro: after_mono)
qed

lemma ua_retry_own [keeps_intros]: "keeps ua_own (Uart_init_uart_retry env)"
  unfolding Uart_init_uart_retry_def by (intro keeps_intros; simp add: owns_simps)

lemma ua_cli_own [keeps_intros]: "keeps ua_own (Uart_cli env)"
  unfolding Uart_cli_def by (intro keeps_intros; simp add: owns_simps)

lemma ua_read_own: "keeps ua_own (Uart_read_step env)"
  unfolding Uart_read_step_def by (intro keeps_intros; simp add: owns_simps)

lemma ua_handlers_own [keeps_intros]:
  "keeps ua_own (Uart_init env p b f)" "keeps ua_own (Uart_epollOUT env)" "keeps ua_own Uart_epollERR"
  "keeps ua_own (Uart_epollHUP env)" "keeps ua_own (Uart_udev_add env n i)"
  "keeps ua_own (Uart_udev_remove env n i)" "keeps ua_own (UARTClient_write env buf uc)"
  "keeps ua_own (Uart_destroy env)"
  unfolding Uart_init_def Uart_epollOUT_def Uart_epollERR_def Uart_epollHUP_def Uart_udev_add_def
    Uart_udev_remove_def UARTClient_write_def Uart_destroy_def
  by (intro keeps_intros; simp add: owns_simps)+

lemma ua_event_own: "ua_own s \<Longrightarrow> Uart_event env e s = Some t \<Longrightarrow> ua_own t"
  by (cases e)
     (auto elim!: exec_keeps simp: Uart_epollIN_def intro!: keeps_intros split: option.splits
        intro: loop_until_keeps [OF _ ua_read_own])

interpretation ua: descriptor_owner "Uart_event env" ua_fd io_trace
  by unfold_locales (rule ua_event_own)

section \<open>Never giving up\<close>

abbreviation ua_watched :: "uart \<Rightarrow> bool" where
  "ua_watched s \<equiv> ua_usb s \<noteq> [] \<longrightarrow> ua_watching s"

text \<open>The port is open, the timer was asked for, or the device directory will tell of the device.\<close>

definition ua_waiting :: "uart \<Rightarrow> bool" where
  "ua_waiting s \<longleftrightarrow> ua_fd s \<noteq> -1 \<or> Svc (TimerOneshot 5000000000) \<in> fst ` set (take 2 (io_trace s)) \<or>
     ua_usb s \<noteq> [] \<and> ua_watching s"

lemma ua_close_watched [keeps_intros]: "keeps ua_watched (Uart_close env)"
  unfolding Uart_close_def by (intro keeps_intros; simp)

lemma ua_find_watched [keeps_intros]: "keeps ua_watched (Uart_find_device env)"
proof (rule keepsI)
  fix s assume "ua_watched s"
  then show "after (Uart_find_device env) (\<lambda>_. ua_watched) s"
    by (simp add: Uart_find_device_def Uart_start_udev_watch_def after_simps)
qed

lemma tty_calls_keeps:
  "(\<And>s r c. P s \<Longrightarrow> P (s\<lparr>io_trace := (Sys c, r) # io_trace s\<rparr>)) \<Longrightarrow> keeps P (tty_calls env fd cs)"
  by (induction cs rule: tty_calls.induct) (auto intro!: keeps_intros)

lemma ua_set_up_watched [keeps_intros]: "keeps ua_watched (Uart_set_up env fd)"
  unfolding Uart_set_up_def Uart_low_latency_def
  by (intro keeps_intros tty_calls_keeps; simp)

lemma ua_set_up_fd: "keeps (\<lambda>s. ua_fd s = d) (Uart_set_up env fd)"
  unfolding Uart_set_up_def Uart_low_latency_def
  by (intro keeps_intros tty_calls_keeps; simp)

lemma ua_open_watched [keeps_intros]: "keeps ua_watched (Uart_open env missing)"
  unfolding Uart_open_def Uart_opened_def FD_leave_def by (intro keeps_intros; simp)

lemma ua_find_failed: "after (Uart_find_device env) (\<lambda>m s. case m of None \<Rightarrow> True | Some e \<Rightarrow> failed e) s"
  by (simp add: Uart_find_device_def Uart_start_udev_watch_def after_simps ENODEV_def)

lemma ua_opened_fd:
  assumes "rp_ret r = -1 \<longrightarrow> rp_errno r \<noteq> 0" "ua_fd s = rp_ret r"
  shows "after (Uart_opened env path r) (\<lambda>e s. failed e \<or> ua_fd s \<noteq> -1) s"
proof (cases "rp_ret r = -1")
  case False
  have "after (Uart_set_up env (rp_ret r)) (\<lambda>_ s. ua_fd s = rp_ret r) s"
    using ua_set_up_fd [of "rp_ret r" env] assms(2) by (simp add: keeps_def)
  then show ?thesis
    unfolding Uart_opened_def if_not_P [OF False] after_bind
    by (rule after_mono) (simp add: FD_leave_def Uart_close_def after_simps False)
qed (use assms in \<open>simp add: Uart_opened_def FD_leave_def Uart_close_def after_simps\<close>)

lemma ua_open_fd:
  assumes "errno_set env" "case missing of None \<Rightarrow> True | Some e \<Rightarrow> failed e"
  shows "after (Uart_open env missing) (\<lambda>e s. failed e \<or> ua_fd s \<noteq> -1) s"
proof (cases missing)
  case None
  then show ?thesis
    using assms(1) by (simp add: Uart_open_def after_simps ua_opened_fd errno_set_def)
next
  case (Some e)
  then show ?thesis
    using assms(2) by (simp add: Uart_open_def FD_leave_def Uart_close_def after_simps)
qed

lemma ua_init_uart_result:
  assumes "errno_set env" "ua_watched s"
  shows "after (Uart_init_uart env) (\<lambda>e s. (failed e \<or> ua_fd s \<noteq> -1) \<and> ua_watched s) s"
proof -
  have "after (Uart_close env) (\<lambda>_. ua_watched) s"
    using ua_close_watched [of env] assms(2) by (simp add: keeps_def)
  then show ?thesis
    unfolding Uart_init_uart_def after_bind
  proof (rule after_mono)
    fix t assume w: "ua_watched t"
    have "after (Uart_find_device env)
        (\<lambda>m u. (case m of None \<Rightarrow> True | Some e \<Rightarrow> failed e) \<and> ua_watched u) t"
      by (rule after_conj [OF ua_find_failed]) (use ua_find_watched [of env] w in \<open>simp add: keeps_def\<close>)
    then show "after (Uart_find_device env)
        (\<lambda>m. after (Uart_open env m) (\<lambda>e s. (failed e \<or> ua_fd s \<noteq> -1) \<and> ua_watched s)) t"
      by (rule after_mono)
        (use ua_open_fd [OF assms(1)] ua_open_watched [of env] in \<open>auto simp: keeps_def intro: after_conj\<close>)
  qed
qed

section \<open>Properties\<close>

text \<open>C28: The serial port closes only descriptors it has, none twice, and holds exactly the one it
  stores, over any sequence of plugging, hang-ups, retries and failures on the way.\<close>

theorem uart_descriptors:
  "case run_events (Uart_event env) events (Uart_new name udev) of
     None \<Rightarrow> True
   | Some s \<Rightarrow> closes_held (io_trace s) \<and> held (io_trace s) = (if ua_fd s = -1 then {#} else {#ua_fd s#})"
proof -
  have "owns (ua_fd (Uart_new name udev)) (io_trace (Uart_new name udev))"
    by (simp add: Uart_new_def)
  then show ?thesis by (auto split: option.split dest: ua.run_owns)
qed

text \<open>An attempt to open the port ends with the port open, with the timer asked for the next
  attempt, with the device directory watched for the device, or with the object gone.\<close>

theorem uart_keeps_trying:
  assumes "errno_set env" "ua_usb s0 \<noteq> [] \<longrightarrow> ua_watching s0"
  shows "after (Uart_init_uart_retry env) (\<lambda>_ s. ua_waiting s \<or> \<not> io_exists s) s0"
  unfolding Uart_init_uart_retry_def after_bind
  by (rule after_mono [OF ua_init_uart_result [OF assms]])
     (auto simp: after_simps after_poll ua_waiting_def)

definition plugged_env :: env where
  "plugged_env tr a =
     (case a of
        Sys (OpenTty p) \<Rightarrow> reply_ok\<lparr>rp_ret := -1, rp_errno := 13\<rparr>
      | _ \<Rightarrow> reply_ok)"

theorem uart_keeps_trying_witness:
  "after (Uart_init_uart_retry plugged_env) (\<lambda>_ s. \<not> (\<not> ua_waiting s \<and> io_exists s)) (Uart_new ''gps'' False)"
proof -
  have "errno_set plugged_env"
    by (auto simp: errno_set_def plugged_env_def reply_ok_def split: action.split syscall.split)
  moreover have "ua_usb (Uart_new ''gps'' False) \<noteq> [] \<longrightarrow> ua_watching (Uart_new ''gps'' False)"
    by (simp add: Uart_new_def)
  ultimately have "after (Uart_init_uart_retry plugged_env) (\<lambda>_ s. ua_waiting s \<or> \<not> io_exists s)
      (Uart_new ''gps'' False)"
    by (rule uart_keeps_trying)
  then show ?thesis by (rule after_mono) blast
qed

end
