(* ===== verification/Udp_Server.thy ===== *)
theory Udp_Server
  imports Tcp_Server
begin

text \<open>
  The UDP server endpoint and the streams of its peers, \<open>src/impl/udpsvr.h\<close>. The map of streams
  holds weak references: an entry \<open>None\<close> is one whose stream the user has dropped.
\<close>

section \<open>State\<close>

record udp_stream =
  us_fd :: int
  us_addr :: sock_addr
  us_writeable :: bool

type_synonym udp_streams = "(string, udp_stream option) omap"

record udp_server = io +
  uv_name :: string
  uv_address :: string
  uv_itf :: "string \<times> int"
  uv_ttl :: byte
  uv_family :: family
  uv_ports :: "u16 \<times> u16"
  uv_fd :: int
  uv_streams :: udp_streams
  uv_group :: "(u16 \<times> udp_mode \<times> sock_addr) option"   \<comment> \<open>\<open>_group\<close> and what its handlers captured\<close>
  uv_pollable :: bool
  uv_stat_period :: int
  uv_stat_tags :: "(string \<times> string) list"

definition UdpServer_new :: "string \<Rightarrow> udp_server" where
  "UdpServer_new name =
     \<lparr>io_trace = [], io_handler = False, io_exists = True, io_fault = False, uv_name = name, uv_address = [],
      uv_itf = ([], 0), uv_ttl = 0, uv_family = AF_INET, uv_ports = (20000, 50000), uv_fd = -1, uv_streams = [],
      uv_group = None, uv_pollable = False, uv_stat_period = 1000000000, uv_stat_tags = []\<rparr>"

definition stream_of :: "string \<Rightarrow> udp_streams \<Rightarrow> udp_stream option" where
  "stream_of name m = (case map_of m name of None \<Rightarrow> None | Some w \<Rightarrow> w)"

section \<open>Streams\<close>

definition UDPServerStream_new :: "int \<Rightarrow> sock_addr \<Rightarrow> udp_stream" where
  "UDPServerStream_new fd a = \<lparr>us_fd = fd, us_addr = a, us_writeable = True\<rparr>"

definition UDPServerStream_write :: "env \<Rightarrow> string \<Rightarrow> udp_stream \<Rightarrow> bytes \<Rightarrow> (udp_server, int) state" where
  "UDPServerStream_write env name us buf =
     (if \<not> us_writeable us then State_Monad.return (-1)
      else if us_fd us = -1 then State_Monad.return (-1)
      else do {
        r \<leftarrow> sys env (SendTo (us_fd us) buf (us_addr us));
        (if rp_ret r = -1
         then do {
           on_error env (errno_c (rp_errno r) []) ''UDP send datagram'';
           modify (\<lambda>s. s\<lparr>uv_streams := om_put name (Some (us\<lparr>us_writeable := False\<rparr>)) (uv_streams s)\<rparr>) }
         else do { svc env (CountAdd ''write'' (rp_ret r)); State_Monad.return () });
        State_Monad.return (rp_ret r) })"

definition UDPServerStream_on_read :: "env \<Rightarrow> string \<Rightarrow> bytes \<Rightarrow> (udp_server, unit) state" where
  "UDPServerStream_on_read env name buf =
     do { callback env (OnStreamRead name buf); svc env (CountAdd ''read'' (int (length buf))); State_Monad.return () }"

definition UDPServerStream_on_close :: "env \<Rightarrow> string \<Rightarrow> udp_stream \<Rightarrow> (udp_server, unit) state" where
  "UDPServerStream_on_close env name us =
     do { callback env (OnStreamClose name);
          modify (\<lambda>s. s\<lparr>uv_streams :=
            om_put name (Some (us\<lparr>us_fd := -1, us_writeable := False\<rparr>)) (uv_streams s)\<rparr>) }"

section \<open>Settings\<close>

definition UdpServer_set_address :: "string \<Rightarrow> (udp_server, unit) state" where
  "UdpServer_set_address a = modify (\<lambda>s. s\<lparr>uv_address := a\<rparr>)"

definition UdpServer_set_interface :: "netlib \<Rightarrow> string \<Rightarrow> family \<Rightarrow> (udp_server, unit) state" where
  "UdpServer_set_interface nl itf f = modify (\<lambda>s. s\<lparr>uv_itf := itf_from_str nl itf, uv_family := f\<rparr>)"

definition UdpServer_port_range :: "u16 \<Rightarrow> u16 \<Rightarrow> (udp_server, unit) state" where
  "UdpServer_port_range lo hi = modify (\<lambda>s. s\<lparr>uv_ports := (lo, hi)\<rparr>)"

definition UdpServer_set_ttl :: "byte \<Rightarrow> (udp_server, unit) state" where
  "UdpServer_set_ttl t = modify (\<lambda>s. s\<lparr>uv_ttl := t\<rparr>)"

section \<open>The socket\<close>

definition UdpServer_close :: "env \<Rightarrow> (udp_server, unit) state" where
  "UdpServer_close env =
     do { fd \<leftarrow> gets uv_fd;
          whenM (fd \<noteq> -1) (do { sys env (Close fd); modify (\<lambda>s. s\<lparr>uv_fd := -1\<rparr>) }) }"

text \<open>The old descriptor is taken out of the loop after it was forgotten.\<close>

definition UdpServer_open :: "env \<Rightarrow> (udp_server, error_c option) state" where
  "UdpServer_open env =
     do { fd \<leftarrow> gets uv_fd;
          UdpServer_close env;
          whenM (fd \<noteq> -1) (do { poll_del env (-1); State_Monad.return () });
          r \<leftarrow> sys env (Socket AF_INET SOCK_DGRAM);
          modify (\<lambda>s. s\<lparr>uv_fd := rp_ret r\<rparr>);
          State_Monad.return
            (if rp_ret r = -1 then Some (errno_c (rp_errno r) ''udp server socket'') else None) }"

text \<open>The address to listen at, by mode. \<open>Inr None\<close> is a read through a null broadcast address.\<close>

definition configured_address :: "netlib \<Rightarrow> bool \<Rightarrow> string \<Rightarrow> u16 \<Rightarrow> sock_addr option" where
  "configured_address nl bc address port =
     (if address = [] then Some None
      else case sa_init_str nl address port None of
             (e, a) \<Rightarrow> if failed e then Some a
                      else (case sa_itf nl bc a of None \<Rightarrow> None | Some _ \<Rightarrow> Some a))"

definition unicast_address :: "netlib \<Rightarrow> u16 \<Rightarrow> udp_server \<Rightarrow> error_c + sock_addr option" where
  "unicast_address nl port s =
     (case configured_address nl False (uv_address s) port of
        None \<Rightarrow> Inr None
      | Some a0 \<Rightarrow>
          (let a1 = (if sa_len a0 = 0 \<and> snd (uv_itf s) \<noteq> 0 \<and> uv_family s \<in> {AF_INET, AF_INET6}
                     then sa_local nl (fst (uv_itf s)) (uv_family s) port else a0);
               a2 = (if sa_len a1 = 0 then sa_any (uv_family s) port else a1)
           in if sa_len a2 = 0 then Inl (errno_c EADDRNOTAVAIL []) else Inr (Some a2)))"

definition broadcast_address :: "netlib \<Rightarrow> u16 \<Rightarrow> udp_server \<Rightarrow> error_c + sock_addr option" where
  "broadcast_address nl port s =
     (case configured_address nl True (uv_address s) port of
        None \<Rightarrow> Inr None
      | Some a0 \<Rightarrow>
          (case (if sa_len a0 = 0 \<and> snd (uv_itf s) \<noteq> 0 then sa_broadcast nl (fst (uv_itf s)) port else Some a0) of
             None \<Rightarrow> Inr None
           | Some a1 \<Rightarrow>
               (let a2 = (if sa_len a1 = 0 then snd (sa_init_str nl ''<broadcast>'' port a1) else a1)
                in if sa_len a2 = 0 then Inl (errno_c EADDRNOTAVAIL []) else Inr (Some a2))))"

definition multicast_address :: "netlib \<Rightarrow> u16 \<Rightarrow> udp_server \<Rightarrow> error_c + sock_addr option" where
  "multicast_address nl port s =
     (if uv_address s = [] then Inl (errno_c EADDRNOTAVAIL ''Multicast address'')
      else case sa_init_str nl (uv_address s) port None of
             (e, a) \<Rightarrow> if failed e then Inl e else Inr (Some a))"

definition listen_address :: "netlib \<Rightarrow> u16 \<Rightarrow> udp_mode \<Rightarrow> udp_server \<Rightarrow> error_c + sock_addr option" where
  "listen_address nl port mode s =
     (case mode of UNICAST \<Rightarrow> unicast_address nl port s | BROADCAST \<Rightarrow> broadcast_address nl port s
      | MULTICAST \<Rightarrow> multicast_address nl port s)"

text \<open>\<open>define_port\<close>: ports are drawn until one is not claimed.\<close>

definition define_port_step :: "env \<Rightarrow> sock_addr \<Rightarrow> (udp_server, u16 option) state" where
  "define_port_step env a =
     do { s \<leftarrow> gets id;
          r \<leftarrow> svc env (RandomPort (fst (uv_ports s)) (snd (uv_ports s)));
          c \<leftarrow> svc env (PortClaimed (of_int (rp_ret r)) a);
          State_Monad.return (if rp_ret c \<noteq> 0 then None else Some (of_int (rp_ret r))) }"

definition define_port :: "env \<Rightarrow> sock_addr \<Rightarrow> udp_server \<Rightarrow> (u16 \<times> udp_server) option" where
  "define_port env a = loop_until (define_port_step env a)"

text \<open>Socket options and binding, by mode; the address with the port the kernel chose.\<close>

definition unicast_bind :: "env \<Rightarrow> int \<Rightarrow> sock_addr \<Rightarrow> (udp_server, error_c \<times> sock_addr) state" where
  "unicast_bind env fd a =
     do { e \<leftarrow> sa_bind env a fd;
          (if \<not> failed e \<and> sa_port a = 0
           then do { r \<leftarrow> sys env (GetSockName fd);
                     State_Monad.return (e, sa_init_fd (rp_ret r) (rp_data r) a) }
           else State_Monad.return (e, a)) }"

definition broadcast_bind :: "env \<Rightarrow> int \<Rightarrow> sock_addr \<Rightarrow> (udp_server, error_c \<times> sock_addr) state" where
  "broadcast_bind env fd a =
     do { e \<leftarrow> call env (SetSockOpt fd ReuseAddr) ''reuseaddr'';
          (if failed e then State_Monad.return (e, a)
           else do { b \<leftarrow> sa_bind env a fd; State_Monad.return (b, a) }) }"

definition reuse_port :: "env \<Rightarrow> int \<Rightarrow> (udp_server, error_c) state" where
  "reuse_port env fd =
     do { e \<leftarrow> call env (SetSockOpt fd ReusePort) ''reuse port'';
          (if failed e then call env (SetSockOpt fd ReuseAddr) ''multicast reuseaddr''
           else State_Monad.return e) }"

definition multicast_group :: "sock_addr \<Rightarrow> bytes" where
  "multicast_group a =
     (if sa_family a = AF_INET then sa_ip4 a else (case sa_ip6 a of None \<Rightarrow> [] | Some ip \<Rightarrow> ip))"

definition multicast_bind :: "env \<Rightarrow> int \<Rightarrow> u16 \<Rightarrow> sock_addr \<Rightarrow> (udp_server, error_c \<times> sock_addr) state" where
  "multicast_bind env fd port a =
     do { e \<leftarrow> reuse_port env fd;
          (if failed e then State_Monad.return (e, a)
           else do {
             b \<leftarrow> sa_bind env (sa_any (sa_family a) port) fd;
             (if failed b then State_Monad.return (b, a)
              else do {
                itf \<leftarrow> gets uv_itf;
                m \<leftarrow> call env (SetSockOpt fd (AddMembership (multicast_group a) (snd itf))) ''add membership'';
                State_Monad.return (m, a) }) }) }"

definition UdpServer_bind ::
    "env \<Rightarrow> udp_mode \<Rightarrow> u16 \<Rightarrow> sock_addr \<Rightarrow> (udp_server, error_c \<times> sock_addr) state" where
  "UdpServer_bind env mode port a =
     do { fd \<leftarrow> gets uv_fd;
          (case mode of
             UNICAST \<Rightarrow> unicast_bind env fd a
           | BROADCAST \<Rightarrow> broadcast_bind env fd a
           | MULTICAST \<Rightarrow> multicast_bind env fd port a) }"

text \<open>The end of \<open>setup_fd\<close>: bound, or closed by the watcher.\<close>

definition UdpServer_settle ::
    "env \<Rightarrow> udp_mode \<Rightarrow> u16 \<Rightarrow> sock_addr \<Rightarrow> (udp_server, error_c \<times> sock_addr) state" where
  "UdpServer_settle env mode port a =
     do { x \<leftarrow> UdpServer_bind env mode port a;
          whenM (failed (fst x)) (UdpServer_close env);
          State_Monad.return x }"

text \<open>\<open>setup_fd\<close>; \<open>None\<close> when no port is ever free.\<close>

definition UdpServer_give_up :: "env \<Rightarrow> error_c \<Rightarrow> (udp_server, error_c \<times> sock_addr) state" where
  "UdpServer_give_up env e = do { UdpServer_close env; State_Monad.return (e, None) }"

definition UdpServer_listen ::
    "netlib \<Rightarrow> env \<Rightarrow> u16 \<Rightarrow> udp_mode \<Rightarrow> udp_server \<Rightarrow> ((error_c \<times> sock_addr) \<times> udp_server) option" where
  "UdpServer_listen nl env port mode s =
     (case listen_address nl port mode s of
        Inl e \<Rightarrow> Some (run_state (UdpServer_give_up env e) s)
      | Inr None \<Rightarrow> Some (run_state (do { fault; UdpServer_give_up env no_error }) s)
      | Inr (Some a) \<Rightarrow>
          (if port = 0 \<and> mode \<noteq> UNICAST
           then (case define_port env a s of
                   None \<Rightarrow> None
                 | Some (p, t) \<Rightarrow> Some (run_state (UdpServer_settle env mode p (sa_set_port p a)) t))
           else Some (run_state (UdpServer_settle env mode port a) s)))"

definition UdpServer_setup_fd ::
    "netlib \<Rightarrow> env \<Rightarrow> u16 \<Rightarrow> udp_mode \<Rightarrow> udp_server \<Rightarrow> ((error_c \<times> sock_addr) \<times> udp_server) option" where
  "UdpServer_setup_fd nl env port mode s =
     (case run_state (UdpServer_open env) s of
        (Some e, t) \<Rightarrow> Some ((e, None), t)
      | (None, t) \<Rightarrow> UdpServer_listen nl env port mode t)"

section \<open>The service\<close>

definition UdpServer_register ::
    "env \<Rightarrow> string \<Rightarrow> family \<Rightarrow> u16 \<Rightarrow> (string \<times> string) list \<Rightarrow> (udp_server, unit) state" where
  "UdpServer_register env name f port txt =
     do { itf \<leftarrow> gets uv_itf;
          e \<leftarrow> group_call env (GroupAdd name f (if snd itf \<noteq> 0 then snd itf else -1) port txt)
                 ''avahi_entry_group_add_service'';
          b \<leftarrow> on_error env e [];
          e2 \<leftarrow> group_call env (if b then GroupReset else GroupCommit) ''avahi_entry_group_commit'';
          on_error env e2 [];
          State_Monad.return () }"

definition UdpServer_create_service ::
    "netlib \<Rightarrow> env \<Rightarrow> udp_mode \<Rightarrow> sock_addr \<Rightarrow> (udp_server, unit) state" where
  "UdpServer_create_service nl env mode a =
     do { s \<leftarrow> gets id;
          (case mode of
             UNICAST \<Rightarrow> UdpServer_register env (uv_name s) (sa_family a) (sa_port a) []
           | BROADCAST \<Rightarrow>
               UdpServer_register env (sa_format nl REG_SERVICE ''-claim'' a) AF_INET (sa_port a)
                 [(''endpoint'', uv_name s), (''broadcast'', sa_format nl IPADDR_ONLY [] a)]
           | MULTICAST \<Rightarrow>
               UdpServer_register env (sa_format nl REG_SERVICE ''-claim'' a) (sa_family a) (sa_port a)
                 [(''endpoint'', uv_name s), (''multicast'', sa_format nl IPADDR_ONLY [] a),
                  (''ttl'', show_nat (unat (uv_ttl s)))]) }"

text \<open>\<open>init\<close> after the socket is set up.\<close>

definition UdpServer_announce ::
    "env \<Rightarrow> u16 \<Rightarrow> udp_mode \<Rightarrow> sock_addr \<Rightarrow> (udp_server, error_c) state" where
  "UdpServer_announce env port mode a =
     do { z \<leftarrow> svc env HasZeroconf;
          s \<leftarrow> gets id;
          (if rp_ret z = 0 then poll_add env (uv_fd s) (EPOLLIN OR EPOLLOUT OR EPOLLET)
           else do {
             svc env (if uv_group s = None then GroupNew else GroupReset);
             modify (\<lambda>s. s\<lparr>uv_group := Some (port, mode, a)\<rparr>);
             svc env GroupCreate;
             whenM (\<not> uv_pollable s) (do {
               modify (\<lambda>s. s\<lparr>uv_pollable := True\<rparr>);
               svc env (WatchServices SOCK_DGRAM);
               State_Monad.return () });
             State_Monad.return no_error }) }"

definition UdpServer_init ::
    "netlib \<Rightarrow> env \<Rightarrow> u16 \<Rightarrow> udp_mode \<Rightarrow> udp_server \<Rightarrow> (error_c \<times> udp_server) option" where
  "UdpServer_init nl env port mode s =
     (case run_state (svc env HasZeroconf) s of
        (z, t) \<Rightarrow>
          if rp_ret z = 0 \<and> port = 0 then Some (errno_c EINVAL ''Zero port'', t)
          else (case UdpServer_setup_fd nl env port mode t of
                  None \<Rightarrow> None
                | Some ((e, a), u) \<Rightarrow>
                    if failed e then Some (e, u)
                    else Some (run_state (UdpServer_announce env port mode a) u)))"

definition UdpServer_on_group_failure :: "env \<Rightarrow> error_c \<Rightarrow> (udp_server, unit) state" where
  "UdpServer_on_group_failure env ec = do { on_error env ec []; State_Monad.return () }"

definition UdpServer_on_established :: "env \<Rightarrow> (udp_server, unit) state" where
  "UdpServer_on_established env =
     do { fd \<leftarrow> gets uv_fd;
          e \<leftarrow> poll_add env fd (EPOLLIN OR EPOLLOUT OR EPOLLET);
          on_error env e [];
          State_Monad.return () }"

definition UdpServer_on_create :: "netlib \<Rightarrow> env \<Rightarrow> (udp_server, unit) state" where
  "UdpServer_on_create nl env =
     do { g \<leftarrow> gets uv_group;
          (case g of None \<Rightarrow> State_Monad.return ()
           | Some (port, mode, a) \<Rightarrow> UdpServer_create_service nl env mode a) }"

text \<open>After a collision a new socket is set up for the same port and mode.\<close>

definition UdpServer_on_collision :: "netlib \<Rightarrow> env \<Rightarrow> udp_server \<Rightarrow> udp_server option" where
  "UdpServer_on_collision nl env s =
     (case run_state (svc env GroupReset) s of
        (_, t) \<Rightarrow>
          (case uv_group t of
             None \<Rightarrow> Some t
           | Some (port, mode, _) \<Rightarrow>
               (case UdpServer_init nl env port mode t of
                  None \<Rightarrow> None
                | Some (e, u) \<Rightarrow> exec (on_error env e []) u)))"

text \<open>The configuration. The statistics settings are stored and never looked at. An exception ends
  the configuration of the endpoint; what was set before it is not kept here.\<close>

definition yaml_u16 :: "(string \<Rightarrow> int option) \<Rightarrow> yaml \<Rightarrow> u16 res" where
  "yaml_u16 as_int y =
     (if is_defined y then bind_res (as_number as_int y) (\<lambda>n. Inr (of_int n)) else Inr 0)"

definition udp_port_range ::
    "(string \<Rightarrow> int option) \<Rightarrow> yaml \<Rightarrow> (u16 \<times> u16) option res" where
  "udp_port_range as_int cfg =
     bind_res (yaml_at ''ports'' cfg) (\<lambda>ports.
       if \<not> is_defined ports then Inr None
       else bind_res (yaml_at ''min'' ports) (\<lambda>lo. bind_res (yaml_at ''max'' ports) (\<lambda>hi.
         if is_defined lo \<and> is_defined hi
         then bind_res (yaml_u16 as_int lo) (\<lambda>a. bind_res (yaml_u16 as_int hi) (\<lambda>b. Inr (Some (a, b))))
         else Inr None)))"

definition UdpServer_configure ::
    "netlib \<Rightarrow> (string \<Rightarrow> int option) \<Rightarrow> yaml \<Rightarrow> udp_server \<Rightarrow> udp_server res" where
  "UdpServer_configure nl as_int cfg s =
     bind_res (yaml_stat cfg (uv_stat_period s, uv_stat_tags s)) (\<lambda>(period, tags).
     bind_res (bind_res (yaml_at ''family'' cfg) address_family) (\<lambda>f.
     bind_res (opt_string ''interface'' cfg) (\<lambda>itf.
     bind_res (opt_string ''address'' cfg) (\<lambda>addr.
     bind_res (yaml_at ''ttl'' cfg) (\<lambda>ttl.
     bind_res (if is_defined ttl then as_number as_int ttl else Inr (uint (uv_ttl s))) (\<lambda>t.
     bind_res (udp_port_range as_int cfg) (\<lambda>range.
       Inr (s\<lparr>uv_stat_period := period, uv_stat_tags := tags,
              uv_itf := (if itf \<noteq> [] then itf_from_str nl itf else uv_itf s),
              uv_family := (if itf \<noteq> [] then default_inet f else uv_family s),
              uv_address := (if addr \<noteq> [] then addr else uv_address s), uv_ttl := of_int t,
              uv_ports := (case range of None \<Rightarrow> uv_ports s | Some r \<Rightarrow> r)\<rparr>))))))))"

definition UdpServer_init_yaml ::
    "netlib \<Rightarrow> env \<Rightarrow> (string \<Rightarrow> int option) \<Rightarrow> yaml \<Rightarrow> udp_server \<Rightarrow> (error_c res \<times> udp_server) option" where
  "UdpServer_init_yaml nl env as_int cfg s =
     (case bind_res (UdpServer_configure nl as_int cfg s) (\<lambda>t.
             bind_res (bind_res (yaml_at ''port'' cfg) (yaml_u16 as_int)) (\<lambda>p.
               bind_res (bind_res (yaml_at ''mode'' cfg) udp_type) (\<lambda>m. Inr (t, p, m)))) of
        Inl x \<Rightarrow> Some (Inl x, s)
      | Inr (t, p, m) \<Rightarrow> map_option (\<lambda>(e, u). (Inr e, u)) (UdpServer_init nl env p m t))"

section \<open>Events\<close>

text \<open>Who sent a datagram: its service, or else its address.\<close>

definition UdpServer_peer_name :: "netlib \<Rightarrow> env \<Rightarrow> sock_addr \<Rightarrow> (udp_server, string) state" where
  "UdpServer_peer_name nl env a =
     do { z \<leftarrow> svc env HasZeroconf;
          name \<leftarrow> (if rp_ret z \<noteq> 0
                  then do { n \<leftarrow> svc env (QueryServiceName a SOCK_DGRAM); State_Monad.return (rp_name n) }
                  else State_Monad.return []);
          State_Monad.return (if name = [] then sa_format nl REG_SERVICE [] a else name) }"

text \<open>The stream of a peer. A new one is announced, and expires if the user does not keep it.\<close>

definition UdpServer_stream :: "env \<Rightarrow> string \<Rightarrow> sock_addr \<Rightarrow> (udp_server, unit) state" where
  "UdpServer_stream env name a =
     do { s \<leftarrow> gets id;
          whenM (stream_of name (uv_streams s) = None) (do {
            svc env (RegisterReport ''tcpcli'' 1000000000);
            modify (\<lambda>s. s\<lparr>uv_streams := om_put name (Some (UDPServerStream_new (uv_fd s) a)) (uv_streams s)\<rparr>);
            u \<leftarrow> ask_user env (OnConnect name);
            whenM (rp_ret u \<noteq> 0) (modify (\<lambda>s. s\<lparr>uv_streams := om_put name None (uv_streams s)\<rparr>)) }) }"

text \<open>What was read goes to the stream, through a null pointer if it has expired.\<close>

definition UdpServer_deliver :: "env \<Rightarrow> string \<Rightarrow> bytes \<Rightarrow> (udp_server, handled option) state" where
  "UdpServer_deliver env name buf =
     do { s \<leftarrow> gets id;
          (if \<not> io_exists s then State_Monad.return (Some STOP)
           else if stream_of name (uv_streams s) = None
           then do { fault; State_Monad.return (Some STOP) }
           else do {
             UDPServerStream_on_read env name buf;
             alive \<leftarrow> gets io_exists;
             State_Monad.return (if alive then None else Some STOP) }) }"

definition UdpServer_pass :: "netlib \<Rightarrow> env \<Rightarrow> sock_addr \<Rightarrow> bytes \<Rightarrow> (udp_server, handled option) state" where
  "UdpServer_pass nl env a buf =
     do { name \<leftarrow> UdpServer_peer_name nl env a;
          UdpServer_stream env name a;
          UdpServer_deliver env name buf }"

definition UdpServer_receive :: "netlib \<Rightarrow> env \<Rightarrow> int \<Rightarrow> int \<Rightarrow> (udp_server, handled option) state" where
  "UdpServer_receive nl env fd sz =
     do { d \<leftarrow> sys env (RecvFrom fd sz);
          (if rp_ret d < 0
           then (if rp_errno d \<noteq> EAGAIN
                 then do { on_error env (errno_c (rp_errno d) []) ''udp recvfrom''; State_Monad.return None }
                 else State_Monad.return (Some HANDLED))
           else UdpServer_pass nl env (rp_addr d) (rp_data d)) }"

definition UdpServer_read_step :: "netlib \<Rightarrow> env \<Rightarrow> (udp_server, handled option) state" where
  "UdpServer_read_step nl env =
     do { fd \<leftarrow> gets uv_fd;
          r \<leftarrow> sys env (Fionread fd);
          (if failed (to_errno_c (rp_ret r) (rp_errno r) ''udp ioctl'')
           then do {
             on_error env (to_errno_c (rp_ret r) (rp_errno r) ''udp ioctl'') ''Query datagram size error'';
             State_Monad.return None }
           else if rp_size r = 0 then State_Monad.return (Some HANDLED)
           else UdpServer_receive nl env fd (rp_size r)) }"

definition UdpServer_epollIN :: "netlib \<Rightarrow> env \<Rightarrow> udp_server \<Rightarrow> (handled \<times> udp_server) option" where
  "UdpServer_epollIN nl env = loop_until (UdpServer_read_step nl env)"

text \<open>\<open>epollOUT\<close> makes the streams writeable, in the order of their names.\<close>

fun UdpServer_wake :: "env \<Rightarrow> string list \<Rightarrow> (udp_server, handled) state" where
  "UdpServer_wake env [] = State_Monad.return HANDLED"
| "UdpServer_wake env (name # names) =
     do { s \<leftarrow> gets id;
          (case stream_of name (uv_streams s) of
             None \<Rightarrow> State_Monad.return ()
           | Some us \<Rightarrow>
               whenM (\<not> us_writeable us) (do {
                 modify (\<lambda>s. s\<lparr>uv_streams := om_put name (Some (us\<lparr>us_writeable := True\<rparr>)) (uv_streams s)\<rparr>);
                 callback env (OnStreamWriteable name) }));
          alive \<leftarrow> gets io_exists;
          (if alive then UdpServer_wake env names else State_Monad.return STOP) }"

definition UdpServer_epollOUT :: "env \<Rightarrow> (udp_server, handled) state" where
  "UdpServer_epollOUT env = do { m \<leftarrow> gets uv_streams; UdpServer_wake env (map fst m) }"

definition UdpServer_svc_removed :: "env \<Rightarrow> string \<Rightarrow> (udp_server, unit) state" where
  "UdpServer_svc_removed env name =
     do { m \<leftarrow> gets uv_streams;
          (case stream_of name m of
             None \<Rightarrow> State_Monad.return ()
           | Some us \<Rightarrow> do {
               UDPServerStream_on_close env name us;
               modify (\<lambda>s. s\<lparr>uv_streams := om_del name (uv_streams s)\<rparr>) }) }"

fun UdpServer_close_streams :: "env \<Rightarrow> string list \<Rightarrow> (udp_server, unit) state" where
  "UdpServer_close_streams env [] = State_Monad.return ()"
| "UdpServer_close_streams env (name # names) =
     do { m \<leftarrow> gets uv_streams;
          (case stream_of name m of None \<Rightarrow> State_Monad.return () | Some us \<Rightarrow> UDPServerStream_on_close env name us);
          UdpServer_close_streams env names }"

definition UdpServer_destroy :: "env \<Rightarrow> (udp_server, unit) state" where
  "UdpServer_destroy env =
     do { modify (\<lambda>s. s\<lparr>io_exists := False\<rparr>);
          fd \<leftarrow> gets uv_fd;
          whenM (fd \<noteq> -1) (do {
            poll_del env fd;
            m \<leftarrow> gets uv_streams;
            UdpServer_close_streams env (map fst m);
            e \<leftarrow> call env (Close fd) ''close'';
            on_error env e [];
            modify (\<lambda>s. s\<lparr>uv_fd := -1\<rparr>) }) }"

datatype udp_server_event =
    UvInit u16 udp_mode | UvIn | UvOut | UvGroupCreate | UvGroupCollision | UvGroupEstablished
  | UvGroupFailure error_c | UvRemoved string | UvWrite string bytes | UvForget string | UvDestroy

fun UdpServer_event :: "netlib \<Rightarrow> env \<Rightarrow> udp_server_event \<Rightarrow> udp_server \<Rightarrow> udp_server option" where
  "UdpServer_event nl env (UvInit p m) s = map_option snd (UdpServer_init nl env p m s)"
| "UdpServer_event nl env UvIn s = map_option snd (UdpServer_epollIN nl env s)"
| "UdpServer_event nl env UvOut s = exec (UdpServer_epollOUT env) s"
| "UdpServer_event nl env UvGroupCreate s = exec (UdpServer_on_create nl env) s"
| "UdpServer_event nl env UvGroupCollision s = UdpServer_on_collision nl env s"
| "UdpServer_event nl env UvGroupEstablished s = exec (UdpServer_on_established env) s"
| "UdpServer_event nl env (UvGroupFailure ec) s = exec (UdpServer_on_group_failure env ec) s"
| "UdpServer_event nl env (UvRemoved name) s = exec (UdpServer_svc_removed env name) s"
| "UdpServer_event nl env (UvWrite name buf) s =
     (case stream_of name (uv_streams s) of None \<Rightarrow> Some s
      | Some us \<Rightarrow> exec (UDPServerStream_write env name us buf) s)"
| "UdpServer_event nl env (UvForget name) s = Some (s\<lparr>uv_streams := om_put name None (uv_streams s)\<rparr>)"
| "UdpServer_event nl env UvDestroy s = exec (UdpServer_destroy env) s"

section \<open>Descriptors\<close>

abbreviation uv_own :: "udp_server \<Rightarrow> bool" where
  "uv_own s \<equiv> owns (uv_fd s) (io_trace s)"

lemma uv_close_own [keeps_intros]: "keeps uv_own (UdpServer_close env)"
proof (rule keepsI)
  fix s assume "uv_own s"
  then show "after (UdpServer_close env) (\<lambda>_. uv_own) s"
    by (cases "uv_fd s = -1") (simp_all add: UdpServer_close_def after_simps owns_simps)
qed

lemma uv_open_own [keeps_intros]: "keeps uv_own (UdpServer_open env)"
proof (rule keepsI)
  fix s assume "uv_own s"
  then show "after (UdpServer_open env) (\<lambda>_. uv_own) s"
    by (cases "uv_fd s = -1")
       (simp_all add: UdpServer_open_def UdpServer_close_def after_simps after_poll owns_def split: if_splits)
qed

lemma uv_settle_own [keeps_intros]: "keeps uv_own (UdpServer_settle env mode port a)"
  unfolding UdpServer_settle_def UdpServer_bind_def unicast_bind_def broadcast_bind_def multicast_bind_def
    reuse_port_def
  by (cases mode) (simp_all, (intro keeps_intros; simp add: owns_simps)+)

lemma uv_give_up_own [keeps_intros]: "keeps uv_own (UdpServer_give_up env e)"
  unfolding UdpServer_give_up_def by (intro keeps_intros)

lemma uv_define_port_own: "keeps uv_own (define_port_step env a)"
  unfolding define_port_step_def by (intro keeps_intros; simp add: owns_simps)

lemma uv_listen_own:
  assumes "UdpServer_listen nl env port mode s = Some (x, t)" "uv_own s"
  shows "uv_own t"
proof (cases "listen_address nl port mode s")
  case (Inl e)
  with assms keeps_run [OF uv_give_up_own, of s env e] show ?thesis
    by (auto simp: UdpServer_listen_def)
next
  case (Inr oa)
  show ?thesis
  proof (cases oa)
    case None
    have "keeps uv_own (do { fault; UdpServer_give_up env no_error })"
      by (intro keeps_intros; simp)
    from keeps_run [OF this, of s] assms Inr None show ?thesis
      by (auto simp: UdpServer_listen_def)
  next
    case (Some a)
    show ?thesis
    proof (cases "port = 0 \<and> mode \<noteq> UNICAST")
      case True
      then obtain p u where d: "define_port env a s = Some (p, u)"
        using assms(1) Inr Some by (auto simp: UdpServer_listen_def split: option.splits)
      have "uv_own u"
        by (rule loop_until_keeps [OF d [unfolded define_port_def] uv_define_port_own assms(2)])
      from keeps_run [OF uv_settle_own this, of env mode p "sa_set_port p a"] assms(1) Inr Some True d
      show ?thesis by (auto simp: UdpServer_listen_def)
    next
      case False
      from keeps_run [OF uv_settle_own assms(2), of env mode port a] assms(1) Inr Some False
      show ?thesis by (auto simp: UdpServer_listen_def)
    qed
  qed
qed

lemma uv_setup_own:
  "UdpServer_setup_fd nl env port mode s = Some (x, t) \<Longrightarrow> uv_own s \<Longrightarrow> uv_own t"
  by (auto simp: UdpServer_setup_fd_def split: prod.splits option.splits
      dest: uv_listen_own keepsD [OF uv_open_own])

lemma uv_announce_own [keeps_intros]: "keeps uv_own (UdpServer_announce env port mode a)"
  unfolding UdpServer_announce_def by (intro keeps_intros; simp add: owns_simps)

lemma uv_svc_own [keeps_intros]: "keeps uv_own (svc env HasZeroconf)" "keeps uv_own (svc env GroupReset)"
  by (intro keeps_intros; simp add: owns_simps)+

lemma uv_init_own:
  "UdpServer_init nl env port mode s = Some (e, t) \<Longrightarrow> uv_own s \<Longrightarrow> uv_own t"
  by (auto simp: UdpServer_init_def split: prod.splits option.splits if_splits
      dest: keepsD [OF uv_svc_own(1)] uv_setup_own keepsD [OF uv_announce_own])

lemma uv_collision_own:
  "UdpServer_on_collision nl env s = Some t \<Longrightarrow> uv_own s \<Longrightarrow> uv_own t"
  by (auto simp: UdpServer_on_collision_def split: prod.splits option.splits
      dest: keepsD [OF uv_svc_own(2)] uv_init_own elim!: exec_keeps intro!: keeps_intros simp: owns_simps)

lemma uv_stream_ops_own [keeps_intros]:
  "keeps uv_own (UDPServerStream_on_read env nm buf)" "keeps uv_own (UDPServerStream_on_close env name us)"
  "keeps uv_own (UDPServerStream_write env name us buf)"
  unfolding UDPServerStream_on_read_def UDPServerStream_on_close_def UDPServerStream_write_def
  by (intro keeps_intros; simp add: owns_simps)+

lemma uv_read_own: "keeps uv_own (UdpServer_read_step nl env)"
  unfolding UdpServer_read_step_def UdpServer_receive_def UdpServer_pass_def UdpServer_peer_name_def UdpServer_stream_def
    UdpServer_deliver_def
  by (intro keeps_intros; simp add: owns_simps)

lemma uv_wake_own [keeps_intros]: "keeps uv_own (UdpServer_wake env names)"
  by (induction names) (simp_all, (intro keeps_intros; simp add: owns_simps)+)

lemma uv_close_streams_keeps [keeps_intros]: "keeps uv_own (UdpServer_close_streams env names)"
  by (induction names) (simp_all, (intro keeps_intros; simp add: owns_simps)+)

lemma uv_register_own [keeps_intros]: "keeps uv_own (UdpServer_register env name f port txt)"
  unfolding UdpServer_register_def by (intro keeps_intros; simp add: owns_simps)

lemma uv_create_service_own [keeps_intros]: "keeps uv_own (UdpServer_create_service nl env mode a)"
  unfolding UdpServer_create_service_def by (cases mode) (simp_all, (intro keeps_intros)+)

lemma uv_handlers_own [keeps_intros]:
  "keeps uv_own (UdpServer_epollOUT env)" "keeps uv_own (UdpServer_on_create nl env)"
  "keeps uv_own (UdpServer_on_established env)" "keeps uv_own (UdpServer_on_group_failure env ec)"
  "keeps uv_own (UdpServer_svc_removed env name)"
  unfolding UdpServer_epollOUT_def UdpServer_on_create_def UdpServer_on_established_def
    UdpServer_on_group_failure_def UdpServer_svc_removed_def
  by (intro keeps_intros; simp add: owns_simps)+

lemma uv_on_close_fd: "keeps (\<lambda>s. uv_fd s = d \<and> owns d (io_trace s)) (UDPServerStream_on_close env name us)"
  unfolding UDPServerStream_on_close_def by (intro keeps_intros; simp add: owns_simps)

lemma uv_close_streams_fd: "keeps (\<lambda>s. uv_fd s = d \<and> owns d (io_trace s)) (UdpServer_close_streams env names)"
  by (induction names) (simp_all, (intro keeps_intros uv_on_close_fd)+)

lemma uv_shut_own:
  "leads (\<lambda>s. uv_fd s = d \<and> owns d (io_trace s)) uv_own
     (do { e \<leftarrow> call env (Close d) ''close''; on_error env e []; modify (\<lambda>s. s\<lparr>uv_fd := -1\<rparr>) })"
  by (rule leadsI) (simp add: after_simps owns_simps report_action_def)

lemma uv_destroy_own [keeps_intros]: "keeps uv_own (UdpServer_destroy env)"
proof (rule keepsI)
  fix s assume own: "uv_own s"
  show "after (UdpServer_destroy env) (\<lambda>_. uv_own) s"
  proof (cases "uv_fd s = -1")
    case False
    have "leads (\<lambda>s. uv_fd s = d \<and> owns d (io_trace s)) uv_own
        (do { poll_del env d; m \<leftarrow> gets uv_streams; UdpServer_close_streams env (map fst m);
              e \<leftarrow> call env (Close d) ''close''; on_error env e []; modify (\<lambda>s. s\<lparr>uv_fd := -1\<rparr>) })" for d
      by (rule leads_first, (intro keeps_intros; simp add: owns_simps), rule leads_first, rule keeps_gets,
          rule leads_first, rule uv_close_streams_fd, rule uv_shut_own)
    then have "after (do { poll_del env d; m \<leftarrow> gets uv_streams; UdpServer_close_streams env (map fst m);
          e \<leftarrow> call env (Close d) ''close''; on_error env e []; modify (\<lambda>s. s\<lparr>uv_fd := -1\<rparr>) }) (\<lambda>_. uv_own) t"
      if "uv_fd t = d" "owns d (io_trace t)" for d t
      using that by (simp add: leads_def)
    from this [of "s\<lparr>io_exists := False\<rparr>" "uv_fd s"] False own show ?thesis
      unfolding UdpServer_destroy_def
      by (simp add: after_bind [of "modify _"] after_bind [of "gets _"] after_modify after_gets whenM_def)
  qed (use own in \<open>simp add: UdpServer_destroy_def after_simps\<close>)
qed

lemma uv_event_own: "uv_own s \<Longrightarrow> UdpServer_event nl env e s = Some t \<Longrightarrow> uv_own t"
  by (cases e)
     (auto elim!: exec_keeps simp: UdpServer_epollIN_def intro!: keeps_intros split: option.splits
        intro: loop_until_keeps [OF _ uv_read_own] uv_init_own uv_collision_own)

interpretation uv: descriptor_owner "UdpServer_event nl env" uv_fd io_trace
  by unfold_locales (rule uv_event_own)

section \<open>Datagrams\<close>

text \<open>A socket at which the datagrams \<open>ds\<close>, each with its sender, wait, and a user who keeps the streams: the
  size the kernel tells is that of the first datagram that waits. The directory of services, if there
  is one, knows senders by the names \<open>dir\<close>.\<close>

fun receives :: "action \<Rightarrow> bool" where
  "receives (Sys (RecvFrom fd n)) = True"
| "receives _ = False"

definition taken :: "trace \<Rightarrow> nat" where
  "taken tr = length (filter (receives \<circ> fst) tr)"

text \<open>What the users were handed: the name of a stream and a datagram.\<close>

fun read_data :: "action \<times> reply \<Rightarrow> (string \<times> bytes) list" where
  "read_data (Up (OnStreamRead name buf), r) = [(name, buf)]"
| "read_data _ = []"

definition delivered :: "trace \<Rightarrow> (string \<times> bytes) list" where
  "delivered tr = concat (map read_data (rev tr))"

type_synonym datagram = "sock_addr \<times> bytes"

definition datagrams_wait :: "bool \<Rightarrow> (sock_addr \<Rightarrow> string) \<Rightarrow> datagram list \<Rightarrow> env \<Rightarrow> bool" where
  "datagrams_wait z dir ds env \<longleftrightarrow>
     (\<forall>tr fd. rp_ret (env tr (Sys (Fionread fd))) = 0 \<and>
        rp_size (env tr (Sys (Fionread fd))) = (if taken tr < length ds then int (length (snd (ds ! taken tr))) else 0)) \<and>
     (\<forall>tr fd n. taken tr < length ds \<longrightarrow>
        rp_ret (env tr (Sys (RecvFrom fd n))) = int (length (snd (ds ! taken tr))) \<and>
        rp_addr (env tr (Sys (RecvFrom fd n))) = fst (ds ! taken tr) \<and>
        rp_data (env tr (Sys (RecvFrom fd n))) = snd (ds ! taken tr)) \<and>
     (\<forall>tr u. \<not> rp_gone (env tr (Up u)) \<and> rp_ret (env tr (Up u)) = 0) \<and>
     (\<forall>tr. (rp_ret (env tr (Svc HasZeroconf)) \<noteq> 0) = z) \<and>
     (\<forall>tr a. z \<longrightarrow> rp_name (env tr (Svc (QueryServiceName a SOCK_DGRAM))) = dir a)"

text \<open>The stream a datagram is for.\<close>

definition sender_name :: "netlib \<Rightarrow> bool \<Rightarrow> (sock_addr \<Rightarrow> string) \<Rightarrow> sock_addr \<Rightarrow> string" where
  "sender_name nl z dir a = (if z \<and> dir a \<noteq> [] then dir a else sa_format nl REG_SERVICE [] a)"

abbreviation for_stream :: "netlib \<Rightarrow> bool \<Rightarrow> (sock_addr \<Rightarrow> string) \<Rightarrow> datagram \<Rightarrow> string \<times> bytes" where
  "for_stream nl z dir d \<equiv> (sender_name nl z dir (fst d), snd d)"

lemma taken_simps [simp]:
  "taken [] = 0" "taken ((a, r) # tr) = (if receives a then Suc (taken tr) else taken tr)"
  by (simp_all add: taken_def)

lemma delivered_simps [simp]:
  "delivered [] = []" "delivered ((a, r) # tr) = delivered tr @ read_data (a, r)"
  by (simp_all add: delivered_def)

text \<open>Where the loop is: so many datagrams taken, this delivered, the server alive.\<close>

definition uv_at :: "nat \<Rightarrow> (string \<times> bytes) list \<Rightarrow> udp_server \<Rightarrow> bool" where
  "uv_at k out s \<longleftrightarrow> taken (io_trace s) = k \<and> delivered (io_trace s) = out \<and> io_exists s \<and> \<not> io_fault s"

lemma stream_of_put [simp]: "stream_of name (om_put name w m) = w"
  by (simp add: stream_of_def omap_simps)

lemma uv_peer_at:
  assumes "datagrams_wait z dir ds env" "uv_at k out s"
  shows "after (UdpServer_peer_name nl env a) (\<lambda>name t. name = sender_name nl z dir a \<and> uv_at k out t) s"
  using assms
  by (auto simp: UdpServer_peer_name_def after_simps uv_at_def datagrams_wait_def sender_name_def)

lemma uv_stream_at:
  assumes "datagrams_wait z dir ds env" "uv_at k out s"
  shows "after (UdpServer_stream env name a)
    (\<lambda>_ t. uv_at k out t \<and> stream_of name (uv_streams t) \<noteq> None) s"
  using assms
  by (cases "stream_of name (uv_streams s)")
     (simp_all add: UdpServer_stream_def after_simps uv_at_def datagrams_wait_def)

lemma uv_deliver_at:
  assumes "datagrams_wait z dir ds env" "uv_at k out s" "stream_of name (uv_streams s) \<noteq> None"
  shows "after (UdpServer_deliver env name buf) (\<lambda>x t. x = None \<and> uv_at k (out @ [(name, buf)]) t) s"
  using assms
  by (auto simp: UdpServer_deliver_def UDPServerStream_on_read_def after_simps uv_at_def datagrams_wait_def)

lemma uv_pass_at:
  assumes w: "datagrams_wait z dir ds env" and at: "uv_at k out s"
  shows "after (UdpServer_pass nl env a buf) (\<lambda>x t. x = None \<and> uv_at k (out @ [(sender_name nl z dir a, buf)]) t) s"
proof -
  have "after (UdpServer_stream env name a)
      (\<lambda>_. after (UdpServer_deliver env name buf) (\<lambda>x t. x = None \<and> uv_at k (out @ [(name, buf)]) t)) t"
    if "uv_at k out t" for name t
    by (rule after_mono [OF uv_stream_at [OF w that]]) (simp add: uv_deliver_at [OF w])
  then show ?thesis
    unfolding UdpServer_pass_def after_bind using uv_peer_at [OF w at, of nl a] by (elim after_mono) (simp add: after_bind)
qed

lemma uv_receive_at:
  assumes w: "datagrams_wait z dir ds env" and at: "uv_at k out s" and k: "k < length ds"
  shows "after (UdpServer_receive nl env fd n) (\<lambda>x t. x = None \<and> uv_at (Suc k) (out @ [for_stream nl z dir (ds ! k)]) t) s"
proof -
  have r: "rp_ret (env (io_trace s) (Sys (RecvFrom fd n))) = int (length (snd (ds ! k)))"
    "rp_addr (env (io_trace s) (Sys (RecvFrom fd n))) = fst (ds ! k)"
    "rp_data (env (io_trace s) (Sys (RecvFrom fd n))) = snd (ds ! k)"
    using w at k by (auto simp: datagrams_wait_def uv_at_def)
  have "uv_at (Suc k) out (s\<lparr>io_trace := (Sys (RecvFrom fd n), d) # io_trace s\<rparr>)" for d
    using at by (simp add: uv_at_def)
  then show ?thesis
    by (simp add: UdpServer_receive_def after_simps r uv_pass_at [OF w])
qed

lemma uv_read_step_at:
  assumes w: "datagrams_wait z dir ds env" and at: "uv_at k out s"
  shows "after (UdpServer_read_step nl env)
    (\<lambda>x t. if k < length ds \<and> snd (ds ! k) \<noteq> [] then x = None \<and> uv_at (Suc k) (out @ [for_stream nl z dir (ds ! k)]) t
           else x = Some HANDLED \<and> uv_at k out t) s"
proof -
  have r: "rp_ret (env (io_trace s) (Sys (Fionread fd))) = 0"
    "rp_size (env (io_trace s) (Sys (Fionread fd))) = (if k < length ds then int (length (snd (ds ! k))) else 0)" for fd
    using w at by (auto simp: datagrams_wait_def uv_at_def)
  have at': "uv_at k out (s\<lparr>io_trace := (Sys (Fionread fd), d) # io_trace s\<rparr>)" for fd d
    using at by (simp add: uv_at_def)
  show ?thesis
    using uv_receive_at [OF w at', of nl] at'
    by (auto simp: UdpServer_read_step_def after_simps r)
qed

lemma uv_read_all:
  assumes w: "datagrams_wait z dir ds env" and at: "uv_at k out s"
  shows "\<exists>t. UdpServer_epollIN nl env s = Some (HANDLED, t) \<and>
    uv_at (k + length (takeWhile (\<lambda>d. snd d \<noteq> []) (drop k ds))) (out @ map (for_stream nl z dir) (takeWhile (\<lambda>d. snd d \<noteq> []) (drop k ds))) t"
  using at
proof (induction "length ds - k" arbitrary: k out s rule: less_induct)
  case less
  obtain x u where x: "run_state (UdpServer_read_step nl env) s = (x, u)" by fastforce
  note st = after_run [OF uv_read_step_at [OF w less.prems, of nl] x]
  show ?case
  proof (cases "k < length ds \<and> snd (ds ! k) \<noteq> []")
    case True
    then have d: "drop k ds = ds ! k # drop (Suc k) ds" by (simp add: Cons_nth_drop_Suc)
    from True st have u: "x = None" "uv_at (Suc k) (out @ [for_stream nl z dir (ds ! k)]) u" by simp_all
    have "UdpServer_epollIN nl env s = UdpServer_epollIN nl env u"
      using x u(1) by (simp add: UdpServer_epollIN_def loop_until_step [of _ s])
    with less.hyps [OF _ u(2)] True d show ?thesis by auto
  next
    case False
    then have "takeWhile (\<lambda>d. snd d \<noteq> []) (drop k ds) = []"
      by (cases "k < length ds") (simp_all add: Cons_nth_drop_Suc [symmetric])
    with False st x show ?thesis
      by (auto simp: UdpServer_epollIN_def loop_until_step [of _ s])
  qed
qed

section \<open>Properties\<close>

text \<open>C29: The UDP server closes only descriptors it has, none twice, and holds exactly the one it
  stores, whatever fails while the socket is set up and however often it is set up again.\<close>

theorem udp_server_descriptors:
  "case run_events (UdpServer_event nl env) events (UdpServer_new name) of
     None \<Rightarrow> True
   | Some s \<Rightarrow> closes_held (io_trace s) \<and> held (io_trace s) = (if uv_fd s = -1 then {#} else {#uv_fd s#})"
proof -
  have "owns (uv_fd (UdpServer_new name)) (io_trace (UdpServer_new name))"
    by (simp add: UdpServer_new_def)
  then show ?thesis by (auto split: option.split dest: uv.run_owns)
qed

text \<open>C30: A readable event takes the waiting datagrams and hands each whole and in their order to the stream of
  its sender, which is called as the directory of services knows the sender or else by its address --
  up to the first empty one: its size cannot be told from an empty queue, it is never
  taken, and what waits behind it is not reached by this or any later event. The kernel is one whose calls
  do not fail; the user keeps every stream that is announced and does not destroy the server.\<close>

theorem udp_server_reads_until_empty:
  assumes "datagrams_wait z dir ds env" "io_exists s" "\<not> io_fault s"
    and "waiting = takeWhile (\<lambda>d. snd d \<noteq> []) (drop (taken (io_trace s)) ds)"
  shows "\<exists>t. UdpServer_epollIN nl env s = Some (HANDLED, t) \<and>
    delivered (io_trace t) = delivered (io_trace s) @ map (\<lambda>d. (sender_name nl z dir (fst d), snd d)) waiting \<and>
    taken (io_trace t) = taken (io_trace s) + length waiting \<and> \<not> io_fault t"
proof -
  have "uv_at (taken (io_trace s)) (delivered (io_trace s)) s"
    using assms by (simp add: uv_at_def)
  from uv_read_all [OF assms(1) this, of nl] show ?thesis by (auto simp: uv_at_def assms(4))
qed

definition queue_env :: "datagram list \<Rightarrow> env" where
  "queue_env ds tr a =
     (case a of
        Sys (Fionread fd) \<Rightarrow>
          reply_ok\<lparr>rp_size := (if taken tr < length ds then int (length (snd (ds ! taken tr))) else 0)\<rparr>
      | Sys (RecvFrom fd n) \<Rightarrow>
          (if taken tr < length ds
           then reply_ok\<lparr>rp_ret := int (length (snd (ds ! taken tr))), rp_addr := fst (ds ! taken tr), rp_data := snd (ds ! taken tr)\<rparr>
           else reply_ok\<lparr>rp_ret := -1, rp_errno := EAGAIN\<rparr>)
      | Svc HasZeroconf \<Rightarrow> reply_ok\<lparr>rp_ret := 1\<rparr>
      | Svc (QueryServiceName b k) \<Rightarrow> reply_ok\<lparr>rp_name := (if b = demo_addr then ''gcs'' else ''drone'')\<rparr>
      | _ \<Rightarrow> reply_ok)"

theorem udp_server_reads_until_empty_witness:
  "\<exists>t. UdpServer_epollIN demo_netlib (queue_env [(demo_addr, [1, 2]), (None, [3]), (demo_addr, []), (None, [4])]) (UdpServer_new ''udp'') =
       Some (HANDLED, t) \<and>
     delivered (io_trace t) = [(''gcs'', [1, 2]), (''drone'', [3])] \<and> taken (io_trace t) = 2"
proof -
  let ?dir = "\<lambda>b. if b = demo_addr then ''gcs'' else ''drone''"
  have d: "datagrams_wait True ?dir ds (queue_env ds)" for ds
    by (simp add: datagrams_wait_def queue_env_def reply_ok_def)
  have n: "None \<noteq> demo_addr" by (simp add: demo_addr_def sa_init4_def Let_def)
  from udp_server_reads_until_empty [OF d [of "[(demo_addr, [1, 2]), (None, [3]), (demo_addr, []), (None, [4])]"] _ _ refl,
      of "UdpServer_new ''udp''" demo_netlib]
  show ?thesis by (auto simp: UdpServer_new_def sender_name_def n)
qed

end
