(* ===== verification/Udp_Client.thy ===== *)
theory Udp_Client
  imports Udp_Server
begin

text \<open>
  The UDP client endpoint, \<open>src/impl/udpcli.h\<close>. It writes to one address and reads from any; its
  streams, one for each sender, only read. The map of streams tells whose stream the user keeps.
\<close>

section \<open>State\<close>

record udp_client = io +
  uk_name :: string
  uk_addr :: sock_addr
  uk_fd :: int
  uk_writeable :: bool
  uk_service :: string
  uk_itf :: "string \<times> int"
  uk_pollable :: bool
  uk_group :: "(u16 \<times> family \<times> string) option"
  uk_job :: bool                         \<comment> \<open>the timer has the handler of \<open>on_established\<close>\<close>
  uk_streams :: "(string, bool) omap"    \<comment> \<open>whether the stream is still kept\<close>

definition UdpClient_new :: "string \<Rightarrow> udp_client" where
  "UdpClient_new name =
     \<lparr>io_trace = [], io_handler = False, io_exists = True, io_fault = False, uk_name = name, uk_addr = None,
      uk_fd = -1, uk_writeable = False, uk_service = [], uk_itf = ([], 0), uk_pollable = False,
      uk_group = None, uk_job = False, uk_streams = []\<rparr>"

definition UDPClientStream_write :: "bytes \<Rightarrow> int" where
  "UDPClientStream_write buf = -1"

definition UdpClient_writeable :: "env \<Rightarrow> (udp_client, unit) state" where
  "UdpClient_writeable env =
     do { w \<leftarrow> gets uk_writeable;
          whenM (\<not> w) (do { modify (\<lambda>s. s\<lparr>uk_writeable := True\<rparr>); callback env OnWriteable }) }"

section \<open>The socket\<close>

text \<open>Socket options, up to the first that fails.\<close>

fun socket_options :: "env \<Rightarrow> int \<Rightarrow> (sockopt \<times> string) list \<Rightarrow> ('a io_scheme, error_c) state" where
  "socket_options env fd [] = State_Monad.return no_error"
| "socket_options env fd ((opt, ctx) # opts) =
     do { e \<leftarrow> call env (SetSockOpt fd opt) ctx;
          (if failed e then State_Monad.return e else socket_options env fd opts) }"

text \<open>The options of a broadcast socket, or of a multicast one: its time to live and interface
  when they are given.\<close>

definition client_options ::
    "family \<Rightarrow> bool \<Rightarrow> int option \<Rightarrow> byte \<Rightarrow> (sockopt \<times> string) list" where
  "client_options f broadcast itf ttl =
     (if broadcast then [(Broadcast, ''setsockopt(broadcast)'')]
      else case itf of
        None \<Rightarrow> []
      | Some i \<Rightarrow>
          (if ttl \<noteq> 0 then [(if f = AF_INET then MulticastTtl (unat ttl) else MulticastHops (unat ttl), ''multicast ttl'')]
           else []) @
          (if i \<noteq> 0 then [(if f = AF_INET then MulticastIf i else MulticastIf6 i, ''multicast itf'')] else []))"

text \<open>The registration of the bound socket; the descriptor stays open while it runs.\<close>

definition UdpClient_register :: "netlib \<Rightarrow> env \<Rightarrow> (udp_client, error_c) state" where
  "UdpClient_register nl env =
     do { s \<leftarrow> gets id;
          e \<leftarrow> sa_bind env (sa_any (sa_family (uk_addr s)) 0) (uk_fd s);
          (if failed e then State_Monad.return e
           else do {
             me \<leftarrow> sa_of_fd env (uk_fd s);
             svc env (if uk_group s = None then GroupNew else GroupReset);
             modify (\<lambda>s. s\<lparr>uk_group := Some (sa_port me, sa_family me,
               case sa_itf nl False me of None \<Rightarrow> [] | Some n \<Rightarrow> n)\<rparr>);
             svc env GroupCreate;
             State_Monad.return no_error }) }"

definition UdpClient_watch :: "env \<Rightarrow> (udp_client, error_c) state" where
  "UdpClient_watch env =
     do { fd \<leftarrow> gets uk_fd;
          e \<leftarrow> poll_add env fd (EPOLLIN OR EPOLLOUT OR EPOLLET);
          whenM (\<not> failed e) (UdpClient_writeable env);
          State_Monad.return e }"

text \<open>\<open>create\<close>. What the watcher finds when it is left is closed; an older descriptor is
  overwritten by the new one.\<close>

definition UdpClient_create ::
    "netlib \<Rightarrow> env \<Rightarrow> sock_addr \<Rightarrow> bool \<Rightarrow> int option \<Rightarrow> byte \<Rightarrow> (udp_client, error_c) state" where
  "UdpClient_create nl env loc broadcast itf ttl =
     do { r \<leftarrow> sys env (Socket (sa_family loc) SOCK_DGRAM);
          modify (\<lambda>s. s\<lparr>uk_fd := rp_ret r\<rparr>);
          (if rp_ret r = -1 then State_Monad.return (errno_c (rp_errno r) ''udp client socket'')
           else do {
             e \<leftarrow> socket_options env (rp_ret r) (client_options (sa_family loc) broadcast itf ttl);
             e2 \<leftarrow> (if failed e then State_Monad.return e
                   else do {
                     z \<leftarrow> svc env HasZeroconf;
                     (if rp_ret z \<noteq> 0 then UdpClient_register nl env else UdpClient_watch env) });
             whenM (failed e2) (do { sys env (Close (rp_ret r)); modify (\<lambda>s. s\<lparr>uk_fd := -1\<rparr>) });
             State_Monad.return e2 }) }"

section \<open>Addresses\<close>

text \<open>\<open>init\<close>: the result of reading the address is an error, and true when it could not be read.\<close>

definition UdpClient_init :: "netlib \<Rightarrow> env \<Rightarrow> string \<Rightarrow> u16 \<Rightarrow> family \<Rightarrow> (udp_client, error_c) state" where
  "UdpClient_init nl env host port f =
     do { s \<leftarrow> gets id;
          (case sa_init_str nl host port (uk_addr s) of
             (e, a) \<Rightarrow> do {
               modify (\<lambda>s. s\<lparr>uk_addr := a\<rparr>);
               (if failed e then UdpClient_create nl env (sa_any (sa_family a) 0) False None 0
                else svc_call env (ResolverInit host port f SOCK_DGRAM 17 0) ''address_resolving'') }) }"

definition UdpClient_on_resolved :: "netlib \<Rightarrow> env \<Rightarrow> sock_addr list \<Rightarrow> (udp_client, unit) state" where
  "UdpClient_on_resolved nl env addrs =
     (case addrs of
        [] \<Rightarrow> State_Monad.return ()
      | a # _ \<Rightarrow> do {
          s \<leftarrow> gets id;
          (case sa_assign a (uk_addr s) of
             None \<Rightarrow> fault
           | Some b \<Rightarrow> do {
               modify (\<lambda>s. s\<lparr>uk_addr := b\<rparr>);
               e \<leftarrow> UdpClient_create nl env (sa_any (sa_family b) 0) False None 0;
               on_error env e [];
               State_Monad.return () }) })"

text \<open>The description of a service: the last value of each of the keys it looks for.\<close>

fun service_keys :: "(string \<times> string) list \<Rightarrow> string \<times> string \<times> int \<Rightarrow> (string \<times> string \<times> int) res" where
  "service_keys [] acc = Inr acc"
| "service_keys ((k, v) # txt) (bc, mc, ttl) =
     (if k = ''broadcast'' then service_keys txt (v, mc, ttl)
      else if k = ''multicast'' then service_keys txt (bc, v, ttl)
      else if k = ''ttl'' then bind_res (stoi v) (\<lambda>(n, _). service_keys txt (bc, mc, n))
      else service_keys txt (bc, mc, ttl))"

text \<open>Where the service is, and how to open the socket for it. The first address is read whether
  or not there is one.\<close>

definition service_target ::
    "netlib \<Rightarrow> sock_addr \<Rightarrow> sock_addr \<Rightarrow> string \<times> string \<times> int \<Rightarrow> (sock_addr \<times> sock_addr \<times> bool \<times> int option \<times> byte) option" where
  "service_target nl a first keys =
     (case keys of (bc, mc, ttl) \<Rightarrow>
        if bc \<noteq> [] then Some (snd (sa_init_str nl bc (sa_port first) a), sa_any AF_INET 0, True, None, 0)
        else if mc \<noteq> []
        then (let b = snd (sa_init_str nl mc (sa_port first) a)
              in Some (b, sa_any (sa_family b) 0, False, Some 0, of_int ttl))
        else map_option (\<lambda>b. (b, sa_any (sa_family b) 0, False, None, 0)) (sa_assign first a))"

definition UdpClient_from_service :: "netlib \<Rightarrow> env \<Rightarrow> (udp_client, unit res) state" where
  "UdpClient_from_service nl env =
     do { s \<leftarrow> gets id;
          r \<leftarrow> svc env (ServiceInfo (uk_service s));
          (if rp_ret r = 0 then State_Monad.return (Inr ())
           else case service_keys (rp_txt r) ([], [], 0) of
             Inl x \<Rightarrow> State_Monad.return (Inl x)
           | Inr keys \<Rightarrow>
               (case (case rp_addrs r of [] \<Rightarrow> None | a # _ \<Rightarrow> service_target nl (uk_addr s) a keys) of
                  None \<Rightarrow> do { fault; State_Monad.return (Inr ()) }
                | Some (b, loc, broadcast, itf, ttl) \<Rightarrow> do {
                    modify (\<lambda>s. s\<lparr>uk_addr := b\<rparr>);
                    e \<leftarrow> UdpClient_create nl env loc broadcast itf ttl;
                    on_error env e [];
                    State_Monad.return (Inr ()) })) }"

definition UdpClient_svc_resolved ::
    "netlib \<Rightarrow> env \<Rightarrow> string \<Rightarrow> string \<Rightarrow> int \<Rightarrow> (udp_client, unit res) state" where
  "UdpClient_svc_resolved nl env name endpoint itf =
     do { s \<leftarrow> gets id;
          (if uk_fd s \<noteq> -1 then State_Monad.return (Inr ())
           else if name \<noteq> uk_service s \<and> endpoint \<noteq> uk_service s then State_Monad.return (Inr ())
           else if snd (uk_itf s) \<noteq> 0 \<and> snd (uk_itf s) \<noteq> itf then State_Monad.return (Inr ())
           else UdpClient_from_service nl env) }"

definition UdpClient_init_service ::
    "netlib \<Rightarrow> env \<Rightarrow> string \<Rightarrow> string \<Rightarrow> (udp_client, error_c res) state" where
  "UdpClient_init_service nl env service itf =
     do { modify (\<lambda>s. s\<lparr>uk_service := service\<rparr>);
          whenM (itf \<noteq> []) (modify (\<lambda>s. s\<lparr>uk_itf := itf_from_str nl itf\<rparr>));
          z \<leftarrow> svc env HasZeroconf;
          (if rp_ret z = 0 then State_Monad.return (Inr (errno_c EPROTONOSUPPORT ''Zeroconf not available''))
           else do {
             s \<leftarrow> gets id;
             whenM (\<not> uk_pollable s) (do {
               modify (\<lambda>s. s\<lparr>uk_pollable := True\<rparr>);
               svc env (WatchServices SOCK_DGRAM);
               State_Monad.return () });
             x \<leftarrow> UdpClient_from_service nl env;
             State_Monad.return (case x of Inl e \<Rightarrow> Inl e | Inr _ \<Rightarrow> Inr no_error) }) }"

text \<open>\<open>init_broadcast\<close>: the address to send to and the local one, \<open>None\<close> for a read through a null
  broadcast address.\<close>

definition broadcast_target ::
    "netlib \<Rightarrow> u16 \<Rightarrow> string \<Rightarrow> sock_addr \<Rightarrow> (sock_addr \<times> sock_addr) option" where
  "broadcast_target nl port itf a0 =
     (let global = (\<lambda>a. snd (sa_init_str nl ''<broadcast>'' port a)) in
      if itf = [] then Some (global a0, sa_any AF_INET 0)
      else case sa_init_str nl itf port a0 of
        (e, a) \<Rightarrow>
          if failed e then map_option (\<lambda>n. (a, sa_local nl n AF_INET 0)) (sa_itf nl True a)
          else (case sl_broadcast nl (fst (itf_from_str nl itf)) port of
                  None \<Rightarrow> None
                | Some (_, [b]) \<Rightarrow>
                    (case sa_assign b a of
                       None \<Rightarrow> None
                     | Some c \<Rightarrow> map_option (\<lambda>n. (c, sa_local nl n AF_INET 0)) (sa_itf nl True c))
                | Some _ \<Rightarrow> Some (global a, sa_any AF_INET 0)))"

definition UdpClient_init_broadcast :: "netlib \<Rightarrow> env \<Rightarrow> u16 \<Rightarrow> string \<Rightarrow> (udp_client, error_c) state" where
  "UdpClient_init_broadcast nl env port itf =
     do { s \<leftarrow> gets id;
          (case broadcast_target nl port itf (uk_addr s) of
             None \<Rightarrow> do { fault; State_Monad.return no_error }
           | Some (a, loc) \<Rightarrow> do {
               modify (\<lambda>s. s\<lparr>uk_addr := a\<rparr>);
               UdpClient_create nl env loc True None 0 }) }"

text \<open>\<open>init_multicast\<close> on an interface: its index and the local address.\<close>

definition multicast_interface :: "netlib \<Rightarrow> string \<Rightarrow> sock_addr \<Rightarrow> error_c + int \<times> sock_addr" where
  "multicast_interface nl itf a =
     (if itf = [] then Inr (0, sa_any (sa_family a) 0)
      else case sa_init_str nl itf 0 None of
        (e, ia) \<Rightarrow>
          (let chosen =
             (if \<not> failed e then Inr (itf, None)
              else if sa_family a \<noteq> sa_family ia then Inl (errno_c EAFNOSUPPORT ''itf and multicast difference'')
              else case sa_itf nl False ia of
                     None \<Rightarrow> Inl (errno_c ENODEV ''no itf with address'')
                   | Some n \<Rightarrow> if n = [] then Inl (errno_c ENODEV ''no itf with address'') else Inr (n, ia))
           in case chosen of
                Inl e2 \<Rightarrow> Inl e2
              | Inr (name, loc) \<Rightarrow>
                  (case itf_from_str nl name of
                     (n, idx) \<Rightarrow>
                       if idx = 0 then Inl (errno_c (stale_errno nl) ''if_nametoindex'')
                       else Inr (idx, if sa_len loc = 0 then sa_local nl n (sa_family a) 0 else loc))))"

definition UdpClient_init_multicast ::
    "netlib \<Rightarrow> env \<Rightarrow> string \<Rightarrow> u16 \<Rightarrow> string \<Rightarrow> byte \<Rightarrow> (udp_client, error_c) state" where
  "UdpClient_init_multicast nl env address port itf ttl =
     do { s \<leftarrow> gets id;
          (case sa_init_str nl address port (uk_addr s) of
             (e, a) \<Rightarrow> do {
               modify (\<lambda>s. s\<lparr>uk_addr := a\<rparr>);
               (if failed e then State_Monad.return (add_context ''multicast address'' e)
                else case multicast_interface nl itf a of
                       Inl e2 \<Rightarrow> State_Monad.return e2
                     | Inr (idx, loc) \<Rightarrow> UdpClient_create nl env loc False (Some idx) ttl) }) }"

section \<open>The configuration\<close>

text \<open>What \<open>init_yaml\<close> calls. The address has to be a text in every mode.\<close>

datatype udp_plan =
    UdpService string string | UdpUnicast string u16 family | UdpBroadcast u16 string
  | UdpMulticast string u16 string byte | UdpError error_c

definition udp_plan_address ::
    "(string \<Rightarrow> int option) \<Rightarrow> yaml \<Rightarrow> string \<Rightarrow> udp_mode \<Rightarrow> int \<Rightarrow> udp_plan res" where
  "udp_plan_address as_int cfg itf mode port =
     bind_res (bind_res (yaml_at ''family'' cfg) address_family) (\<lambda>f.
     bind_res (bind_res (yaml_at ''address'' cfg) as_string) (\<lambda>address.
       case mode of
         UNICAST \<Rightarrow> Inr (UdpUnicast address (of_int port) f)
       | BROADCAST \<Rightarrow> Inr (UdpBroadcast (of_int port) itf)
       | MULTICAST \<Rightarrow>
           bind_res (bind_res (yaml_at ''ttl'' cfg) (\<lambda>y. if is_defined y then as_number as_int y else Inr 0))
             (\<lambda>ttl. Inr (UdpMulticast address (of_int port) itf (of_int ttl)))))"

definition UdpClient_plan :: "(string \<Rightarrow> int option) \<Rightarrow> yaml \<Rightarrow> udp_plan res" where
  "UdpClient_plan as_int cfg =
     bind_res (opt_string ''interface'' cfg) (\<lambda>itf.
     bind_res (yaml_at ''service'' cfg) (\<lambda>service.
       if is_defined service then bind_res (as_string service) (\<lambda>sv. Inr (UdpService sv itf))
       else bind_res (bind_res (yaml_at ''type'' cfg) udp_type) (\<lambda>mode.
            bind_res (yaml_at ''port'' cfg) (\<lambda>port.
              if \<not> is_defined port then Inr (UdpError (errno_c ENOTSUP ''no port udp client''))
              else bind_res (as_number as_int port) (udp_plan_address as_int cfg itf mode)))))"

definition UdpClient_follow :: "netlib \<Rightarrow> env \<Rightarrow> udp_plan \<Rightarrow> (udp_client, error_c res) state" where
  "UdpClient_follow nl env plan =
     (case plan of
        UdpService sv itf \<Rightarrow> UdpClient_init_service nl env sv itf
      | UdpUnicast a p f \<Rightarrow> do { e \<leftarrow> UdpClient_init nl env a p f; State_Monad.return (Inr e) }
      | UdpBroadcast p itf \<Rightarrow> do { e \<leftarrow> UdpClient_init_broadcast nl env p itf; State_Monad.return (Inr e) }
      | UdpMulticast a p itf ttl \<Rightarrow>
          do { e \<leftarrow> UdpClient_init_multicast nl env a p itf ttl; State_Monad.return (Inr e) }
      | UdpError e \<Rightarrow> State_Monad.return (Inr e))"

definition UdpClient_init_yaml ::
    "netlib \<Rightarrow> env \<Rightarrow> (string \<Rightarrow> int option) \<Rightarrow> yaml \<Rightarrow> (udp_client, error_c res) state" where
  "UdpClient_init_yaml nl env as_int cfg =
     (case yaml_stat cfg (0, []) of
        Inl x \<Rightarrow> State_Monad.return (Inl x)
      | Inr (period, tags) \<Rightarrow> do {
          whenM (period \<noteq> 0) (do { svc env (RegisterReport ''udpcli'' period); State_Monad.return () });
          (case UdpClient_plan as_int cfg of
             Inl x \<Rightarrow> State_Monad.return (Inl x)
           | Inr plan \<Rightarrow> UdpClient_follow nl env plan) })"

section \<open>Events\<close>

definition UdpClient_poll :: "env \<Rightarrow> string \<Rightarrow> (udp_client, unit) state" where
  "UdpClient_poll env ctx =
     do { fd \<leftarrow> gets uk_fd;
          e \<leftarrow> poll_add env fd (EPOLLIN OR EPOLLOUT OR EPOLLET);
          on_error env e ctx;
          State_Monad.return () }"

definition UdpClient_on_create :: "netlib \<Rightarrow> env \<Rightarrow> u16 \<times> family \<times> string \<Rightarrow> (udp_client, unit) state" where
  "UdpClient_on_create nl env cap =
     (case cap of (portno, f, itf) \<Rightarrow>
        do { s \<leftarrow> gets id;
             e \<leftarrow> group_call env (GroupAdd (uk_name s) f (service_itf nl itf) portno []) ''avahi_entry_group_add_service'';
             (if failed e
              then do {
                on_error env e ''add service'';
                e2 \<leftarrow> group_call env GroupReset ''avahi_entry_group_commit'';
                on_error env e2 ''reset service'';
                UdpClient_poll env ''poll add create service reset'';
                UdpClient_writeable env }
              else do {
                e2 \<leftarrow> group_call env GroupCommit ''avahi_entry_group_commit'';
                on_error env e2 ''commit service'';
                State_Monad.return () }) })"

definition UdpClient_on_collision :: "env \<Rightarrow> (udp_client, unit) state" where
  "UdpClient_on_collision env = do { svc env GroupReset; UdpClient_poll env ''poll add collision'' }"

definition UdpClient_on_established :: "env \<Rightarrow> (udp_client, unit) state" where
  "UdpClient_on_established env =
     do { modify (\<lambda>s. s\<lparr>uk_job := True\<rparr>); svc env (TimerOneshot 500000000); State_Monad.return () }"

definition UdpClient_shoot :: "env \<Rightarrow> (udp_client, unit) state" where
  "UdpClient_shoot env =
     do { job \<leftarrow> gets uk_job; whenM job (UdpClient_poll env ''poll add established'') }"

definition UdpClient_on_group_failure :: "env \<Rightarrow> error_c \<Rightarrow> (udp_client, unit) state" where
  "UdpClient_on_group_failure env ec =
     do { on_error env ec ''registration failure''; UdpClient_poll env ''poll add failure'' }"

definition UdpClient_peer_name :: "netlib \<Rightarrow> env \<Rightarrow> sock_addr \<Rightarrow> (udp_client, string) state" where
  "UdpClient_peer_name nl env a =
     do { z \<leftarrow> svc env HasZeroconf;
          name \<leftarrow> (if rp_ret z \<noteq> 0
                  then do { n \<leftarrow> svc env (QueryServiceName a SOCK_DGRAM); State_Monad.return (rp_canon n) }
                  else State_Monad.return []);
          State_Monad.return (if name = [] then sa_format nl REG_SERVICE [] a else name) }"

definition UdpClient_stream :: "env \<Rightarrow> string \<Rightarrow> (udp_client, unit) state" where
  "UdpClient_stream env name =
     do { m \<leftarrow> gets uk_streams;
          whenM (map_of m name \<noteq> Some True) (do {
            modify (\<lambda>s. s\<lparr>uk_streams := om_put name True (uk_streams s)\<rparr>);
            u \<leftarrow> ask_user env (OnConnect name);
            whenM (rp_ret u \<noteq> 0) (modify (\<lambda>s. s\<lparr>uk_streams := om_put name False (uk_streams s)\<rparr>)) }) }"

definition UdpClient_deliver :: "env \<Rightarrow> string \<Rightarrow> bytes \<Rightarrow> (udp_client, handled option) state" where
  "UdpClient_deliver env name buf =
     do { s \<leftarrow> gets id;
          (if \<not> io_exists s then State_Monad.return (Some STOP)
           else if map_of (uk_streams s) name \<noteq> Some True
           then do { fault; State_Monad.return (Some STOP) }
           else do {
             callback env (OnStreamRead name buf);
             svc env (CountAdd ''read'' (int (length buf)));
             alive \<leftarrow> gets io_exists;
             State_Monad.return (if alive then None else Some STOP) }) }"

definition UdpClient_pass :: "netlib \<Rightarrow> env \<Rightarrow> sock_addr \<Rightarrow> bytes \<Rightarrow> (udp_client, handled option) state" where
  "UdpClient_pass nl env a buf =
     do { name \<leftarrow> UdpClient_peer_name nl env a;
          UdpClient_stream env name;
          UdpClient_deliver env name buf }"

definition UdpClient_receive :: "netlib \<Rightarrow> env \<Rightarrow> int \<Rightarrow> int \<Rightarrow> (udp_client, handled option) state" where
  "UdpClient_receive nl env fd sz =
     do { d \<leftarrow> sys env (RecvFrom fd sz);
          (if rp_ret d < 0
           then (if rp_errno d \<noteq> EAGAIN
                 then do { on_error env (errno_c (rp_errno d) []) ''udp recvfrom''; State_Monad.return None }
                 else State_Monad.return (Some HANDLED))
           else UdpClient_pass nl env (rp_addr d) (rp_data d)) }"

definition UdpClient_read_step :: "netlib \<Rightarrow> env \<Rightarrow> (udp_client, handled option) state" where
  "UdpClient_read_step nl env =
     do { fd \<leftarrow> gets uk_fd;
          r \<leftarrow> sys env (Fionread fd);
          (if failed (to_errno_c (rp_ret r) (rp_errno r) ''udp ioctl'')
           then do {
             on_error env (to_errno_c (rp_ret r) (rp_errno r) ''udp ioctl'') ''Query datagram size error'';
             State_Monad.return None }
           else if rp_size r = 0 then State_Monad.return (Some HANDLED)
           else UdpClient_receive nl env fd (rp_size r)) }"

definition UdpClient_epollIN :: "netlib \<Rightarrow> env \<Rightarrow> udp_client \<Rightarrow> (handled \<times> udp_client) option" where
  "UdpClient_epollIN nl env = loop_until (UdpClient_read_step nl env)"

definition UdpClient_epollOUT :: "env \<Rightarrow> (udp_client, handled) state" where
  "UdpClient_epollOUT env =
     do { UdpClient_writeable env;
          alive \<leftarrow> gets io_exists;
          State_Monad.return (if alive then HANDLED else STOP) }"

definition UdpClient_write :: "env \<Rightarrow> bytes \<Rightarrow> (udp_client, int) state" where
  "UdpClient_write env buf =
     do { s \<leftarrow> gets id;
          (if \<not> uk_writeable s then State_Monad.return (-1)
           else do {
             r \<leftarrow> sys env (SendTo (uk_fd s) buf (uk_addr s));
             (if rp_ret r = -1
              then do {
                on_error env (errno_c (rp_errno r) []) ''UDP send datagram'';
                modify (\<lambda>s. s\<lparr>uk_writeable := False\<rparr>) }
              else do { svc env (CountAdd ''write'' (rp_ret r)); State_Monad.return () });
             State_Monad.return (rp_ret r) }) }"

fun UdpClient_close_streams :: "env \<Rightarrow> (string \<times> bool) list \<Rightarrow> (udp_client, unit) state" where
  "UdpClient_close_streams env [] = State_Monad.return ()"
| "UdpClient_close_streams env ((name, kept) # m) =
     do { whenM kept (callback env (OnStreamClose name)); UdpClient_close_streams env m }"

definition UdpClient_destroy :: "env \<Rightarrow> (udp_client, unit) state" where
  "UdpClient_destroy env =
     do { modify (\<lambda>s. s\<lparr>io_exists := False\<rparr>);
          fd \<leftarrow> gets uk_fd;
          whenM (fd \<noteq> -1) (do {
            poll_del env fd;
            m \<leftarrow> gets uk_streams;
            UdpClient_close_streams env m;
            e \<leftarrow> call env (Close fd) ''close'';
            on_error env e [];
            modify (\<lambda>s. s\<lparr>uk_fd := -1\<rparr>) }) }"

datatype udp_client_event =
    UkInit string u16 family | UkResolved "sock_addr list" | UkBroadcast u16 string
  | UkMulticast string u16 string byte | UkService string string | UkSvcResolved string string int
  | UkIn | UkOut | UkWrite bytes | UkGroupCreate | UkGroupCollision | UkGroupEstablished
  | UkGroupFailure error_c | UkTimer | UkForget string | UkDestroy

fun UdpClient_event :: "netlib \<Rightarrow> env \<Rightarrow> udp_client_event \<Rightarrow> udp_client \<Rightarrow> udp_client option" where
  "UdpClient_event nl env (UkInit h p f) s = exec (UdpClient_init nl env h p f) s"
| "UdpClient_event nl env (UkResolved as) s = exec (UdpClient_on_resolved nl env as) s"
| "UdpClient_event nl env (UkBroadcast p itf) s = exec (UdpClient_init_broadcast nl env p itf) s"
| "UdpClient_event nl env (UkMulticast a p itf ttl) s = exec (UdpClient_init_multicast nl env a p itf ttl) s"
| "UdpClient_event nl env (UkService sv itf) s = exec (UdpClient_init_service nl env sv itf) s"
| "UdpClient_event nl env (UkSvcResolved n e itf) s = exec (UdpClient_svc_resolved nl env n e itf) s"
| "UdpClient_event nl env UkIn s = map_option snd (UdpClient_epollIN nl env s)"
| "UdpClient_event nl env UkOut s = exec (UdpClient_epollOUT env) s"
| "UdpClient_event nl env (UkWrite buf) s = exec (UdpClient_write env buf) s"
| "UdpClient_event nl env UkGroupCreate s =
     (case uk_group s of None \<Rightarrow> Some s | Some cap \<Rightarrow> exec (UdpClient_on_create nl env cap) s)"
| "UdpClient_event nl env UkGroupCollision s = exec (UdpClient_on_collision env) s"
| "UdpClient_event nl env UkGroupEstablished s = exec (UdpClient_on_established env) s"
| "UdpClient_event nl env (UkGroupFailure ec) s = exec (UdpClient_on_group_failure env ec) s"
| "UdpClient_event nl env UkTimer s = exec (UdpClient_shoot env) s"
| "UdpClient_event nl env (UkForget name) s = Some (s\<lparr>uk_streams := om_put name False (uk_streams s)\<rparr>)"
| "UdpClient_event nl env UkDestroy s = exec (UdpClient_destroy env) s"

section \<open>Descriptors\<close>

text \<open>A second \<open>create\<close> leaves the first descriptor open, so that the client may hold more than the
  one it stores; it never closes one it does not hold.\<close>

definition has :: "int \<Rightarrow> trace \<Rightarrow> bool" where
  "has fd tr \<longleftrightarrow> closes_held tr \<and> (fd \<noteq> -1 \<longrightarrow> fd \<in># held tr)"

lemma has_other [owns_simps]: "\<not> acquires a \<Longrightarrow> closes a = None \<Longrightarrow> has fd ((a, r) # tr) = has fd tr"
  by (simp add: has_def)

lemma has_close [owns_simps]: "has fd tr \<Longrightarrow> has (-1) ((Sys (Close fd), r) # tr)"
  by (auto simp: has_def)

lemma has_acquire: "has d tr \<Longrightarrow> acquires a \<Longrightarrow> closes a = None \<Longrightarrow> has (rp_ret r) ((a, r) # tr)"
  by (simp add: has_def)

abbreviation uk_has :: "udp_client \<Rightarrow> bool" where
  "uk_has s \<equiv> has (uk_fd s) (io_trace s)"

abbreviation uk_holds :: "int \<Rightarrow> udp_client \<Rightarrow> bool" where
  "uk_holds d s \<equiv> uk_fd s = d \<and> has d (io_trace s)"

lemma socket_options_keeps:
  "(\<And>s r c. P s \<Longrightarrow> P (s\<lparr>io_trace := (Sys (SetSockOpt fd c), r) # io_trace s\<rparr>)) \<Longrightarrow>
     keeps P (socket_options env fd opts)"
  by (induction opts rule: socket_options.induct) (auto intro!: keeps_intros)

lemma uk_writeable_holds [keeps_intros]: "keeps (uk_holds d) (UdpClient_writeable env)"
  unfolding UdpClient_writeable_def by (intro keeps_intros; simp add: owns_simps)

lemma uk_register_holds: "keeps (uk_holds d) (UdpClient_register nl env)"
  unfolding UdpClient_register_def by (intro keeps_intros; simp add: owns_simps)

lemma uk_watch_holds: "keeps (uk_holds d) (UdpClient_watch env)"
  unfolding UdpClient_watch_def by (intro keeps_intros; simp add: owns_simps)

lemma uk_options_holds: "keeps (uk_holds d) (socket_options env fd opts)"
  by (rule socket_options_keeps) (simp add: owns_simps)

lemma uk_made_has:
  "leads (uk_holds d) uk_has
     (do { e \<leftarrow> socket_options env d opts;
           e2 \<leftarrow> (if failed e then State_Monad.return e
                 else do {
                   z \<leftarrow> svc env HasZeroconf;
                   (if rp_ret z \<noteq> 0 then UdpClient_register nl env else UdpClient_watch env) });
           whenM (failed e2) (do { sys env (Close d); modify (\<lambda>s. s\<lparr>uk_fd := -1\<rparr>) });
           State_Monad.return e2 })"
proof (rule leads_first [OF uk_options_holds], rule leads_first)
  show "keeps (uk_holds d) (if failed e then State_Monad.return e
      else do { z \<leftarrow> svc env HasZeroconf;
                (if rp_ret z \<noteq> 0 then UdpClient_register nl env else UdpClient_watch env) })" for e
    by (intro keeps_intros uk_register_holds uk_watch_holds) (simp add: owns_simps)
  show "leads (uk_holds d) uk_has (do {
      whenM (failed e2) (do { sys env (Close d); modify (\<lambda>s. s\<lparr>uk_fd := -1\<rparr>) });
      State_Monad.return e2 })" for e2
    by (rule leadsI) (simp add: after_simps owns_simps)
qed

lemma uk_create_has [keeps_intros]: "keeps uk_has (UdpClient_create nl env loc bc itf ttl)"
proof (rule keepsI)
  fix s assume "uk_has s"
  then have h: "has (rp_ret r) ((Sys (Socket f k), r) # io_trace s)" for r f k
    by (rule has_acquire) simp_all
  show "after (UdpClient_create nl env loc bc itf ttl) (\<lambda>_. uk_has) s"
    using uk_made_has h h [of "\<lparr>rp_ret = -1, rp_errno = 0, rp_size = 0, rp_data = [], rp_name = [], rp_canon = [],
     rp_addr = None, rp_addrs = [], rp_txt = [], rp_gone = False\<rparr>"]
    unfolding UdpClient_create_def leads_def
    by (simp add: after_bind [of "sys _ _"] after_bind [of "modify _"] after_modify after_sys after_ask after_if
        after_return) metis
qed

lemma uk_writeable_has [keeps_intros]: "keeps uk_has (UdpClient_writeable env)"
  unfolding UdpClient_writeable_def by (intro keeps_intros; simp add: owns_simps)

lemma uk_poll_has [keeps_intros]: "keeps uk_has (UdpClient_poll env ctx)"
  unfolding UdpClient_poll_def by (intro keeps_intros; simp add: owns_simps)

lemma uk_from_service_has [keeps_intros]: "keeps uk_has (UdpClient_from_service nl env)"
  unfolding UdpClient_from_service_def
  by (intro keeps_intros; simp add: owns_simps)

lemma uk_inits_has [keeps_intros]:
  "keeps uk_has (UdpClient_init nl env h p f)" "keeps uk_has (UdpClient_init_broadcast nl env p itf)"
  "keeps uk_has (UdpClient_init_multicast nl env a p itf ttl)" "keeps uk_has (UdpClient_init_service nl env sv itf)"
  "keeps uk_has (UdpClient_svc_resolved nl env n e i)"
  unfolding UdpClient_init_def UdpClient_init_broadcast_def UdpClient_init_multicast_def
    UdpClient_init_service_def UdpClient_svc_resolved_def
  by (intro keeps_intros; simp add: owns_simps)+

lemma uk_resolved_has [keeps_intros]: "keeps uk_has (UdpClient_on_resolved nl env as)"
  unfolding UdpClient_on_resolved_def
  by (cases as) (simp_all, (intro keeps_intros; simp add: owns_simps)+)

lemma uk_handlers_has [keeps_intros]:
  "keeps uk_has (UdpClient_epollOUT env)" "keeps uk_has (UdpClient_write env buf)"
  "keeps uk_has (UdpClient_on_create nl env cap)" "keeps uk_has (UdpClient_on_collision env)"
  "keeps uk_has (UdpClient_on_established env)" "keeps uk_has (UdpClient_on_group_failure env ec)"
  "keeps uk_has (UdpClient_shoot env)"
  unfolding UdpClient_epollOUT_def UdpClient_write_def UdpClient_on_create_def UdpClient_on_collision_def
    UdpClient_on_established_def UdpClient_on_group_failure_def UdpClient_shoot_def
  by (intro keeps_intros; simp add: owns_simps)+

lemma uk_read_has: "keeps uk_has (UdpClient_read_step nl env)"
  unfolding UdpClient_read_step_def UdpClient_receive_def UdpClient_pass_def UdpClient_peer_name_def
    UdpClient_stream_def UdpClient_deliver_def
  by (intro keeps_intros; simp add: owns_simps)

lemma uk_close_streams_holds: "keeps (uk_holds d) (UdpClient_close_streams env m)"
  by (induction env m rule: UdpClient_close_streams.induct)
     (simp_all, (intro keeps_intros; simp add: owns_simps)+)

lemma uk_shut_has:
  "leads (uk_holds d) uk_has
     (do { e \<leftarrow> call env (Close d) ''close''; on_error env e []; modify (\<lambda>s. s\<lparr>uk_fd := -1\<rparr>) })"
  by (rule leadsI) (simp add: after_simps owns_simps report_action_def)

lemma uk_destroy_has [keeps_intros]: "keeps uk_has (UdpClient_destroy env)"
proof (rule keepsI)
  fix s assume h: "uk_has s"
  show "after (UdpClient_destroy env) (\<lambda>_. uk_has) s"
  proof (cases "uk_fd s = -1")
    case False
    have "leads (uk_holds d) uk_has
        (do { poll_del env d; m \<leftarrow> gets uk_streams; UdpClient_close_streams env m;
              e \<leftarrow> call env (Close d) ''close''; on_error env e []; modify (\<lambda>s. s\<lparr>uk_fd := -1\<rparr>) })" for d
      by (rule leads_first, (intro keeps_intros; simp add: owns_simps), rule leads_first, rule keeps_gets,
          rule leads_first, rule uk_close_streams_holds, rule uk_shut_has)
    then have "after (do { poll_del env d; m \<leftarrow> gets uk_streams; UdpClient_close_streams env m;
          e \<leftarrow> call env (Close d) ''close''; on_error env e []; modify (\<lambda>s. s\<lparr>uk_fd := -1\<rparr>) }) (\<lambda>_. uk_has) t"
      if "uk_fd t = d" "has d (io_trace t)" for d t
      using that by (simp add: leads_def)
    from this [of "s\<lparr>io_exists := False\<rparr>" "uk_fd s"] False h show ?thesis
      unfolding UdpClient_destroy_def
      by (simp add: after_bind [of "modify _"] after_bind [of "gets _"] after_modify after_gets whenM_def)
  qed (use h in \<open>simp add: UdpClient_destroy_def after_simps\<close>)
qed

lemma uk_event_has: "uk_has s \<Longrightarrow> UdpClient_event nl env e s = Some t \<Longrightarrow> uk_has t"
  by (cases e)
     (auto elim!: exec_keeps simp: UdpClient_epollIN_def intro!: keeps_intros split: option.splits
        intro: loop_until_keeps [OF _ uk_read_has])

interpretation uk: state_machine "UdpClient_event nl env" "\<lambda>s. has (uk_fd s) (io_trace s)"
  by unfold_locales (rule uk_event_has)

section \<open>Resolving\<close>

fun asks_resolver :: "action \<Rightarrow> bool" where
  "asks_resolver (Svc (ResolverInit h p f t pr fl)) = True"
| "asks_resolver _ = False"

definition asked :: "trace \<Rightarrow> bool" where
  "asked tr \<longleftrightarrow> (\<exists>x \<in> set tr. asks_resolver (fst x))"

lemma asked_simps [simp]: "\<not> asked []" "asked ((a, r) # tr) = (asks_resolver a \<or> asked tr)"
  by (simp_all add: asked_def)

abbreviation unasked :: "udp_client \<Rightarrow> bool" where
  "unasked s \<equiv> \<not> asked (io_trace s)"

lemma uk_create_unasked: "keeps unasked (UdpClient_create nl env loc bc itf ttl)"
  unfolding UdpClient_create_def UdpClient_register_def UdpClient_watch_def UdpClient_writeable_def
  by (intro keeps_intros socket_options_keeps; simp)

section \<open>Properties\<close>

text \<open>The UDP client never closes a descriptor it does not hold and always holds the one it
  stores, however its ways of being set up are mixed and repeated.\<close>

theorem udp_client_closes_its_own:
  "case run_events (UdpClient_event nl env) events (UdpClient_new name) of
     None \<Rightarrow> True
   | Some s \<Rightarrow> closes_held (io_trace s) \<and> \<not> (uk_fd s \<noteq> -1 \<and> uk_fd s \<notin># held (io_trace s))"
proof -
  have "has (uk_fd (UdpClient_new name)) (io_trace (UdpClient_new name))"
    by (simp add: UdpClient_new_def has_def)
  from uk.run_inv [OF this, of nl env events] show ?thesis
    by (auto simp: has_def split: option.split)
qed

text \<open>C31: The client asks the resolver exactly when reading the host as an address gave no error: for
  an address, and for a name only if \<open>errno\<close> happened to be zero. For a name that gave an error
  it opens a socket at once and has no address to send to.\<close>

theorem udp_client_resolves_literals_only:
  assumes "\<not> asked (io_trace s)"
  shows "after (UdpClient_init nl env host port f)
    (\<lambda>_ t. asked (io_trace t) \<longleftrightarrow> \<not> failed (fst (sa_init_str nl host port (uk_addr s)))) s"
proof (cases "sa_init_str nl host port (uk_addr s)")
  case (Pair e a)
  have "after (UdpClient_create nl env loc False None 0) (\<lambda>_. unasked) (s\<lparr>uk_addr := a\<rparr>)" for loc
    using uk_create_unasked [of nl env loc False None 0] assms by (simp add: keeps_def)
  then show ?thesis
    using Pair by (simp add: UdpClient_init_def after_simps)
qed

definition named_netlib :: netlib where
  "named_netlib = demo_netlib\<lparr>stale_errno := 2\<rparr>"

theorem udp_client_resolves_literals_only_witness:
  "after (UdpClient_init named_netlib demo_env ''uav.local'' 14550 AF_UNSPEC)
     (\<lambda>_ t. \<not> asked (io_trace t)) (UdpClient_new ''up'')"
proof -
  have "failed (fst (sa_init_str named_netlib ''uav.local'' 14550 (uk_addr (UdpClient_new ''up''))))"
    by (simp add: sa_init_str_def named_netlib_def demo_netlib_def Let_def)
  moreover have "\<not> asked (io_trace (UdpClient_new ''up''))" by (simp add: UdpClient_new_def)
  note udp_client_resolves_literals_only [OF this, of named_netlib demo_env "''uav.local''" 14550 AF_UNSPEC]
  ultimately show ?thesis by (simp add: after_mono)
qed

end
