(* ===== verification/Stats_Output.thy ===== *)
theory Stats_Output
  imports Statistics Yaml_Config Timers
begin

text \<open>
  Where the statistics go: \<open>InfluxStream\<close> packs lines and keeps those it could not send
  (\<open>src/impl/influx.h\<close>), \<open>PeriodicStatCall\<close> and \<open>StatHandlerImpl\<close> collect them on timers
  (\<open>src/impl/stat.h\<close>), and \<open>OFileStreamImpl\<close> writes to a file (\<open>src/impl/ofile.h\<close>). The sink a
  stream writes to is a function on the world behind it, the argument \<open>out\<close>.
\<close>

section \<open>The line stream\<close>

record influx =
  in_pack_size :: int
  in_max :: int
  in_shrink :: int
  in_tags :: string
  in_pack :: string                      \<comment> \<open>\<open>_pack\<close>\<close>
  in_queue :: "string list"              \<comment> \<open>\<open>_queue\<close>, the front first\<close>
  in_out :: bool                         \<comment> \<open>\<open>_out\<close> is set\<close>
  in_fault :: bool                       \<comment> \<open>something was written through a null pointer\<close>

type_synonym 'w sink = "string \<Rightarrow> 'w \<Rightarrow> int \<times> 'w"

definition Influx_new :: influx where
  "Influx_new = \<lparr>in_pack_size = 400, in_max = 10000, in_shrink = 9900, in_tags = [], in_pack = [], in_queue = [],
     in_out = False, in_fault = False\<rparr>"

definition Influx_pack_size :: "int \<Rightarrow> influx \<Rightarrow> influx" where
  "Influx_pack_size n s = s\<lparr>in_pack_size := n\<rparr>"

definition Influx_queue_size :: "int \<Rightarrow> int \<Rightarrow> influx \<Rightarrow> influx" where
  "Influx_queue_size mx shrink s = s\<lparr>in_max := mx, in_shrink := shrink\<rparr>"

definition Influx_global_tags :: "string \<Rightarrow> influx \<Rightarrow> influx" where
  "Influx_global_tags v s =
     (if v = [] then s else s\<lparr>in_tags := (if hd v \<noteq> CHR '','' then CHR '','' # v else v)\<rparr>)"

definition Influx_init :: "influx \<Rightarrow> influx" where
  "Influx_init s = s\<lparr>in_out := True\<rparr>"

abbreviation newline :: string where
  "newline \<equiv> [CHR 0x0A]"

text \<open>The sizes are compared and resized without a sign.\<close>

definition size_of :: "int \<Rightarrow> nat" where
  "size_of n = nat (n mod 2 ^ 64)"

definition Influx_full :: "influx \<Rightarrow> bool" where
  "Influx_full s \<longleftrightarrow> in_pack_size s < int (length (in_pack s))"

definition resize_queue :: "nat \<Rightarrow> string list \<Rightarrow> string list" where
  "resize_queue n q = take n q @ replicate (n - length q) []"

text \<open>\<open>send\<close>. While the pack is full the line goes to the pack all the same, without a line
  break, and the queue gets the text of a stream nothing was written to. A full pack is written through
  \<open>_out\<close>, which is null before \<open>init\<close>.\<close>

definition Influx_send :: "'w sink \<Rightarrow> metric \<Rightarrow> influx \<times> 'w \<Rightarrow> influx \<times> 'w" where
  "Influx_send out m sw =
     (case sw of (s, w) \<Rightarrow>
        let line = Metric_to_stream (in_tags s) m in
        if Influx_full s
        then (s\<lparr>in_queue := [] # (if size_of (in_max s) < length (in_queue s)
                                 then resize_queue (size_of (in_shrink s)) (in_queue s) else in_queue s),
                in_pack := in_pack s @ line\<rparr>, w)
        else (let t = s\<lparr>in_pack := in_pack s @ line @ newline\<rparr> in
              if Influx_full t
              then if \<not> in_out s then (t\<lparr>in_fault := True\<rparr>, w)
                   else (case out (in_pack t) w of
                      (r, w') \<Rightarrow> (if r = int (length (in_pack t)) then t\<lparr>in_pack := []\<rparr> else t, w'))
              else (t, w)))"

text \<open>The refill of an empty pack from the back of the queue, until it is full.\<close>

function Influx_refill :: "influx \<Rightarrow> influx" where
  "Influx_refill s =
     (if in_queue s = [] then s
      else (let t = s\<lparr>in_pack := in_pack s @ last (in_queue s) @ newline, in_queue := butlast (in_queue s)\<rparr>
            in if Influx_full t then t else Influx_refill t))"
  by pat_completeness auto

termination
  by (relation "measure (\<lambda>s. length (in_queue s))") (auto simp: Let_def)

declare Influx_refill.simps [simp del]

lemma refill_shorter: "in_queue s \<noteq> [] \<Longrightarrow> length (in_queue (Influx_refill s)) < length (in_queue s)"
proof (induction s rule: Influx_refill.induct)
  case (1 s)
  let ?t = "s\<lparr>in_pack := in_pack s @ last (in_queue s) @ newline, in_queue := butlast (in_queue s)\<rparr>"
  show ?case
  proof (cases "Influx_full ?t \<or> in_queue ?t = []")
    case True
    then show ?thesis using 1(2) by (auto simp: Influx_refill.simps [of s] Let_def Influx_refill.simps [of ?t])
  next
    case False
    then have "length (in_queue (Influx_refill ?t)) < length (in_queue ?t)"
      using 1(2) by (intro 1(1)) auto
    then show ?thesis using False 1(2) by (simp add: Influx_refill.simps [of s] Let_def)
  qed
qed

text \<open>\<open>flush\<close>: whole packs are written as long as the sink takes them.\<close>

function Influx_flush :: "'w sink \<Rightarrow> influx \<times> 'w \<Rightarrow> influx \<times> 'w" where
  "Influx_flush out (s, w) =
     (if in_pack s = [] then (s, w)
      else if \<not> in_out s then (s\<lparr>in_fault := True\<rparr>, w)
      else (case out (in_pack s) w of
              (r, w') \<Rightarrow>
                if r \<noteq> int (length (in_pack s)) then (s, w')
                else if in_queue s = [] then (s\<lparr>in_pack := []\<rparr>, w')
                else Influx_flush out (Influx_refill (s\<lparr>in_pack := []\<rparr>), w')))"
  by pat_completeness auto

termination
  by (relation "measure (\<lambda>(out, s, w). length (in_queue s))")
     (auto intro: less_le_trans [OF refill_shorter])

declare Influx_flush.simps [simp del]

section \<open>Reports on timers\<close>

text \<open>The sources are weak references: \<open>alive\<close> says which exist, \<open>rep\<close> what each sends.\<close>

record stat_call =
  sc_timer :: timer
  sc_period :: int
  sc_stats :: "nat list"

definition PeriodicStatCall_init :: "timer \<Rightarrow> int \<Rightarrow> stat_call" where
  "PeriodicStatCall_init t period = \<lparr>sc_timer = t\<lparr>ti_shoots := True\<rparr>, sc_period = period, sc_stats = []\<rparr>"

definition PeriodicStatCall_start :: "env \<Rightarrow> stat_call \<Rightarrow> stat_call" where
  "PeriodicStatCall_start env c =
     (if Timer_armed (sc_timer c) then c
      else c\<lparr>sc_timer := snd (run_state (Timer_arm_periodic env (sc_period c)) (sc_timer c))\<rparr>)"

definition PeriodicStatCall_stop :: "env \<Rightarrow> stat_call \<Rightarrow> stat_call" where
  "PeriodicStatCall_stop env c = c\<lparr>sc_timer := snd (run_state (Timer_stop env) (sc_timer c))\<rparr>"

definition PeriodicStatCall_add :: "env \<Rightarrow> nat \<Rightarrow> stat_call \<Rightarrow> stat_call" where
  "PeriodicStatCall_add env source c = PeriodicStatCall_start env (c\<lparr>sc_stats := source # sc_stats c\<rparr>)"

fun report_stats ::
    "(nat \<Rightarrow> bool) \<Rightarrow> (nat \<Rightarrow> influx \<times> 'w \<Rightarrow> influx \<times> 'w) \<Rightarrow> nat list \<Rightarrow> influx \<times> 'w \<Rightarrow> nat list \<times> influx \<times> 'w" where
  "report_stats alive rep [] sw = ([], sw)"
| "report_stats alive rep (p # ps) sw =
     (if \<not> alive p then report_stats alive rep ps sw
      else (case report_stats alive rep ps (rep p sw) of (qs, sw') \<Rightarrow> (p # qs, sw')))"

definition PeriodicStatCall_shoot ::
    "env \<Rightarrow> (nat \<Rightarrow> bool) \<Rightarrow> (nat \<Rightarrow> influx \<times> 'w \<Rightarrow> influx \<times> 'w) \<Rightarrow> stat_call \<Rightarrow> influx option \<times> 'w \<Rightarrow>
     stat_call \<times> influx option \<times> 'w" where
  "PeriodicStatCall_shoot env alive rep c ow =
     (case ow of
        (None, w) \<Rightarrow> (c, None, w)
      | (Some s, w) \<Rightarrow>
          (case report_stats alive rep (sc_stats c) (s, w) of
             (qs, s', w') \<Rightarrow>
               (let d = c\<lparr>sc_stats := qs\<rparr>
                in (if qs = [] then PeriodicStatCall_stop env d else d, Some s', w'))))"

record stat_handler =
  sh_output :: "influx option"
  sh_calls :: "(int, stat_call) omap"

definition StatHandler_new :: stat_handler where
  "StatHandler_new = \<lparr>sh_output = None, sh_calls = []\<rparr>"

text \<open>\<open>stat\<close> and \<open>set_output\<close>: the stream is made when it is first asked for.\<close>

definition StatHandler_stat :: "stat_handler \<Rightarrow> stat_handler" where
  "StatHandler_stat h = (if sh_output h = None then h\<lparr>sh_output := Some Influx_new\<rparr> else h)"

definition StatHandler_set_output :: "stat_handler \<Rightarrow> stat_handler" where
  "StatHandler_set_output h = (let h1 = StatHandler_stat h in h1\<lparr>sh_output := map_option Influx_init (sh_output h1)\<rparr>)"

definition StatHandler_clear_outputs :: "stat_handler \<Rightarrow> stat_handler" where
  "StatHandler_clear_outputs h = h\<lparr>sh_output := None\<rparr>"

definition StatHandler_register_report :: "env \<Rightarrow> nat \<Rightarrow> int \<Rightarrow> stat_handler \<Rightarrow> stat_handler" where
  "StatHandler_register_report env source period h =
     (let call = (case map_of (sh_calls h) period of
                    None \<Rightarrow> PeriodicStatCall_init Timer_new period | Some c \<Rightarrow> c)
      in h\<lparr>sh_calls := om_put period (PeriodicStatCall_add env source call) (sh_calls h)\<rparr>)"

text \<open>The configuration; the tags are looked for inside the section of the queue.\<close>

definition scalar_int :: "(string \<Rightarrow> int option) \<Rightarrow> int \<Rightarrow> yaml \<Rightarrow> int res" where
  "scalar_int as_int d y = (case y of YScalar s \<Rightarrow> as_number as_int y | _ \<Rightarrow> Inr d)"

fun tag_text :: "(yaml \<times> yaml) list \<Rightarrow> string res" where
  "tag_text [] = Inr []"
| "tag_text ((k, v) # kvs) =
     (case v of
        YScalar val \<Rightarrow>
          bind_res (as_string k) (\<lambda>key. bind_res (tag_text kvs) (\<lambda>rest. Inr (CHR '','' # key @ ''='' @ val @ rest)))
      | _ \<Rightarrow> tag_text kvs)"

definition configure_queue :: "(string \<Rightarrow> int option) \<Rightarrow> (yaml \<times> yaml) list \<Rightarrow> influx \<Rightarrow> influx res" where
  "configure_queue as_int queue s =
     bind_res (scalar_int as_int 10000 (yaml_find ''max'' queue)) (\<lambda>mx.
     bind_res (scalar_int as_int 9900 (yaml_find ''shrink'' queue)) (\<lambda>shrink.
       (let t = (if mx \<noteq> 0 \<and> shrink \<noteq> 0 then Influx_queue_size mx shrink s else s) in
        case yaml_find ''tags'' queue of
          YMap tags \<Rightarrow> bind_res (tag_text tags) (\<lambda>txt. Inr (if txt \<noteq> [] then Influx_global_tags txt t else t))
        | _ \<Rightarrow> Inr t)))"

definition Influx_configure :: "(string \<Rightarrow> int option) \<Rightarrow> yaml \<Rightarrow> influx \<Rightarrow> influx res" where
  "Influx_configure as_int cfg s =
     (case cfg of
        YMap kvs \<Rightarrow>
          bind_res (scalar_int as_int (in_pack_size s) (yaml_find ''packsize'' kvs)) (\<lambda>n.
            (let t = Influx_pack_size n s in
             case yaml_find ''queue'' kvs of YMap queue \<Rightarrow> configure_queue as_int queue t | _ \<Rightarrow> Inr t))
      | _ \<Rightarrow> Inr s)"

definition StatHandler_init_yaml :: "(string \<Rightarrow> int option) \<Rightarrow> yaml \<Rightarrow> stat_handler \<Rightarrow> stat_handler res" where
  "StatHandler_init_yaml as_int cfg h =
     (let h1 = StatHandler_set_output h
      in bind_res (Influx_configure as_int cfg (the (sh_output h1))) (\<lambda>s. Inr (h1\<lparr>sh_output := Some s\<rparr>)))"

section \<open>Files\<close>

text \<open>The pointer is not initialised by the constructor.\<close>

datatype out_file = FileUninit | FileNull | FileStdout | FileStderr | FileOpened string

record ofile =
  of_prefix :: string
  of_suffix :: string
  of_file :: out_file

definition OFile_new :: ofile where
  "OFile_new = \<lparr>of_prefix = [], of_suffix = [], of_file = FileUninit\<rparr>"

text \<open>\<open>can_open\<close> tells whether \<open>fopen\<close> succeeds; \<open>errno\<close> is what it fails with.\<close>

definition OFile_open :: "(string \<Rightarrow> bool) \<Rightarrow> int \<Rightarrow> string \<Rightarrow> ofile \<Rightarrow> error_c \<times> ofile" where
  "OFile_open can_open errno filename s =
     (let f = (if filename = ''stdout'' then FileStdout else if filename = ''stderr'' then FileStderr
               else if can_open filename then FileOpened filename else FileNull)
      in (if f = FileNull then errno_c errno ''fopen stream'' else no_error, s\<lparr>of_file := f\<rparr>))"

text \<open>\<open>write\<close> on an open file: \<open>fwrites\<close> is the number of characters \<open>fwrite\<close> takes of each text
  and \<open>ferr\<close> what \<open>ferror\<close> says afterwards. The result is what was appended, the count of the
  buffer alone, and the errors reported.\<close>

definition OFile_write ::
    "(string \<Rightarrow> nat) \<Rightarrow> bool \<Rightarrow> int \<Rightarrow> string \<Rightarrow> ofile \<Rightarrow> string \<times> nat \<times> error_c list" where
  "OFile_write fwrites ferr errno buf s =
     (let put = (\<lambda>txt. if txt = [] then [] else take (fwrites txt) txt)
      in (put (of_prefix s) @ put buf @ put (of_suffix s), length (put buf),
          if ferr then [errno_c errno ''write file''] else []))"

text \<open>The destructor: which file is closed, \<open>None\<close> when it closes an uninitialised one.\<close>

definition OFile_destroy :: "ofile \<Rightarrow> string option option" where
  "OFile_destroy s =
     (case of_file s of FileUninit \<Rightarrow> None | FileOpened f \<Rightarrow> Some (Some f) | _ \<Rightarrow> Some None)"

definition escape :: "string \<Rightarrow> string" where
  "escape code = CHR 0x1B # ''['' @ code @ ''m''"

definition file_colors :: "(string \<times> string) list" where
  "file_colors =
     [(''black'', escape ''30''), (''red'', escape ''31''), (''green'', escape ''32''), (''yellow'', escape ''33''),
      (''blue'', escape ''34''), (''magenta'', escape ''35''), (''cyan'', escape ''36''), (''lightgray'', escape ''37''),
      (''gray'', escape ''90''), (''lightred'', escape ''91''), (''lightgreen'', escape ''92''),
      (''lightyellow'', escape ''93''), (''lightblue'', escape ''94''), (''lightmagenta'', escape ''95''),
      (''lightcyan'', escape ''96''), (''white'', escape ''97'')]"

definition OFile_init_yaml :: "(string \<Rightarrow> bool) \<Rightarrow> int \<Rightarrow> yaml \<Rightarrow> ofile \<Rightarrow> (error_c \<times> ofile) res" where
  "OFile_init_yaml can_open errno cfg s =
     bind_res (yaml_at ''color'' cfg) (\<lambda>color.
     bind_res (yaml_at ''name'' cfg) (\<lambda>name.
       (let t = (case color of
                   YScalar c \<Rightarrow>
                     (case map_of file_colors c of
                        None \<Rightarrow> s | Some code \<Rightarrow> s\<lparr>of_prefix := code, of_suffix := escape ''0''\<rparr>)
                 | _ \<Rightarrow> s) in
        case name of
          YScalar n \<Rightarrow> Inr (OFile_open can_open errno n t)
        | _ \<Rightarrow> Inr (errno_c ENOENT [], t))))"

section \<open>Facts\<close>

text \<open>A sink that keeps what it is given and takes all of it.\<close>

definition keeps_all :: "string list sink" where
  "keeps_all txt w = (int (length txt), w @ [txt])"

definition waiting_text :: "influx \<Rightarrow> string" where
  "waiting_text s = in_pack s @ concat (map (\<lambda>l. l @ newline) (rev (in_queue s)))"

lemma refill_text: "waiting_text (Influx_refill s) = waiting_text s"
proof (induction s rule: Influx_refill.induct)
  case (1 s)
  let ?t = "s\<lparr>in_pack := in_pack s @ last (in_queue s) @ newline, in_queue := butlast (in_queue s)\<rparr>"
  show ?case
  proof (cases "in_queue s = []")
    case False
    then obtain ls l where q: "in_queue s = ls @ [l]" by (cases "in_queue s" rule: rev_cases) auto
    then have "waiting_text ?t = waiting_text s" by (simp add: waiting_text_def)
    then show ?thesis using 1 False by (simp add: Influx_refill.simps [of s] Let_def)
  qed (simp add: Influx_refill.simps [of s])
qed

lemma refill_changes: "\<exists>p q. Influx_refill s = s\<lparr>in_pack := p, in_queue := q\<rparr>"
proof (induction s rule: Influx_refill.induct)
  case (1 s)
  let ?t = "s\<lparr>in_pack := in_pack s @ last (in_queue s) @ newline, in_queue := butlast (in_queue s)\<rparr>"
  have same: "\<exists>p q. s = s\<lparr>in_pack := p, in_queue := q\<rparr>"
    by (rule exI [of _ "in_pack s"], rule exI [of _ "in_queue s"]) simp
  show ?case
  proof (cases "in_queue s = [] \<or> Influx_full ?t")
    case True
    show ?thesis
    proof (cases "in_queue s = []")
      case True
      with same show ?thesis by (simp add: Influx_refill.simps [of s])
    next
      case False
      with \<open>in_queue s = [] \<or> Influx_full ?t\<close> have "Influx_refill s = ?t" by (simp add: Influx_refill.simps [of s] Let_def)
      then show ?thesis by blast
    qed
  next
    case False
    with 1 obtain p q where "Influx_refill ?t = ?t\<lparr>in_pack := p, in_queue := q\<rparr>" by blast
    with False show ?thesis by (auto simp: Influx_refill.simps [of s] Let_def)
  qed
qed

lemma refill_rest: "(Influx_refill s)\<lparr>in_pack := x, in_queue := y\<rparr> = s\<lparr>in_pack := x, in_queue := y\<rparr>"
  "in_out (Influx_refill s) = in_out s"
proof -
  obtain p q where "Influx_refill s = s\<lparr>in_pack := p, in_queue := q\<rparr>" using refill_changes by blast
  then show "(Influx_refill s)\<lparr>in_pack := x, in_queue := y\<rparr> = s\<lparr>in_pack := x, in_queue := y\<rparr>"
    "in_out (Influx_refill s) = in_out s" by simp_all
qed

lemma refill_not_Nil: "in_queue s \<noteq> [] \<Longrightarrow> in_pack (Influx_refill s) \<noteq> []"
proof (induction s rule: Influx_refill.induct)
  case (1 s)
  let ?t = "s\<lparr>in_pack := in_pack s @ last (in_queue s) @ newline, in_queue := butlast (in_queue s)\<rparr>"
  show ?case
  proof (cases "Influx_full ?t \<or> in_queue ?t = []")
    case True
    then show ?thesis
      using 1(2) by (auto simp: Influx_refill.simps [of s] Let_def Influx_refill.simps [of ?t])
  next
    case False
    then show ?thesis using 1 by (simp add: Influx_refill.simps [of s] Let_def)
  qed
qed

lemma flush_writes_all:
  assumes "in_pack s \<noteq> []" "in_out s"
  shows "\<exists>t out. Influx_flush keeps_all (s, w) = (t, w @ out) \<and> concat out = waiting_text s \<and>
    t = s\<lparr>in_pack := [], in_queue := []\<rparr>"
  using assms
proof (induction "length (in_queue s)" arbitrary: s w rule: less_induct)
  case less
  show ?case
  proof (cases "in_queue s = []")
    case True
    with less.prems show ?thesis
      by (intro exI [of _ "s\<lparr>in_pack := []\<rparr>"] exI [of _ "[in_pack s]"])
         (simp add: Influx_flush.simps [of _ s] keeps_all_def waiting_text_def)
  next
    case False
    let ?u = "Influx_refill (s\<lparr>in_pack := []\<rparr>)"
    have u: "length (in_queue ?u) < length (in_queue s)" "in_pack ?u \<noteq> []" "in_out ?u"
      using refill_shorter [of "s\<lparr>in_pack := []\<rparr>"] refill_not_Nil [of "s\<lparr>in_pack := []\<rparr>"]
        refill_rest(2) [where s = "s\<lparr>in_pack := []\<rparr>"] False less.prems by simp_all
    from less.hyps [OF u, of "w @ [in_pack s]"] obtain t out where
      "Influx_flush keeps_all (?u, w @ [in_pack s]) = (t, (w @ [in_pack s]) @ out)"
      "concat out = waiting_text ?u" "t = ?u\<lparr>in_pack := [], in_queue := []\<rparr>" by blast
    moreover have "waiting_text s = in_pack s @ waiting_text ?u"
      by (simp add: refill_text) (simp add: waiting_text_def)
    moreover have "?u\<lparr>in_pack := [], in_queue := []\<rparr> = s\<lparr>in_pack := [], in_queue := []\<rparr>"
      using refill_rest(1) [where s = "s\<lparr>in_pack := []\<rparr>"] by simp
    ultimately show ?thesis
      using less.prems False
      by (intro exI [of _ t] exI [of _ "in_pack s # out"])
         (simp add: Influx_flush.simps [of _ s] keeps_all_def)
  qed
qed

text \<open>C32: A flush of a stream that has an output returns. When the sink takes whole packs and the pack is not
  empty it writes all that waits -- the pack and then the queue from its oldest line on -- and leaves
  nothing of it, however much there is. When the pack is empty it writes nothing and changes nothing,
  whatever waits in the queue.\<close>

theorem influx_flush_writes_all:
  assumes "in_out s"
  shows "\<exists>t out. Influx_flush keeps_all (s, w) = (t, w @ out) \<and>
    (if in_pack s = [] then out = [] \<and> t = s
     else concat out = waiting_text s \<and> t = s\<lparr>in_pack := [], in_queue := []\<rparr>)"
  using flush_writes_all [of s w] assms by (cases "in_pack s = []") (simp_all add: Influx_flush.simps)

theorem influx_flush_writes_all_witness:
  "\<exists>t out. Influx_flush keeps_all (Influx_init Influx_new\<lparr>in_pack := ''a'', in_queue := [''c'', ''b'']\<rparr>, []) = (t, out) \<and>
     concat out = ''a'' @ ''b'' @ newline @ ''c'' @ newline \<and> in_queue t = []"
  using influx_flush_writes_all [of "Influx_init Influx_new\<lparr>in_pack := ''a'', in_queue := [''c'', ''b'']\<rparr>" "[]"]
  by (auto simp: waiting_text_def Influx_init_def)

text \<open>A report goes to the sources that exist, in order, once each, and forgets the others.\<close>

lemma report_stats_alive:
  "report_stats alive rep ps sw = (filter alive ps, fold rep (filter alive ps) sw)"
  by (induction ps arbitrary: sw) (auto split: prod.split)

text \<open>While the pack is full every line that is sent lengthens it, without a break, and the queue gets
  an empty text for it.\<close>

lemma send_when_full:
  assumes "Influx_full s" "length (in_queue s) \<le> size_of (in_max s)"
  shows "fst (Influx_send out m (s, w)) =
    s\<lparr>in_pack := in_pack s @ Metric_to_stream (in_tags s) m, in_queue := [] # in_queue s\<rparr>"
  using assms by (simp add: Influx_send_def Let_def)

section \<open>Bounds\<close>



definition influx_bounded :: "int \<Rightarrow> int \<Rightarrow> influx \<Rightarrow> bool" where
  "influx_bounded mx sh s \<longleftrightarrow> in_max s = mx \<and> in_shrink s = sh \<and> 0 \<le> mx \<and> mx < 2 ^ 31 \<and> 0 \<le> sh \<and> sh < 2 ^ 31 \<and>
     int (length (in_queue s)) \<le> max mx sh + 1"

definition queued_from :: "string set \<Rightarrow> influx \<Rightarrow> bool" where
  "queued_from Q s \<longleftrightarrow> set (in_queue s) \<subseteq> insert [] Q"


lemma length_resize [simp]: "length (resize_queue n q) = n"
  by (simp add: resize_queue_def)


text \<open>What every call keeps.\<close>

definition influx_kept :: "int \<Rightarrow> int \<Rightarrow> string set \<Rightarrow> influx \<Rightarrow> bool" where
  "influx_kept mx sh Q s \<longleftrightarrow> influx_bounded mx sh s \<and> queued_from Q s"



lemma kept_pack [simp]: "influx_kept mx sh Q (s\<lparr>in_pack := p\<rparr>) = influx_kept mx sh Q s"
  "influx_kept mx sh Q (s\<lparr>in_fault := b\<rparr>) = influx_kept mx sh Q s"
  by (simp_all add: influx_kept_def influx_bounded_def queued_from_def)










text \<open>With only the first limit configured, to a small number, cutting the queue makes it longer.\<close>

lemma queue_padded:
  assumes "Influx_full s" "in_max s = 100" "in_shrink s = 9900" "length (in_queue s) = 101"
  shows "length (in_queue (fst (Influx_send out m (s, w)))) = 9901"
  using assms by (simp add: Influx_send_def Let_def size_of_def)

end
