(* ===== verification/Router_Graph.thy ===== *)
theory Router_Graph
  imports Router
begin

text \<open>
  The graph the router builds has no cycle, whatever the configuration and in whatever order
  clients come, are read from and go, so that every write returns. An invariant of the states
  of \<open>Router\<close> that every operation of \<open>app/uav-router.cpp\<close> keeps, over the steps the loop
  can make.
\<close>

section \<open>The invariant\<close>

text \<open>\<open>N\<close>: the destinations that were ever named in a route, which only sinks are added to.
  \<open>C\<close>: the destinations of clients, which are added to nothing. Between all others the edges
  lead to the younger object.\<close>

definition ok_edge :: "wid set \<Rightarrow> wid set \<Rightarrow> heap \<Rightarrow> wid \<Rightarrow> wid \<Rightarrow> bool" where
  "ok_edge N C h d e \<longleftrightarrow> e \<notin> C \<and>
     (h e \<noteq> None \<longrightarrow> (if d \<in> N then h e = Some WSink else d \<in> C \<or> h e = Some WSink \<or> e \<in> N \<or> d < e))"

definition ok_obj :: "wid set \<Rightarrow> wid set \<Rightarrow> wid \<Rightarrow> heap \<Rightarrow> wid \<Rightarrow> wobj \<Rightarrow> bool" where
  "ok_obj N C a h d x \<longleftrightarrow>
     (case x of
        WSink \<Rightarrow> True
      | WDest es \<Rightarrow> (\<forall>e \<in> set es. e < a \<and> ok_edge N C h d e)
      | WFilter f n r \<Rightarrow> d \<notin> N \<and> d \<notin> C \<and> n < a \<and> r < a \<and> ok_edge N C h d n \<and> ok_edge N C h d r \<and> filter_ok f)"

definition ok_heap :: "wid set \<Rightarrow> wid set \<Rightarrow> wid \<Rightarrow> heap \<Rightarrow> bool" where
  "ok_heap N C a h \<longleftrightarrow> 0 < a \<and> N \<inter> C = {} \<and> (\<forall>d \<in> N \<union> C. 0 < d \<and> d < a) \<and>
     (\<forall>d x. h d = Some x \<longrightarrow> 0 < d \<and> d < a \<and> ok_obj N C a h d x)"

definition ok_tables :: "wid set \<Rightarrow> wid set \<Rightarrow> router \<Rightarrow> bool" where
  "ok_tables N C rt \<longleftrightarrow>
     (\<forall>name d. map_of (rt_named rt) name = Some d \<longrightarrow> d \<in> insert 0 N) \<and>
     (\<forall>(pat, d) \<in> set (rt_regex rt). d \<in> N) \<and>
     (\<forall>name e. map_of (rt_sources rt) name = Some e \<longrightarrow>
        src_dest e \<notin> N \<and> src_dest e \<notin> C \<and> src_dest e < rt_alloc rt) \<and>
     (\<forall>name e. map_of (rt_clients rt) name = Some e \<longrightarrow> cli_dest e \<in> C)"

definition graph :: "wid set \<Rightarrow> wid set \<Rightarrow> router \<Rightarrow> bool" where
  "graph N C rt \<longleftrightarrow> ok_heap N C (rt_alloc rt) (rt_heap rt) \<and> ok_tables N C rt"

definition routed :: "router \<Rightarrow> bool" where
  "routed rt \<longleftrightarrow> (\<exists>N C. graph N C rt)"

definition graph_rank :: "wid set \<Rightarrow> wid set \<Rightarrow> wid \<Rightarrow> heap \<Rightarrow> wid \<Rightarrow> nat" where
  "graph_rank N C a h d =
     (if h d = Some WSink then 0 else if d \<in> N then 1 else if d \<in> C then a + 3 else 2 + (a - d))"

lemma graph_rank_edge:
  assumes "ok_heap N C a h" "h d \<noteq> None" "h d \<noteq> Some WSink" "ok_edge N C h d e" "h e \<noteq> None"
  shows "graph_rank N C a h e < graph_rank N C a h d"
proof -
  have "d < a" "e < a" using assms(1,2,5) by (auto simp: ok_heap_def)
  then show ?thesis using assms by (auto simp: graph_rank_def ok_edge_def split: if_splits)
qed

lemma ok_heap_acyclic:
  assumes "ok_heap N C a h"
  shows "acyclic_heap (graph_rank N C a h) h"
  unfolding acyclic_heap_def
proof (intro conjI allI impI ballI)
  fix d es e assume a: "h d = Some (WDest es)" "e \<in> set es" "h e \<noteq> None"
  then have "ok_edge N C h d e" using assms by (force simp: ok_heap_def ok_obj_def)
  then show "graph_rank N C a h e < graph_rank N C a h d" using graph_rank_edge [OF assms] a by simp
next
  fix d f n r assume a: "h d = Some (WFilter f n r)"
  then have e: "ok_edge N C h d n" "ok_edge N C h d r" using assms by (force simp: ok_heap_def ok_obj_def)+
  { assume "h n \<noteq> None" then show "graph_rank N C a h n < graph_rank N C a h d"
      using graph_rank_edge [OF assms] a e by simp }
  { assume "h r \<noteq> None" then show "graph_rank N C a h r < graph_rank N C a h d"
      using graph_rank_edge [OF assms] a e by simp }
qed

section \<open>Changes of the heap\<close>

lemma ok_heapD: "ok_heap N C a h \<Longrightarrow> h d = Some x \<Longrightarrow> 0 < d \<and> d < a \<and> ok_obj N C a h d x"
  by (simp add: ok_heap_def)

lemma ok_heap_sets: "ok_heap N C a h \<Longrightarrow> 0 < a \<and> N \<inter> C = {} \<and> (\<forall>d \<in> N \<union> C. 0 < d \<and> d < a)"
  by (simp add: ok_heap_def)

lemma ok_heap_null:
  assumes "ok_heap N C a h"
  shows "h 0 = None" "0 \<notin> N" "0 \<notin> C"
proof -
  show "h 0 = None" using ok_heapD [OF assms, of 0] by (meson less_irrefl not_Some_eq)
  show "0 \<notin> N" "0 \<notin> C" using ok_heap_sets [OF assms] by auto
qed

lemma ok_heap_fresh:
  assumes "ok_heap N C a h"
  shows "h a = None" "a \<notin> N" "a \<notin> C" "0 < a"
proof -
  show "h a = None" using ok_heapD [OF assms, of a] by (meson less_irrefl not_Some_eq)
  show "a \<notin> N" "a \<notin> C" "0 < a" using ok_heap_sets [OF assms] by auto
qed

text \<open>Objects may be forgotten, and changed to what is well connected, as long as sinks stay sinks.\<close>

lemma ok_heap_change:
  assumes "ok_heap N C a h" "0 < d" "d < a" "ok_obj N C a h d x"
    and "d \<in> C \<or> (\<exists>y. h d = Some y \<and> (y = WSink \<longleftrightarrow> x = WSink))"
  shows "ok_heap N C a (h(d \<mapsto> x))"
proof -
  have edge: "ok_edge N C (h(d \<mapsto> x)) b e" if "ok_edge N C h b e" for b e
    using that assms(5) by (auto simp: ok_edge_def)
  have obj: "ok_obj N C a (h(d \<mapsto> x)) b y" if "ok_obj N C a h b y" for b y
    using that edge by (auto simp: ok_obj_def split: wobj.splits)
  show ?thesis using assms(1-4) obj by (auto simp: ok_heap_def)
qed

lemma ok_heap_forget:
  assumes "ok_heap N C a h" "\<And>d. h' d = None \<or> h' d = h d"
  shows "ok_heap N C a h'"
proof -
  have edge: "ok_edge N C h' b e" if "ok_edge N C h b e" for b e
    using that assms(2) [of e] by (auto simp: ok_edge_def)
  have obj: "ok_obj N C a h' b y" if "ok_obj N C a h b y" for b y
    using that edge by (auto simp: ok_obj_def split: wobj.splits)
  have "0 < d \<and> d < a \<and> ok_obj N C a h' d x" if "h' d = Some x" for d x
    using ok_heapD [OF assms(1), of d x] assms(2) [of d] that obj by simp
  with ok_heap_sets [OF assms(1)] show ?thesis by (simp add: ok_heap_def)
qed

text \<open>A new object, perhaps a new named destination or a new destination of a client.\<close>

lemma ok_heap_grow:
  assumes "ok_heap N C a h" "x = WSink \<or> x = WDest [] \<or> (\<exists>f. x = WFilter f 0 0 \<and> filter_ok f \<and> N' = N \<and> C' = C)"
    and "N' = N \<and> C' = C \<or> N' = insert a N \<and> C' = C \<or> N' = N \<and> C' = insert a C"
  shows "ok_heap N' C' (Suc a) (h(a \<mapsto> x))"
proof -
  note fresh = ok_heap_fresh [OF assms(1)]
  have edge: "ok_edge N' C' (h(a \<mapsto> x)) b e" if "ok_edge N C h b e" "e < a" "b < a" for b e
    using that assms(3) by (auto simp: ok_edge_def)
  have obj: "ok_obj N' C' (Suc a) (h(a \<mapsto> x)) b y" if "ok_obj N C a h b y" "b < a" for b y
    using that edge [of b] assms(3) by (auto simp: ok_obj_def split: wobj.splits)
  have "ok_obj N' C' (Suc a) (h(a \<mapsto> x)) a x"
    using assms(2,3) fresh ok_heap_null [OF assms(1)] by (auto simp: ok_obj_def ok_edge_def)
  moreover have "0 < d \<and> d < a \<and> ok_obj N' C' (Suc a) (h(a \<mapsto> x)) d y" if "h d = Some y" for d y
    using ok_heapD [OF assms(1) that] obj by simp
  ultimately show ?thesis using ok_heap_sets [OF assms(1)] assms(3) fresh
    by (auto simp: ok_heap_def less_Suc_eq)
qed

section \<open>The operations while a route is built\<close>

definition same_tables :: "router \<Rightarrow> router \<Rightarrow> bool" where
  "same_tables rt rt1 \<longleftrightarrow> rt_named rt1 = rt_named rt \<and> rt_regex rt1 = rt_regex rt \<and> rt_routes rt1 = rt_routes rt \<and>
     rt_sources rt1 = rt_sources rt \<and> rt_clients rt1 = rt_clients rt \<and> rt_alloc rt \<le> rt_alloc rt1"

definition builds :: "wid set \<Rightarrow> wid set \<Rightarrow> router \<Rightarrow> router \<Rightarrow> bool" where
  "builds N C rt rt1 \<longleftrightarrow> graph N C rt1 \<and> same_tables rt rt1"

lemma same_tables_refl [simp]: "same_tables rt rt"
  by (simp add: same_tables_def)

lemma same_tables_trans: "same_tables rt rt1 \<Longrightarrow> same_tables rt1 rt2 \<Longrightarrow> same_tables rt rt2"
  by (auto simp: same_tables_def)

lemma builds_refl: "graph N C rt \<Longrightarrow> builds N C rt rt"
  by (simp add: builds_def)

lemma builds_trans: "builds N C rt rt1 \<Longrightarrow> builds N C rt1 rt2 \<Longrightarrow> builds N C rt rt2"
  unfolding builds_def by (blast intro: same_tables_trans)

lemma builds_graph: "builds N C rt rt1 \<Longrightarrow> graph N C rt1"
  and builds_alloc: "builds N C rt rt1 \<Longrightarrow> rt_alloc rt \<le> rt_alloc rt1"
  by (simp_all add: builds_def same_tables_def)

lemma graph_heap: "graph N C rt \<Longrightarrow> ok_heap N C (rt_alloc rt) (rt_heap rt)"
  and graph_tables: "graph N C rt \<Longrightarrow> ok_tables N C rt"
  by (simp_all add: graph_def)

lemma ok_tables_same: "ok_tables N C rt \<Longrightarrow> same_tables rt rt1 \<Longrightarrow> ok_tables N C rt1"
  unfolding ok_tables_def same_tables_def by (fastforce intro: less_le_trans)

lemma builds_heap:
  assumes "graph N C rt" "ok_heap N C a h" "rt_alloc rt \<le> a"
  shows "builds N C rt (rt\<lparr>rt_heap := h, rt_alloc := a\<rparr>)"
proof -
  have "same_tables rt (rt\<lparr>rt_heap := h, rt_alloc := a\<rparr>)" using assms(3) by (simp add: same_tables_def)
  with assms ok_tables_same [OF graph_tables] show ?thesis by (simp add: builds_def graph_def)
qed

lemma builds_new:
  assumes "graph N C rt" "new_obj x rt = (d, rt1)" "x = WSink \<or> x = WDest [] \<or> (\<exists>f. x = WFilter f 0 0 \<and> filter_ok f)"
  shows "builds N C rt rt1 \<and> d = rt_alloc rt \<and> d < rt_alloc rt1 \<and> d \<notin> N \<and> d \<notin> C \<and> rt_heap rt1 d = Some x"
  using assms builds_heap [OF assms(1) ok_heap_grow [OF graph_heap [OF assms(1)], of x N C]]
    ok_heap_fresh [OF graph_heap [OF assms(1)]]
  by (auto simp: new_obj_def)

lemma builds_change:
  assumes "graph N C rt" "rt_heap rt d = Some y" "ok_obj N C (rt_alloc rt) (rt_heap rt) d x" "y = WSink \<longleftrightarrow> x = WSink"
  shows "builds N C rt (rt\<lparr>rt_heap := (rt_heap rt)(d \<mapsto> x)\<rparr>)"
proof -
  note h = graph_heap [OF assms(1)]
  have "ok_heap N C (rt_alloc rt) ((rt_heap rt)(d \<mapsto> x))"
    using ok_heap_change [OF h _ _ assms(3)] ok_heapD [OF h assms(2)] assms(2,4) by auto
  from builds_heap [OF assms(1) this] show ?thesis by simp
qed

lemma builds_dest_add:
  assumes "graph N C rt" "e < rt_alloc rt" "ok_edge N C (rt_heap rt) d e"
  shows "builds N C rt (dest_add d e rt)"
proof (cases "\<exists>es. rt_heap rt d = Some (WDest es)")
  case True
  then obtain es where es: "rt_heap rt d = Some (WDest es)" by blast
  with ok_heapD [OF graph_heap [OF assms(1)] es] assms(2,3)
  have "ok_obj N C (rt_alloc rt) (rt_heap rt) d (WDest (Destination_add e es))"
    by (auto simp: ok_obj_def Destination_add_def)
  from builds_change [OF assms(1) es this] es show ?thesis by (simp add: dest_add_def)
next
  case False
  then have "dest_add d e rt = rt" by (auto simp: dest_add_def split: option.split wobj.split)
  with assms(1) show ?thesis by (simp add: builds_refl)
qed

lemma ok_edge_named:
  assumes "graph N C rt" "dest \<notin> N" "e \<in> insert 0 N"
  shows "e < rt_alloc rt" "ok_edge N C (rt_heap rt) dest e"
  using ok_heap_null [OF graph_heap [OF assms(1)]] ok_heap_sets [OF graph_heap [OF assms(1)]] assms(2,3)
  by (auto simp: ok_edge_def)

lemma builds_take:
  assumes "graph N C rt" "dest \<notin> N" "\<And>pat d. (pat, d) \<in> set entries \<Longrightarrow> d \<in> insert 0 N"
  shows "builds N C rt (fold (\<lambda>(pat, d) rt. if P pat then dest_add dest d rt else rt) entries rt)"
  using assms
proof (induction entries arbitrary: rt)
  case (Cons x xs)
  obtain pat d where x: "x = (pat, d)" by (cases x)
  let ?rt = "if P pat then dest_add dest d rt else rt"
  have "builds N C rt ?rt"
    using builds_dest_add [OF Cons.prems(1) ok_edge_named [OF Cons.prems(1,2)]] Cons.prems(1,3) x
    by (auto intro: builds_refl)
  moreover from this have "builds N C ?rt (fold (\<lambda>(pat, d) rt. if P pat then dest_add dest d rt else rt) xs ?rt)"
    using Cons.prems by (intro Cons.IH) (auto dest: builds_graph)
  ultimately show ?case using x by (auto intro: builds_trans)
qed (simp add: builds_refl)

lemma builds_connect_to_dest:
  assumes "graph N C rt" "dest \<notin> N"
  shows "builds N C rt (connect_to_dest rmatch name dest rt)"
proof -
  let ?rt = "case map_of (rt_named rt) name of None \<Rightarrow> rt | Some e \<Rightarrow> dest_add dest e rt"
  have 1: "builds N C rt ?rt"
    using graph_tables [OF assms(1)] builds_dest_add [OF assms(1) ok_edge_named [OF assms]] assms(1)
    by (auto simp: ok_tables_def intro: builds_refl split: option.split)
  then have "builds N C ?rt (fold (\<lambda>(pat, d) rt. if rmatch pat name then dest_add dest d rt else rt) (rt_regex ?rt) ?rt)"
    using graph_tables [OF builds_graph [OF 1]] assms(2)
    by (intro builds_take) (auto simp: ok_tables_def dest: builds_graph)
  with 1 show ?thesis unfolding connect_to_dest_def Let_def by (auto intro: builds_trans)
qed

text \<open>Filters are made in order and stay so.\<close>

lemma filter_ok_connected: "filter_ok f \<Longrightarrow> filter_ok (filter_chain f)" "filter_ok f \<Longrightarrow> filter_ok (filter_rest f)"
  by (cases f; auto simp: Pipe_chain_def Filter_rest_def mavlink_ok_def nmea_ok_def rtcm_ok_def ubx_ok_def
      counters_ok_def ml_size_def)+

lemma length_crc_extra: "length crc_extra = 256"
  by (simp add: crc_extra_def)

lemma Mavlink_init_yaml_ok:
  assumes "mavlink_ok st" "Mavlink_v1_init_yaml as_byte cfg st = Inr st1"
  shows "mavlink_ok st1"
proof -
  have ok: "mavlink_ok (st\<lparr>ml_crc_extra := Some es\<rparr>)" if "256 \<le> length es" for es
    using assms(1) that by (simp add: mavlink_ok_def counters_ok_def ml_size_def)
  have pad: "256 \<le> length (if length es < 256 then es @ replicate (256 - length es) 0 else es)" for es :: bytes
    by simp
  obtain crcs where c: "(case crcs of
      YSeq ys \<Rightarrow> bind_res (as_list as_byte crcs) (\<lambda>holder.
        let holder = (if length holder < 256 then holder @ replicate (256 - length holder) 0 else holder)
        in Inr (st\<lparr>ml_crc_extra := Some holder\<rparr>))
    | _ \<Rightarrow> Inr (st\<lparr>ml_crc_extra := Some crc_extra\<rparr>)) = Inr st1"
    using assms(2) by (auto simp: Mavlink_v1_init_yaml_def bind_res_Inr)
  consider "st1 = st\<lparr>ml_crc_extra := Some crc_extra\<rparr>"
    | es where "st1 = st\<lparr>ml_crc_extra := Some (if length es < 256 then es @ replicate (256 - length es) 0 else es)\<rparr>"
    using c unfolding bind_res_Inr Let_def by (cases crcs) (auto simp only: yaml.case bind_res_Inr sum.inject)
  then show ?thesis using ok [OF pad] ok [of crc_extra] length_crc_extra by cases auto
qed

definition good_env :: "renv \<Rightarrow> bool" where
  "good_env env \<longleftrightarrow> (\<forall>n. length (fst (snd env) n) = n)"

lemma Filters_create_yaml_ok:
  assumes "good_env env" "Filters_create_yaml (fst (snd env)) (snd (snd env)) t cfg = Inr (Some f)"
  shows "filter_ok f"
proof -
  obtain g where g: "Filters_create (fst (snd env)) t = Some g" "filter_init_yaml (snd (snd env)) cfg g = Inr f"
    using assms(2) by (auto simp: Filters_create_yaml_def bind_res_Inr split: option.splits)
  then have "filter_ok g" using Filters_create_ok assms(1) by (auto simp: good_env_def)
  with g(2) show ?thesis
    by (cases g) (auto simp: filter_init_yaml_def bind_res_Inr intro: Mavlink_init_yaml_ok)
qed

lemma ok_edge_younger: "d \<notin> N \<Longrightarrow> e \<notin> C \<Longrightarrow> d < e \<Longrightarrow> ok_edge N C h d e"
  by (simp add: ok_edge_def)

lemma builds_set_port:
  assumes "graph N C rt" "d < rt_alloc rt" "ok_edge N C (rt_heap rt) fid d"
  shows "builds N C rt (set_next fid d rt)" "builds N C rt (set_rest fid d rt)"
proof -
  have filt: "builds N C rt (rt\<lparr>rt_heap := (rt_heap rt)(fid \<mapsto> WFilter g n r)\<rparr>)"
    if "rt_heap rt fid = Some (WFilter f n' r')" "filter_ok f \<Longrightarrow> filter_ok g"
       "n = d \<and> r = r' \<or> n = n' \<and> r = d" for f g n r n' r'
    using ok_heapD [OF graph_heap [OF assms(1)] that(1)] assms(2,3) that
    by (intro builds_change [OF assms(1) that(1)]) (auto simp: ok_obj_def)
  show "builds N C rt (set_next fid d rt)" "builds N C rt (set_rest fid d rt)"
    unfolding set_next_def set_rest_def using builds_refl [OF assms(1)]
    by (auto intro: filt filter_ok_connected split: option.split wobj.split)
qed

text \<open>The part of a route behind one port of a filter.\<close>

lemma builds_branch:
  assumes "graph N C rt" "fid \<notin> N" "fid < rt_alloc rt"
    and port: "setp = set_next \<or> setp = set_rest"
    and sub: "\<And>d rt1. graph N C rt1 \<Longrightarrow> d \<notin> N \<Longrightarrow> d < rt_alloc rt1 \<Longrightarrow> builds N C rt1 (g d rt1)"
  shows "builds N C rt (case new_obj (WDest []) rt of (d, rt1) \<Rightarrow> g d (setp fid d rt1))"
proof -
  obtain d rt1 where n: "new_obj (WDest []) rt = (d, rt1)" by (cases "new_obj (WDest []) rt")
  note b = builds_new [OF assms(1) n]
  then have "builds N C rt1 (setp fid d rt1)"
    using builds_set_port [OF builds_graph, of N C rt rt1 d fid] ok_edge_younger [of fid N d C] assms(2,3) port by auto
  then have 2: "builds N C rt (setp fid d rt1)" using b builds_trans by blast
  then have "builds N C (setp fid d rt1) (g d (setp fid d rt1))"
    using b \<open>builds N C rt1 (setp fid d rt1)\<close>
    by (intro sub) (auto dest: builds_graph builds_alloc)
  with 2 n show ?thesis by (auto intro: builds_trans)
qed


lemma builds_branch_if:
  assumes "graph N C rt" "fid \<notin> N" "fid < rt_alloc rt" "setp = set_next \<or> setp = set_rest"
    and "\<And>d rt1. b \<Longrightarrow> graph N C rt1 \<Longrightarrow> d \<notin> N \<Longrightarrow> d < rt_alloc rt1 \<Longrightarrow> builds N C rt1 (fst (snd (g d (rt1, fs))))"
  shows "builds N C rt (fst (snd (if b then case new_obj (WDest []) rt of (d, rt1) \<Rightarrow> g d (setp fid d rt1, fs)
    else (q, (rt, fs)))))"
  using builds_branch [OF assms(1-4), of "\<lambda>d rt1. fst (snd (g d (rt1, fs)))"] assms(5) builds_refl [OF assms(1)]
  by (auto split: prod.splits)

text \<open>By size of the configuration.\<close>

lemma builds_construct_route:
  assumes "good_env env"
  shows "graph N C (fst st) \<Longrightarrow> dest \<notin> N \<Longrightarrow> dest < rt_alloc (fst st) \<Longrightarrow>
    builds N C (fst st) (fst (snd (construct_route env cfg dest st)))"
proof (induction "yaml_size cfg" arbitrary: cfg dest st rule: less_induct)
  case less
  show ?case
  proof (cases cfg)
    case (YScalar name)
    with less.prems show ?thesis by (simp add: builds_connect_to_dest)
  next
    case (YSeq ys)
    have "builds N C (fst st') (fst (snd (construct_route_seq env zs dest st')))"
      if "set zs \<subseteq> set ys" "graph N C (fst st')" "dest < rt_alloc (fst st')" for zs st'
      using that
    proof (induction zs arbitrary: st')
      case (Cons z zs)
      let ?r = "construct_route env z dest st'"
      have "yaml_size z < yaml_size cfg" using Cons.prems(1) YSeq yaml_size_elem [of z ys] by simp
      from less.hyps [OF this Cons.prems(2) less.prems(2) Cons.prems(3)]
      have 1: "builds N C (fst st') (fst (snd ?r))" .
      then have "builds N C (fst (snd ?r)) (fst (snd (construct_route_seq env zs dest (snd ?r))))"
        using Cons.prems by (intro Cons.IH) (auto dest: builds_graph builds_alloc)
      with 1 show ?case by (auto split: prod.split sum.split intro: builds_trans)
    qed (simp add: builds_refl)
    then show ?thesis using less.prems YSeq by simp
  next
    case (YMap kvs)
    let ?dst = "yaml_find ''dst'' kvs" and ?rest = "yaml_find ''rest'' kvs"
    let ?type = "yaml_find ''type'' kvs"
    let ?f = "bind_res (as_string ?type) (\<lambda>t. Filters_create_yaml (fst (snd env)) (snd (snd env)) t (YMap kvs))"
    have small: "is_defined y \<Longrightarrow> y = ?dst \<or> y = ?rest \<Longrightarrow> yaml_size y < yaml_size cfg" for y
      using yaml_find_smaller [of "''dst''" kvs] yaml_find_smaller [of "''rest''" kvs] YMap by (auto simp: is_defined_def)
    show ?thesis
    proof (cases "is_defined ?type \<and> (\<exists>f. ?f = Inr (Some f))")
      case False
      then show ?thesis using less.prems(1) YMap
        by (auto simp: builds_refl Let_def split: sum.split option.split)
    next
      case True
      then obtain f where f: "?f = Inr (Some f)" and t: "is_defined ?type" by blast
      then have ok: "filter_ok f" using Filters_create_yaml_ok [OF assms] by (auto simp: bind_res_Inr)
      obtain fid rt1 where n: "new_obj (WFilter f 0 0) (fst st) = (fid, rt1)" by (cases "new_obj (WFilter f 0 0) (fst st)")
      from builds_new [OF less.prems(1) n] ok have 1: "builds N C (fst st) rt1"
        and fid: "fid = rt_alloc (fst st)" "fid < rt_alloc rt1" "fid \<notin> N" "fid \<notin> C" by auto
      define r2 where "r2 = (if is_defined ?dst
         then case new_obj (WDest []) rt1 of (d, rt) \<Rightarrow> construct_route env ?dst d (set_next fid d rt, snd st @ [fid])
         else (Inr True, (rt1, snd st @ [fid])))"
      have 2: "builds N C rt1 (fst (snd r2))" unfolding r2_def
        using less.hyps small by (intro builds_branch_if [OF builds_graph [OF 1] fid(3,2)]) force+
      define r3 where "r3 = (if is_defined ?rest
         then case new_obj (WDest []) (fst (snd r2)) of (d, rt) \<Rightarrow> construct_route env ?rest d (set_rest fid d rt, snd (snd r2))
         else (Inr True, snd r2))"
      have r3: "r3 = (if is_defined ?rest
         then case new_obj (WDest []) (fst (snd r2)) of (d, rt) \<Rightarrow> construct_route env ?rest d (set_rest fid d rt, snd (snd r2))
         else (Inr True, (fst (snd r2), snd (snd r2))))" by (simp add: r3_def)
      have 3: "builds N C (fst (snd r2)) (fst (snd r3))"
        unfolding r3 using less.hyps small builds_alloc [OF 2] fid(2)
        by (intro builds_branch_if [OF builds_graph [OF 2] fid(3)]) force+
      have 4: "builds N C (fst (snd r3)) (dest_add dest fid (fst (snd r3)))"
        using builds_alloc [OF 2] builds_alloc [OF 3] fid less.prems
        by (intro builds_dest_add [OF builds_graph [OF 3]] ok_edge_younger) auto
      have "construct_route env cfg dest st =
          (case fst r2 of Inl e \<Rightarrow> (Inl e, snd r2) | Inr _ \<Rightarrow>
            (case fst r3 of Inl e \<Rightarrow> (Inl e, snd r3)
             | Inr _ \<Rightarrow> (Inr True, (dest_add dest fid (fst (snd r3)), snd (snd r3)))))"
        unfolding YMap construct_route.simps Let_def f
        by (simp only: t n not_True_eq_False if_False sum.case option.case prod.case fst_conv snd_conv
            r2_def [symmetric] r3_def [symmetric])
      then have "fst (snd (construct_route env cfg dest st)) \<in>
          {fst (snd r2), fst (snd r3), dest_add dest fid (fst (snd r3))}" by (simp split: sum.split)
      moreover note builds_trans [OF 1 2]
      moreover note builds_trans [OF builds_trans [OF 1 2] 3]
      moreover note builds_trans [OF builds_trans [OF builds_trans [OF 1 2] 3] 4]
      ultimately show ?thesis by auto
    qed
  qed (use less.prems in \<open>simp_all add: builds_refl\<close>)
qed

lemma builds_construct_routes:
  assumes "good_env env" "graph N C (fst st)" "dest \<notin> N" "dest < rt_alloc (fst st)"
  shows "builds N C (fst st) (fst (snd (construct_routes env name dest st)))"
proof -
  have "builds N C (fst st) (fst (snd (construct_routes_loop env rs name dest st)))" for rs
    using assms
  proof (induction rs arbitrary: st)
    case (Cons x rs)
    obtain endpoint_name route_name dst where x: "x = (endpoint_name, route_name, dst)" by (cases x)
    let ?r = "construct_route env dst dest st"
    have 1: "builds N C (fst st) (fst (snd ?r))"
      using builds_construct_route [OF Cons.prems(1,2) Cons.prems(3,4)] .
    then have "builds N C (fst (snd ?r)) (fst (snd (construct_routes_loop env rs name dest (snd ?r))))"
      using Cons.prems by (intro Cons.IH) (auto dest: builds_graph builds_alloc)
    from builds_trans [OF 1 this] 1 Cons show ?case
      by (auto simp: x builds_refl split: prod.split sum.split bool.split)
  qed (simp add: builds_refl)
  then show ?thesis by (simp add: construct_routes_def)
qed

section \<open>The store and the tables\<close>

lemma routedI: "graph N C rt \<Longrightarrow> routed rt"
  by (auto simp: routed_def)

lemma graph_tables_update:
  assumes "graph N C rt" "rt_heap rt1 = rt_heap rt" "rt_alloc rt1 = rt_alloc rt" "ok_tables N C rt1"
  shows "graph N C rt1"
  using assms by (simp add: graph_def)

text \<open>The sets grow with a new destination.\<close>

lemma graph_grow:
  assumes "graph N C rt" "new_obj (WDest []) rt = (d, rt1)"
  shows "graph (insert d N) C rt1" "graph N (insert d C) rt1"
proof -
  note h = graph_heap [OF assms(1)]
  have d: "d = rt_alloc rt" "rt_alloc rt1 = Suc d" "rt_heap rt1 = (rt_heap rt)(d \<mapsto> WDest [])"
    using assms(2) by (auto simp: new_obj_def)
  have "same_tables rt rt1" using assms(2) by (auto simp: new_obj_def same_tables_def)
  then have t: "ok_tables N C rt1" using ok_tables_same [OF graph_tables [OF assms(1)]] by blast
  have s: "src_dest e \<noteq> d" if "map_of (rt_sources rt1) name = Some e" for name e
    using graph_tables [OF assms(1)] that d \<open>same_tables rt rt1\<close> by (fastforce simp: ok_tables_def same_tables_def)
  have "ok_tables (insert d N) C rt1" "ok_tables N (insert d C) rt1"
    using t s by (fastforce simp: ok_tables_def)+
  then show "graph (insert d N) C rt1" "graph N (insert d C) rt1"
    using ok_heap_grow [OF h, of "WDest []" "insert d N" C] ok_heap_grow [OF h, of "WDest []" N "insert d C"] d
    by (auto simp: graph_def)
qed

lemma graph_free:
  assumes "graph N C rt"
  shows "graph N C (free_objs ds rt)"
proof -
  have "ok_heap N C (rt_alloc rt) (rt_heap (free_objs ds rt))"
    by (rule ok_heap_forget [OF graph_heap [OF assms]]) (simp add: free_objs_def)
  then show ?thesis using graph_tables [OF assms] by (simp add: graph_def free_objs_def ok_tables_def)
qed

lemma routed_register_name:
  assumes "routed rt"
  shows "routed (snd (register_name rx name rt))"
proof -
  obtain N C where g: "graph N C rt" using assms by (auto simp: routed_def)
  obtain d rt1 where n: "new_obj (WDest []) rt = (d, rt1)" by (cases "new_obj (WDest []) rt")
  let ?rt2 = "rt1\<lparr>rt_named := om_put name d (rt_named rt1)\<rparr>"
  note g1 = graph_grow(1) [OF g n]
  have 2: "graph (insert d N) C ?rt2"
    by (rule graph_tables_update [OF g1]) (use graph_tables [OF g1] in \<open>auto simp: ok_tables_def om_get_put\<close>)
  moreover have "graph (insert d N) C (?rt2\<lparr>rt_regex := rt_regex ?rt2 @ [(tl name, d)]\<rparr>)"
    by (rule graph_tables_update [OF 2]) (use graph_tables [OF 2] in \<open>auto simp: ok_tables_def\<close>)
  ultimately have "graph (insert d N) C (snd (register_name rx name rt))"
    using graph_free [OF 2] n by (auto simp: register_name_def Let_def split: option.split)
  then show ?thesis by (rule routedI)
qed

lemma routed_scan_dst: "routed rt \<Longrightarrow> routed (snd (scan_dst rx cfg rt))"
proof (induction "yaml_size cfg" arbitrary: cfg rt rule: less_induct)
  case less
  show ?case
  proof (cases cfg)
    case (YSeq ys)
    have "routed (snd (scan_dst_seq rx zs rt'))" if "set zs \<subseteq> set ys" "routed rt'" for zs rt'
      using that
    proof (induction zs arbitrary: rt')
      case (Cons z zs)
      have "routed (snd (scan_dst rx z rt'))"
        using Cons.prems YSeq yaml_size_elem [of z ys] by (intro less.hyps) auto
      with Cons show ?case by (auto split: prod.split)
    qed simp
    with less.prems YSeq show ?thesis by simp
  next
    case (YMap kvs)
    let ?dst = "yaml_find ''dst'' kvs" and ?rest = "yaml_find ''rest'' kvs"
    let ?r1 = "if is_defined ?dst then scan_dst rx ?dst rt else (Inr True, rt)"
    have sub: "is_defined y \<Longrightarrow> y = ?dst \<or> y = ?rest \<Longrightarrow> routed rt' \<Longrightarrow> routed (snd (scan_dst rx y rt'))" for y rt'
      using yaml_find_smaller [of "''dst''" kvs] yaml_find_smaller [of "''rest''" kvs] YMap less.hyps
      by (auto simp: is_defined_def)
    then have 1: "routed (snd ?r1)" using less.prems by simp
    show ?thesis using sub [OF _ _ 1, of ?rest] 1 less.prems by (auto simp: YMap Let_def split: if_splits)
  next
    case (YScalar name)
    with routed_register_name [OF less.prems, of rx name] show ?thesis by (auto split: prod.split sum.split)
  qed (use less.prems in simp_all)
qed

lemma routed_add_route: "routed rt \<Longrightarrow> routed (add_route src name dst rt)"
  by (simp add: routed_def add_route_def graph_def ok_tables_def)

lemma routed_add_routes: "routed rt \<Longrightarrow> routed (snd (add_routes ns key dst rt))"
  by (induction ns key dst rt rule: add_routes.induct)
     (auto simp: routed_add_route split: sum.split prod.split)

lemma routed_load_route:
  assumes "routed rt"
  shows "routed (snd (load_route rx key val rt))"
proof (cases val)
  case (YMap kvs)
  have "routed (snd (scan_dst rx (yaml_find ''dst'' kvs) rt))" by (rule routed_scan_dst [OF assms])
  then show ?thesis
    by (auto simp: YMap load_route_def Let_def routed_add_routes simp del: add_routes.simps
        split: prod.split yaml.split sum.split bool.split)
qed (use assms in \<open>simp_all add: load_route_def Let_def\<close>)

lemma routed_load_routes: "routed rt \<Longrightarrow> routed (snd (load_routes rx cfg rt))"
proof (cases cfg)
  case (YMap kvs)
  have "routed rt \<Longrightarrow> routed (snd (load_routes_loop rx kvs rt))" for kvs
  proof (induction kvs arbitrary: rt)
    case (Cons x kvs)
    obtain k v where x: "x = (k, v)" by (cases x)
    from Cons.IH [OF routed_load_route [OF Cons.prems, of rx k v]] routed_load_route [OF Cons.prems, of rx k v]
    show ?case by (auto simp: x split: prod.split sum.split)
  qed simp
  then show "routed rt \<Longrightarrow> ?thesis" using YMap by (simp add: load_routes_def)
qed (simp_all add: load_routes_def)

section \<open>Endpoints and clients\<close>

text \<open>Sinks are added to what is named.\<close>

definition sink_of :: "wid set \<Rightarrow> wid \<Rightarrow> router \<Rightarrow> bool" where
  "sink_of C s rt \<longleftrightarrow> rt_heap rt s = Some WSink \<and> s \<notin> C"

lemma builds_add_sink:
  assumes "graph N C rt" "sink_of C s rt"
  shows "builds N C rt (dest_add d s rt) \<and> sink_of C s (dest_add d s rt)"
proof -
  have "s < rt_alloc rt" "ok_edge N C (rt_heap rt) d s"
    using assms(2) ok_heapD [OF graph_heap [OF assms(1)], of s WSink] by (auto simp: sink_of_def ok_edge_def)
  from builds_dest_add [OF assms(1) this] assms(2) show ?thesis
    by (auto simp: sink_of_def dest_add_def split: option.split wobj.split)
qed

lemma builds_add_sinks:
  assumes "graph N C rt" "sink_of C s rt"
  shows "builds N C rt (fold (\<lambda>(pat, d) rt. if P pat then dest_add d s rt else rt) entries rt) \<and>
    sink_of C s (fold (\<lambda>(pat, d) rt. if P pat then dest_add d s rt else rt) entries rt)"
  using assms
proof (induction entries arbitrary: rt)
  case (Cons x xs)
  obtain pat d where x: "x = (pat, d)" by (cases x)
  let ?rt = "if P pat then dest_add d s rt else rt"
  have 1: "builds N C rt ?rt" "sink_of C s ?rt"
    using builds_add_sink [OF Cons.prems] builds_refl [OF Cons.prems(1)] Cons.prems(2) by auto
  from Cons.IH [OF builds_graph [OF 1(1)] 1(2)] builds_trans [OF 1(1)] show ?case by (auto simp: x)
qed (simp add: builds_refl)

text \<open>\<open>same_tables\<close> up to the names.\<close>

definition registers :: "wid set \<Rightarrow> wid set \<Rightarrow> router \<Rightarrow> router \<Rightarrow> bool" where
  "registers N C rt rt1 \<longleftrightarrow> graph N C rt1 \<and> rt_sources rt1 = rt_sources rt \<and> rt_clients rt1 = rt_clients rt \<and>
     rt_alloc rt \<le> rt_alloc rt1"

lemma registers_register_write_end:
  assumes "graph N C rt" "sink_of C s rt"
  shows "registers N C rt (register_write_end rmatch name s rt) \<and> sink_of C s (register_write_end rmatch name s rt)"
proof -
  let ?rt = "case map_of (rt_named rt) name of
      None \<Rightarrow> rt\<lparr>rt_named := om_put name 0 (rt_named rt)\<rparr>
    | Some d \<Rightarrow> if d \<noteq> 0 then dest_add d s rt else rt"
  have "graph N C (rt\<lparr>rt_named := om_put name 0 (rt_named rt)\<rparr>)"
    by (rule graph_tables_update [OF assms(1)])
       (use graph_tables [OF assms(1)] in \<open>auto simp: ok_tables_def om_get_put\<close>)
  then have 1: "registers N C rt ?rt" "sink_of C s ?rt"
    using builds_add_sink [OF assms] assms
    by (auto simp: registers_def builds_def same_tables_def sink_of_def split: option.split)
  then have "graph N C ?rt" by (simp add: registers_def)
  from builds_add_sinks [OF this 1(2), of "\<lambda>pat. rmatch pat name" "rt_regex ?rt"] 1 show ?thesis
    by (auto simp: register_write_end_def Let_def registers_def builds_def same_tables_def)
qed

lemma registers_trans: "registers N C rt rt1 \<Longrightarrow> registers N C rt1 rt2 \<Longrightarrow> registers N C rt rt2"
  by (auto simp: registers_def)

lemma graph_source_entry:
  assumes "graph N C rt" "source_entry_of name rt = (e, rt1)"
  shows "graph N C rt1" "src_dest e \<notin> N" "src_dest e \<notin> C" "src_dest e < rt_alloc rt1"
proof -
  have "graph N C rt1 \<and> src_dest e \<notin> N \<and> src_dest e \<notin> C \<and> src_dest e < rt_alloc rt1"
  proof (cases "map_of (rt_sources rt) name")
    case None
    obtain d rt0 where d: "new_obj (WDest []) rt = (d, rt0)" by (cases "new_obj (WDest []) rt")
    have 0: "graph N C rt0" "d \<notin> N" "d \<notin> C" "d < rt_alloc rt0"
      using builds_new [OF assms(1) d] by (auto dest: builds_graph)
    moreover have "graph N C (rt0\<lparr>rt_sources := om_put name \<lparr>src_dest = d, src_filters = []\<rparr> (rt_sources rt0)\<rparr>)"
      by (rule graph_tables_update [OF 0(1)])
         (use graph_tables [OF 0(1)] 0 in \<open>auto simp: ok_tables_def om_get_put\<close>)
    ultimately show ?thesis using assms(2) None d by (auto simp: source_entry_of_def Let_def)
  next
    case (Some s)
    then show ?thesis using assms graph_tables [OF assms(1)] by (auto simp: source_entry_of_def ok_tables_def)
  qed
  then show "graph N C rt1" "src_dest e \<notin> N" "src_dest e \<notin> C" "src_dest e < rt_alloc rt1" by blast+
qed

lemma routed_setup_endpoint:
  assumes "good_env env" "routed rt"
  shows "routed (snd (setup_endpoint env name rt))"
proof -
  obtain N C where g: "graph N C rt" using assms(2) by (auto simp: routed_def)
  obtain e rt1 where e: "source_entry_of name rt = (e, rt1)" by (cases "source_entry_of name rt")
  note 1 = graph_source_entry [OF g e]
  obtain r rt2 fs where r: "construct_routes env name (src_dest e) (rt1, src_filters e) = (r, (rt2, fs))"
    by (cases "construct_routes env name (src_dest e) (rt1, src_filters e)") auto
  have 2: "builds N C rt1 rt2"
    using builds_construct_routes [OF assms(1), of N C "(rt1, src_filters e)" "src_dest e" name] 1 r by simp
  have "graph N C (rt2\<lparr>rt_sources := om_put name (e\<lparr>src_filters := fs\<rparr>) (rt_sources rt2)\<rparr>)"
    by (rule graph_tables_update [OF builds_graph [OF 2]])
       (use graph_tables [OF builds_graph [OF 2]] 1(2-4) builds_alloc [OF 2] in \<open>auto simp: ok_tables_def om_get_put\<close>)
  then show ?thesis using e r by (auto simp: setup_endpoint_def intro: routedI)
qed

text \<open>A connection: the sets may grow by the destination of the new client.\<close>

lemma graph_client_entry:
  assumes "graph N C rt" "client_entry_of name rt = (e, rt1)" "sink_of C s rt"
  shows "\<exists>C'. graph N C' rt1 \<and> cli_dest e \<in> C' \<and> sink_of C' s rt1"
proof (cases "map_of (rt_clients rt) name")
  case None
  obtain d rt0 where d: "new_obj (WDest []) rt = (d, rt0)" by (cases "new_obj (WDest []) rt")
  note 0 = graph_grow(2) [OF assms(1) d]
  have "sink_of (insert d C) s rt0"
    using assms(3) d ok_heap_fresh(1) [OF graph_heap [OF assms(1)]] by (auto simp: sink_of_def new_obj_def)
  moreover have "graph N (insert d C)
      (rt0\<lparr>rt_clients := om_put name \<lparr>cli_obj = 0, cli_dest = d, cli_filters = []\<rparr> (rt_clients rt0)\<rparr>)"
    by (rule graph_tables_update [OF 0]) (use graph_tables [OF 0] in \<open>auto simp: ok_tables_def om_get_put\<close>)
  ultimately show ?thesis using assms(2) None d
    by (intro exI [of _ "insert d C"]) (auto simp: client_entry_of_def Let_def sink_of_def)
next
  case (Some c)
  then show ?thesis using assms graph_tables [OF assms(1)] by (auto simp: client_entry_of_def ok_tables_def)
qed

lemma graph_dest_clear:
  assumes "graph N C rt" "d \<in> C"
  shows "graph N C (dest_clear d rt)"
proof -
  note h = graph_heap [OF assms(1)]
  have "ok_heap N C (rt_alloc rt) ((rt_heap rt)(d \<mapsto> WDest []))"
    using ok_heap_change [OF h, of d "WDest []"] ok_heap_sets [OF h] assms(2) by (auto simp: ok_obj_def)
  from builds_graph [OF builds_heap [OF assms(1) this]] show ?thesis by (simp add: dest_clear_def)
qed

lemma routed_on_connect_client:
  assumes "good_env env" "routed rt"
  shows "routed (snd (on_connect_client env name register cli_name rt))"
proof -
  obtain N C where g: "graph N C rt" using assms(2) by (auto simp: routed_def)
  obtain cli rt0 where n: "new_obj WSink rt = (cli, rt0)" by (cases "new_obj WSink rt")
  have 0: "graph N C rt0" "sink_of C cli rt0"
    using builds_new [OF g n] by (auto simp: sink_of_def dest: builds_graph)
  define rt1 where "rt1 = (if register
      then register_write_end (rx_match (fst env)) name cli (register_write_end (rx_match (fst env)) cli_name cli rt0) else rt0)"
  have 1: "graph N C rt1" "sink_of C cli rt1"
    using 0 registers_register_write_end [OF 0, of "rx_match (fst env)" cli_name]
      registers_register_write_end [of N C "register_write_end (rx_match (fst env)) cli_name cli rt0" cli "rx_match (fst env)" name]
    by (auto simp: rt1_def registers_def)
  obtain e rt2 where e: "client_entry_of cli_name rt1 = (e, rt2)" by (cases "client_entry_of cli_name rt1")
  obtain C' where 2: "graph N C' rt2" "cli_dest e \<in> C'" using graph_client_entry [OF 1(1) e 1(2)] by blast
  define rt3 where "rt3 = dest_clear (cli_dest e) (free_objs [cli_obj e] rt2)"
  have 3: "graph N C' rt3" unfolding rt3_def by (intro graph_dest_clear graph_free 2)
  have c: "cli_dest e \<notin> N" "cli_dest e < rt_alloc rt3" using ok_heap_sets [OF graph_heap [OF 3]] 2(2) by auto
  obtain r rt4 fs where r: "construct_routes env cli_name (cli_dest e) (rt3, cli_filters e) = (r, (rt4, fs))"
    by (cases "construct_routes env cli_name (cli_dest e) (rt3, cli_filters e)") auto
  have 4: "graph N C' rt4"
    using builds_construct_routes [OF assms(1), of N C' "(rt3, cli_filters e)" "cli_dest e" cli_name] 3 c r
    by (auto dest: builds_graph)
  define rt5 where "rt5 = rt4\<lparr>rt_clients := om_put cli_name (e\<lparr>cli_obj := cli, cli_filters := fs\<rparr>) (rt_clients rt4)\<rparr>"
  have 5: "graph N C' rt5" unfolding rt5_def
    by (rule graph_tables_update [OF 4]) (use graph_tables [OF 4] 2(2) in \<open>auto simp: ok_tables_def om_get_put\<close>)
  have "graph N C' (dest_add (cli_dest e) (src_dest s) rt5)" if "map_of (rt_sources rt5) name = Some s" for s
  proof -
    have "src_dest s < rt_alloc rt5" "src_dest s \<notin> C'"
      using graph_tables [OF 5] that by (auto simp: ok_tables_def)
    then show ?thesis using c(1) 2(2)
      by (intro builds_graph [OF builds_dest_add [OF 5]]) (auto simp: ok_edge_def)
  qed
  with 5 have "graph N C' (snd (on_connect_client env name register cli_name rt))"
    using n e r by (auto simp: on_connect_client_def Let_def rt1_def [symmetric] rt3_def [symmetric]
        rt5_def [symmetric] split: sum.split option.split)
  then show ?thesis by (rule routedI)
qed

lemma routed_on_close_client: "routed rt \<Longrightarrow> routed (on_close_client cli_name rt)"
proof -
  assume "routed rt"
  then obtain N C where g: "graph N C rt" by (auto simp: routed_def)
  have "graph N C (rt\<lparr>rt_clients := om_del cli_name (rt_clients rt)\<rparr>)"
    by (rule graph_tables_update [OF g]) (use graph_tables [OF g] in \<open>auto simp: ok_tables_def om_get_del\<close>)
  from graph_free [OF this] show ?thesis
    using g by (auto simp: on_close_client_def intro: routedI split: option.split)
qed

section \<open>Writes\<close>

lemma ok_heap_prune:
  assumes "ok_heap N C a h" "h d = Some (WDest es)" "set kept \<subseteq> set es"
  shows "ok_heap N C a (h(d \<mapsto> WDest kept))"
  using ok_heapD [OF assms(1,2)] assms(2,3) by (intro ok_heap_change [OF assms(1)]) (auto simp: ok_obj_def)

lemma ok_heap_filter:
  assumes "ok_heap N C a h" "h d = Some (WFilter f n r)" "filter_ok f'"
  shows "ok_heap N C a (h(d \<mapsto> WFilter f' n r))"
  using ok_heapD [OF assms(1,2)] assms(2,3) by (intro ok_heap_change [OF assms(1)]) (auto simp: ok_obj_def)

lemma Destination_write_kept_subset:
  "Destination_write alive reply len es = (r, kept, targets) \<Longrightarrow> kept = filter alive es \<and> targets = filter alive es"
  using Destination_write_kept [of alive reply len es] Destination_write_targets [of alive reply len es] by simp

lemma ok_heap_run_writes:
  assumes "run_writes ts h = Some r" "ok_heap N C a h"
  shows "ok_heap N C a (fst r)"
proof -
  have "ok_heap N C a h \<longrightarrow> ok_heap N C a (fst r)"
  proof (rule run_writes.raw_induct [OF _ assms(1), where P = "\<lambda>ts h r. ok_heap N C a h \<longrightarrow> ok_heap N C a (fst r)"], intro impI)
    fix run ts h r
    assume IH: "\<And>ts h r. run ts h = Some r \<Longrightarrow> ok_heap N C a h \<longrightarrow> ok_heap N C a (fst r)"
      and body: "(case ts of
        [] \<Rightarrow> Some (h, [])
      | (o1, buf) # ts1 \<Rightarrow>
          (case h o1 of
             None \<Rightarrow> run ts1 h
           | Some WSink \<Rightarrow> Option.bind (run ts1 h) (\<lambda>r. Some (fst r, (o1, buf) # snd r))
           | Some (WDest es) \<Rightarrow>
               (case Destination_write (\<lambda>e. h e \<noteq> None) (\<lambda>e. 0) 0 es of (_, kept, targets) \<Rightarrow>
                  run (map (\<lambda>e. (e, buf)) targets @ ts1) (h(o1 \<mapsto> WDest kept)))
           | Some (WFilter f nxt rst) \<Rightarrow>
               (case filter_write buf f of
                  None \<Rightarrow> None
                | Some f1 \<Rightarrow>
                    run (map (\<lambda>(p, b). (filter_target p nxt rst, b)) (filter_outs f1) @ ts1)
                      (h(o1 \<mapsto> WFilter f1 nxt rst))))) = Some r"
      and ok: "ok_heap N C a h"
    show "ok_heap N C a (fst r)"
    proof (cases ts)
      case Nil
      with body ok show ?thesis by auto
    next
      case (Cons t ts1)
      obtain d buf where t: "t = (d, buf)" by (cases t)
      show ?thesis
      proof (cases "h d")
        case None
        with body Cons t IH ok show ?thesis by auto
      next
        case (Some x)
        show ?thesis
        proof (cases x)
          case (WDest es)
          obtain w kept targets where w: "Destination_write (\<lambda>e. h e \<noteq> None) (\<lambda>e. 0) 0 es = (w, kept, targets)"
            using prod_cases3 by blast
          then have "ok_heap N C a (h(d \<mapsto> WDest kept))"
            using Destination_write_kept_subset [OF w] Some WDest by (intro ok_heap_prune [OF ok]) auto
          with body Cons t IH Some WDest w show ?thesis by auto
        next
          case (WFilter f n1 r1)
          then have "filter_ok f" using ok_heapD [OF ok Some] by (simp add: ok_obj_def)
          then have "ok_heap N C a (h(d \<mapsto> WFilter f1 n1 r1))" if "filter_write buf f = Some f1" for f1
            using that filter_write_keeps ok_heap_filter [OF ok] Some WFilter by blast
          with body Cons t IH Some WFilter show ?thesis by (auto split: option.splits)
        qed (use body Cons t IH Some ok in \<open>auto simp: bind_eq_Some_conv\<close>)
      qed
    qed
  qed
  with assms(2) show ?thesis by blast
qed

lemma routed_on_read_client:
  assumes "routed rt" "on_read_client cli_name buf rt = Some (out, rt1)"
  shows "routed rt1"
proof -
  obtain N C where g: "graph N C rt" using assms(1) by (auto simp: routed_def)
  have "graph N C (rt\<lparr>rt_heap := h\<rparr>)" if "run_writes ts (rt_heap rt) = Some (h, out')" for ts h out'
    using ok_heap_run_writes [OF that] g by (auto simp: graph_def ok_tables_def)
  then show ?thesis using assms(2) g
    by (auto simp: on_read_client_def write_to_def intro: routedI split: option.splits)
qed

section \<open>Loading endpoints\<close>

lemma registers_routed: "registers N C rt rt1 \<Longrightarrow> routed rt1"
  by (auto simp: registers_def intro: routedI)

lemma routed_register_new_sink:
  assumes "routed rt" "new_obj WSink rt = (c, rt1)"
  shows "routed (register_write_end rmatch name c (rt1\<lparr>rt_files := fs\<rparr>))"
    and "routed (register_write_end rmatch name c rt1)"
proof -
  obtain N C where g: "graph N C rt" using assms(1) by (auto simp: routed_def)
  note n = builds_new [OF g assms(2)]
  have 1: "graph N C rt1" "sink_of C c rt1" using n by (auto simp: sink_of_def dest: builds_graph)
  have 2: "graph N C (rt1\<lparr>rt_files := fs\<rparr>)"
    by (rule graph_tables_update [OF 1(1)]) (use graph_tables [OF 1(1)] in \<open>auto simp: ok_tables_def\<close>)
  have "sink_of C c (rt1\<lparr>rt_files := fs\<rparr>)" using 1(2) by (simp add: sink_of_def)
  from registers_routed registers_register_write_end [OF 2 this, of rmatch name]
    registers_register_write_end [OF 1, of rmatch name]
  show "routed (register_write_end rmatch name c (rt1\<lparr>rt_files := fs\<rparr>))"
    "routed (register_write_end rmatch name c rt1)" by blast+
qed

lemma routed_load_udp_client:
  assumes "good_env env" "routed rt"
  shows "routed (load_udp_client env init name cfg rt)"
proof -
  obtain c rt1 where n: "new_obj WSink rt = (c, rt1)" by (cases "new_obj WSink rt")
  from routed_setup_endpoint [OF assms(1) routed_register_new_sink(2) [OF assms(2) n]] n assms(2)
  show ?thesis by (auto simp: load_udp_client_def split: init_result.split)
qed

lemma routed_load_endpoint: "good_env env \<Longrightarrow> routed rt \<Longrightarrow> routed (load_endpoint env init kind name cfg rt)"
  by (auto simp: load_endpoint_def routed_setup_endpoint split: init_result.split)

lemma routed_load_file: "routed rt \<Longrightarrow> routed (snd (load_file env init name cfg rt))"
  by (auto simp: load_file_def routed_register_new_sink split: init_result.split prod.split)

lemma routed_each_entry:
  "(\<And>name v rt. routed rt \<Longrightarrow> routed (snd (f name v rt))) \<Longrightarrow> routed rt \<Longrightarrow> routed (snd (each_entry f kvs rt))"
proof (induction kvs arbitrary: rt)
  case (Cons x kvs)
  obtain k v where x: "x = (k, v)" by (cases x)
  have "routed (snd (f name v rt))" for name by (rule Cons.prems)+
  with Cons show ?case by (auto simp: x split: sum.split prod.split) (metis snd_conv)+
qed simp

lemma routed_in_order:
  "(\<And>f rt. f \<in> set fs \<Longrightarrow> routed rt \<Longrightarrow> routed (snd (f rt))) \<Longrightarrow> routed rt \<Longrightarrow> routed (snd (in_order fs rt))"
proof (induction fs arbitrary: rt)
  case (Cons f fs)
  have "routed (snd (f rt))" "\<And>r. routed r \<Longrightarrow> routed (snd (in_order fs r))" using Cons by simp_all
  then show ?case by (cases "f rt") (auto split: sum.split)
qed simp

lemma routed_load_endpoints:
  assumes "good_env env" "routed rt"
  shows "routed (snd (load_endpoints env init cfg rt))"
proof (cases cfg)
  case (YMap kvs)
  show ?thesis unfolding YMap load_endpoints_def yaml.case Let_def
    using assms(1)
    by (intro routed_in_order assms(2))
       (auto intro!: routed_each_entry routed_load_udp_client routed_load_endpoint routed_load_file)
qed (use assms(2) in \<open>simp_all add: load_endpoints_def\<close>)

lemma routed_connect_stats:
  assumes "routed rt"
  shows "routed (snd (connect_stats env name rt))"
proof -
  obtain N C where g: "graph N C rt" using assms by (auto simp: routed_def)
  obtain d rt1 where n: "new_obj (WDest []) rt = (d, rt1)" by (cases "new_obj (WDest []) rt")
  from builds_new [OF g n] have 1: "graph N C rt1" "d \<notin> N" by (auto dest: builds_graph)
  have 2: "graph N C (connect_to_dest (rx_match (fst env)) name d rt1)"
    by (rule builds_graph [OF builds_connect_to_dest [OF 1]])
  from routedI [OF 2] routedI [OF graph_free [OF 2, of "[d]"]] n show ?thesis
    by (simp add: connect_stats_def Let_def)
qed

lemma routed_new: "routed router_new"
  by (intro routedI [of "{}" "{}"])
     (simp add: graph_def ok_heap_def ok_tables_def router_new_def)

lemma routed_cleanup: "routed rt \<Longrightarrow> routed (router_cleanup rt)"
  by (auto simp: routed_def router_cleanup_def store_clear_def graph_def ok_heap_def ok_tables_def
      intro!: exI [of _ "{}"])

section \<open>Every order of events\<close>

text \<open>What happens to a router: its configuration is loaded, clients connect to its endpoints
  under any name, are read from, and go; the statistics are connected; it is cleaned up.\<close>

inductive router_step :: "renv \<Rightarrow> router \<Rightarrow> router \<Rightarrow> bool" for env where
  routes: "router_step env rt (snd (load_routes (fst env) cfg rt))"
| endpoints: "router_step env rt (snd (load_endpoints env init cfg rt))"
| connects: "router_step env rt (snd (on_connect_client env name register cli_name rt))"
| reads: "on_read_client cli_name buf rt = Some (out, rt1) \<Longrightarrow> router_step env rt rt1"
| stats: "router_step env rt (snd (connect_stats env name rt))"
| closes: "router_step env rt (on_close_client cli_name rt)"
| cleanup: "router_step env rt (router_cleanup rt)"

inductive router_reachable :: "renv \<Rightarrow> router \<Rightarrow> bool" for env where
  start: "router_reachable env router_new"
| step: "router_reachable env rt \<Longrightarrow> router_step env rt rt1 \<Longrightarrow> router_reachable env rt1"

lemma router_step_routed: "router_step env rt rt1 \<Longrightarrow> good_env env \<Longrightarrow> routed rt \<Longrightarrow> routed rt1"
  by (induction rule: router_step.induct)
     (auto intro: routed_load_routes routed_load_endpoints routed_on_connect_client routed_on_read_client
       routed_on_close_client routed_cleanup routed_connect_stats)

lemma router_reachable_routed: "router_reachable env rt \<Longrightarrow> good_env env \<Longrightarrow> routed rt"
  by (induction rule: router_reachable.induct) (auto intro: routed_new router_step_routed)

section \<open>Every write returns\<close>














section \<open>Properties\<close>

text \<open>C3: Whatever the configuration is and in whatever order clients connect, are read from and go, the
  destinations, filters and sinks the router holds form a graph without a cycle, and every filter in it
  keeps the invariant of its recogniser.\<close>

theorem router_graph_acyclic:
  assumes "router_reachable env rt" "good_env env"
  shows "(\<exists>rank. acyclic_heap rank (rt_heap rt)) \<and>
    (\<forall>d f n r. rt_heap rt d = Some (WFilter f n r) \<longrightarrow> filter_ok f)"
proof -
  obtain N C where g: "graph N C rt" using router_reachable_routed [OF assms] by (auto simp: routed_def)
  note h = graph_heap [OF g]
  have "filter_ok f" if "rt_heap rt d = Some (WFilter f n r)" for d f n r
    using ok_heapD [OF h that] by (simp add: ok_obj_def)
  with ok_heap_acyclic [OF h] show ?thesis by blast
qed


definition demo_renv :: renv where
  "demo_renv = (\<lambda>pat. Some (\<lambda>name. pat = name), \<lambda>n. replicate n 0, \<lambda>s. None)"

definition demo_routes :: yaml where
  "demo_routes = YMap [(YScalar ''r'', YMap [(YScalar ''src'', YScalar ''a''),
     (YScalar ''dst'', YMap [(YScalar ''type'', YScalar ''hex''), (YScalar ''dst'', YScalar ''b'')])])]"

definition demo_router :: router where
  "demo_router = snd (on_connect_client demo_renv ''a'' True ''a''
     (snd (on_connect_client demo_renv ''b'' True ''b'' (snd (load_routes (fst demo_renv) demo_routes router_new)))))"

lemma demo_router_reachable: "router_reachable demo_renv demo_router" "good_env demo_renv"
  unfolding demo_router_def
  by (rule router_reachable.step [OF router_reachable.step [OF router_reachable.step [OF
        router_reachable.start router_step.routes] router_step.connects] router_step.connects])
     (simp add: good_env_def demo_renv_def)



theorem router_graph_acyclic_witness:
  "\<exists>rank. acyclic_heap rank (rt_heap demo_router)"
  using router_graph_acyclic [OF demo_router_reachable] by blast


end
