(* ===== verification/Packet_Route.thy ===== *)
theory Packet_Route
  imports Router_Graph
begin

text \<open>
  From a client through a filter to the sinks: what the routes of \<open>app/uav-router.cpp\<close>, the
  destinations and the recognisers of \<open>src/filters\<close> do together. Part of the heap may be pruned of
  dead endpoints on the way; nothing else of it changes but the filter.
\<close>

section \<open>Fans of destinations\<close>

text \<open>\<open>fans h x ss\<close>: below \<open>x\<close> there are only destinations and sinks, and \<open>ss\<close> are the sinks in the
  order they are written to.\<close>

inductive fans :: "heap \<Rightarrow> wid \<Rightarrow> wid list \<Rightarrow> bool"
  and fans_all :: "heap \<Rightarrow> wid list \<Rightarrow> wid list \<Rightarrow> bool" for h where
  gone: "h x = None \<Longrightarrow> fans h x []"
| sink: "h x = Some WSink \<Longrightarrow> fans h x [x]"
| dest: "h x = Some (WDest es) \<Longrightarrow> fans_all h (filter (\<lambda>e. h e \<noteq> None) es) ss \<Longrightarrow> fans h x ss"
| none: "fans_all h [] []"
| more: "fans h e ss \<Longrightarrow> fans_all h es ts \<Longrightarrow> fans_all h (e # es) (ss @ ts)"

lemmas fans_induct = fans_fans_all.inducts [consumes 1, case_names gone sink dest none more]

text \<open>\<open>leads h x f\<close>: from \<open>x\<close> a single way leads through destinations to \<open>f\<close>.\<close>

inductive leads :: "heap \<Rightarrow> wid \<Rightarrow> wid \<Rightarrow> bool" for h where
  here: "leads h f f"
| via: "h x = Some (WDest es) \<Longrightarrow> filter (\<lambda>e. h e \<noteq> None) es = [y] \<Longrightarrow> leads h y f \<Longrightarrow> leads h x f"

section \<open>Pruning changes nothing\<close>

lemma pruned_trans:
  assumes "pruned h h1" "pruned h1 h2"
  shows "pruned h h2"
  unfolding pruned_def
proof
  fix d
  have a: "(\<lambda>e. h1 e \<noteq> None) = (\<lambda>e. h e \<noteq> None)" using pruned_alive [OF assms(1)] by auto
  show "case h d of Some (WDest es) \<Rightarrow> h2 d = Some (WDest es) \<or>
      h2 d = Some (WDest (filter (\<lambda>e. h e \<noteq> None) es)) | x \<Rightarrow> h2 d = x"
    by (cases rule: pruned_cases [OF assms(1), of d]; cases rule: pruned_cases [OF assms(2), of d])
       (auto simp: a simp del: not_None_eq)
qed

lemma fans_pruned:
  "fans h x ss \<Longrightarrow> pruned h h' \<Longrightarrow> fans h' x ss"
  "fans_all h es ss \<Longrightarrow> pruned h h' \<Longrightarrow> fans_all h' es ss"
proof (induction rule: fans_induct)
  case (gone x)
  then show ?case using pruned_alive [OF gone(2)] by (intro fans_fans_all.gone) simp
next
  case (sink x)
  then show ?case using pruned_sink [OF sink(2)] by (intro fans_fans_all.sink) simp
next
  case (dest x es ss)
  have a: "(\<lambda>e. h' e \<noteq> None) = (\<lambda>e. h e \<noteq> None)" using pruned_alive [OF dest(4)] by auto
  note all = dest(3) [OF dest(4), folded a]
  show ?case
  proof (cases rule: pruned_cases [OF dest(4), of x])
    case (4 es1)
    then have "h' x = Some (WDest es) \<or> h' x = Some (WDest (filter (\<lambda>e. h' e \<noteq> None) es))"
      using dest(1) unfolding a by simp
    then show ?thesis
      using fans_fans_all.dest [of h' x es ss] fans_fans_all.dest [of h' x "filter (\<lambda>e. h' e \<noteq> None) es" ss] all
      by (auto simp del: not_None_eq)
  qed (use dest(1) in auto)
qed (auto intro: fans_fans_all.intros)

lemma pruned_single:
  assumes "pruned h h'" "h x = Some (WDest es)" "filter (\<lambda>e. h e \<noteq> None) es = [y]"
  shows "\<exists>es1. h' x = Some (WDest es1) \<and> filter (\<lambda>e. h' e \<noteq> None) es1 = [y]"
proof -
  have a: "(\<lambda>e. h' e \<noteq> None) = (\<lambda>e. h e \<noteq> None)" using pruned_alive [OF assms(1)] by auto
  have "y \<in> set (filter (\<lambda>e. h e \<noteq> None) es)" unfolding assms(3) by simp
  then have y: "filter (\<lambda>e. h' e \<noteq> None) [y] = [y]" unfolding a by simp
  have "h' x = Some (WDest es) \<or> h' x = Some (WDest [y])"
    by (cases rule: pruned_cases [OF assms(1), of x]) (use assms(2,3) in auto)
  with y assms(3) show ?thesis unfolding a by blast
qed

lemma leads_pruned: "leads h x f \<Longrightarrow> pruned h h' \<Longrightarrow> leads h' x f"
proof (induction rule: leads.induct)
  case (via x es y f)
  from pruned_single [OF via.prems via.hyps(1,2)] obtain es1 where
    "h' x = Some (WDest es1)" "filter (\<lambda>e. h' e \<noteq> None) es1 = [y]" by blast
  then show ?case by (rule leads.via) (rule via.IH [OF via.prems])
qed (rule leads.here)

text \<open>Nor does what a filter holds back.\<close>

lemma fans_filter:
  "fans h x ss \<Longrightarrow> h f = Some (WFilter fo n r) \<Longrightarrow> fans (h(f \<mapsto> WFilter fo1 n r)) x ss"
  "fans_all h es ss \<Longrightarrow> h f = Some (WFilter fo n r) \<Longrightarrow> fans_all (h(f \<mapsto> WFilter fo1 n r)) es ss"
proof (induction rule: fans_induct)
  case (gone x)
  then show ?case by (intro fans_fans_all.gone) auto
next
  case (sink x)
  then show ?case by (intro fans_fans_all.sink) auto
next
  case (dest x es ss)
  have a: "(\<lambda>e. (h(f \<mapsto> WFilter fo1 n r)) e \<noteq> None) = (\<lambda>e. h e \<noteq> None)" using dest(4) by auto
  from dest(1,4) have "(h(f \<mapsto> WFilter fo1 n r)) x = Some (WDest es)" by auto
  from fans_fans_all.dest [OF this dest(3) [OF dest(4), folded a]] show ?case .
qed (auto intro: fans_fans_all.intros)

lemma leads_filter:
  "leads h x f1 \<Longrightarrow> h f = Some (WFilter fo n r) \<Longrightarrow> leads (h(f \<mapsto> WFilter fo1 n r)) x f1"
proof (induction rule: leads.induct)
  case (via x es y g)
  have a: "(\<lambda>e. (h(f \<mapsto> WFilter fo1 n r)) e \<noteq> None) = (\<lambda>e. h e \<noteq> None)" using via.prems by auto
  show ?case
    by (rule leads.via [of _ x es y]) (use via a in auto)
qed (rule leads.here)

section \<open>Writing down a fan\<close>

lemma run_writes_dest:
  assumes "h x = Some (WDest es)"
  shows "run_writes ((x, b) # ts) h =
    run_writes (map (\<lambda>e. (e, b)) (filter (\<lambda>e. h e \<noteq> None) es) @ ts) (h(x \<mapsto> WDest (filter (\<lambda>e. h e \<noteq> None) es)))"
proof -
  obtain w where "Destination_write (\<lambda>e. h e \<noteq> None) (\<lambda>e. 0) 0 es =
      (w, filter (\<lambda>e. h e \<noteq> None) es, filter (\<lambda>e. h e \<noteq> None) es)"
    using Destination_write_targets [of "\<lambda>e. h e \<noteq> None" "\<lambda>e. 0" 0 es]
      Destination_write_kept [of "\<lambda>e. h e \<noteq> None" "\<lambda>e. 0" 0 es] by (metis prod.collapse)
  then show ?thesis using assms by (subst run_writes.simps) (simp del: not_None_eq)
qed

text \<open>Calls that only write to sinks: what is written, and the calls that follow run on a pruned heap.\<close>

definition writes_sinks :: "(wid \<times> bytes) list \<Rightarrow> heap \<Rightarrow> heap \<Rightarrow> (wid \<times> bytes) list \<Rightarrow> bool" where
  "writes_sinks us h h1 ws \<longleftrightarrow>
     (\<forall>ts. run_writes (us @ ts) h = map_option (\<lambda>r. (fst r, ws @ snd r)) (run_writes ts h1))"

lemma writes_sinks_Nil: "writes_sinks [] h h []"
  by (simp add: writes_sinks_def option.map_ident)

lemma writes_sinks_append:
  "writes_sinks us h h1 ws \<Longrightarrow> writes_sinks vs h1 h2 xs \<Longrightarrow> writes_sinks (us @ vs) h h2 (ws @ xs)"
  by (simp add: writes_sinks_def option.map_comp comp_def)

lemma write_fan:
  "fans h x ss \<Longrightarrow> pruned h h0 \<Longrightarrow> \<exists>h1. pruned h0 h1 \<and> writes_sinks [(x, b)] h0 h1 (map (\<lambda>s. (s, b)) ss)"
  "fans_all h es ss \<Longrightarrow> pruned h h0 \<Longrightarrow>
     \<exists>h1. pruned h0 h1 \<and> writes_sinks (map (\<lambda>e. (e, b)) es) h0 h1 (map (\<lambda>s. (s, b)) ss)"
proof (induction arbitrary: h0 and h0 rule: fans_induct)
  case (gone x)
  then have "h0 x = None" using pruned_alive by blast
  then have "writes_sinks [(x, b)] h0 h0 []"
    by (simp add: writes_sinks_def run_writes.simps [of "(x, b) # _"] option.map_ident)
  then show ?case by (intro exI [of _ h0]) simp
next
  case (sink x)
  then have "h0 x = Some WSink" using pruned_sink by blast
  then have "writes_sinks [(x, b)] h0 h0 [(x, b)]"
    by (simp add: writes_sinks_def run_writes.simps [of "(x, b) # _"] map_conv_bind_option comp_def)
  then show ?case by (intro exI [of _ h0]) simp
next
  case (dest x es ss)
  have a: "(\<lambda>e. h0 e \<noteq> None) = (\<lambda>e. h e \<noteq> None)" using pruned_alive [OF dest(4)] by auto
  let ?es = "filter (\<lambda>e. h0 e \<noteq> None) es"
  obtain es1 where es1: "h0 x = Some (WDest es1)" "filter (\<lambda>e. h0 e \<noteq> None) es1 = ?es"
    by (cases rule: pruned_cases [OF dest(4), of x]) (use dest(1) a in \<open>auto simp del: not_None_eq\<close>)
  let ?h1 = "h0(x \<mapsto> WDest ?es)"
  have p: "pruned h0 ?h1" using pruned_step [OF pruned_refl [of h0] es1(1)] es1(2) by simp
  from dest(3) [OF pruned_trans [OF dest(4) p]] obtain h2 where
    h2: "pruned ?h1 h2" "writes_sinks (map (\<lambda>e. (e, b)) ?es) ?h1 h2 (map (\<lambda>s. (s, b)) ss)"
    unfolding a by blast
  have "writes_sinks [(x, b)] h0 h2 (map (\<lambda>s. (s, b)) ss)"
    using h2(2) run_writes_dest [of h0 x es1, OF es1(1)] unfolding es1(2) by (simp add: writes_sinks_def)
  with pruned_trans [OF p h2(1)] show ?case by blast
next
  case none
  then show ?case by (intro exI [of _ h0]) (simp add: writes_sinks_Nil)
next
  case (more e ss es ts)
  obtain h1 where h1: "pruned h0 h1" "writes_sinks [(e, b)] h0 h1 (map (\<lambda>s. (s, b)) ss)"
    using more(2) [OF more(5)] by blast
  obtain h2 where h2: "pruned h1 h2" "writes_sinks (map (\<lambda>e. (e, b)) es) h1 h2 (map (\<lambda>s. (s, b)) ts)"
    using more(4) [OF pruned_trans [OF more(5) h1(1)]] by blast
  from writes_sinks_append [OF h1(2) h2(2)] pruned_trans [OF h1(1) h2(1)] show ?case by auto
qed

section \<open>One filter\<close>

text \<open>What a recogniser tells packets by, and the bytes it holds back.\<close>

fun packetizer :: "filter_obj \<Rightarrow> ((bytes \<Rightarrow> verdict) \<times> bytes) option" where
  "packetizer (FMavlink st) = Some (mavlink_class (ml_crc_extra st), ml_pending st)"
| "packetizer (FRtcm st) = Some (rtcm_class, rt_pending st)"
| "packetizer (FUbx st) = Some (ubx_class, ub_pending st)"
| "packetizer (FNmea st) = None"
| "packetizer (FHex st) = None"

fun connected :: "filter_obj \<Rightarrow> port \<Rightarrow> bool" where
  "connected (FMavlink st) p = (p = NextPort \<and> fb_next st \<or> p = RestPort \<and> fb_rest st)"
| "connected (FRtcm st) p = (p = NextPort \<and> fb_next st \<or> p = RestPort \<and> fb_rest st)"
| "connected (FUbx st) p = (p = NextPort \<and> fb_next st \<or> p = RestPort \<and> fb_rest st)"
| "connected (FNmea st) p = (p = NextPort \<and> fb_next st \<or> p = RestPort \<and> fb_rest st)"
| "connected (FHex st) p = (p = NextPort \<and> fb_next st \<or> p = RestPort \<and> fb_rest st)"

fun item_port :: "item \<Rightarrow> port" where
  "item_port (Packet p) = NextPort" | "item_port (Stray b) = RestPort"

definition packets_of :: "item list \<Rightarrow> bytes list" where
  "packets_of is = concat (map (\<lambda>i. case i of Packet p \<Rightarrow> [p] | Stray b \<Rightarrow> []) is)"

definition strays_of :: "item list \<Rightarrow> bytes" where
  "strays_of is = concat (map (\<lambda>i. case i of Packet p \<Rightarrow> [] | Stray b \<Rightarrow> [b]) is)"

lemma ml_pending_cleared: "ml_pending (st\<lparr>fb_outs := []\<rparr>) = ml_pending st"
  by (cases "ml_state st") (simp_all add: ml_pending_def)

lemma rt_pending_cleared: "rt_pending (st\<lparr>fb_outs := []\<rparr>) = rt_pending st"
  by (cases "rt_state st") (simp_all add: rt_pending_def)

lemma ub_pending_cleared: "ub_pending (st\<lparr>fb_outs := []\<rparr>) = ub_pending st"
  by (cases "ub_state st") (simp_all add: ub_pending_def)

lemmas packetizer_cleared = ml_pending_cleared rt_pending_cleared ub_pending_cleared

lemma wants_ports: "wants st = (\<lambda>i. item_port i = NextPort \<and> fb_next st \<or> item_port i = RestPort \<and> fb_rest st)"
proof
  fix i show "wants st i = (item_port i = NextPort \<and> fb_next st \<or> item_port i = RestPort \<and> fb_rest st)"
    by (cases i) simp_all
qed

lemma connected_eq:
  "connected fo = connected fo1 \<longleftrightarrow>
     connected fo NextPort = connected fo1 NextPort \<and> connected fo RestPort = connected fo1 RestPort"
  by (auto simp: fun_eq_iff) (metis port.exhaust)+

lemma filter_write_scan:
  assumes "filter_ok fo" "packetizer fo = Some (cl, p)"
  shows "\<exists>fo1. filter_write buf fo = Some fo1 \<and> filter_ok fo1 \<and> connected fo1 = connected fo \<and>
    packetizer fo1 = Some (cl, fst (scan cl p buf)) \<and>
    concat (map out_items (filter_outs fo1)) = filter (\<lambda>i. connected fo (item_port i)) (snd (scan cl p buf))"
proof (cases fo)
  case (FMavlink st)
  with assms ml.loop_refines [OF filter_ok_outs(1), of st buf] show ?thesis
    by (auto simp: delivers_def emitted_def wants_ports packetizer_cleared connected_eq)
next
  case (FRtcm st)
  with assms rt.loop_refines [OF filter_ok_outs(3), of st buf] show ?thesis
    by (auto simp: delivers_def emitted_def wants_ports packetizer_cleared connected_eq)
next
  case (FUbx st)
  with assms ub.loop_refines [OF filter_ok_outs(4), of st buf] show ?thesis
    by (auto simp: delivers_def emitted_def wants_ports packetizer_cleared connected_eq)
qed (use assms in simp_all)

text \<open>The calls a filter makes, seen from its two ends.\<close>

lemma outs_packets: "map snd (filter (\<lambda>o1. fst o1 = NextPort) outs) = packets_of (concat (map out_items outs))"
proof (induction outs)
  case (Cons o1 outs)
  have s: "packets_of (map Stray bs @ is) = packets_of is" for bs "is"
    by (induction bs) (simp_all add: packets_of_def)
  show ?case using Cons by (cases o1 rule: out_items.cases) (simp_all add: s, simp add: packets_of_def)
qed (simp add: packets_of_def)

lemma outs_strays: "concat (map snd (filter (\<lambda>o1. fst o1 = RestPort) outs)) = strays_of (concat (map out_items outs))"
proof (induction outs)
  case (Cons o1 outs)
  have s: "strays_of (map Stray bs @ is) = bs @ strays_of is" for bs "is"
    by (induction bs) (simp_all add: strays_of_def)
  show ?case using Cons by (cases o1 rule: out_items.cases) (simp_all add: s, simp add: strays_of_def)
qed (simp add: strays_of_def)

lemma packets_of_connected:
  "c NextPort \<Longrightarrow> packets_of (filter (\<lambda>i. c (item_port i)) is) = packets_of is"
  "c RestPort \<Longrightarrow> strays_of (filter (\<lambda>i. c (item_port i)) is) = strays_of is"
  by (induction "is") (auto simp: packets_of_def strays_of_def split: item.split)

section \<open>The way of a buffer\<close>

definition ends_of :: "wid list \<Rightarrow> wid list \<Rightarrow> port \<Rightarrow> wid list" where
  "ends_of ns rs p = (case p of NextPort \<Rightarrow> ns | RestPort \<Rightarrow> rs)"

text \<open>What reaches the sinks of the calls \<open>outs\<close> a filter makes.\<close>

definition spread :: "wid list \<Rightarrow> wid list \<Rightarrow> (port \<times> bytes) list \<Rightarrow> (wid \<times> bytes) list" where
  "spread ns rs outs = concat (map (\<lambda>(p, b). map (\<lambda>s. (s, b)) (ends_of ns rs p)) outs)"

lemma write_outs:
  assumes "fans h n ns" "fans h r rs"
  shows "pruned h h0 \<Longrightarrow> \<exists>h1. pruned h0 h1 \<and>
    writes_sinks (map (\<lambda>(p, b). (filter_target p n r, b)) outs) h0 h1 (spread ns rs outs)"
proof (induction outs arbitrary: h0)
  case Nil
  then show ?case by (intro exI [of _ h0]) (simp add: writes_sinks_Nil spread_def)
next
  case (Cons o1 outs)
  obtain p b where o1: "o1 = (p, b)" by (cases o1)
  have "fans h (filter_target p n r) (ends_of ns rs p)"
    using assms by (cases p) (simp_all add: filter_target_def ends_of_def)
  from write_fan(1) [OF this Cons.prems, of b] obtain h1 where
    h1: "pruned h0 h1" "writes_sinks [(filter_target p n r, b)] h0 h1 (map (\<lambda>s. (s, b)) (ends_of ns rs p))" by blast
  obtain h2 where h2: "pruned h1 h2"
    "writes_sinks (map (\<lambda>(p, b). (filter_target p n r, b)) outs) h1 h2 (spread ns rs outs)"
    using Cons.IH [OF pruned_trans [OF Cons.prems h1(1)]] by blast
  from writes_sinks_append [OF h1(2) h2(2)] pruned_trans [OF h1(1) h2(1)] show ?case
    by (auto simp: o1 spread_def)
qed

lemma write_lead:
  "leads h x f \<Longrightarrow> pruned h h0 \<Longrightarrow> \<exists>h1. pruned h0 h1 \<and> run_writes [(x, b)] h0 = run_writes [(f, b)] h1"
proof (induction arbitrary: h0 rule: leads.induct)
  case (via x es y f)
  from pruned_single [OF via.prems via.hyps(1,2)] obtain es1 where
    es1: "h0 x = Some (WDest es1)" "filter (\<lambda>e. h0 e \<noteq> None) es1 = [y]" by blast
  let ?h1 = "h0(x \<mapsto> WDest [y])"
  have p: "pruned h0 ?h1" using pruned_step [OF pruned_refl [of h0] es1(1)] es1(2) by simp
  have "run_writes [(x, b)] h0 = run_writes [(y, b)] ?h1"
    using run_writes_dest [of h0 x es1 b "[]", OF es1(1)] unfolding es1(2) by simp
  with via.IH [OF pruned_trans [OF via.prems p]] pruned_trans [OF p] show ?case by metis
qed (use pruned_refl in blast)

text \<open>The filter \<open>f\<close> tells packets by \<open>cl\<close> and holds back \<open>p\<close>; behind it are only destinations and the sinks
  \<open>ns\<close> for packets and \<open>rs\<close> for the rest.\<close>

definition filters_at :: "router \<Rightarrow> wid \<Rightarrow> (bytes \<Rightarrow> verdict) \<Rightarrow> bytes \<Rightarrow> wid list \<Rightarrow> wid list \<Rightarrow> bool" where
  "filters_at rt f cl p ns rs \<longleftrightarrow>
     (\<exists>fo n r. rt_heap rt f = Some (WFilter fo n r) \<and> filter_ok fo \<and> packetizer fo = Some (cl, p) \<and>
        fans (rt_heap rt) n ns \<and> fans (rt_heap rt) r rs \<and>
        (ns \<noteq> [] \<longrightarrow> connected fo NextPort) \<and> (rs \<noteq> [] \<longrightarrow> connected fo RestPort))"

text \<open>The only way of a client's buffers is to \<open>f\<close>.\<close>

definition routed_to :: "wid \<Rightarrow> router \<Rightarrow> string \<Rightarrow> bool" where
  "routed_to f rt cli \<longleftrightarrow> (\<exists>e. map_of (rt_clients rt) cli = Some e \<and> leads (rt_heap rt) (cli_dest e) f)"

lemma read_routed:
  assumes "filters_at rt f cl p ns rs" "routed_to f rt cli"
  shows "\<exists>outs rt1. on_read_client cli buf rt = Some (spread ns rs outs, rt1) \<and>
    filters_at rt1 f cl (fst (scan cl p buf)) ns rs \<and> (\<forall>c. routed_to f rt c \<longrightarrow> routed_to f rt1 c) \<and>
    (ns \<noteq> [] \<longrightarrow> map snd (filter (\<lambda>o1. fst o1 = NextPort) outs) = packets_of (snd (scan cl p buf))) \<and>
    (rs \<noteq> [] \<longrightarrow> concat (map snd (filter (\<lambda>o1. fst o1 = RestPort) outs)) = strays_of (snd (scan cl p buf)))"
proof -
  let ?h = "rt_heap rt"
  obtain e fo n r where e: "map_of (rt_clients rt) cli = Some e" and l: "leads ?h (cli_dest e) f"
    and f: "?h f = Some (WFilter fo n r)" "filter_ok fo" "packetizer fo = Some (cl, p)"
    and n: "fans ?h n ns" and r: "fans ?h r rs"
    and c: "ns \<noteq> [] \<Longrightarrow> connected fo NextPort" "rs \<noteq> [] \<Longrightarrow> connected fo RestPort"
    using assms unfolding filters_at_def routed_to_def by blast
  obtain h1 where h1: "pruned ?h h1" "run_writes [(cli_dest e, buf)] ?h = run_writes [(f, buf)] h1"
    using write_lead [OF l pruned_refl] by blast
  have f1: "h1 f = Some (WFilter fo n r)"
    by (cases rule: pruned_cases [OF h1(1), of f]) (use f(1) in auto)
  obtain fo1 where fo1: "filter_write buf fo = Some fo1" "filter_ok fo1" "connected fo1 = connected fo"
    "packetizer fo1 = Some (cl, fst (scan cl p buf))"
    "concat (map out_items (filter_outs fo1)) = filter (\<lambda>i. connected fo (item_port i)) (snd (scan cl p buf))"
    using filter_write_scan [OF f(2,3), of buf] by blast
  let ?h2 = "h1(f \<mapsto> WFilter fo1 n r)"
  note up = fans_filter(1) [OF fans_pruned(1) [OF _ h1(1)] f1, of _ _ fo1]
  obtain h3 where h3: "pruned ?h2 h3"
    "writes_sinks (map (\<lambda>(p, b). (filter_target p n r, b)) (filter_outs fo1)) ?h2 h3 (spread ns rs (filter_outs fo1))"
    using write_outs [OF up [OF n] up [OF r] pruned_refl, of "filter_outs fo1"] by blast
  have nil: "run_writes [] h3 = Some (h3, [])" by (simp add: run_writes.simps [of "[]"])
  have "run_writes [(f, buf)] h1 = run_writes (map (\<lambda>(p, b). (filter_target p n r, b)) (filter_outs fo1)) ?h2"
    using f1 fo1(1) by (subst run_writes.simps) simp
  also have "\<dots> = Some (h3, spread ns rs (filter_outs fo1))"
    using h3(2) [unfolded writes_sinks_def, THEN spec, of "[]"] by (simp add: nil)
  finally have w: "on_read_client cli buf rt = Some (spread ns rs (filter_outs fo1), rt\<lparr>rt_heap := h3\<rparr>)"
    using e h1(2) by (simp add: on_read_client_def write_to_def)
  have "h3 f = Some (WFilter fo1 n r)"
    by (cases rule: pruned_cases [OF h3(1), of f]) auto
  then have "filters_at (rt\<lparr>rt_heap := h3\<rparr>) f cl (fst (scan cl p buf)) ns rs"
    unfolding filters_at_def using fo1(2-4) c fans_pruned(1) [OF up [OF n] h3(1)] fans_pruned(1) [OF up [OF r] h3(1)]
    by auto
  moreover have "routed_to f (rt\<lparr>rt_heap := h3\<rparr>) c" if "routed_to f rt c" for c
    using that leads_pruned [OF leads_filter [OF leads_pruned [OF _ h1(1)] f1] h3(1)] by (auto simp: routed_to_def)
  ultimately show ?thesis
    using w outs_packets [of "filter_outs fo1"] outs_strays [of "filter_outs fo1"] c
      packets_of_connected [of "connected fo" "snd (scan cl p buf)"]
    unfolding fo1(5) by metis
qed

section \<open>A stream of buffers\<close>

text \<open>Reads from clients, in the order they happen.\<close>

fun read_all :: "(string \<times> bytes) list \<Rightarrow> router \<Rightarrow> ((wid \<times> bytes) list \<times> router) option" where
  "read_all [] rt = Some ([], rt)"
| "read_all ((cli, b) # bs) rt =
     Option.bind (on_read_client cli b rt) (\<lambda>(out, rt1).
       map_option (\<lambda>(out1, rt2). (out @ out1, rt2)) (read_all bs rt1))"

definition at_sink :: "wid \<Rightarrow> (wid \<times> bytes) list \<Rightarrow> bytes list" where
  "at_sink s out = map snd (filter (\<lambda>w. fst w = s) out)"

lemma at_sink_append: "at_sink s (xs @ ys) = at_sink s xs @ at_sink s ys"
  by (simp add: at_sink_def)

lemma at_sink_ends: "distinct ss \<Longrightarrow> at_sink s (map (\<lambda>x. (x, b)) ss) = (if s \<in> set ss then [b] else [])"
  by (induction ss) (auto simp: at_sink_def)

lemma at_sink_spread:
  assumes "distinct ns" "distinct rs" "set ns \<inter> set rs = {}"
  shows "s \<in> set ns \<Longrightarrow> at_sink s (spread ns rs outs) = map snd (filter (\<lambda>o1. fst o1 = NextPort) outs)"
    and "s \<in> set rs \<Longrightarrow> at_sink s (spread ns rs outs) = map snd (filter (\<lambda>o1. fst o1 = RestPort) outs)"
proof -
  have "at_sink s (spread ns rs outs) = map snd (filter (\<lambda>o1. s \<in> set (ends_of ns rs (fst o1))) outs)"
  proof (induction outs)
    case (Cons o1 outs)
    obtain p b where o1: "o1 = (p, b)" by (cases o1)
    have "distinct (ends_of ns rs p)" using assms(1,2) by (cases p) (simp_all add: ends_of_def)
    from at_sink_ends [OF this, of s b] Cons show ?case by (simp add: o1 spread_def at_sink_append)
  qed (simp add: spread_def at_sink_def)
  moreover have "s \<in> set (ends_of ns rs p) \<longleftrightarrow> p = NextPort" if "s \<in> set ns" for p
    using that assms(3) by (cases p) (auto simp: ends_of_def)
  moreover have "s \<in> set (ends_of ns rs p) \<longleftrightarrow> p = RestPort" if "s \<in> set rs" for p
    using that assms(3) by (cases p) (auto simp: ends_of_def)
  ultimately show "s \<in> set ns \<Longrightarrow> at_sink s (spread ns rs outs) = map snd (filter (\<lambda>o1. fst o1 = NextPort) outs)"
    "s \<in> set rs \<Longrightarrow> at_sink s (spread ns rs outs) = map snd (filter (\<lambda>o1. fst o1 = RestPort) outs)" by simp_all
qed

lemma spread_ends: "fst ` set (spread ns rs outs) \<subseteq> set ns \<union> set rs"
  by (auto simp: spread_def ends_of_def) (metis port.exhaust port.simps(3,4))

lemma packets_strays_append:
  "packets_of (is @ js) = packets_of is @ packets_of js" "strays_of (is @ js) = strays_of is @ strays_of js"
  by (simp_all add: packets_of_def strays_of_def)

text \<open>Every buffer cut, packed and passed on; what is held back waits for the next.\<close>

lemma stream_routed:
  assumes "distinct ns" "distinct rs" "set ns \<inter> set rs = {}"
  shows "filters_at rt f cl p ns rs \<Longrightarrow> \<forall>c \<in> fst ` set reads. routed_to f rt c \<Longrightarrow>
    \<exists>out rt1. read_all reads rt = Some (out, rt1) \<and>
    filters_at rt1 f cl (fst (scan cl p (concat (map snd reads)))) ns rs \<and>
    (\<forall>s \<in> set ns. at_sink s out = packets_of (snd (scan cl p (concat (map snd reads))))) \<and>
    (\<forall>s \<in> set rs. concat (at_sink s out) = strays_of (snd (scan cl p (concat (map snd reads))))) \<and>
    fst ` set out \<subseteq> set ns \<union> set rs"
proof (induction reads arbitrary: rt p)
  case Nil
  then show ?case by (simp add: at_sink_def packets_of_def strays_of_def)
next
  case (Cons cb reads)
  obtain c b where cb: "cb = (c, b)" by (cases cb)
  with Cons.prems(2) have "routed_to f rt c" by simp
  from read_routed [OF Cons.prems(1) this, of b] obtain outs rt1 where
    1: "on_read_client c b rt = Some (spread ns rs outs, rt1)" "filters_at rt1 f cl (fst (scan cl p b)) ns rs"
      "\<forall>c. routed_to f rt c \<longrightarrow> routed_to f rt1 c"
      "ns \<noteq> [] \<Longrightarrow> map snd (filter (\<lambda>o1. fst o1 = NextPort) outs) = packets_of (snd (scan cl p b))"
      "rs \<noteq> [] \<Longrightarrow> concat (map snd (filter (\<lambda>o1. fst o1 = RestPort) outs)) = strays_of (snd (scan cl p b))"
    by blast
  let ?p = "fst (scan cl p b)" and ?bs = "concat (map snd reads)"
  from 1(3) Cons.prems(2) have "\<forall>c \<in> fst ` set reads. routed_to f rt1 c" by auto
  from Cons.IH [OF 1(2) this] obtain out rt2 where
    2: "read_all reads rt1 = Some (out, rt2)" "filters_at rt2 f cl (fst (scan cl ?p ?bs)) ns rs"
      "\<forall>s \<in> set ns. at_sink s out = packets_of (snd (scan cl ?p ?bs))"
      "\<forall>s \<in> set rs. concat (at_sink s out) = strays_of (snd (scan cl ?p ?bs))"
      "fst ` set out \<subseteq> set ns \<union> set rs" by blast
  have sc: "scan cl p (concat (map snd (cb # reads))) = apsnd ((@) (snd (scan cl p b))) (scan cl ?p ?bs)"
    by (simp add: cb scan_append apsnd_def map_prod_def case_prod_beta)
  have "map snd (filter (\<lambda>o1. fst o1 = NextPort) outs) = packets_of (snd (scan cl p b))" if "s \<in> set ns" for s
    using that by (intro 1(4)) auto
  then have "\<forall>s \<in> set ns. at_sink s (spread ns rs outs @ out) = packets_of (snd (scan cl p (concat (map snd (cb # reads)))))"
    using 2(3) at_sink_spread(1) [OF assms] unfolding sc by (simp add: at_sink_append packets_strays_append)
  moreover have "concat (map snd (filter (\<lambda>o1. fst o1 = RestPort) outs)) = strays_of (snd (scan cl p b))" if "s \<in> set rs" for s
    using that by (intro 1(5)) auto
  then have "\<forall>s \<in> set rs. concat (at_sink s (spread ns rs outs @ out)) = strays_of (snd (scan cl p (concat (map snd (cb # reads)))))"
    using 2(4) at_sink_spread(2) [OF assms] unfolding sc by (simp add: at_sink_append packets_strays_append)
  moreover have "read_all (cb # reads) rt = Some (spread ns rs outs @ out, rt2)" using 1(1) 2(1) by (simp add: cb)
  moreover have "filters_at rt2 f cl (fst (scan cl p (concat (map snd (cb # reads))))) ns rs" using 2(2) unfolding sc by simp
  moreover have "fst ` set (spread ns rs outs @ out) \<subseteq> set ns \<union> set rs" using 2(5) spread_ends [of ns rs outs] by auto
  ultimately show ?case by blast
qed

section \<open>A configured route\<close>

text \<open>One route from \<open>src\<close>; both endpoints are created, then the other one's client connects, then the
  clients \<open>cas\<close> of \<open>src\<close>.\<close>

definition one_route :: "renv \<Rightarrow> string \<Rightarrow> string \<Rightarrow> string list \<Rightarrow> string \<Rightarrow> yaml \<Rightarrow> router" where
  "one_route env src dst cas cb route =
     (let rt1 = snd (load_routes (fst env) (YMap [(YScalar ''r'', YMap [(YScalar ''src'', YScalar src), (YScalar ''dst'', route)])]) router_new);
          rt2 = snd (setup_endpoint env src (snd (setup_endpoint env dst rt1)))
      in fold (\<lambda>ca rt. snd (on_connect_client env src True ca rt)) cas (snd (on_connect_client env dst True cb rt2)))"

definition filter_route :: "string \<Rightarrow> string \<Rightarrow> yaml" where
  "filter_route kind dst = YMap [(YScalar ''type'', YScalar kind), (YScalar ''dst'', YScalar dst)]"

lemma packetizer_chain: "packetizer (filter_chain fo) = packetizer fo" "connected (filter_chain fo) NextPort"
  by (cases fo; simp add: Pipe_chain_def ml_pending_def rt_pending_def ub_pending_def
      cong: mavlink_state.case_cong rtcm_state.case_cong ubx_state.case_cong)+

lemma load_one:
  assumes "\<not> is_pattern dst" "\<forall>rt. scan_dst (fst env) route rt = (Inr True, snd (register_name (fst env) dst rt))"
  shows "snd (load_routes (fst env) (YMap [(YScalar ''r'', YMap [(YScalar ''src'', YScalar src), (YScalar ''dst'', route)])]) router_new) =
    router_new\<lparr>rt_heap := [1 \<mapsto> WDest []], rt_alloc := 2, rt_named := [(dst, 1)], rt_routes := [(src, ''r'', route)]\<rparr>"
  using assms(1) by (simp add: load_routes_def load_route_def assms(2) [rule_format] register_name_def new_obj_def router_new_def
      add_route_def free_objs_def Let_def)

lemma equal_name_plain: "\<not> is_pattern pat \<Longrightarrow> equal_name rx pat name = Inr (pat = name)"
  by (simp add: equal_name_def)

lemma construct_routes_one:
  assumes "rt_routes (fst st) = [(src, ''r'', route)]" "equal_name (fst env) src name = Inr b"
  shows "construct_routes env name d st =
    (if b then (case construct_route env route d st of (Inl e, st1) \<Rightarrow> (Inl e, st1) | (Inr _, st1) \<Rightarrow> (Inr (), st1)) else (Inr (), st))"
  using assms by (auto simp: construct_routes_def split: prod.split sum.split)

lemmas construct_routes_hit = construct_routes_one [of _ _ _ _ _ True, simplified]

lemmas construct_routes_miss = construct_routes_one [of _ _ _ _ _ False, simplified]

lemma setup_unrouted:
  assumes "map_of (rt_sources rt) name = None" "rt_routes rt = [(src, ''r'', route)]" "equal_name (fst env) src name = Inr False"
  shows "snd (setup_endpoint env name rt) = rt\<lparr>rt_heap := (rt_heap rt)(rt_alloc rt \<mapsto> WDest []), rt_alloc := rt_alloc rt + 1,
    rt_sources := om_put name \<lparr>src_dest = rt_alloc rt, src_filters = []\<rparr> (om_put name \<lparr>src_dest = rt_alloc rt, src_filters = []\<rparr> (rt_sources rt))\<rparr>"
  using assms by (simp add: setup_endpoint_def source_entry_of_def new_obj_def construct_routes_miss Let_def)

lemma setup_routed:
  assumes "map_of (rt_sources rt) name = None" "rt_routes rt = [(src, ''r'', route)]"
    and "construct_routes env name (rt_alloc rt) (rt\<lparr>rt_heap := (rt_heap rt)(rt_alloc rt \<mapsto> WDest []), rt_alloc := rt_alloc rt + 1,
      rt_sources := om_put name \<lparr>src_dest = rt_alloc rt, src_filters = []\<rparr> (rt_sources rt)\<rparr>, []) = (Inr (), (rt1, fs))"
  shows "snd (setup_endpoint env name rt) =
    rt1\<lparr>rt_sources := om_put name \<lparr>src_dest = rt_alloc rt, src_filters = fs\<rparr> (rt_sources rt1)\<rparr>"
  using assms by (simp add: setup_endpoint_def source_entry_of_def new_obj_def Let_def)

lemma construct_name:
  assumes "map_of (rt_named rt) dst = Some d" "rt_regex rt = []" "rt_heap rt dest = Some (WDest [])"
  shows "construct_route env (YScalar dst) dest (rt, fs) =
    (Inr True, (rt\<lparr>rt_heap := (rt_heap rt)(dest \<mapsto> WDest [d])\<rparr>, fs))"
  using assms by (simp add: connect_to_dest_def Let_def dest_add_def Destination_add_def)

lemma construct_filter:
  assumes "Filters_create_yaml (fst (snd env)) (snd (snd env)) kind (filter_route kind dst) = Inr (Some fo)"
    and "map_of (rt_named rt) dst = Some d" "rt_regex rt = []" "rt_heap rt dest = Some (WDest [])" "dest < rt_alloc rt"
  shows "construct_route env (filter_route kind dst) dest (rt, fs) =
    (Inr True, (rt\<lparr>rt_heap := (rt_heap rt)(rt_alloc rt \<mapsto> WFilter (filter_chain fo) (rt_alloc rt + 1) 0,
       rt_alloc rt + 1 \<mapsto> WDest [d], dest \<mapsto> WDest [rt_alloc rt]), rt_alloc := rt_alloc rt + 2\<rparr>, fs @ [rt_alloc rt]))"
  using assms(1,3-5) assms(2)
  by (simp add: filter_route_def is_defined_def new_obj_def Let_def set_next_def construct_name dest_add_def Destination_add_def
      del: construct_route.simps(1))

lemma free_null: "rt_heap rt 0 = None \<Longrightarrow> free_objs [0] rt = rt"
  by (cases rt) (auto simp: free_objs_def fun_eq_iff)

text \<open>A client's entry is made and then filled.\<close>

definition entered :: "string \<Rightarrow> wid \<Rightarrow> wid \<Rightarrow> (string, client_entry) omap \<Rightarrow> (string, client_entry) omap" where
  "entered cli c d cs =
     om_put cli \<lparr>cli_obj = c, cli_dest = d, cli_filters = []\<rparr> (om_put cli \<lparr>cli_obj = 0, cli_dest = d, cli_filters = []\<rparr> cs)"

lemma entered_get: "map_of (entered cli c d cs) = (map_of cs)(cli \<mapsto> \<lparr>cli_obj = c, cli_dest = d, cli_filters = []\<rparr>)"
  by (simp add: entered_def omap_simps)

lemma connect_unrouted:
  assumes "rt_regex rt = []" "map_of (rt_clients rt) cli = None" "map_of (rt_named rt) cli = None" "rt_heap rt 0 = None"
    and "0 < rt_alloc rt" "rt_routes rt = [(src, ''r'', route)]" "name \<noteq> cli"
    and "map_of (rt_sources rt) name = Some se" "equal_name (fst env) src cli = Inr False"
  shows "map_of (rt_named rt) name = Some d \<Longrightarrow> rt_heap rt d = Some (WDest []) \<Longrightarrow> 0 < d \<Longrightarrow> d < rt_alloc rt \<Longrightarrow>
      snd (on_connect_client env name True cli rt) = rt\<lparr>rt_heap := (rt_heap rt)(rt_alloc rt \<mapsto> WSink,
        d \<mapsto> WDest [rt_alloc rt], rt_alloc rt + 1 \<mapsto> WDest [src_dest se]), rt_alloc := rt_alloc rt + 2,
        rt_named := om_put cli 0 (rt_named rt),
        rt_clients := entered cli (rt_alloc rt) (rt_alloc rt + 1) (rt_clients rt)\<rparr>"
    and "map_of (rt_named rt) name \<in> {None, Some 0} \<Longrightarrow>
      \<exists>nm. snd (on_connect_client env name True cli rt) = rt\<lparr>rt_heap := (rt_heap rt)(rt_alloc rt \<mapsto> WSink,
          rt_alloc rt + 1 \<mapsto> WDest [src_dest se]), rt_alloc := rt_alloc rt + 2, rt_named := nm,
          rt_clients := entered cli (rt_alloc rt) (rt_alloc rt + 1) (rt_clients rt)\<rparr> \<and>
        map_of nm = (map_of (rt_named rt))(cli \<mapsto> 0, name \<mapsto> 0)"
proof -
  note connect = on_connect_client_def new_obj_def register_write_end_def omap_simps Let_def entered_def
      client_entry_of_def free_null dest_clear_def construct_routes_miss dest_add_def Destination_add_def fun_upd_twist
  show "snd (on_connect_client env name True cli rt) = rt\<lparr>rt_heap := (rt_heap rt)(rt_alloc rt \<mapsto> WSink,
        d \<mapsto> WDest [rt_alloc rt], rt_alloc rt + 1 \<mapsto> WDest [src_dest se]), rt_alloc := rt_alloc rt + 2,
        rt_named := om_put cli 0 (rt_named rt),
        rt_clients := entered cli (rt_alloc rt) (rt_alloc rt + 1) (rt_clients rt)\<rparr>"
    if "map_of (rt_named rt) name = Some d" "rt_heap rt d = Some (WDest [])" "0 < d" "d < rt_alloc rt"
    using assms that by (cases rt) (simp add: connect)
  assume n: "map_of (rt_named rt) name \<in> {None, Some 0}"
  let ?nm = "if map_of (rt_named rt) name = None then om_put name 0 (om_put cli 0 (rt_named rt)) else om_put cli 0 (rt_named rt)"
  have "map_of ?nm = (map_of (rt_named rt))(cli \<mapsto> 0, name \<mapsto> 0)"
    using n assms(7) by (auto simp: omap_simps fun_eq_iff)
  moreover have "snd (on_connect_client env name True cli rt) = rt\<lparr>rt_heap := (rt_heap rt)(rt_alloc rt \<mapsto> WSink,
          rt_alloc rt + 1 \<mapsto> WDest [src_dest se]), rt_alloc := rt_alloc rt + 2, rt_named := ?nm,
          rt_clients := entered cli (rt_alloc rt) (rt_alloc rt + 1) (rt_clients rt)\<rparr>"
    using n assms by (cases rt; cases "map_of (rt_named rt) name") (simp_all add: connect)
  ultimately show "\<exists>nm. snd (on_connect_client env name True cli rt) = rt\<lparr>rt_heap := (rt_heap rt)(rt_alloc rt \<mapsto> WSink,
          rt_alloc rt + 1 \<mapsto> WDest [src_dest se]), rt_alloc := rt_alloc rt + 2, rt_named := nm,
          rt_clients := entered cli (rt_alloc rt) (rt_alloc rt + 1) (rt_clients rt)\<rparr> \<and>
        map_of nm = (map_of (rt_named rt))(cli \<mapsto> 0, name \<mapsto> 0)" by blast
qed

text \<open>A client connects to an endpoint behind which nobody is written to; the route may be followed for it.\<close>

lemma connect_routed:
  assumes "rt_regex rt = []" "map_of (rt_clients rt) ca = None" "map_of (rt_named rt) ca = None" "rt_heap rt 0 = None"
    and "0 < rt_alloc rt" "rt_routes rt = [(src, ''r'', YScalar dst)]" "\<not> is_pattern dst" "dst \<notin> {ca, name}"
    and "map_of (rt_sources rt) name = Some se" "map_of (rt_named rt) name = None" "map_of (rt_named rt) dst = Some d"
    and "d < src_dest se" "equal_name (fst env) src ca = Inr b"
  shows "\<exists>nm. snd (on_connect_client env name True ca rt) = rt\<lparr>rt_heap := (rt_heap rt)(rt_alloc rt \<mapsto> WSink,
        rt_alloc rt + 1 \<mapsto> WDest (if b then [d, src_dest se] else [src_dest se])), rt_alloc := rt_alloc rt + 2,
        rt_named := nm, rt_clients := entered ca (rt_alloc rt) (rt_alloc rt + 1) (rt_clients rt)\<rparr>"
proof -
  define nm where "nm = (if ca = name then om_put ca 0 (rt_named rt) else om_put name 0 (om_put ca 0 (rt_named rt)))"
  have "map_of nm dst = Some d" using assms(8,11) by (auto simp: nm_def omap_simps)
  then have "snd (on_connect_client env name True ca rt) = rt\<lparr>rt_heap := (rt_heap rt)(rt_alloc rt \<mapsto> WSink,
        rt_alloc rt + 1 \<mapsto> WDest (if b then [d, src_dest se] else [src_dest se])), rt_alloc := rt_alloc rt + 2,
        rt_named := nm, rt_clients := entered ca (rt_alloc rt) (rt_alloc rt + 1) (rt_clients rt)\<rparr>"
    using assms by (cases rt; cases "ca = name"; cases b)
      (simp_all add: nm_def on_connect_client_def new_obj_def register_write_end_def omap_simps Let_def entered_def
        client_entry_of_def free_null dest_clear_def construct_routes_hit construct_routes_miss dest_add_def Destination_add_def construct_name
        del: construct_route.simps(1))
  then show ?thesis by blast
qed

text \<open>What the two endpoints and the other client leave behind.\<close>

lemma after_setup:
  assumes "equal_name (fst env) src dst = Inr False" "equal_name (fst env) src cb = Inr False"
    and "\<not> is_pattern dst" "distinct [name, dst, cb]"
    and "\<forall>rt. scan_dst (fst env) route rt = (Inr True, snd (register_name (fst env) dst rt))"
    and "\<forall>rt. rt_routes rt = [(src, ''r'', route)] \<and> rt_regex rt = [] \<and> map_of (rt_named rt) dst = Some 1 \<and>
        rt_heap rt 3 = Some (WDest []) \<and> rt_alloc rt = 4 \<longrightarrow>
      construct_routes env name 3 (rt, []) = (Inr (), rt\<lparr>rt_heap := (rt_heap rt) ++ m, rt_alloc := k\<rparr>, fs)"
    and "dom m \<subseteq> {3..<k}" "3 < k"
    and "rt = snd (on_connect_client env dst True cb (snd (setup_endpoint env name (snd (setup_endpoint env dst
      (snd (load_routes (fst env) (YMap [(YScalar ''r'', YMap [(YScalar ''src'', YScalar src), (YScalar ''dst'', route)])]) router_new)))))))"
  shows "rt_heap rt = ([1 \<mapsto> WDest [k], 2 \<mapsto> WDest [], 3 \<mapsto> WDest []] ++ m)(k \<mapsto> WSink, k + 1 \<mapsto> WDest [2])"
    and "rt_alloc rt = k + 2" "rt_regex rt = []" "map_of (rt_named rt) = [dst \<mapsto> 1, cb \<mapsto> 0]"
    and "rt_routes rt = [(src, ''r'', route)]" "map_of (rt_sources rt) name = Some \<lparr>src_dest = 3, src_filters = fs\<rparr>"
    and "map_of (rt_clients rt) = [cb \<mapsto> \<lparr>cli_obj = k, cli_dest = k + 1, cli_filters = []\<rparr>]"
proof -
  define rtB where "rtB = snd (setup_endpoint env dst (snd (load_routes (fst env)
    (YMap [(YScalar ''r'', YMap [(YScalar ''src'', YScalar src), (YScalar ''dst'', route)])]) router_new)))"
  have B: "rt_heap rtB = [1 \<mapsto> WDest [], 2 \<mapsto> WDest []]" "rt_alloc rtB = 3" "rt_regex rtB = []"
    "map_of (rt_named rtB) = [dst \<mapsto> 1]" "rt_routes rtB = [(src, ''r'', route)]" "map_of (rt_clients rtB) = Map.empty"
    "map_of (rt_sources rtB) = [dst \<mapsto> \<lparr>src_dest = 2, src_filters = []\<rparr>]"
    unfolding rtB_def load_one [OF assms(3,5)] using assms(1)
    by (simp_all add: setup_unrouted router_new_def omap_simps)
  let ?rt = "rtB\<lparr>rt_heap := (rt_heap rtB)(3 \<mapsto> WDest []), rt_alloc := 4,
      rt_sources := om_put name \<lparr>src_dest = 3, src_filters = []\<rparr> (rt_sources rtB)\<rparr>"
  let ?rt1 = "?rt\<lparr>rt_heap := (rt_heap ?rt) ++ m, rt_alloc := k\<rparr>"
  define rtC where "rtC = snd (setup_endpoint env name rtB)"
  have "construct_routes env name 3 (?rt, []) = (Inr (), ?rt1, fs)"
    using assms(6) [THEN spec, of ?rt] B by simp
  then have C: "rtC = ?rt1\<lparr>rt_sources := om_put name \<lparr>src_dest = 3, src_filters = fs\<rparr> (rt_sources ?rt1)\<rparr>"
    unfolding rtC_def using setup_routed [of rtB name src route env ?rt1 fs] B assms(4) by simp
  have out: "1 \<notin> dom m" "0 \<notin> dom m" using assms(7) by auto
  have h: "rt_heap rtC 1 = Some (WDest [])" "rt_heap rtC 0 = None"
    using map_add_dom_app_simps(3) [OF out(1)] map_add_dom_app_simps(3) [OF out(2)] assms(8) by (simp_all add: C B)
  have ne: "cb \<noteq> name" "dst \<noteq> name" "name \<noteq> dst" "dst \<noteq> cb" using assms(4) by auto
  have D: "rt = rtC\<lparr>rt_heap := (rt_heap rtC)(k \<mapsto> WSink, 1 \<mapsto> WDest [k], k + 1 \<mapsto> WDest [2]), rt_alloc := k + 2,
      rt_named := om_put cb 0 (rt_named rtC), rt_clients := entered cb k (k + 1) (rt_clients rtC)\<rparr>"
    unfolding assms(9) rtB_def [symmetric] rtC_def [symmetric]
    using connect_unrouted(1) [of rtC cb src route dst "\<lparr>src_dest = 2, src_filters = []\<rparr>" env 1] h assms(2,8) ne
    by (simp add: C B omap_simps)
  show "rt_alloc rt = k + 2" "rt_regex rt = []" "map_of (rt_named rt) = [dst \<mapsto> 1, cb \<mapsto> 0]"
    "rt_routes rt = [(src, ''r'', route)]" "map_of (rt_sources rt) name = Some \<lparr>src_dest = 3, src_filters = fs\<rparr>"
    "map_of (rt_clients rt) = [cb \<mapsto> \<lparr>cli_obj = k, cli_dest = k + 1, cli_filters = []\<rparr>]"
    by (simp_all add: D C B omap_simps entered_get)
  from out(1) show "rt_heap rt = ([1 \<mapsto> WDest [k], 2 \<mapsto> WDest [], 3 \<mapsto> WDest []] ++ m)(k \<mapsto> WSink, k + 1 \<mapsto> WDest [2])"
    using assms(8) by (auto simp: D C B fun_eq_iff map_add_def dom_def split: option.split)
qed

lemma register_plain: "\<not> is_pattern dst \<Longrightarrow> fst (register_name rx dst rt) = Inr ()"
  by (simp add: register_name_def new_obj_def Let_def)

lemma scan_dst_name: "\<not> is_pattern dst \<Longrightarrow> scan_dst rx (YScalar dst) rt = (Inr True, snd (register_name rx dst rt))"
  using register_plain [of dst rx rt] by (cases "register_name rx dst rt") (simp split: sum.split)

lemma scan_dst_filter:
  "\<not> is_pattern dst \<Longrightarrow> scan_dst rx (filter_route kind dst) rt = (Inr True, snd (register_name rx dst rt))"
  by (simp add: filter_route_def is_defined_def Let_def scan_dst_name del: scan_dst.simps(1))


section \<open>More clients\<close>

text \<open>Addresses that were never handed out are nowhere in the heap.\<close>

definition closed_heap :: "wid \<Rightarrow> heap \<Rightarrow> bool" where
  "closed_heap a h \<longleftrightarrow>
     (\<forall>x y. h x = Some y \<longrightarrow> x < a \<and>
        (case y of WDest es \<Rightarrow> (\<forall>e \<in> set es. e < a) | WFilter fo n r \<Rightarrow> n < a \<and> r < a | WSink \<Rightarrow> True))"

lemma closed_dest: "closed_heap a h \<Longrightarrow> h x = Some (WDest es) \<Longrightarrow> e \<in> set es \<Longrightarrow> e < a"
  unfolding closed_heap_def by fastforce

lemma closed_filter: "closed_heap a h \<Longrightarrow> h x = Some (WFilter fo n r) \<Longrightarrow> n < a \<and> r < a"
  unfolding closed_heap_def by fastforce

lemma closed_live: "closed_heap a h \<Longrightarrow> h x = Some y \<Longrightarrow> x < a"
  unfolding closed_heap_def by blast

text \<open>A heap that grows by new objects.\<close>

definition grows :: "wid \<Rightarrow> heap \<Rightarrow> heap \<Rightarrow> bool" where
  "grows a h h' \<longleftrightarrow> (\<forall>x < a. h' x = h x)"

lemma grows_live: "closed_heap a h \<Longrightarrow> grows a h h' \<Longrightarrow> h x = Some (WDest es) \<Longrightarrow>
    filter (\<lambda>e. h' e \<noteq> None) es = filter (\<lambda>e. h e \<noteq> None) es"
  using closed_dest by (intro filter_cong refl) (auto simp: grows_def)

lemma fans_grows:
  "fans h x ss \<Longrightarrow> closed_heap a h \<Longrightarrow> grows a h h' \<Longrightarrow> x < a \<Longrightarrow> fans h' x ss"
  "fans_all h es ss \<Longrightarrow> closed_heap a h \<Longrightarrow> grows a h h' \<Longrightarrow> \<forall>e \<in> set es. e < a \<Longrightarrow> fans_all h' es ss"
proof (induction rule: fans_induct)
  case (gone x)
  then show ?case by (intro fans_fans_all.gone) (auto simp: grows_def)
next
  case (sink x)
  then show ?case by (intro fans_fans_all.sink) (auto simp: grows_def)
next
  case (dest x es ss)
  have "\<forall>e \<in> set (filter (\<lambda>e. h e \<noteq> None) es). e < a" using closed_dest [OF dest(4,1)] by auto
  from dest(3) [OF dest(4,5) this] grows_live [OF dest(4,5,1)]
  have "fans_all h' (filter (\<lambda>e. h' e \<noteq> None) es) ss" by simp
  then show ?case using dest(1,5,6) by (intro fans_fans_all.dest) (auto simp: grows_def)
qed (auto intro: fans_fans_all.intros)

lemma leads_grows: "leads h x f \<Longrightarrow> closed_heap a h \<Longrightarrow> grows a h h' \<Longrightarrow> leads h' x f"
proof (induction rule: leads.induct)
  case (via x es y f)
  from via.hyps(1) via.prems have "h' x = Some (WDest es)" using closed_live by (auto simp: grows_def)
  then show ?case
    using via.IH via.prems via.hyps(2) grows_live [OF via.prems via.hyps(1)] by (auto intro: leads.via)
qed (rule leads.here)

lemma filters_grows:
  assumes "filters_at rt f cl p ns rs" "closed_heap a (rt_heap rt)" "grows a (rt_heap rt) (rt_heap rt1)"
  shows "filters_at rt1 f cl p ns rs"
proof -
  obtain fo n r where *: "rt_heap rt f = Some (WFilter fo n r)" "filter_ok fo" "packetizer fo = Some (cl, p)"
    "fans (rt_heap rt) n ns" "fans (rt_heap rt) r rs" "ns \<noteq> [] \<longrightarrow> connected fo NextPort" "rs \<noteq> [] \<longrightarrow> connected fo RestPort"
    using assms(1) unfolding filters_at_def by blast
  have "rt_heap rt1 f = Some (WFilter fo n r)" using *(1) assms(3) closed_live [OF assms(2)] by (auto simp: grows_def)
  with * fans_grows(1) [OF _ assms(2,3)] closed_filter [OF assms(2) *(1)] show ?thesis unfolding filters_at_def by blast
qed

text \<open>The endpoint \<open>src\<close> with its destination \<open>d\<close> is ready for a client that is not called like anything
  known; connecting one keeps it so, and adds its objects.\<close>

definition serves :: "string \<Rightarrow> yaml \<Rightarrow> wid \<Rightarrow> router \<Rightarrow> bool" where
  "serves src route d rt \<longleftrightarrow> rt_regex rt = [] \<and> rt_routes rt = [(src, ''r'', route)] \<and>
     (\<exists>fs. map_of (rt_sources rt) src = Some \<lparr>src_dest = d, src_filters = fs\<rparr>) \<and>
     map_of (rt_named rt) src \<in> {None, Some 0} \<and> rt_heap rt 0 = None \<and> 0 < rt_alloc rt \<and> d < rt_alloc rt \<and>
     closed_heap (rt_alloc rt) (rt_heap rt)"

lemma connect_another:
  assumes "serves src route d rt" "\<not> is_pattern src" "cli \<noteq> src"
    and "map_of (rt_clients rt) cli = None" "map_of (rt_named rt) cli = None"
    and "rt1 = snd (on_connect_client env src True cli rt)"
  shows "serves src route d rt1" "grows (rt_alloc rt) (rt_heap rt) (rt_heap rt1)"
    and "rt_heap rt1 (rt_alloc rt + 1) = Some (WDest [d])"
    and "map_of (rt_clients rt1) = (map_of (rt_clients rt))(cli \<mapsto> \<lparr>cli_obj = rt_alloc rt, cli_dest = rt_alloc rt + 1, cli_filters = []\<rparr>)"
    and "map_of (rt_named rt1) = (map_of (rt_named rt))(cli \<mapsto> 0, src \<mapsto> 0)"
proof -
  note s = assms(1) [unfolded serves_def]
  obtain fs where "map_of (rt_sources rt) src = Some \<lparr>src_dest = d, src_filters = fs\<rparr>" using s by blast
  from connect_unrouted(2) [OF _ assms(4,5) _ _ _ assms(3) [symmetric] this, of src route env] s assms(2,3) obtain nm where
    rt1: "rt1 = rt\<lparr>rt_heap := (rt_heap rt)(rt_alloc rt \<mapsto> WSink, rt_alloc rt + 1 \<mapsto> WDest [d]), rt_alloc := rt_alloc rt + 2,
        rt_named := nm, rt_clients := entered cli (rt_alloc rt) (rt_alloc rt + 1) (rt_clients rt)\<rparr>"
    and nm: "map_of nm = (map_of (rt_named rt))(cli \<mapsto> 0, src \<mapsto> 0)" unfolding assms(6) by (auto simp: equal_name_plain)
  show "grows (rt_alloc rt) (rt_heap rt) (rt_heap rt1)" "rt_heap rt1 (rt_alloc rt + 1) = Some (WDest [d])"
    "map_of (rt_clients rt1) = (map_of (rt_clients rt))(cli \<mapsto> \<lparr>cli_obj = rt_alloc rt, cli_dest = rt_alloc rt + 1, cli_filters = []\<rparr>)"
    "map_of (rt_named rt1) = (map_of (rt_named rt))(cli \<mapsto> 0, src \<mapsto> 0)"
    by (simp_all add: rt1 nm grows_def entered_get)
  have "closed_heap (rt_alloc rt + 2) (rt_heap rt1)"
    unfolding closed_heap_def
  proof (intro allI impI)
    fix y z assume y: "rt_heap rt1 y = Some z"
    have "rt_heap rt y = Some z \<Longrightarrow> y < rt_alloc rt \<and>
        (case z of WDest es \<Rightarrow> (\<forall>e \<in> set es. e < rt_alloc rt) | WFilter fo n r \<Rightarrow> n < rt_alloc rt \<and> r < rt_alloc rt | WSink \<Rightarrow> True)"
      using s unfolding closed_heap_def by blast
    with y s show "y < rt_alloc rt + 2 \<and>
        (case z of WDest es \<Rightarrow> (\<forall>e \<in> set es. e < rt_alloc rt + 2) | WFilter fo n r \<Rightarrow> n < rt_alloc rt + 2 \<and> r < rt_alloc rt + 2 | WSink \<Rightarrow> True)"
      by (auto simp: rt1 split: if_splits wobj.splits)
  qed
  with s show "serves src route d rt1" by (auto simp: serves_def rt1 nm)
qed

lemma connect_all:
  assumes "\<not> is_pattern src"
  shows "serves src route d rt \<Longrightarrow> distinct cas \<Longrightarrow> src \<notin> set cas \<Longrightarrow>
    \<forall>c \<in> set cas. map_of (rt_clients rt) c = None \<and> map_of (rt_named rt) c = None \<Longrightarrow> leads (rt_heap rt) d f \<Longrightarrow>
    rt_heap rt d \<noteq> None \<Longrightarrow> filters_at rt f cl p ns rs \<Longrightarrow> \<forall>c \<in> C. routed_to f rt c \<Longrightarrow> rt1 = fold (\<lambda>ca rt. snd (on_connect_client env src True ca rt)) cas rt \<Longrightarrow>
    filters_at rt1 f cl p ns rs \<and> (\<forall>c \<in> C \<union> set cas. routed_to f rt1 c) \<and>
    (\<forall>c. c \<notin> set cas \<longrightarrow> map_of (rt_clients rt1) c = map_of (rt_clients rt) c)"
proof (induction cas arbitrary: rt C)
  case (Cons ca cas)
  let ?rt = "snd (on_connect_client env src True ca rt)"
  have new: "ca \<noteq> src" "map_of (rt_clients rt) ca = None" "map_of (rt_named rt) ca = None" using Cons.prems(3,4) by auto
  note c = connect_another [OF Cons.prems(1) assms new refl, of env]
  have closed: "closed_heap (rt_alloc rt) (rt_heap rt)" "d < rt_alloc rt" using Cons.prems(1) by (auto simp: serves_def)
  note up = leads_grows [OF _ closed(1) c(2)]
  have d: "rt_heap ?rt d \<noteq> None" using Cons.prems(6) c(2) closed(2) by (auto simp: grows_def)
  have "leads (rt_heap ?rt) (rt_alloc rt + 1) f"
    by (rule leads.via [OF c(3) _ up [OF Cons.prems(5)]]) (use d in simp)
  then have "routed_to f ?rt ca" by (simp add: routed_to_def c(4))
  moreover have "routed_to f ?rt k" if "routed_to f rt k" for k
    using that up new(2) by (auto simp: routed_to_def c(4))
  ultimately have r: "\<forall>k \<in> insert ca C. routed_to f ?rt k" using Cons.prems(8) by blast
  have n: "\<forall>k \<in> set cas. map_of (rt_clients ?rt) k = None \<and> map_of (rt_named ?rt) k = None"
    using Cons.prems(2-4) by (auto simp: c(4,5))
  from Cons.IH [OF c(1) _ _ n up [OF Cons.prems(5)] d filters_grows [OF Cons.prems(7) closed(1) c(2)] r] Cons.prems(2,3,9)
  show ?case by (auto simp: c(4))
qed simp

lemma fans_one: "h x = Some (WDest [y]) \<Longrightarrow> fans h y ss \<Longrightarrow> h y \<noteq> None \<Longrightarrow> fans h x ss"
  using fans_fans_all.dest [of h x "[y]" ss] fans_fans_all.more [OF _ fans_fans_all.none, of h y ss] by auto

lemma one_route_filters:
  assumes "Filters_create_yaml (fst (snd env)) (snd (snd env)) kind (filter_route kind dst) = Inr (Some fo)"
    and "filter_ok fo" "packetizer fo = Some (cl, p)"
    and "\<not> is_pattern src" "\<not> is_pattern dst" "distinct ([src, dst, cb] @ cas)"
    and "rt = one_route env src dst cas cb (filter_route kind dst)"
  shows "filters_at rt 4 cl p [6] [] \<and> (\<forall>c \<in> set cas. routed_to 4 rt c) \<and> map_of (rt_clients rt) cb = Some \<lparr>cli_obj = 6, cli_dest = 7, cli_filters = []\<rparr>"
proof -
  let ?m = "[3 \<mapsto> WDest [4], 4 \<mapsto> WFilter (filter_chain fo) 5 0, 5 \<mapsto> WDest [1]] :: heap"
  obtain rtD where rtD: "rtD = snd (on_connect_client env dst True cb (snd (setup_endpoint env src (snd (setup_endpoint env dst
      (snd (load_routes (fst env) (YMap [(YScalar ''r'', YMap [(YScalar ''src'', YScalar src), (YScalar ''dst'', filter_route kind dst)])]) router_new)))))))"
    by blast
  have "construct_route env (filter_route kind dst) 3 (rt, []) = (Inr True, rt\<lparr>rt_heap := (rt_heap rt) ++ ?m, rt_alloc := 6\<rparr>, [4])"
    if "rt_regex rt = []" "map_of (rt_named rt) dst = Some 1" "rt_heap rt 3 = Some (WDest [])" "rt_alloc rt = 4" for rt
    using construct_filter [OF assms(1) that(2,1,3), of "[]"] that(4) by (simp add: fun_upd_twist)
  then have c: "\<forall>rt. rt_routes rt = [(src, ''r'', filter_route kind dst)] \<and> rt_regex rt = [] \<and> map_of (rt_named rt) dst = Some 1 \<and>
        rt_heap rt 3 = Some (WDest []) \<and> rt_alloc rt = 4 \<longrightarrow>
      construct_routes env src 3 (rt, []) = (Inr (), rt\<lparr>rt_heap := (rt_heap rt) ++ ?m, rt_alloc := 6\<rparr>, [4])"
    using assms(4) by (auto simp: construct_routes_hit equal_name_plain)
  have d: "distinct [src, dst, cb]" "dom ?m \<subseteq> {3..<6}" "3 < (6 :: nat)" using assms(6) by auto
  have s: "\<forall>rt. scan_dst (fst env) (filter_route kind dst) rt = (Inr True, snd (register_name (fst env) dst rt))"
    using scan_dst_filter [OF assms(5)] by blast
  have e: "equal_name (fst env) src dst = Inr False" "equal_name (fst env) src cb = Inr False"
    using assms(4,6) by (auto simp: equal_name_plain)
  note D = after_setup [OF e assms(5) d(1) s c d(2,3) rtD]
  have heap: "rt_heap rtD = [1 \<mapsto> WDest [6], 2 \<mapsto> WDest [], 3 \<mapsto> WDest [4], 4 \<mapsto> WFilter (filter_chain fo) 5 0,
      5 \<mapsto> WDest [1], 6 \<mapsto> WSink, 7 \<mapsto> WDest [2]]"
    using D(1) by simp
  have "closed_heap 8 (rt_heap rtD)" by (auto simp: closed_heap_def heap split: if_splits)
  then have "serves src (filter_route kind dst) 3 rtD"
    using D assms(6) by (auto simp: serves_def heap)
  moreover have "leads (rt_heap rtD) 3 4" by (rule leads.via [of _ 3 "[4]" 4] leads.here | simp add: heap)+
  moreover have "filters_at rtD 4 cl p [6] []"
  proof -
    have "fans (rt_heap rtD) 6 [6]" by (rule fans_fans_all.sink) (simp add: heap)
    from fans_one [OF _ this, of 1] have "fans (rt_heap rtD) 1 [6]" by (simp add: heap)
    from fans_one [OF _ this, of 5] have "fans (rt_heap rtD) 5 [6]" by (simp add: heap)
    moreover have "fans (rt_heap rtD) 0 []" by (rule fans_fans_all.gone) (simp add: heap)
    moreover have "filter_ok (filter_chain fo)" using assms(2) by (rule filter_ok_connected)
    ultimately show ?thesis
      unfolding filters_at_def using assms(3) packetizer_chain [of fo]
      by (intro exI [of _ "filter_chain fo"] exI [of _ 5] exI [of _ 0]) (simp add: heap)
  qed
  moreover have "\<forall>c \<in> set cas. map_of (rt_clients rtD) c = None \<and> map_of (rt_named rtD) c = None"
    using D assms(6) by auto
  moreover have "rt_heap rtD 3 \<noteq> None" by (simp add: heap)
  moreover have "distinct cas" "src \<notin> set cas" "cb \<notin> set cas" using assms(6) by auto
  ultimately show ?thesis
    using connect_all [OF assms(4), of "filter_route kind dst" 3 rtD cas 4 cl p "[6]" "[]" "{}" rt env] D(7)
    unfolding assms(7) one_route_def Let_def rtD [symmetric] by simp
qed

lemma fans_two:
  "h x = Some (WDest [y, z]) \<Longrightarrow> fans h y ss \<Longrightarrow> fans h z ts \<Longrightarrow> h y \<noteq> None \<Longrightarrow> h z \<noteq> None \<Longrightarrow> fans h x (ss @ ts)"
  using fans_fans_all.dest [of h x "[y, z]" "ss @ ts"]
    fans_fans_all.more [OF _ fans_fans_all.more [OF _ fans_fans_all.none], of h y ss z ts] by auto

lemma read_fan:
  assumes "map_of (rt_clients rt) cli = Some e" "fans (rt_heap rt) (cli_dest e) ss"
  shows "\<exists>rt1. on_read_client cli buf rt = Some (map (\<lambda>s. (s, buf)) ss, rt1)"
proof -
  from write_fan(1) [OF assms(2) pruned_refl, of buf] obtain h1 where
    "writes_sinks [(cli_dest e, buf)] (rt_heap rt) h1 (map (\<lambda>s. (s, buf)) ss)" by blast
  from this [unfolded writes_sinks_def, THEN spec, of "[]"] assms(1) show ?thesis
    by (simp add: on_read_client_def write_to_def run_writes.simps [of "[]"])
qed

text \<open>One route from \<open>src\<close>, which may be a pattern, straight to \<open>dst\<close>. Both endpoints are created, the client
  \<open>cb\<close> of \<open>dst\<close> connects, then a client \<open>ca\<close> of the endpoint \<open>name\<close>.\<close>

definition straight_route :: "renv \<Rightarrow> string \<Rightarrow> string \<Rightarrow> string \<Rightarrow> string \<Rightarrow> string \<Rightarrow> router" where
  "straight_route env src dst name ca cb =
     (let rt1 = snd (load_routes (fst env) (YMap [(YScalar ''r'', YMap [(YScalar ''src'', YScalar src),
            (YScalar ''dst'', YScalar dst)])]) router_new);
          rt2 = snd (setup_endpoint env name (snd (setup_endpoint env dst rt1)))
      in snd (on_connect_client env name True ca (snd (on_connect_client env dst True cb rt2))))"

lemma straight_route_fans:
  assumes "\<not> is_pattern dst" "distinct [name, dst, cb]" "ca \<notin> {dst, cb}"
    and "equal_name (fst env) src dst = Inr False" "equal_name (fst env) src cb = Inr False"
    and "equal_name (fst env) src name = Inr n" "equal_name (fst env) src ca = Inr c"
    and "rt = straight_route env src dst name ca cb"
  shows "\<exists>e. map_of (rt_clients rt) ca = Some e \<and>
      fans (rt_heap rt) (cli_dest e) ((if c then [4] else []) @ (if n then [4] else []))"
    and "map_of (rt_clients rt) cb = Some \<lparr>cli_obj = 4, cli_dest = 5, cli_filters = []\<rparr>"
proof -
  let ?m = "if n then [3 \<mapsto> WDest [1]] else Map.empty :: heap"
  define rtD where "rtD = snd (on_connect_client env dst True cb (snd (setup_endpoint env name (snd (setup_endpoint env dst
      (snd (load_routes (fst env) (YMap [(YScalar ''r'', YMap [(YScalar ''src'', YScalar src), (YScalar ''dst'', YScalar dst)])]) router_new)))))))"
  have c: "\<forall>rt. rt_routes rt = [(src, ''r'', YScalar dst)] \<and> rt_regex rt = [] \<and> map_of (rt_named rt) dst = Some 1 \<and>
        rt_heap rt 3 = Some (WDest []) \<and> rt_alloc rt = 4 \<longrightarrow>
      construct_routes env name 3 (rt, []) = (Inr (), rt\<lparr>rt_heap := (rt_heap rt) ++ ?m, rt_alloc := 4\<rparr>, [])"
    using assms(6) by (auto simp: construct_routes_one construct_name simp del: construct_route.simps(1))
  have s: "\<forall>rt. scan_dst (fst env) (YScalar dst) rt = (Inr True, snd (register_name (fst env) dst rt))"
    using scan_dst_name [OF assms(1)] by blast
  have d: "dom ?m \<subseteq> {3..<4}" "3 < (4 :: nat)" by auto
  note D = after_setup [OF assms(4,5,1,2) s c d rtD_def]
  have ne: "ca \<noteq> dst" "ca \<noteq> cb" "cb \<noteq> ca" "name \<noteq> dst" "name \<noteq> cb" "dst \<noteq> name" "dst \<noteq> cb"
    using assms(2,3) by auto
  let ?d = "if c then [1, 3] else [3]"
  have rt0: "rt = snd (on_connect_client env name True ca rtD)" by (simp add: assms(8) straight_route_def rtD_def)
  have "\<exists>ns. rt = rtD\<lparr>rt_heap := (rt_heap rtD)(6 \<mapsto> WSink, 7 \<mapsto> WDest ?d), rt_alloc := 8,
      rt_named := ns, rt_clients := entered ca 6 7 (rt_clients rtD)\<rparr>"
    using connect_routed [of rtD ca src dst name "\<lparr>src_dest = 3, src_filters = []\<rparr>" 1 env c] D assms(1,7) ne
    unfolding rt0 by auto
  then obtain ns where rt: "rt = rtD\<lparr>rt_heap := (rt_heap rtD)(6 \<mapsto> WSink, 7 \<mapsto> WDest ?d), rt_alloc := 8,
      rt_named := ns, rt_clients := entered ca 6 7 (rt_clients rtD)\<rparr>" by blast
  have heap: "rt_heap rt = [1 \<mapsto> WDest [4], 2 \<mapsto> WDest [], 3 \<mapsto> WDest (if n then [1] else []), 4 \<mapsto> WSink, 5 \<mapsto> WDest [2],
      6 \<mapsto> WSink, 7 \<mapsto> WDest ?d]"
    using D(1) by (simp add: rt)
  have 4: "fans (rt_heap rt) 4 [4]" by (rule fans_fans_all.sink) (simp add: heap)
  have 1: "fans (rt_heap rt) 1 [4]" by (rule fans_one [OF _ 4]) (simp_all add: heap)
  have "fans (rt_heap rt) 3 []" if "\<not> n"
    using fans_fans_all.dest [of "rt_heap rt" 3 "[]" "[]"] that by (simp add: heap fans_fans_all.none)
  moreover have "fans (rt_heap rt) 3 [4]" if n
    by (rule fans_one [OF _ 1]) (use that in \<open>simp_all add: heap\<close>)
  ultimately have 3: "fans (rt_heap rt) 3 (if n then [4] else [])" by simp
  have "fans (rt_heap rt) 7 ((if c then [4] else []) @ (if n then [4] else []))"
  proof (cases c)
    case True
    with fans_two [OF _ 1 3, of 7] show ?thesis by (simp add: heap)
  next
    case False
    with fans_one [OF _ 3, of 7] show ?thesis by (simp add: heap)
  qed
  then show "\<exists>e. map_of (rt_clients rt) ca = Some e \<and>
      fans (rt_heap rt) (cli_dest e) ((if c then [4] else []) @ (if n then [4] else []))"
    by (simp add: rt entered_get)
  show "map_of (rt_clients rt) cb = Some \<lparr>cli_obj = 4, cli_dest = 5, cli_filters = []\<rparr>"
    using D(7) ne by (simp add: rt entered_get)
qed

section \<open>Properties\<close>

text \<open>The packets each kind of filter is configured for.\<close>

definition kind_class :: "string \<Rightarrow> (bytes \<Rightarrow> verdict) option" where
  "kind_class kind =
     (if kind = ''mavlink1'' then Some (mavlink_class (Some crc_extra))
      else if kind = ''rtcm3'' then Some rtcm_class
      else if kind = ''ubx'' then Some ubx_class else None)"

lemma kind_created:
  assumes "kind_class kind = Some cl"
  shows "\<exists>fo. Filters_create_yaml junk as_byte kind (filter_route kind dst) = Inr (Some fo) \<and> packetizer fo = Some (cl, [])"
  using assms by (auto simp: kind_class_def Filters_create_yaml_def Filters_create_def filter_init_yaml_def filter_route_def
      Mavlink_v1_init_yaml_def Mavlink_v1_new_def RTCM_v3_new_def UBX_new_def ml_pending_def rt_pending_def ub_pending_def
      split: if_splits)

text \<open>C1: With a route from \<open>src\<close> through a filter to \<open>dst\<close>, the client of \<open>dst\<close> is handed exactly the packets
  in the reads of the clients of \<open>src\<close>, in the order they came, each packet in one write, and nothing
  else, however the streams are cut into reads and interleaved. The filter belongs to the endpoint: one
  recogniser runs over the reads of all its clients.\<close>

theorem configured_route_delivers:
  assumes "good_env env" "kind_class kind = Some cl"
    and "\<not> is_pattern src" "\<not> is_pattern dst" "distinct ([src, dst, cb] @ cas)"
    and "rt = one_route env src dst cas cb (filter_route kind dst)" "fst ` set reads \<subseteq> set cas"
  shows "\<exists>out rt1 e. map_of (rt_clients rt) cb = Some e \<and> read_all reads rt = Some (out, rt1) \<and>
    at_sink (cli_obj e) out = packets_of (snd (scan cl [] (concat (map snd reads)))) \<and> fst ` set out \<subseteq> {cli_obj e}"
proof -
  obtain fo where fo: "Filters_create_yaml (fst (snd env)) (snd (snd env)) kind (filter_route kind dst) = Inr (Some fo)"
    "packetizer fo = Some (cl, [])"
    using kind_created [OF assms(2)] by blast
  note r = one_route_filters [OF fo(1) Filters_create_yaml_ok [OF assms(1) fo(1)] fo(2) assms(3-6)]
  then have "\<forall>c \<in> fst ` set reads. routed_to 4 rt c" using assms(7) by auto
  with r stream_routed [of "[6]" "[]" rt 4 cl "[]" reads] obtain out rt1 where
    "read_all reads rt = Some (out, rt1)" "at_sink 6 out = packets_of (snd (scan cl [] (concat (map snd reads))))"
    "fst ` set out \<subseteq> {6}" by auto
  with r show ?thesis by auto
qed

text \<open>Two clients of one endpoint: the halves of a packet that each of them sent are put together.\<close>

theorem configured_route_delivers_witness:
  "\<exists>out rt1 e. map_of (rt_clients (one_route demo_renv ''a'' ''b'' [''c1'', ''c2''] ''cb'' (filter_route ''ubx'' ''b''))) ''cb'' = Some e \<and>
     read_all [(''c1'', [1, 2]), (''c1'', take 5 (ubx_encode 6 1 [3, 4])), (''c2'', drop 5 (ubx_encode 6 1 [3, 4]))]
       (one_route demo_renv ''a'' ''b'' [''c1'', ''c2''] ''cb'' (filter_route ''ubx'' ''b'')) = Some (out, rt1) \<and>
     at_sink (cli_obj e) out = [ubx_encode 6 1 [3, 4]]"
proof -
  have k: "kind_class ''ubx'' = Some ubx_class" by (simp add: kind_class_def)
  have c: "complete ubx_class (ubx_encode 6 1 [3, 4])" by (rule ubx_encode_complete) simp
  have "\<forall>b \<in> set [1, 2]. ubx_class [b] = Reject 1" by (simp add: ubx_class_byte PREAMBLE0_def)
  with scan_segments [of "[([1, 2], ubx_encode 6 1 [3, 4])]" ubx_class] c
  have "snd (scan ubx_class [] ([1, 2] @ ubx_encode 6 1 [3, 4])) = [Stray 1, Stray 2, Packet (ubx_encode 6 1 [3, 4])]"
    by (simp add: segment_bytes_def segment_items_def)
  with configured_route_delivers [OF demo_router_reachable(2) k _ _ _ refl, of "''a''" "''b''" "''cb''" "[''c1'', ''c2'']"
      "[(''c1'', [1, 2]), (''c1'', take 5 (ubx_encode 6 1 [3, 4])), (''c2'', drop 5 (ubx_encode 6 1 [3, 4]))]"]
  show ?thesis by (simp add: is_pattern_def packets_of_def) blast
qed

text \<open>C13: A route is followed once for the endpoint and once for the client, each when its name is the
  route's source or matches it as a pattern. A buffer read from a client is therefore handed to the client
  of the route's destination twice when the source matches both, as a pattern that is meant for an
  endpoint and the addresses of its clients does, once when it matches one of them, and not at all else.\<close>

theorem matching_both_doubles:
  assumes "\<not> is_pattern dst" "distinct [name, dst, cb]" "ca \<notin> {dst, cb}"
    and "equal_name (fst env) src dst = Inr False" "equal_name (fst env) src cb = Inr False"
    and "equal_name (fst env) src name = Inr n" "equal_name (fst env) src ca = Inr c"
    and "rt = straight_route env src dst name ca cb"
  shows "\<exists>rt1 e. map_of (rt_clients rt) cb = Some e \<and>
    on_read_client ca buf rt = Some (replicate (of_bool c + of_bool n) (cli_obj e, buf), rt1)"
proof -
  note f = straight_route_fans [OF assms]
  then obtain e where "map_of (rt_clients rt) ca = Some e"
    "fans (rt_heap rt) (cli_dest e) ((if c then [4] else []) @ (if n then [4] else []))" by blast
  from read_fan [OF this, of buf] f(2) show ?thesis by (cases c; cases n) (simp_all add: numeral_2_eq_2)
qed

text \<open>An engine whose patterns stand for what begins like them.\<close>

definition prefix_renv :: renv where
  "prefix_renv = (\<lambda>pat. Some (\<lambda>name. take (length pat) name = pat), \<lambda>n. replicate n 0, \<lambda>s. None)"

theorem matching_both_doubles_witness:
  "\<exists>rt1 e. on_read_client ''gcs:5760'' [7] (straight_route prefix_renv ''/gcs'' ''fc'' ''gcs'' ''gcs:5760'' ''cb'') =
     Some ([(e, [7]), (e, [7])], rt1)"
  using matching_both_doubles [of "''fc''" "''gcs''" "''cb''" "''gcs:5760''" prefix_renv "''/gcs''" True True, OF _ _ _ _ _ _ _ refl, of "[7]"]
  by (auto simp: is_pattern_def equal_name_def prefix_renv_def numeral_2_eq_2)

end
