(* ===== verification/Packet_Split.thy ===== *)
theory Packet_Split
  imports Packet_Route
begin

text \<open>
  A route with a destination for the packets and one for the rest of the stream: between them
  every byte is delivered once.
\<close>

section \<open>The route and its endpoints\<close>

definition split_route :: "string \<Rightarrow> string \<Rightarrow> string \<Rightarrow> yaml" where
  "split_route kind dst rest =
     YMap [(YScalar ''type'', YScalar kind), (YScalar ''dst'', YScalar dst), (YScalar ''rest'', YScalar rest)]"

text \<open>The clients \<open>cb\<close> of \<open>dst\<close> and \<open>cc\<close> of \<open>rest\<close> connect before the clients \<open>cas\<close> of \<open>src\<close>.\<close>

definition two_ends :: "renv \<Rightarrow> string \<Rightarrow> string \<Rightarrow> string \<Rightarrow> string list \<Rightarrow> string \<Rightarrow> string \<Rightarrow> yaml \<Rightarrow> router" where
  "two_ends env src dst rest cas cb cc route =
     (let rt1 = snd (load_routes (fst env) (YMap [(YScalar ''r'', YMap [(YScalar ''src'', YScalar src), (YScalar ''dst'', route)])]) router_new);
          rt2 = snd (setup_endpoint env src (snd (setup_endpoint env rest (snd (setup_endpoint env dst rt1)))));
          rt3 = snd (on_connect_client env rest True cc (snd (on_connect_client env dst True cb rt2)))
      in fold (\<lambda>ca rt. snd (on_connect_client env src True ca rt)) cas rt3)"

lemma load_two:
  assumes "\<not> is_pattern dst" "\<not> is_pattern rest" "dst \<noteq> rest"
  shows "snd (load_routes (fst env) (YMap [(YScalar ''r'', YMap [(YScalar ''src'', YScalar src), (YScalar ''dst'', split_route kind dst rest)])]) router_new) =
    router_new\<lparr>rt_heap := [1 \<mapsto> WDest [], 2 \<mapsto> WDest []], rt_alloc := 3, rt_named := om_put rest 2 [(dst, 1)],
      rt_routes := [(src, ''r'', split_route kind dst rest)]\<rparr>"
  using assms by (simp add: load_routes_def load_route_def split_route_def is_defined_def register_name_def new_obj_def
      router_new_def add_route_def free_objs_def Let_def numeral_2_eq_2)

lemma construct_split:
  assumes "Filters_create_yaml (fst (snd env)) (snd (snd env)) kind (split_route kind dst rest) = Inr (Some fo)"
    and "map_of (rt_named rt) dst = Some d" "map_of (rt_named rt) rest = Some e" "rt_regex rt = []"
    and "rt_heap rt 5 = Some (WDest [])" "rt_alloc rt = 6"
  shows "construct_route env (split_route kind dst rest) 5 (rt, []) =
    (Inr True, (rt\<lparr>rt_heap := (rt_heap rt)(5 \<mapsto> WDest [6], 6 \<mapsto> WFilter (filter_rest (filter_chain fo)) 7 8,
       7 \<mapsto> WDest [d], 8 \<mapsto> WDest [e]), rt_alloc := 9\<rparr>, [6]))"
  using assms(1,4-6) assms(2,3)
  by (simp add: split_route_def is_defined_def new_obj_def Let_def set_next_def set_rest_def construct_name dest_add_def
      Destination_add_def fun_upd_twist del: construct_route.simps(1))

lemma packetizer_rest:
  "packetizer (filter_rest fo) = packetizer fo" "connected (filter_rest fo) RestPort"
  "connected (filter_rest fo) NextPort = connected fo NextPort"
  by (cases fo; simp add: Filter_rest_def ml_pending_def rt_pending_def ub_pending_def
      cong: mavlink_state.case_cong rtcm_state.case_cong ubx_state.case_cong)+

lemma two_ends_ready:
  assumes "Filters_create_yaml (fst (snd env)) (snd (snd env)) kind (split_route kind dst rest) = Inr (Some fo)"
    and "\<not> is_pattern src" "\<not> is_pattern dst" "\<not> is_pattern rest" "distinct [src, dst, rest, cb, cc]"
    and "rt = snd (on_connect_client env rest True cc (snd (on_connect_client env dst True cb (snd (setup_endpoint env src
      (snd (setup_endpoint env rest (snd (setup_endpoint env dst
        (snd (load_routes (fst env) (YMap [(YScalar ''r'', YMap [(YScalar ''src'', YScalar src), (YScalar ''dst'', split_route kind dst rest)])])
          router_new)))))))))))"
  shows "rt_heap rt = [1 \<mapsto> WDest [9], 2 \<mapsto> WDest [11], 3 \<mapsto> WDest [], 4 \<mapsto> WDest [], 5 \<mapsto> WDest [6],
      6 \<mapsto> WFilter (filter_rest (filter_chain fo)) 7 8, 7 \<mapsto> WDest [1], 8 \<mapsto> WDest [2], 9 \<mapsto> WSink, 10 \<mapsto> WDest [3],
      11 \<mapsto> WSink, 12 \<mapsto> WDest [4]]"
    and "rt_alloc rt = 13" "rt_regex rt = []" "map_of (rt_named rt) = [dst \<mapsto> 1, rest \<mapsto> 2, cb \<mapsto> 0, cc \<mapsto> 0]"
    and "rt_routes rt = [(src, ''r'', split_route kind dst rest)]" "map_of (rt_sources rt) src = Some \<lparr>src_dest = 5, src_filters = [6]\<rparr>"
    and "map_of (rt_clients rt) =
      [cb \<mapsto> \<lparr>cli_obj = 9, cli_dest = 10, cli_filters = []\<rparr>, cc \<mapsto> \<lparr>cli_obj = 11, cli_dest = 12, cli_filters = []\<rparr>]"
proof -
  have ne: "src \<noteq> dst" "dst \<noteq> src" "src \<noteq> rest" "rest \<noteq> src" "dst \<noteq> rest" "rest \<noteq> dst" "cb \<noteq> src" "cc \<noteq> src" "cb \<noteq> dst" "dst \<noteq> cb"
    "cc \<noteq> dst" "dst \<noteq> cc" "cb \<noteq> rest" "rest \<noteq> cb" "cc \<noteq> rest" "rest \<noteq> cc" "cb \<noteq> cc" "cc \<noteq> cb"
    using assms(5) by auto
  define rtA where "rtA = router_new\<lparr>rt_heap := [1 \<mapsto> WDest [], 2 \<mapsto> WDest []], rt_alloc := 3,
      rt_named := om_put rest 2 [(dst, 1)], rt_routes := [(src, ''r'', split_route kind dst rest)]\<rparr>"
  have A: "rt_heap rtA = [1 \<mapsto> WDest [], 2 \<mapsto> WDest []]" "rt_alloc rtA = 3" "rt_regex rtA = []"
    "map_of (rt_named rtA) = [dst \<mapsto> 1, rest \<mapsto> 2]" "rt_routes rtA = [(src, ''r'', split_route kind dst rest)]"
    "map_of (rt_clients rtA) = Map.empty" "map_of (rt_sources rtA) = Map.empty"
    by (simp_all add: rtA_def router_new_def omap_simps del: om_put.simps)
  define rtB where "rtB = snd (setup_endpoint env rest (snd (setup_endpoint env dst rtA)))"
  have B: "rt_heap rtB = [1 \<mapsto> WDest [], 2 \<mapsto> WDest [], 3 \<mapsto> WDest [], 4 \<mapsto> WDest []]" "rt_alloc rtB = 5" "rt_regex rtB = []"
    "map_of (rt_named rtB) = [dst \<mapsto> 1, rest \<mapsto> 2]" "rt_routes rtB = [(src, ''r'', split_route kind dst rest)]"
    "map_of (rt_clients rtB) = Map.empty"
    "map_of (rt_sources rtB) = [dst \<mapsto> \<lparr>src_dest = 3, src_filters = []\<rparr>, rest \<mapsto> \<lparr>src_dest = 4, src_filters = []\<rparr>]"
    unfolding rtB_def using assms(2) ne by (simp_all add: setup_unrouted equal_name_plain A omap_simps)
  let ?rt = "rtB\<lparr>rt_heap := (rt_heap rtB)(5 \<mapsto> WDest []), rt_alloc := 6,
      rt_sources := om_put src \<lparr>src_dest = 5, src_filters = []\<rparr> (rt_sources rtB)\<rparr>"
  let ?rt1 = "?rt\<lparr>rt_heap := (rt_heap ?rt)(5 \<mapsto> WDest [6], 6 \<mapsto> WFilter (filter_rest (filter_chain fo)) 7 8,
       7 \<mapsto> WDest [1], 8 \<mapsto> WDest [2]), rt_alloc := 9\<rparr>"
  define rtC where "rtC = snd (setup_endpoint env src rtB)"
  have "construct_route env (split_route kind dst rest) 5 (?rt, []) = (Inr True, ?rt1, [6])"
    using construct_split [OF assms(1), of ?rt 1 2] B ne by simp
  then have C: "rtC = ?rt1\<lparr>rt_sources := om_put src \<lparr>src_dest = 5, src_filters = [6]\<rparr> (rt_sources ?rt1)\<rparr>"
    unfolding rtC_def using setup_routed [of rtB src src "split_route kind dst rest" env ?rt1 "[6]"] B assms(2) ne
    by (simp add: construct_routes_one equal_name_plain)
  define rtD where "rtD = snd (on_connect_client env dst True cb rtC)"
  have D: "rtD = rtC\<lparr>rt_heap := (rt_heap rtC)(9 \<mapsto> WSink, 1 \<mapsto> WDest [9], 10 \<mapsto> WDest [3]), rt_alloc := 11,
      rt_named := om_put cb 0 (rt_named rtC), rt_clients := entered cb 9 10 (rt_clients rtC)\<rparr>"
    unfolding rtD_def
    using connect_unrouted(1) [of rtC cb src "split_route kind dst rest" dst "\<lparr>src_dest = 3, src_filters = []\<rparr>" env 1] assms(2) ne
    by (simp add: equal_name_plain C B omap_simps)
  have E: "rt = rtD\<lparr>rt_heap := (rt_heap rtD)(11 \<mapsto> WSink, 2 \<mapsto> WDest [11], 12 \<mapsto> WDest [4]), rt_alloc := 13,
      rt_named := om_put cc 0 (rt_named rtD), rt_clients := entered cc 11 12 (rt_clients rtD)\<rparr>"
    unfolding assms(6) load_two [OF assms(3,4) ne(5)] rtA_def [symmetric] rtB_def [symmetric] rtC_def [symmetric] rtD_def [symmetric]
    using connect_unrouted(1) [of rtD cc src "split_route kind dst rest" rest "\<lparr>src_dest = 4, src_filters = []\<rparr>" env 2] assms(2) ne
    by (simp add: equal_name_plain D C B omap_simps entered_get)
  show "rt_heap rt = [1 \<mapsto> WDest [9], 2 \<mapsto> WDest [11], 3 \<mapsto> WDest [], 4 \<mapsto> WDest [], 5 \<mapsto> WDest [6],
      6 \<mapsto> WFilter (filter_rest (filter_chain fo)) 7 8, 7 \<mapsto> WDest [1], 8 \<mapsto> WDest [2], 9 \<mapsto> WSink, 10 \<mapsto> WDest [3],
      11 \<mapsto> WSink, 12 \<mapsto> WDest [4]]"
    by (simp add: E D C B fun_eq_iff)
  show "rt_alloc rt = 13" "rt_regex rt = []" "map_of (rt_named rt) = [dst \<mapsto> 1, rest \<mapsto> 2, cb \<mapsto> 0, cc \<mapsto> 0]"
    "rt_routes rt = [(src, ''r'', split_route kind dst rest)]" "map_of (rt_sources rt) src = Some \<lparr>src_dest = 5, src_filters = [6]\<rparr>"
    "map_of (rt_clients rt) =
      [cb \<mapsto> \<lparr>cli_obj = 9, cli_dest = 10, cli_filters = []\<rparr>, cc \<mapsto> \<lparr>cli_obj = 11, cli_dest = 12, cli_filters = []\<rparr>]"
    by (simp_all add: E D C B omap_simps entered_get)
qed

lemma closed_empty: "closed_heap a Map.empty"
  by (simp add: closed_heap_def)

lemma closed_upd:
  "closed_heap a h \<Longrightarrow> x < a \<Longrightarrow>
   (case y of WDest es \<Rightarrow> (\<forall>e \<in> set es. e < a) | WFilter fo n r \<Rightarrow> n < a \<and> r < a | WSink \<Rightarrow> True) \<Longrightarrow> closed_heap a (h(x \<mapsto> y))"
  by (auto simp: closed_heap_def)

lemma split_filters:
  assumes "Filters_create_yaml (fst (snd env)) (snd (snd env)) kind (split_route kind dst rest) = Inr (Some fo)"
    and "filter_ok fo" "packetizer fo = Some (cl, p)"
    and "\<not> is_pattern src" "\<not> is_pattern dst" "\<not> is_pattern rest" "distinct ([src, dst, rest, cb, cc] @ cas)"
    and "rt = two_ends env src dst rest cas cb cc (split_route kind dst rest)"
  shows "filters_at rt 6 cl p [9] [11] \<and> (\<forall>c \<in> set cas. routed_to 6 rt c) \<and>
    map_of (rt_clients rt) cb = Some \<lparr>cli_obj = 9, cli_dest = 10, cli_filters = []\<rparr> \<and>
    map_of (rt_clients rt) cc = Some \<lparr>cli_obj = 11, cli_dest = 12, cli_filters = []\<rparr>"
proof -
  obtain rtE where rtE: "rtE = snd (on_connect_client env rest True cc (snd (on_connect_client env dst True cb (snd (setup_endpoint env src
      (snd (setup_endpoint env rest (snd (setup_endpoint env dst
        (snd (load_routes (fst env) (YMap [(YScalar ''r'', YMap [(YScalar ''src'', YScalar src), (YScalar ''dst'', split_route kind dst rest)])])
          router_new)))))))))))" by blast
  have d: "distinct [src, dst, rest, cb, cc]" using assms(7) by auto
  note E = two_ends_ready [OF assms(1,4,5,6) d rtE]
  note heap = E(1)
  let ?fo = "filter_rest (filter_chain fo)"
  have "closed_heap 13 (rt_heap rtE)" unfolding heap by (intro closed_upd closed_empty) simp_all
  then have sv: "serves src (split_route kind dst rest) 5 rtE" using E assms(7) by (auto simp: serves_def heap)
  have "leads (rt_heap rtE) 5 6" by (rule leads.via [of _ 5 "[6]" 6] leads.here | simp add: heap)+
  moreover have "filters_at rtE 6 cl p [9] [11]"
  proof -
    have sinks: "fans (rt_heap rtE) 9 [9]" "fans (rt_heap rtE) 11 [11]" by (rule fans_fans_all.sink, simp add: heap)+
    from fans_one [OF _ sinks(1), of 1] have "fans (rt_heap rtE) 1 [9]" by (simp add: heap)
    from fans_one [OF _ this, of 7] have "fans (rt_heap rtE) 7 [9]" by (simp add: heap)
    moreover from fans_one [OF _ sinks(2), of 2] have "fans (rt_heap rtE) 2 [11]" by (simp add: heap)
    from fans_one [OF _ this, of 8] have "fans (rt_heap rtE) 8 [11]" by (simp add: heap)
    moreover have "filter_ok ?fo" using assms(2) by (intro filter_ok_connected)
    ultimately show ?thesis
      unfolding filters_at_def using assms(3) packetizer_chain [of fo] packetizer_rest [of "filter_chain fo"]
      by (intro exI [of _ ?fo] exI [of _ 7] exI [of _ 8]) (simp add: heap)
  qed
  moreover have "\<forall>c \<in> set cas. map_of (rt_clients rtE) c = None \<and> map_of (rt_named rtE) c = None"
    using E(4,7) assms(7) by auto
  moreover have "rt_heap rtE 5 \<noteq> None" by (simp add: heap)
  moreover have "distinct cas" "src \<notin> set cas" "cb \<notin> set cas" "cc \<notin> set cas" using assms(7) by auto
  moreover have "cb \<noteq> cc" using d by auto
  ultimately show ?thesis
    using connect_all [OF assms(4) sv, of cas 6 cl p "[9]" "[11]" "{}" rt env] E(7)
    unfolding assms(8) two_ends_def Let_def rtE [symmetric] by simp
qed

section \<open>Nothing is lost\<close>

lemma at_sinks_all:
  "fst ` set out \<subseteq> {a, b} \<Longrightarrow> a \<noteq> b \<Longrightarrow>
   mset (concat (map snd out)) = mset (concat (at_sink a out)) + mset (concat (at_sink b out))"
  by (induction out) (auto simp: at_sink_def)

lemma packets_strays_all: "mset (concat (packets_of is)) + mset (strays_of is) = mset (concat (map item_bytes is))"
proof (induction "is")
  case (Cons i "is")
  then show ?case by (cases i) (simp_all add: packets_of_def strays_of_def ac_simps)
qed (simp add: packets_of_def strays_of_def)

lemma kind_created_split:
  assumes "kind_class kind = Some cl"
  shows "\<exists>fo. Filters_create_yaml junk as_byte kind (split_route kind dst rest) = Inr (Some fo) \<and> packetizer fo = Some (cl, [])"
  using assms by (auto simp: kind_class_def Filters_create_yaml_def Filters_create_def filter_init_yaml_def split_route_def
      Mavlink_v1_init_yaml_def Mavlink_v1_new_def RTCM_v3_new_def UBX_new_def ml_pending_def rt_pending_def ub_pending_def
      split: if_splits)

text \<open>C2: With a route that has a destination for the packets and one for the rest, the client of the first is
  handed exactly the packets in what the clients of the source send, the client of the second exactly the
  other bytes, in order; together they get every byte once, but for those of a packet still incomplete.\<close>

theorem split_route_loses_nothing:
  assumes "good_env env" "kind_class kind = Some cl"
    and "\<not> is_pattern src" "\<not> is_pattern dst" "\<not> is_pattern rest" "distinct ([src, dst, rest, cb, cc] @ cas)"
    and "rt = two_ends env src dst rest cas cb cc (split_route kind dst rest)" "fst ` set reads \<subseteq> set cas"
    and "stream = concat (map snd reads)"
  shows "\<exists>out rt1 eb ec. map_of (rt_clients rt) cb = Some eb \<and> map_of (rt_clients rt) cc = Some ec \<and>
    read_all reads rt = Some (out, rt1) \<and>
    at_sink (cli_obj eb) out = packets_of (snd (scan cl [] stream)) \<and>
    concat (at_sink (cli_obj ec) out) = strays_of (snd (scan cl [] stream)) \<and>
    mset (concat (map snd out)) + mset (fst (scan cl [] stream)) = mset stream"
proof -
  obtain fo where fo: "Filters_create_yaml (fst (snd env)) (snd (snd env)) kind (split_route kind dst rest) = Inr (Some fo)"
    "packetizer fo = Some (cl, [])"
    using kind_created_split [OF assms(2)] by blast
  note r = split_filters [OF fo(1) Filters_create_yaml_ok [OF assms(1) fo(1)] fo(2) assms(3-7)]
  then have "\<forall>c \<in> fst ` set reads. routed_to 6 rt c" using assms(8) by auto
  with r stream_routed [of "[9]" "[11]" rt 6 cl "[]" reads] assms(9) obtain out rt1 where
    out: "read_all reads rt = Some (out, rt1)" "at_sink 9 out = packets_of (snd (scan cl [] stream))"
    "concat (at_sink 11 out) = strays_of (snd (scan cl [] stream))" "fst ` set out \<subseteq> {11, 9}" by auto
  have "mset (concat (map snd out)) = mset (concat (map item_bytes (snd (scan cl [] stream))))"
    using at_sinks_all [OF out(4)] packets_strays_all [of "snd (scan cl [] stream)"] out(2,3) by (simp add: ac_simps)
  then have "mset (concat (map snd out)) + mset (fst (scan cl [] stream)) = mset stream"
    using scan_conserves [of cl "[]" stream] by (metis append_Nil mset_append)
  with r out show ?thesis by auto
qed

theorem split_route_loses_nothing_witness:
  "\<exists>out rt1 eb ec. map_of (rt_clients (two_ends demo_renv ''a'' ''b'' ''c'' [''ca''] ''cb'' ''cc'' (split_route ''ubx'' ''b'' ''c''))) ''cb'' = Some eb \<and>
     map_of (rt_clients (two_ends demo_renv ''a'' ''b'' ''c'' [''ca''] ''cb'' ''cc'' (split_route ''ubx'' ''b'' ''c''))) ''cc'' = Some ec \<and>
     read_all [(''ca'', [1, 2]), (''ca'', ubx_encode 6 1 [3, 4])]
       (two_ends demo_renv ''a'' ''b'' ''c'' [''ca''] ''cb'' ''cc'' (split_route ''ubx'' ''b'' ''c'')) = Some (out, rt1) \<and>
     at_sink (cli_obj eb) out = [ubx_encode 6 1 [3, 4]] \<and> concat (at_sink (cli_obj ec) out) = [1, 2]"
proof -
  have k: "kind_class ''ubx'' = Some ubx_class" by (simp add: kind_class_def)
  have c: "complete ubx_class (ubx_encode 6 1 [3, 4])" by (rule ubx_encode_complete) simp
  have "\<forall>b \<in> set [1, 2]. ubx_class [b] = Reject 1" by (simp add: ubx_class_byte PREAMBLE0_def)
  with scan_segments [of "[([1, 2], ubx_encode 6 1 [3, 4])]" ubx_class] c
  have "snd (scan ubx_class [] ([1, 2] @ ubx_encode 6 1 [3, 4])) = [Stray 1, Stray 2, Packet (ubx_encode 6 1 [3, 4])]"
    by (simp add: segment_bytes_def segment_items_def)
  with split_route_loses_nothing [OF demo_router_reachable(2) k _ _ _ _ refl _ refl, of "''a''" "''b''" "''c''" "''cb''" "''cc''" "[''ca'']"
      "[(''ca'', [1, 2]), (''ca'', ubx_encode 6 1 [3, 4])]"]
  show ?thesis by (simp add: is_pattern_def packets_of_def strays_of_def) blast
qed

end
