(* ===== verification/Env_Expand.thy ===== *)
theory Env_Expand
  imports Main
begin

text \<open>
  The configuration file is read and its references to environment variables are replaced
  before it is parsed (\<open>app/uav-router.cpp\<close>, \<open>read_file\<close>, \<open>get_var\<close>,
  \<open>expand_shell_variables\<close>). The pattern is matched by a function written after the regular
  expression: a reference is \<open>${name}\<close> or \<open>${name:-default}\<close>, the name without closing brace
  and colon, the default without closing brace, both not empty.
\<close>

section \<open>Reading\<close>

text \<open>\<open>open_file\<close> gives the size \<open>fstat\<close> reports and what \<open>read\<close> finds, \<open>None\<close> when the file
  cannot be opened. The buffer is cleared before it is read into.\<close>

definition read_file :: "(string \<Rightarrow> (nat \<times> string) option) \<Rightarrow> string \<Rightarrow> string" where
  "read_file open_file name =
     (case open_file name of
        None \<Rightarrow> []
      | Some (n, contents) \<Rightarrow> take n contents @ replicate (n - length contents) (CHR 0x00))"

section \<open>The pattern\<close>

abbreviation closing :: char where "closing \<equiv> CHR ''}''"

definition name_char :: "char \<Rightarrow> bool" where
  "name_char c \<longleftrightarrow> c \<noteq> closing \<and> c \<noteq> CHR '':''"

definition default_char :: "char \<Rightarrow> bool" where
  "default_char c \<longleftrightarrow> c \<noteq> closing"

text \<open>The match that starts with this text: the name, the default and what follows. A name or a
  default cannot end in more than one place, so no choice is ever taken back.\<close>

definition match_reference :: "string \<Rightarrow> (string \<times> string \<times> string) option" where
  "match_reference str =
     (if take 2 str \<noteq> ''${'' then None
      else (let t = drop 2 str; name = takeWhile name_char t; u = dropWhile name_char t in
        if name = [] then None
        else if take 1 u = ''}'' then Some (name, [], drop 1 u)
        else if take 2 u = '':-''
        then (let def = takeWhile default_char (drop 2 u); v = dropWhile default_char (drop 2 u) in
              if def = [] \<or> v = [] then None else Some (name, def, tl v))
        else None))"

text \<open>\<open>regex_search\<close>: the first match, with what comes before it.\<close>

fun search_reference :: "string \<Rightarrow> (string \<times> string \<times> string \<times> string) option" where
  "search_reference [] = None"
| "search_reference (c # cs) =
     (case match_reference (c # cs) of
        Some (name, def, after) \<Rightarrow> Some ([], name, def, after)
      | None \<Rightarrow> map_option (\<lambda>(before, r). (c # before, r)) (search_reference cs))"

section \<open>Replacement\<close>

type_synonym environment = "string \<Rightarrow> string option"

text \<open>The name is handed over as a C string.\<close>

definition get_var :: "environment \<Rightarrow> string \<Rightarrow> string \<Rightarrow> string" where
  "get_var getenv name def =
     (case getenv (takeWhile (\<lambda>c. c \<noteq> CHR 0x00) name) of Some v \<Rightarrow> v | None \<Rightarrow> def)"

definition expand_step :: "environment \<Rightarrow> string \<Rightarrow> string option" where
  "expand_step getenv str =
     map_option (\<lambda>(before, name, def, after). before @ get_var getenv name def @ after) (search_reference str)"

text \<open>\<open>None\<close>: the loop does not end.\<close>

partial_function (option) expand_shell_variables :: "environment \<Rightarrow> string \<Rightarrow> string option" where
  "expand_shell_variables getenv data =
     (if data = [] then Some data
      else (case expand_step getenv data of
          None \<Rightarrow> Some data
        | Some t \<Rightarrow> expand_shell_variables getenv t))"

declare expand_shell_variables.simps [code]

section \<open>What a match is\<close>

definition reference :: "string \<Rightarrow> string \<Rightarrow> string" where
  "reference name def = ''${'' @ name @ (if def = [] then [] else '':-'' @ def) @ ''}''"

definition valid_name :: "string \<Rightarrow> bool" where
  "valid_name name \<longleftrightarrow> name \<noteq> [] \<and> (\<forall>c \<in> set name. name_char c)"

definition valid_default :: "string \<Rightarrow> bool" where
  "valid_default def \<longleftrightarrow> (\<forall>c \<in> set def. default_char c)"

lemma span_stops:
  "\<forall>c \<in> set xs. P c \<Longrightarrow> \<not> P y \<Longrightarrow> takeWhile P (xs @ y # ys) = xs \<and> dropWhile P (xs @ y # ys) = y # ys"
  by (induction xs) auto

lemma match_reference_reference:
  assumes "valid_name name" "valid_default def"
  shows "match_reference (reference name def @ after) = Some (name, def, after)"
proof -
  have n: "takeWhile name_char (name @ y # ys) = name \<and> dropWhile name_char (name @ y # ys) = y # ys"
    if "\<not> name_char y" for y ys
    using assms(1) that span_stops [of name name_char] by (simp add: valid_name_def)
  have d: "takeWhile default_char (def @ closing # ys) = def \<and> dropWhile default_char (def @ closing # ys) = closing # ys" for ys
    using assms(2) span_stops [of "def" default_char closing] by (simp add: valid_default_def default_char_def)
  have "\<not> name_char closing" "\<not> name_char CHR '':''" "\<not> default_char closing"
    by (simp_all add: name_char_def default_char_def)
  with n d assms(1) show ?thesis
    by (auto simp: match_reference_def reference_def valid_name_def Let_def)
qed

lemma take_Cons_cases: "take (Suc 0) u = [c] \<Longrightarrow> u = c # drop (Suc 0) u"
  by (cases u) auto

lemma take2_cases: "take 2 u = [c, d] \<Longrightarrow> u = c # d # drop 2 u"
  by (cases u; cases "tl u") auto

lemma match_reference_Some:
  assumes "match_reference str = Some (name, def, after)"
  shows "str = reference name def @ after \<and> valid_name name \<and> valid_default def"
proof -
  define t where "t = drop 2 str"
  define u where "u = dropWhile name_char t"
  have str: "str = CHR ''$'' # CHR ''{'' # t"
    using assms take2_cases [of str] by (auto simp: match_reference_def t_def split: if_splits)
  have n: "name = takeWhile name_char t" "name \<noteq> []"
    using assms by (auto simp: match_reference_def Let_def t_def split: if_splits)
  then have t: "t = name @ u" by (simp add: u_def)
  have vn: "valid_name name" using n by (auto simp: valid_name_def dest: set_takeWhileD)
  consider "take 1 u = [closing]" "after = drop 1 u" "def = []"
    | "take 2 u = '':-''" "def = takeWhile default_char (drop 2 u)" "def \<noteq> []"
      "dropWhile default_char (drop 2 u) \<noteq> []" "after = tl (dropWhile default_char (drop 2 u))"
    using assms unfolding match_reference_def Let_def t_def [symmetric] u_def [symmetric]
    by (auto split: if_split_asm)
  then show ?thesis
  proof cases
    case 1
    from take_Cons_cases [of u closing] 1 have "u = closing # after" by simp
    with 1(3) str t vn show ?thesis by (simp add: reference_def valid_default_def)
  next
    case 2
    from 2(4) have "hd (dropWhile default_char (drop 2 u)) = closing"
      using hd_dropWhile [of default_char "drop 2 u"] by (simp add: default_char_def)
    with 2(4,5) have "dropWhile default_char (drop 2 u) = closing # after" by (metis list.collapse)
    with 2(2) have "drop 2 u = def @ closing # after" by (metis takeWhile_dropWhile_id)
    with take2_cases [OF 2(1)] have "u = '':-'' @ def @ closing # after" by simp
    moreover have "valid_default def" using 2(2) by (auto simp: valid_default_def dest: set_takeWhileD)
    ultimately show ?thesis using str t vn 2(3) by (simp add: reference_def)
  qed
qed

lemma search_reference_Some:
  "search_reference str = Some (before, name, def, after) \<Longrightarrow> str = before @ reference name def @ after"
proof (induction str arbitrary: before)
  case (Cons c cs)
  show ?case
  proof (cases "match_reference (c # cs)")
    case None
    with Cons show ?thesis by (cases before) auto
  next
    case (Some m)
    with Cons.prems match_reference_Some [of "c # cs"] show ?thesis by (cases m) auto
  qed
qed simp

text \<open>Before the first dollar sign nothing matches.\<close>

lemma search_reference_plain:
  "CHR ''$'' \<notin> set p \<Longrightarrow> search_reference (p @ str) = map_option (\<lambda>(before, r). (p @ before, r)) (search_reference str)"
proof (induction p)
  case (Cons c p)
  then have "match_reference ((c # p) @ str) = None"
    by (cases "p @ str") (auto simp: match_reference_def take_Suc_conv_app_nth numeral_2_eq_2)
  with Cons show ?case by (auto simp: option.map_comp comp_def split_beta)
qed (simp add: option.map_id case_prod_beta id_def [symmetric])

lemma search_reference_reference:
  assumes "CHR ''$'' \<notin> set p" "valid_name name" "valid_default def"
  shows "search_reference (p @ reference name def @ after) = Some (p, name, def, after)"
proof -
  obtain c cs where "reference name def @ after = c # cs" by (simp add: reference_def)
  with match_reference_reference [OF assms(2,3), of after]
  have "search_reference (reference name def @ after) = Some ([], name, def, after)" by simp
  with search_reference_plain [OF assms(1)] show ?thesis by simp
qed

section \<open>Properties\<close>

definition dollars :: "string \<Rightarrow> nat" where
  "dollars str = length (filter (\<lambda>c. c = CHR ''$'') str)"

definition plain :: "string \<Rightarrow> bool" where
  "plain str \<longleftrightarrow> CHR ''$'' \<notin> set str"

lemma dollars_plain: "plain v \<Longrightarrow> dollars v = 0"
  by (induction v) (auto simp: plain_def dollars_def)

lemma dollars_append [simp]: "dollars (xs @ ys) = dollars xs + dollars ys"
  by (simp add: dollars_def)

lemma dollars_reference: "dollars def < dollars (reference name def)"
  by (simp add: reference_def dollars_def)

lemma expand_step_fewer:
  assumes "\<And>n v. getenv n = Some v \<Longrightarrow> plain v" "expand_step getenv str = Some t"
  shows "dollars t < dollars str"
proof -
  obtain before name "def" after where
    s: "search_reference str = Some (before, name, def, after)" and t: "t = before @ get_var getenv name def @ after"
    using assms(2) by (auto simp: expand_step_def)
  have "dollars (get_var getenv name def) \<le> dollars def"
    using assms(1) dollars_plain by (auto simp: get_var_def split: option.split)
  with search_reference_Some [OF s] t dollars_reference [of "def" name] show ?thesis by simp
qed

lemma expand_ends:
  assumes "\<And>n v. getenv n = Some v \<Longrightarrow> plain v"
  shows "\<exists>t. expand_shell_variables getenv str = Some t \<and> search_reference t = None"
proof (induction "dollars str" arbitrary: str rule: less_induct)
  case less
  show ?case
  proof (cases "expand_step getenv str")
    case None
    then show ?thesis by (auto simp: expand_shell_variables.simps [of _ str] expand_step_def)
  next
    case (Some t)
    then have "str \<noteq> []" by (auto simp: expand_step_def)
    with less [OF expand_step_fewer [OF assms Some]] Some show ?thesis
      by (simp add: expand_shell_variables.simps [of _ str])
  qed
qed

text \<open>When no value of the environment holds a dollar sign, the expansion ends, and no reference
  is left in its result, whatever the file holds.\<close>

theorem expansion_ends:
  assumes "\<And>n v. getenv n = Some v \<Longrightarrow> plain v"
  shows "\<exists>t. expand_shell_variables getenv str = Some t \<and> search_reference t = None"
  by (rule expand_ends [OF assms])

theorem expansion_ends_witness:
  "\<exists>t. expand_shell_variables (\<lambda>n. if n = ''A'' then Some ''x'' else None) ''${A}-${B:-y}'' = Some t \<and>
     search_reference t = None"
  by (rule expansion_ends) (auto simp: plain_def split: if_splits)

text \<open>A file as text and references, and what it stands for.\<close>

datatype piece = Plain string | Reference string string

fun valid_piece :: "piece \<Rightarrow> bool" where
  "valid_piece (Plain str) = True"
| "valid_piece (Reference name def) = (valid_name name \<and> valid_default def)"

fun written :: "piece \<Rightarrow> string" where
  "written (Plain str) = str" | "written (Reference name def) = reference name def"

fun meaning :: "environment \<Rightarrow> piece \<Rightarrow> string" where
  "meaning getenv (Plain str) = str" | "meaning getenv (Reference name def) = get_var getenv name def"

text \<open>Where a reference could begin: a dollar sign before a brace.\<close>

fun has_opening :: "string \<Rightarrow> bool" where
  "has_opening (c # d # cs) = ((c = CHR ''$'' \<and> d = CHR ''{'') \<or> has_opening (d # cs))"
| "has_opening _ = False"

lemma has_opening_prefix: "has_opening xs \<Longrightarrow> has_opening (xs @ ys)"
  by (induction xs rule: has_opening.induct) auto

lemma has_opening_dollar: "has_opening (xs @ [CHR ''$'']) = has_opening xs"
  by (induction xs rule: has_opening.induct) auto

lemma search_reference_skip:
  "\<not> has_opening (p @ take 1 str) \<Longrightarrow>
    search_reference (p @ str) = map_option (\<lambda>(before, r). (p @ before, r)) (search_reference str)"
proof (induction p)
  case (Cons c p)
  have "match_reference ((c # p) @ str) = None"
    using Cons.prems by (cases p; cases str) (auto simp: match_reference_def)
  moreover have "\<not> has_opening (p @ take 1 str)" using Cons.prems by (cases "p @ take 1 str") auto
  ultimately show ?case using Cons.IH by (auto simp: option.map_comp comp_def split_beta)
qed (simp add: option.map_id case_prod_beta id_def [symmetric])

lemma expand_pieces:
  assumes "\<forall>p \<in> set ps. valid_piece p" "\<not> has_opening (before @ concat (map (meaning getenv) ps))"
  shows "expand_shell_variables getenv (before @ concat (map written ps)) = Some (before @ concat (map (meaning getenv) ps))"
  using assms
proof (induction ps arbitrary: before)
  case Nil
  then have "search_reference before = None" using search_reference_skip [of before "[]"] by simp
  then show ?case by (simp add: expand_shell_variables.simps [of _ before] expand_step_def)
next
  case (Cons p ps)
  show ?case
  proof (cases p)
    case (Plain str)
    with Cons.IH [of "before @ str"] Cons.prems show ?thesis by simp
  next
    case (Reference name d)
    let ?v = "get_var getenv name d" and ?rest = "concat (map written ps)"
    have "\<not> has_opening before" using Cons.prems(2) has_opening_prefix by blast
    then have "\<not> has_opening (before @ take 1 (reference name d @ ?rest))"
      by (simp add: reference_def has_opening_dollar)
    moreover have "search_reference (reference name d @ ?rest) = Some ([], name, d, ?rest)"
      using search_reference_reference [of "[]" name d ?rest] Cons.prems(1) Reference by simp
    ultimately have "search_reference (before @ reference name d @ ?rest) = Some (before, name, d, ?rest)"
      by (simp add: search_reference_skip)
    then have "expand_step getenv (before @ reference name d @ ?rest) = Some (before @ ?v @ ?rest)"
      by (simp add: expand_step_def)
    moreover have "expand_shell_variables getenv ((before @ ?v) @ ?rest) =
        Some ((before @ ?v) @ concat (map (meaning getenv) ps))"
      using Cons.prems Reference by (intro Cons.IH) auto
    moreover have "reference name d \<noteq> []" by (simp add: reference_def)
    ultimately show ?thesis using Reference
      by (simp add: expand_shell_variables.simps [of _ "before @ reference name d @ ?rest"])
  qed
qed

text \<open>C35: A file made of text and well-formed references is expanded to what the references stand for -- the
  value of the variable, or the default when it is not set -- and nothing else is changed, as long as no
  dollar sign stands before an opening brace in the result. Otherwise a value would be taken for a reference in turn.\<close>

theorem expansion_substitutes:
  assumes "\<forall>p \<in> set ps. valid_piece p" "\<not> has_opening (concat (map (meaning getenv) ps))"
  shows "expand_shell_variables getenv (concat (map written ps)) = Some (concat (map (meaning getenv) ps))"
  using expand_pieces [of ps "[]" getenv] assms by simp

theorem expansion_substitutes_witness:
  "expand_shell_variables (\<lambda>n. if n = ''A'' then Some ''x$'' else None) ''p: /${A}, q: ${B:-$y}$'' = Some ''p: /x$, q: $y$''"
  using expansion_substitutes [of "[Plain ''p: /'', Reference ''A'' [], Plain '', q: '', Reference ''B'' ''$y'', Plain ''$'']"
      "\<lambda>n. if n = ''A'' then Some ''x$'' else None"]
  by (simp add: valid_name_def valid_default_def name_char_def default_char_def reference_def get_var_def)

text \<open>A variable whose value refers to the variable itself is expanded for ever: the program does
  not get as far as parsing its configuration.\<close>

theorem expansion_of_itself_diverges:
  assumes "valid_name name" "CHR 0x00 \<notin> set name" "getenv name = Some (reference name [])"
  shows "expand_shell_variables getenv (reference name []) = None"
proof (rule ccontr)
  assume "expand_shell_variables getenv (reference name []) \<noteq> None"
  then obtain t where t: "expand_shell_variables getenv (reference name []) = Some t" by blast
  have n: "takeWhile (\<lambda>c. c \<noteq> CHR 0x00) name = name" using assms(2) by (auto simp: takeWhile_eq_all_conv)
  have "get_var getenv name [] = reference name []" unfolding get_var_def n using assms(3) by simp
  then have loop: "expand_step getenv (reference name []) = Some (reference name [])"
    using search_reference_reference [of "[]" name "[]" "[]"] assms(1)
    by (simp add: expand_step_def valid_default_def)
  have "g = getenv \<longrightarrow> str \<noteq> reference name []" if "expand_shell_variables g str = Some t'" for g str t'
  proof (rule expand_shell_variables.raw_induct [OF _ that, where P = "\<lambda>g str _. g = getenv \<longrightarrow> str \<noteq> reference name []"], intro impI)
    fix run g data r
    assume "\<And>g data r. run g data = Some r \<Longrightarrow> g = getenv \<longrightarrow> data \<noteq> reference name []" "g = getenv"
      and "(if data = [] then Some data
        else (case expand_step g data of None \<Rightarrow> Some data | Some t \<Rightarrow> run g t)) = Some r"
    then show "data \<noteq> reference name []" using loop by (fastforce simp: reference_def split: if_splits)
  qed
  with t show False by blast
qed


theorem expansion_of_itself_diverges_witness:
  "expand_shell_variables (\<lambda>n. if n = ''X'' then Some ''${X}'' else None) ''${X}'' = None"
  using expansion_of_itself_diverges [of "''X''" "\<lambda>n. if n = ''X'' then Some ''${X}'' else None"]
  by (simp add: reference_def valid_name_def name_char_def)

end
