(* ===== verification/Logging.thy ===== *)
theory Logging
  imports Yaml_Config
begin

text \<open>
  The loggers (\<open>src/log.h\<close>, \<open>src/log.cpp\<close>) and their configuration (\<open>load_loggers\<close> of
  \<open>app/uav-router.cpp\<close>). A logger has an address; the registry finds it by its name. What a call
  gives is the text put before the message, \<open>None\<close> for the stream that swallows everything.
\<close>

section \<open>Levels\<close>

datatype log_level = LDisable | LError | LWarning | LNotice | LInfo | LDebug

fun level_number :: "log_level \<Rightarrow> nat" where
  "level_number LDisable = 0" | "level_number LError = 1" | "level_number LWarning = 2"
| "level_number LNotice = 3" | "level_number LInfo = 4" | "level_number LDebug = 5"

lemma level_number_inject: "level_number a = level_number b \<Longrightarrow> a = b"
  by (cases a; cases b) simp_all

instantiation log_level :: linorder
begin

definition less_eq_log_level :: "log_level \<Rightarrow> log_level \<Rightarrow> bool" where
  "less_eq_log_level a b \<longleftrightarrow> level_number a \<le> level_number b"

definition less_log_level :: "log_level \<Rightarrow> log_level \<Rightarrow> bool" where
  "less_log_level a b \<longleftrightarrow> level_number a < level_number b"

instance
  by standard (auto simp: less_eq_log_level_def less_log_level_def intro: level_number_inject)

end

lemmas level_order = less_eq_log_level_def less_log_level_def

section \<open>Loggers\<close>

record logger =
  lg_name :: string
  lg_max :: log_level

record log_state =
  ls_objs :: "nat \<Rightarrow> logger option"
  ls_loggers :: "(string, nat) omap"       \<comment> \<open>\<open>loggers\<close>\<close>

text \<open>The constructor does not replace a logger that has the name already; the destructor removes
  the name whoever has it.\<close>

definition Log_new :: "nat \<Rightarrow> string \<Rightarrow> log_state \<Rightarrow> log_state" where
  "Log_new i name st =
     st\<lparr>ls_objs := (ls_objs st)(i \<mapsto> \<lparr>lg_name = name, lg_max = LDisable\<rparr>),
        ls_loggers := (if map_of (ls_loggers st) name = None then om_put name i (ls_loggers st) else ls_loggers st)\<rparr>"

definition Log_destroy :: "nat \<Rightarrow> log_state \<Rightarrow> log_state" where
  "Log_destroy i st =
     (case ls_objs st i of
        None \<Rightarrow> st
      | Some l \<Rightarrow> st\<lparr>ls_objs := (ls_objs st)(i := None), ls_loggers := om_del (lg_name l) (ls_loggers st)\<rparr>)"

definition Log_set_level :: "log_level \<Rightarrow> nat \<Rightarrow> log_state \<Rightarrow> log_state" where
  "Log_set_level lv i st =
     st\<lparr>ls_objs := (ls_objs st)(i := map_option (\<lambda>l. l\<lparr>lg_max := lv\<rparr>) (ls_objs st i))\<rparr>"

fun level_color :: "log_level \<Rightarrow> string" where
  "level_color LDisable = []"
| "level_color LError = CHR 0x1B # ''[31m''"
| "level_color LWarning = CHR 0x1B # ''[36m''"
| "level_color LNotice = CHR 0x1B # ''[33m''"
| "level_color LInfo = CHR 0x1B # ''[97m''"
| "level_color LDebug = CHR 0x1B # ''[94m''"

definition log_prefix :: "bool \<Rightarrow> log_level \<Rightarrow> log_level \<Rightarrow> string option" where
  "log_prefix use_color level max_level =
     (if max_level < level then None else Some (if use_color then level_color level else []))"

text \<open>\<open>Log::log\<close> hands on \<open>DEBUG\<close> instead of the level it is called with.\<close>

definition Log_log :: "bool \<Rightarrow> log_level \<Rightarrow> logger \<Rightarrow> string option" where
  "Log_log use_color level l = log_prefix use_color LDebug (lg_max l)"

definition log_endl :: "bool \<Rightarrow> string" where
  "log_endl use_color = (if use_color then CHR 0x1B # ''[0m'' else []) @ [CHR 0x0A]"

text \<open>What Avahi logs.\<close>

datatype avahi_log_level = AvahiLogError | AvahiLogWarn | AvahiLogNotice | AvahiLogInfo | AvahiLogDebug | AvahiLogMax

fun avahi_level :: "avahi_log_level \<Rightarrow> log_level" where
  "avahi_level AvahiLogError = LError" | "avahi_level AvahiLogWarn = LWarning"
| "avahi_level AvahiLogNotice = LNotice" | "avahi_level AvahiLogInfo = LInfo"
| "avahi_level AvahiLogDebug = LDebug" | "avahi_level AvahiLogMax = LDebug"

definition avahiLogFunction :: "bool \<Rightarrow> avahi_log_level \<Rightarrow> string \<Rightarrow> logger \<Rightarrow> string" where
  "avahiLogFunction use_color level msg l =
     (case Log_log use_color (avahi_level level) l of None \<Rightarrow> [] | Some p \<Rightarrow> p @ msg @ [CHR 0x0A])"

text \<open>\<open>set_level\<close> for a list of names; \<open>dflt\<close> is the logger for no names.\<close>

fun set_levels :: "log_level \<Rightarrow> string list \<Rightarrow> log_state \<Rightarrow> log_state" where
  "set_levels lv [] st = st"
| "set_levels lv (name # names) st =
     (if name = ''all'' then fold (\<lambda>(_, i). Log_set_level lv i) (ls_loggers st) st
      else (case map_of (ls_loggers st) name of
          None \<Rightarrow> set_levels lv names st
        | Some i \<Rightarrow> set_levels lv names (Log_set_level lv i st)))"

definition set_level :: "nat \<Rightarrow> log_level \<Rightarrow> string list \<Rightarrow> log_state \<Rightarrow> log_state" where
  "set_level dflt lv names st = (if names = [] then Log_set_level lv dflt st else set_levels lv names st)"

section \<open>The configuration\<close>

definition log_levels :: "(string \<times> log_level) list" where
  "log_levels = [(''disable'', LDisable), (''error'', LError), (''warning'', LWarning), (''notice'', LNotice),
     (''info'', LInfo), (''debug'', LDebug)]"

fun set_entries :: "nat \<Rightarrow> log_level \<Rightarrow> yaml list \<Rightarrow> log_state \<Rightarrow> unit res \<times> log_state" where
  "set_entries dflt lv [] st = (Inr (), st)"
| "set_entries dflt lv (y # ys) st =
     (case as_string y of
        Inl e \<Rightarrow> (Inl e, st)
      | Inr name \<Rightarrow> set_entries dflt lv ys (set_level dflt lv [name] st))"

fun load_levels :: "nat \<Rightarrow> (string \<times> log_level) list \<Rightarrow> (yaml \<times> yaml) list \<Rightarrow> log_state \<Rightarrow> unit res \<times> log_state" where
  "load_levels dflt [] kvs st = (Inr (), st)"
| "load_levels dflt ((key, lv) # items) kvs st =
     (case (case yaml_find key kvs of
              YScalar name \<Rightarrow> (Inr (), set_level dflt lv [name] st)
            | YSeq ys \<Rightarrow> set_entries dflt lv ys st
            | _ \<Rightarrow> (Inr (), st)) of
        (Inl e, st1) \<Rightarrow> (Inl e, st1)
      | (Inr _, st1) \<Rightarrow> load_levels dflt items kvs st1)"

definition load_loggers :: "nat \<Rightarrow> yaml \<Rightarrow> log_state \<Rightarrow> unit res \<times> log_state" where
  "load_loggers dflt cfg st = (case cfg of YMap kvs \<Rightarrow> load_levels dflt log_levels kvs st | _ \<Rightarrow> (Inr (), st))"

section \<open>Facts\<close>

definition log_ok :: "log_state \<Rightarrow> bool" where
  "log_ok st \<longleftrightarrow> distinct (map fst (ls_loggers st)) \<and>
     (\<forall>name i. map_of (ls_loggers st) name = Some i \<longrightarrow> (\<exists>l. ls_objs st i = Some l \<and> lg_name l = name))"

text \<open>What a section of the configuration names.\<close>

fun named_in :: "yaml \<Rightarrow> string list" where
  "named_in (YScalar name) = [name]"
| "named_in (YSeq ys) = concat (map (\<lambda>y. case y of YScalar s \<Rightarrow> [s] | _ \<Rightarrow> []) ys)"
| "named_in _ = []"

definition listed :: "(yaml \<times> yaml) list \<Rightarrow> string \<Rightarrow> string \<Rightarrow> bool" where
  "listed kvs key name \<longleftrightarrow> name \<in> set (named_in (yaml_find key kvs)) \<or> ''all'' \<in> set (named_in (yaml_find key kvs))"

definition logger_max :: "log_state \<Rightarrow> string \<Rightarrow> log_level option" where
  "logger_max st name =
     Option.bind (map_of (ls_loggers st) name) (\<lambda>i. map_option lg_max (ls_objs st i))"

lemma Log_set_level_loggers [simp]: "ls_loggers (Log_set_level lv i st) = ls_loggers st"
  by (simp add: Log_set_level_def)

lemma log_okD: "log_ok st \<Longrightarrow> map_of (ls_loggers st) name = Some i \<Longrightarrow> \<exists>l. ls_objs st i = Some l \<and> lg_name l = name"
  by (simp add: log_ok_def)

lemma log_ok_set:
  assumes "log_ok st"
  shows "log_ok (Log_set_level lv i st)"
proof -
  have "\<exists>l. ls_objs (Log_set_level lv i st) j = Some l \<and> lg_name l = name" if "map_of (ls_loggers st) name = Some j" for name j
    using log_okD [OF assms that] by (auto simp: Log_set_level_def)
  then show ?thesis using assms by (simp add: log_ok_def)
qed

lemma logger_max_set:
  assumes "log_ok st" "map_of (ls_loggers st) n = Some i"
  shows "logger_max (Log_set_level lv i st) name = (if name = n then Some lv else logger_max st name)"
proof -
  obtain l where l: "ls_objs st i = Some l" "lg_name l = n" using log_okD [OF assms] by blast
  have "j \<noteq> i" if "map_of (ls_loggers st) name = Some j" "name \<noteq> n" for j
    using log_okD [OF assms(1) that(1)] l that(2) by auto
  then show ?thesis using l assms(2)
    by (cases "map_of (ls_loggers st) name") (auto simp: logger_max_def Log_set_level_def)
qed

text \<open>The loggers that \<open>P\<close> describes have the level \<open>lv\<close> now, the others what they had.\<close>

definition raised :: "log_level \<Rightarrow> (string \<Rightarrow> bool) \<Rightarrow> log_state \<Rightarrow> log_state \<Rightarrow> bool" where
  "raised lv P st st' \<longleftrightarrow> log_ok st' \<and> ls_loggers st' = ls_loggers st \<and>
     (\<forall>name \<in> fst ` set (ls_loggers st). logger_max st' name = (if P name then Some lv else logger_max st name))"

lemma raised_none: "log_ok st \<Longrightarrow> (\<And>name. name \<in> fst ` set (ls_loggers st) \<Longrightarrow> \<not> P name) \<Longrightarrow> raised lv P st st"
  by (auto simp: raised_def)

lemma raised_trans:
  "raised lv P st st1 \<Longrightarrow> raised lv Q st1 st2 \<Longrightarrow> raised lv (\<lambda>n. P n \<or> Q n) st st2"
  by (auto simp: raised_def)

lemma raised_cong: "raised lv P st st' \<Longrightarrow> (\<And>n. P n = Q n) \<Longrightarrow> raised lv Q st st'"
  by (simp add: raised_def)

lemma raised_one:
  assumes "log_ok st" "map_of (ls_loggers st) n = Some i"
  shows "raised lv (\<lambda>name. name = n) st (Log_set_level lv i st)"
  using logger_max_set [OF assms, of lv] log_ok_set [OF assms(1)] by (simp add: raised_def)

lemma raised_all:
  assumes "log_ok st" "set es \<subseteq> set (ls_loggers st)"
  shows "raised lv (\<lambda>name. name \<in> fst ` set es) st (fold (\<lambda>(_, i). Log_set_level lv i) es st)"
  using assms
proof (induction es arbitrary: st)
  case (Cons e es)
  obtain n i where e: "e = (n, i)" by (cases e)
  have "map_of (ls_loggers st) n = Some i" using Cons.prems e by (auto simp: log_ok_def)
  note 1 = raised_one [OF Cons.prems(1) this, of lv]
  then have "raised lv (\<lambda>name. name \<in> fst ` set es) (Log_set_level lv i st)
      (fold (\<lambda>(_, i). Log_set_level lv i) es (Log_set_level lv i st))"
    using Cons.prems by (intro Cons.IH) (auto simp: raised_def)
  from raised_cong [OF raised_trans [OF 1 this]] e show ?case by auto
qed (auto intro: raised_none)

lemma raised_set_level:
  assumes "log_ok st"
  shows "raised lv (\<lambda>name. n = name \<or> n = ''all'') st (set_level dflt lv [n] st)"
proof (cases "n = ''all''")
  case True
  have "raised lv (\<lambda>name. name \<in> fst ` set (ls_loggers st)) st (fold (\<lambda>(_, i). Log_set_level lv i) (ls_loggers st) st)"
    by (rule raised_all [OF assms]) simp
  with True show ?thesis by (simp add: set_level_def raised_def)
next
  case False
  show ?thesis
  proof (cases "map_of (ls_loggers st) n")
    case None
    with False have "set_level dflt lv [n] st = st" by (simp add: set_level_def)
    moreover have "n \<notin> fst ` set (ls_loggers st)" using None by (simp add: map_of_eq_None_iff)
    ultimately show ?thesis using False assms by (auto intro!: raised_none)
  next
    case (Some i)
    have "raised lv (\<lambda>name. n = name \<or> n = ''all'') st (Log_set_level lv i st)"
      by (rule raised_cong [OF raised_one [OF assms Some]]) (use False in auto)
    with False Some show ?thesis by (simp add: set_level_def)
  qed
qed

lemma raised_set_entries:
  "log_ok st \<Longrightarrow> set_entries dflt lv ys st = (Inr (), st') \<Longrightarrow>
    raised lv (\<lambda>name. \<exists>n \<in> set (named_in (YSeq ys)). n = name \<or> n = ''all'') st st'"
proof (induction ys arbitrary: st)
  case (Cons y ys)
  then obtain n where y: "y = YScalar n" by (cases y) auto
  note 1 = raised_set_level [OF Cons.prems(1), of lv n dflt]
  then have "raised lv (\<lambda>name. \<exists>n \<in> set (named_in (YSeq ys)). n = name \<or> n = ''all'') (set_level dflt lv [n] st) st'"
    using Cons.prems y by (intro Cons.IH) (auto simp: raised_def)
  from raised_cong [OF raised_trans [OF 1 this]] y show ?case by auto
qed (simp add: raised_none)

text \<open>The levels in order: the last section that lists a logger decides.\<close>

definition loudest :: "(string \<times> log_level) list \<Rightarrow> (yaml \<times> yaml) list \<Rightarrow> string \<Rightarrow> log_level option \<Rightarrow> log_level option" where
  "loudest items kvs name old = fold (\<lambda>(key, lv) m. if listed kvs key name then Some lv else m) items old"

lemma load_levels_loudest:
  assumes "log_ok st" "load_levels dflt items kvs st = (Inr (), st')"
  shows "log_ok st' \<and> ls_loggers st' = ls_loggers st \<and>
    (\<forall>name \<in> fst ` set (ls_loggers st). logger_max st' name = loudest items kvs name (logger_max st name))"
  using assms
proof (induction items arbitrary: st)
  case (Cons item items)
  obtain key lv where item: "item = (key, lv)" by (cases item)
  obtain st1 where 1: "(case yaml_find key kvs of
              YScalar name \<Rightarrow> (Inr (), set_level dflt lv [name] st)
            | YSeq ys \<Rightarrow> set_entries dflt lv ys st
            | _ \<Rightarrow> (Inr (), st)) = (Inr (), st1)" "load_levels dflt items kvs st1 = (Inr (), st')"
    using Cons.prems(2) item by (auto split: prod.splits sum.splits)
  have "raised lv (\<lambda>name. \<exists>n \<in> set (named_in (yaml_find key kvs)). n = name \<or> n = ''all'') st st1"
  proof (cases "yaml_find key kvs")
    case (YScalar n)
    then show ?thesis using 1(1) raised_set_level [OF Cons.prems(1), of lv n dflt] by simp
  next
    case (YSeq ys)
    then show ?thesis using 1(1) raised_set_entries [OF Cons.prems(1), of dflt lv ys st1] by simp
  qed (use 1(1) Cons.prems(1) in \<open>simp_all add: raised_none\<close>)
  then have r: "raised lv (listed kvs key) st st1"
    by (rule raised_cong) (auto simp: listed_def)
  then show ?case using Cons.IH [OF _ 1(2)] item by (auto simp: raised_def loudest_def)
qed (simp add: loudest_def)

lemma load_loggers_loudest:
  assumes "log_ok st" "load_loggers dflt (YMap kvs) st = (Inr (), st')" "name \<in> fst ` set (ls_loggers st)"
  shows "ls_loggers st' = ls_loggers st \<and>
    logger_max st' name = loudest log_levels kvs name (logger_max st name)"
proof -
  have "load_levels dflt log_levels kvs st = (Inr (), st')" using assms(2) by (simp add: load_loggers_def)
  from load_levels_loudest [OF assms(1) this] assms(3) show ?thesis by blast
qed

lemma loudest_ascending:
  assumes "sorted_wrt (\<lambda>a b. snd a \<le> snd b) items"
  shows "if \<exists>(key, lv) \<in> set items. listed kvs key name
    then \<exists>(key, m) \<in> set items. listed kvs key name \<and> loudest items kvs name old = Some m \<and>
      (\<forall>(key', lv) \<in> set items. listed kvs key' name \<longrightarrow> lv \<le> m)
    else loudest items kvs name old = old"
  using assms
proof (induction items rule: rev_induct)
  case (snoc item items)
  obtain key lv where item: "item = (key, lv)" by (cases item)
  have "loudest (items @ [item]) kvs name old =
      (if listed kvs key name then Some lv else loudest items kvs name old)"
    by (simp add: loudest_def item)
  with snoc item show ?case by (auto simp: sorted_wrt_append split: if_splits)
qed (simp add: loudest_def)

section \<open>Properties\<close>

text \<open>When the logging section is read without an error, a logger has the most talkative of the
  levels whose sections list it or all loggers, in whatever order the sections are written, and keeps
  its level when none does.\<close>

theorem loggers_configured:
  assumes "log_ok st" "load_loggers dflt (YMap kvs) st = (Inr (), st')" "name \<in> fst ` set (ls_loggers st)"
  shows "if \<exists>(key, lv) \<in> set log_levels. listed kvs key name
    then \<exists>(key, m) \<in> set log_levels. listed kvs key name \<and> logger_max st' name = Some m \<and>
      (\<forall>(key', lv) \<in> set log_levels. listed kvs key' name \<longrightarrow> lv \<le> m)
    else logger_max st' name = logger_max st name"
proof -
  have "sorted_wrt (\<lambda>a b. snd a \<le> snd b) log_levels" by (simp add: log_levels_def level_order)
  from loudest_ascending [OF this, of kvs name "logger_max st name"]
  have "if \<exists>(key, lv) \<in> set log_levels. listed kvs key name
    then \<exists>(key, m) \<in> set log_levels. listed kvs key name \<and>
      loudest log_levels kvs name (logger_max st name) = Some m \<and>
      (\<forall>(key', lv) \<in> set log_levels. listed kvs key' name \<longrightarrow> lv \<le> m)
    else loudest log_levels kvs name (logger_max st name) = logger_max st name" .
  moreover have "logger_max st' name = loudest log_levels kvs name (logger_max st name)"
    using load_loggers_loudest [OF assms] by blast
  ultimately show ?thesis by (simp only:)
qed

definition demo_loggers :: log_state where
  "demo_loggers = Log_new 1 ''router'' (Log_new 0 ''default'' \<lparr>ls_objs = (\<lambda>_. None), ls_loggers = []\<rparr>)"

lemma demo_loggers_ok: "log_ok demo_loggers" "fst ` set (ls_loggers demo_loggers) = {''default'', ''router''}"
  by (auto simp: demo_loggers_def Log_new_def log_ok_def)

theorem loggers_configured_witness:
  "logger_max (snd (load_loggers 0 (YMap [(YScalar ''debug'', YScalar ''router''), (YScalar ''error'', YScalar ''all'')])
     demo_loggers)) ''router'' = Some LDebug"
proof -
  let ?kvs = "[(YScalar ''debug'', YScalar ''router''), (YScalar ''error'', YScalar ''all'')]"
  obtain st' where st': "load_loggers 0 (YMap ?kvs) demo_loggers = (Inr (), st')"
    by (simp add: load_loggers_def log_levels_def)
  from loggers_configured [OF demo_loggers_ok(1) st', of "''router''"]
  show ?thesis using st' demo_loggers_ok(2)
    by (auto simp: log_levels_def listed_def level_order split: if_splits)
qed

text \<open>C36: A logger prints messages of any level, or of none. After the logging section is read it prints them
  all when it is listed under \<open>debug\<close>, or when it was at that level before and is listed under no
  level, as \<open>router\<close>, which \<open>main\<close> puts at that level first; otherwise it swallows everything, errors included.\<close>

theorem loggers_all_or_nothing:
  assumes "log_ok st" "load_loggers dflt (YMap kvs) st = (Inr (), st')"
    and "map_of (ls_loggers st) name = Some i" "ls_objs st' i = Some l"
  shows "Log_log use_color lv l \<noteq> None \<longleftrightarrow>
    listed kvs ''debug'' name \<or>
    (logger_max st name = Some LDebug \<and> (\<forall>(key, lv) \<in> set log_levels. \<not> listed kvs key name))"
proof -
  have n: "name \<in> fst ` set (ls_loggers st)" using assms(3) by (metis map_of_SomeD fst_conv image_eqI)
  note r = load_loggers_loudest [OF assms(1,2) n]
  then have m: "logger_max st' name = Some (lg_max l)" using assms(3,4) by (simp add: logger_max_def)
  have "Log_log use_color lv l \<noteq> None \<longleftrightarrow> lg_max l = LDebug"
    by (cases "lg_max l") (simp_all add: Log_log_def log_prefix_def level_order)
  moreover have "Some (lg_max l) = loudest log_levels kvs name (logger_max st name)"
    using r m by simp
  ultimately show ?thesis
    by (auto simp: loudest_def log_levels_def split: if_splits)
qed

theorem loggers_all_or_nothing_witness:
  "Log_log True LError \<lparr>lg_name = ''router'', lg_max = LInfo\<rparr> = None"
proof -
  let ?kvs = "[(YScalar ''info'', YScalar ''router'')]"
  obtain st' where st': "load_loggers 0 (YMap ?kvs) demo_loggers = (Inr (), st')"
    by (simp add: load_loggers_def log_levels_def)
  have "map_of (ls_loggers demo_loggers) ''router'' = Some 1" "ls_objs st' 1 = Some \<lparr>lg_name = ''router'', lg_max = LInfo\<rparr>"
    "logger_max demo_loggers ''router'' = Some LDisable"
    using st' by (auto simp: load_loggers_def log_levels_def demo_loggers_def Log_new_def set_level_def
        Log_set_level_def logger_max_def)
  from loggers_all_or_nothing [OF demo_loggers_ok(1) st' this(1,2), of True LError] this(3)
  show ?thesis by (simp add: listed_def log_levels_def)
qed

end
