(* ===== verification/App_Main.thy ===== *)
theory App_Main
  imports Router_Graph Env_Expand Logging
begin

text \<open>
  The start of the program (\<open>main\<close> of \<open>app/uav-router.cpp\<close>): the configuration is read,
  expanded, parsed and loaded, then the loop runs. What comes from outside is a record:
  the files, the environment, the YAML parser and its conversion to \<open>bool\<close>, whether the handler of
  Ctrl-C can be installed, and what building filters and endpoints needs.
\<close>

record outside =
  out_files :: "string \<Rightarrow> (nat \<times> string) option"
  out_getenv :: environment
  out_parse :: "string \<Rightarrow> yaml res"
  out_as_bool :: "string \<Rightarrow> bool option"
  out_ctrlC :: bool                          \<comment> \<open>\<open>handle_CtrlC\<close> returns no error\<close>
  out_renv :: renv
  out_init :: "endpoint_kind \<Rightarrow> string \<Rightarrow> yaml \<Rightarrow> init_result"

text \<open>The two tests the configuration can ask for, five seconds after the start.\<close>

datatype self_test = DivideByZero | SegmentationFault

record program =
  pg_router :: router
  pg_logs :: log_state
  pg_test :: "self_test option"
  pg_ctrlC :: bool
  pg_endpoints :: yaml                       \<comment> \<open>what waits for \<open>zeroconf_ready\<close>\<close>
  pg_stats :: "wid option"

text \<open>\<open>main\<close> has returned, thrown what nobody catches, or reached the loop.\<close>

datatype outcome = Returns int | Throws exn | Runs program

definition bind_outcome :: "'a res \<Rightarrow> ('a \<Rightarrow> outcome) \<Rightarrow> outcome" where
  "bind_outcome r f = (case r of Inl e \<Rightarrow> Throws e | Inr x \<Rightarrow> f x)"

definition self_test_of :: "yaml \<Rightarrow> self_test option" where
  "self_test_of test =
     (case test of
        YScalar name \<Rightarrow>
          if name = ''divzero'' then Some DivideByZero
          else if name = ''segfault'' then Some SegmentationFault else None
      | _ \<Rightarrow> None)"

definition wants_ctrlC :: "(string \<Rightarrow> bool option) \<Rightarrow> yaml \<Rightarrow> bool res" where
  "wants_ctrlC as_bool y = (case y of YScalar s \<Rightarrow> as_number as_bool y | _ \<Rightarrow> Inr True)"

text \<open>The global section: \<open>Inl\<close> the code \<open>main\<close> returns.\<close>

definition global_section :: "outside \<Rightarrow> yaml \<Rightarrow> (int + self_test option \<times> bool) res" where
  "global_section out cfg =
     (case cfg of
        YMap kvs \<Rightarrow>
          bind_res (wants_ctrlC (out_as_bool out) (yaml_find ''ctrl-C'' kvs)) (\<lambda>ctrlC.
            Inr (if ctrlC \<and> \<not> out_ctrlC out then Inl 1
                 else Inr (self_test_of (yaml_find ''test'' kvs), ctrlC)))
      | _ \<Rightarrow> Inr (Inr (None, False)))"

definition stats_section :: "renv \<Rightarrow> yaml \<Rightarrow> router \<Rightarrow> wid option \<times> router" where
  "stats_section env cfg rt =
     (case cfg of
        YMap kvs \<Rightarrow> (case yaml_find ''endpoint'' kvs of YScalar name \<Rightarrow> connect_stats env name rt | _ \<Rightarrow> (None, rt))
      | _ \<Rightarrow> (None, rt))"

text \<open>The static loggers of the program; that of \<open>libavahi\<close> is made when Avahi first logs.\<close>

definition static_loggers :: "string list" where
  "static_loggers = [''default'', ''avahi'', ''svclistener'', ''udpserver'', ''addrinfo'', ''uart'', ''tcpclient'',
     ''signal'', ''tcpstream'', ''tcpserver'', ''udpclient'', ''filters'', ''ioloop'', ''router'']"

definition initial_logs :: log_state where
  "initial_logs = fold (\<lambda>(i, name). Log_new i name) (enumerate 0 static_loggers) \<lparr>ls_objs = (\<lambda>_. None), ls_loggers = []\<rparr>"

definition main_routes :: "outside \<Rightarrow> yaml \<Rightarrow> self_test option \<times> bool \<Rightarrow> log_state \<Rightarrow> outcome" where
  "main_routes out config g logs =
     bind_outcome (yaml_at ''routes'' config) (\<lambda>routes.
       (case load_routes (fst (out_renv out)) routes router_new of
          (Inl e, _) \<Rightarrow> Throws e
        | (Inr False, _) \<Rightarrow> Returns 2
        | (Inr True, rt) \<Rightarrow>
            bind_outcome (yaml_at ''endpoints'' config) (\<lambda>endpoints.
            bind_outcome (yaml_at ''stats'' config) (\<lambda>stats.
              (case stats_section (out_renv out) stats rt of (d, rt1) \<Rightarrow>
                 Runs \<lparr>pg_router = rt1, pg_logs = logs, pg_test = fst g, pg_ctrlC = snd g,
                       pg_endpoints = endpoints, pg_stats = d\<rparr>)))))"

definition main_loggers :: "outside \<Rightarrow> yaml \<Rightarrow> self_test option \<times> bool \<Rightarrow> outcome" where
  "main_loggers out config g =
     bind_outcome (yaml_at ''logging'' config) (\<lambda>logging.
       (case load_loggers 0 logging (set_level 0 LDebug [''router''] initial_logs) of
          (Inl e, _) \<Rightarrow> Throws e
        | (Inr _, logs) \<Rightarrow> main_routes out config g logs))"

definition main_config :: "outside \<Rightarrow> yaml \<Rightarrow> outcome" where
  "main_config out config =
     bind_outcome (bind_res (yaml_at ''config'' config) (global_section out)) (\<lambda>g.
       case g of Inl code \<Rightarrow> Returns code | Inr tc \<Rightarrow> main_loggers out config tc)"

text \<open>\<open>None\<close>: the expansion does not end.\<close>

definition main_start :: "outside \<Rightarrow> string list \<Rightarrow> outcome option" where
  "main_start out args =
     (let name = (case args of [] \<Rightarrow> ''config.yaml'' | a # _ \<Rightarrow> a)
      in Option.bind (expand_shell_variables (out_getenv out) (read_file (out_files out) name)) (\<lambda>expanded.
           Some (if expanded = [] then Returns 1
                 else bind_outcome (out_parse out expanded) (main_config out))))"

text \<open>The handler of \<open>zeroconf_ready\<close>: whether the loop goes on.\<close>

definition on_zeroconf_ready :: "outside \<Rightarrow> program \<Rightarrow> bool res \<times> program" where
  "on_zeroconf_ready out p =
     (case load_endpoints (out_renv out) (out_init out) (pg_endpoints p) (pg_router p) of
        (r, rt) \<Rightarrow> (r, p\<lparr>pg_router := rt\<rparr>))"

section \<open>Facts\<close>

lemma bind_outcome_simps [simp]: "bind_outcome (Inl e) f = Throws e" "bind_outcome (Inr x) f = f x"
  by (simp_all add: bind_outcome_def)

text \<open>What holds of an outcome whatever the configuration is.\<close>

definition started :: "outside \<Rightarrow> outcome \<Rightarrow> bool" where
  "started out r \<longleftrightarrow>
     (case r of
        Returns c \<Rightarrow> c = 1 \<or> c = 2
      | Throws e \<Rightarrow> True
      | Runs p \<Rightarrow> router_reachable (out_renv out) (pg_router p))"

lemma started_simps [simp]:
  "started out (Returns c) \<longleftrightarrow> c = 1 \<or> c = 2" "started out (Throws e)"
  "started out (Runs p) \<longleftrightarrow> router_reachable (out_renv out) (pg_router p)"
  by (simp_all add: started_def)

lemma started_bind: "(\<And>x. r = Inr x \<Longrightarrow> started out (f x)) \<Longrightarrow> started out (bind_outcome r f)"
  by (cases r) simp_all

lemma stats_section_reachable:
  "router_reachable env rt \<Longrightarrow> router_reachable env (snd (stats_section env cfg rt))"
  by (auto simp: stats_section_def intro: router_reachable.step router_step.stats split: yaml.split)

lemma started_routes: "started out (main_routes out config g logs)"
  unfolding main_routes_def
proof (rule started_bind)
  fix routes
  obtain r rt where l: "load_routes (fst (out_renv out)) routes router_new = (r, rt)" by (cases "load_routes (fst (out_renv out)) routes router_new")
  have "router_reachable (out_renv out) (snd (load_routes (fst (out_renv out)) routes router_new))"
    by (intro router_reachable.step [OF router_reachable.start] router_step.routes)
  then have "router_reachable (out_renv out) (snd (stats_section (out_renv out) stats rt))" for stats
    using l stats_section_reachable by simp
  then show "started out (case load_routes (fst (out_renv out)) routes router_new of
          (Inl e, _) \<Rightarrow> Throws e
        | (Inr False, _) \<Rightarrow> Returns 2
        | (Inr True, rt) \<Rightarrow>
            bind_outcome (yaml_at ''endpoints'' config) (\<lambda>endpoints.
            bind_outcome (yaml_at ''stats'' config) (\<lambda>stats.
              (case stats_section (out_renv out) stats rt of (d, rt1) \<Rightarrow>
                 Runs \<lparr>pg_router = rt1, pg_logs = logs, pg_test = fst g, pg_ctrlC = snd g,
                       pg_endpoints = endpoints, pg_stats = d\<rparr>))))"
    using l by (auto intro!: started_bind split: sum.split bool.split prod.split) (metis snd_conv)
qed

lemma global_section_code: "global_section out cfg = Inr (Inl c) \<Longrightarrow> c = 1"
  by (cases cfg) (auto simp: global_section_def bind_res_Inr split: if_splits)

lemma started_config: "started out (main_config out config)"
  unfolding main_config_def
proof (rule started_bind)
  fix g assume g: "bind_res (yaml_at ''config'' config) (global_section out) = Inr g"
  have "code = 1" if "g = Inl code" for code
    using g that global_section_code by (auto simp: bind_res_Inr)
  moreover have "started out (main_loggers out config tc)" for tc
    unfolding main_loggers_def by (auto intro!: started_bind started_routes split: sum.split prod.split)
  ultimately show "started out (case g of Inl code \<Rightarrow> Returns code | Inr tc \<Rightarrow> main_loggers out config tc)"
    by (cases g) auto
qed

section \<open>Properties\<close>

text \<open>C34: When the values of the environment hold no dollar sign, the program gets past the expansion of
  its configuration; it ends with one of its two exit codes or an exception, or it reaches the loop in
  a state, and keeps one when its endpoints are loaded there, whose routing graph has no cycle.\<close>

theorem program_starts:
  assumes "\<And>n v. out_getenv out n = Some v \<Longrightarrow> plain v" "good_env (out_renv out)"
  shows "\<exists>r. main_start out args = Some r \<and>
    (case r of
       Returns c \<Rightarrow> c = 1 \<or> c = 2
     | Throws e \<Rightarrow> True
     | Runs p \<Rightarrow> (\<exists>rank. acyclic_heap rank (rt_heap (pg_router p))) \<and>
         (\<exists>rank. acyclic_heap rank (rt_heap (pg_router (snd (on_zeroconf_ready out p))))))"
proof -
  let ?data = "read_file (out_files out) (case args of [] \<Rightarrow> ''config.yaml'' | a # _ \<Rightarrow> a)"
  obtain expanded where e: "expand_shell_variables (out_getenv out) ?data = Some expanded"
    using expand_ends [of "out_getenv out" ?data] assms(1) by blast
  define r where "r = (if expanded = [] then Returns 1 else bind_outcome (out_parse out expanded) (main_config out))"
  have "started out r" unfolding r_def by (auto intro: started_bind started_config)
  moreover have "\<exists>rank. acyclic_heap rank (rt_heap rt)" if "router_reachable (out_renv out) rt" for rt
    using router_reachable_routed [OF that assms(2)] ok_heap_acyclic graph_heap unfolding routed_def by blast
  moreover have "router_reachable (out_renv out) (pg_router (snd (on_zeroconf_ready out p)))"
    if "router_reachable (out_renv out) (pg_router p)" for p
    using router_reachable.step [OF that router_step.endpoints]
    by (auto simp: on_zeroconf_ready_def split: prod.split) (metis snd_conv)
  ultimately have "case r of
       Returns c \<Rightarrow> c = 1 \<or> c = 2
     | Throws e \<Rightarrow> True
     | Runs p \<Rightarrow> (\<exists>rank. acyclic_heap rank (rt_heap (pg_router p))) \<and>
         (\<exists>rank. acyclic_heap rank (rt_heap (pg_router (snd (on_zeroconf_ready out p)))))"
    by (cases r) auto
  with e r_def show ?thesis by (auto simp: main_start_def)
qed

definition demo_outside :: outside where
  "demo_outside =
     \<lparr>out_files = (\<lambda>name. if name = ''c.yaml'' then Some (1, ''x'') else None), out_getenv = (\<lambda>_. None),
      out_parse = (\<lambda>_. Inr (YMap [(YScalar ''routes'', demo_routes)])), out_as_bool = (\<lambda>_. None), out_ctrlC = True,
      out_renv = demo_renv, out_init = (\<lambda>_ _ _. InitOk)\<rparr>"

theorem program_starts_witness:
  "\<exists>r. main_start demo_outside [''c.yaml''] = Some r \<and>
    (case r of
       Returns c \<Rightarrow> c = 1 \<or> c = 2
     | Throws e \<Rightarrow> True
     | Runs p \<Rightarrow> \<exists>rank. acyclic_heap rank (rt_heap (pg_router p)))"
proof -
  have "good_env (out_renv demo_outside)" by (simp add: demo_outside_def good_env_def demo_renv_def)
  moreover have "plain v" if "out_getenv demo_outside n = Some v" for n v using that by (simp add: demo_outside_def)
  ultimately obtain r where "main_start demo_outside [''c.yaml''] = Some r" "case r of
       Returns c \<Rightarrow> c = 1 \<or> c = 2
     | Throws e \<Rightarrow> True
     | Runs p \<Rightarrow> (\<exists>rank. acyclic_heap rank (rt_heap (pg_router p))) \<and>
         (\<exists>rank. acyclic_heap rank (rt_heap (pg_router (snd (on_zeroconf_ready demo_outside p)))))"
    using program_starts [of demo_outside "[''c.yaml'']"] by blast
  then show ?thesis by (cases r) auto
qed

end
