(* ===== verification/Zeroconf.thy ===== *)
theory Zeroconf
  imports Sockaddr Statistics Yaml_Config
begin

text \<open>
  What is known of the services in the network (\<open>src/impl/zeroconf.h\<close>): \<open>ServiceListener\<close> keeps
  the addresses, names and claimed ports of one type of service, \<open>AvahiImpl\<close> one listener for TCP
  and one for UDP. A map keyed by addresses is one on what their order distinguishes
  (\<open>Sockaddr.addresses_ordered\<close>): the length and the bytes. Objects that watch are numbers, weak
  pointers to them a predicate \<open>alive\<close>; calls to them are part of the result.
\<close>

section \<open>State\<close>

record cavahi_service =
  cs_interface :: int
  cs_protocol :: int
  cs_name :: string
  cs_type :: string
  cs_domain :: string

type_synonym addr_key = "nat \<times> bytes"

type_synonym txt_records = "(string \<times> string) list"

record listener =
  zl_names :: "addr_key \<rightharpoonup> string"
  zl_aliases :: "string \<rightharpoonup> string"
  zl_ports :: "string \<rightharpoonup> int set"
  zl_complete :: bool
  zl_service :: "string \<rightharpoonup> sock_addr list"
  zl_txt :: "string \<rightharpoonup> txt_records"
  zl_watches :: "nat list"
  zl_on_complete :: bool
  zl_check_ports :: bool

definition ServiceListener_new :: "bool \<Rightarrow> listener" where
  "ServiceListener_new check_ports =
     \<lparr>zl_names = Map.empty, zl_aliases = Map.empty, zl_ports = Map.empty, zl_complete = False,
      zl_service = Map.empty, zl_txt = Map.empty, zl_watches = [], zl_on_complete = False,
      zl_check_ports = check_ports\<rparr>"

text \<open>Calls to the objects that watch.\<close>

datatype service_call =
    SvcResolved nat string string int sock_addr
  | SvcRemoved nat string

section \<open>Events of one listener\<close>

text \<open>A claim of a port is a service called \<open>port-address-claim\<close>.\<close>

definition claim_of :: "string \<Rightarrow> (string \<times> string) option" where
  "claim_of name =
     (let d = takeWhile is_digit name; r = dropWhile is_digit name; n = length r - 7 in
      if d = [] \<or> length r < 7 \<or> take 1 r \<noteq> ''-'' \<or> drop (Suc n) r \<noteq> ''-claim'' \<or>
         (\<exists>c \<in> set (take n (tl r)). c = CHR 0x0A \<or> c = CHR 0x0D)
      then None else Some (d, take n (tl r)))"

definition USHRT_MAX :: int where
  "USHRT_MAX = 65535"

definition ports_insert :: "string \<Rightarrow> int \<Rightarrow> listener \<Rightarrow> listener" where
  "ports_insert a p st =
     st\<lparr>zl_ports := (zl_ports st)(a \<mapsto> insert p (case zl_ports st a of None \<Rightarrow> {} | Some ps \<Rightarrow> ps))\<rparr>"

definition ports_erase :: "string \<Rightarrow> int \<Rightarrow> listener \<Rightarrow> listener" where
  "ports_erase a p st =
     st\<lparr>zl_ports := (zl_ports st)(a \<mapsto> (case zl_ports st a of None \<Rightarrow> {} | Some ps \<Rightarrow> ps - {p}))\<rparr>"

definition check_ports :: "(string \<Rightarrow> int \<Rightarrow> listener \<Rightarrow> listener) \<Rightarrow> string \<Rightarrow> listener \<Rightarrow> listener res" where
  "check_ports change name st =
     (if \<not> zl_check_ports st then Inr st
      else (case claim_of name of
          None \<Rightarrow> Inr st
        | Some (d, a) \<Rightarrow>
            bind_res (stoi d) (\<lambda>(port, _). Inr (if port \<le> USHRT_MAX then change a port st else st))))"

text \<open>The walk over the watches forgets the dead ones.\<close>

definition watch_calls :: "(nat \<Rightarrow> bool) \<Rightarrow> (nat \<Rightarrow> service_call) \<Rightarrow> listener \<Rightarrow> service_call list \<times> listener" where
  "watch_calls alive call st =
     (map call (filter alive (zl_watches st)), st\<lparr>zl_watches := filter alive (zl_watches st)\<rparr>)"

text \<open>The last record called \<open>endpoint\<close> counts.\<close>

definition endpoint_of :: "txt_records \<Rightarrow> string" where
  "endpoint_of txts = fold (\<lambda>(k, v) name. if k = ''endpoint'' then v else name) txts []"

definition svc_store :: "string \<Rightarrow> sock_addr \<Rightarrow> txt_records \<Rightarrow> listener \<Rightarrow> listener" where
  "svc_store service addr txts st =
     (let name = endpoint_of txts;
          addrs = (case zl_service st service of None \<Rightarrow> [sa_copy addr] | Some as \<Rightarrow> sl_add addr as);
          st1 = st\<lparr>zl_service := (zl_service st)(service \<mapsto> addrs)\<rparr>;
          st2 = (if name = [] then st1\<lparr>zl_names := (zl_names st1)(sa_key addr \<mapsto> service)\<rparr>
                 else st1\<lparr>zl_names := (zl_names st1)(sa_key addr \<mapsto> name),
                          zl_aliases := (zl_aliases st1)(name \<mapsto> service)\<rparr>)
      in if txts = [] then st2 else st2\<lparr>zl_txt := (zl_txt st2)(service \<mapsto> txts)\<rparr>)"

definition svc_added :: "int \<Rightarrow> cavahi_service \<Rightarrow> string \<Rightarrow> stat_events \<Rightarrow> stat_events" where
  "svc_added now service name evt =
     StatEvents_tag_front ''type'' (cs_type service)
       (StatEvents_tag_front name name
         (StatEvents_tag_front ''svc_name'' (cs_name service) (StatEvents_add now 0 evt)))"

definition svc_gone :: "int \<Rightarrow> cavahi_service \<Rightarrow> stat_events \<Rightarrow> stat_events" where
  "svc_gone now service evt =
     StatEvents_tag_front ''type'' (cs_type service)
       (StatEvents_tag_front ''svc_name'' (cs_name service) (StatEvents_add now 1 evt))"

text \<open>The handler of \<open>on_resolve\<close>. A number too large for the port ends it with an exception.\<close>

definition Listener_on_resolve ::
    "(nat \<Rightarrow> bool) \<Rightarrow> int \<Rightarrow> cavahi_service \<Rightarrow> sock_addr \<Rightarrow> txt_records \<Rightarrow> listener \<times> stat_events \<Rightarrow>
     service_call list res \<times> listener \<times> stat_events" where
  "Listener_on_resolve alive now service addr txts le =
     (case le of (st, evt) \<Rightarrow>
        (let name = endpoint_of txts;
             st1 = svc_store (cs_name service) addr txts st
         in case check_ports ports_insert (cs_name service) st1 of
              Inl e \<Rightarrow> (Inl e, st1, evt)
            | Inr st2 \<Rightarrow>
                (case watch_calls alive (\<lambda>w. SvcResolved w (cs_name service) name (cs_interface service) addr) st2 of
                   (calls, st3) \<Rightarrow> (Inr calls, st3, svc_added now service name evt))))"

text \<open>\<open>names[addr]\<close> for every address of the service, each then erased: the name of the last one.\<close>

fun names_drop :: "sock_addr list \<Rightarrow> string \<Rightarrow> (addr_key \<rightharpoonup> string) \<Rightarrow> string \<times> (addr_key \<rightharpoonup> string)" where
  "names_drop [] name names = (name, names)"
| "names_drop (a # as) name names =
     names_drop as (case names (sa_key a) of None \<Rightarrow> [] | Some n \<Rightarrow> n) (names(sa_key a := None))"

definition svc_erase :: "string \<Rightarrow> listener \<Rightarrow> listener" where
  "svc_erase service st =
     (let st1 = st\<lparr>zl_txt := (zl_txt st)(service := None)\<rparr>
      in case zl_service st1 service of
           None \<Rightarrow> st1
         | Some as \<Rightarrow>
             (case names_drop as [] (zl_names st1) of
                (name, names) \<Rightarrow>
                  st1\<lparr>zl_names := names, zl_service := (zl_service st1)(service := None),
                      zl_aliases := (if name = [] then zl_aliases st1 else (zl_aliases st1)(name := None))\<rparr>))"

definition Listener_on_remove ::
    "(nat \<Rightarrow> bool) \<Rightarrow> int \<Rightarrow> cavahi_service \<Rightarrow> listener \<times> stat_events \<Rightarrow>
     service_call list \<times> unit res \<times> listener \<times> stat_events" where
  "Listener_on_remove alive now service le =
     (case le of (st, evt) \<Rightarrow>
        (case watch_calls alive (\<lambda>w. SvcRemoved w (cs_name service)) st of
           (calls, st1) \<Rightarrow>
             (let evt1 = svc_gone now service evt
              in case check_ports ports_erase (cs_name service) st1 of
                   Inl e \<Rightarrow> (calls, Inl e, st1, evt1)
                 | Inr st2 \<Rightarrow> (calls, Inr (), svc_erase (cs_name service) st2, evt1))))"

definition Listener_on_complete :: "listener \<Rightarrow> listener" where
  "Listener_on_complete st = st\<lparr>zl_complete := True\<rparr>"

definition Listener_start_watch :: "nat \<Rightarrow> listener \<Rightarrow> listener" where
  "Listener_start_watch w st = st\<lparr>zl_watches := w # zl_watches st\<rparr>"

text \<open>\<open>a\<close> is the text of the address alone.\<close>

definition Listener_port_claimed :: "int \<Rightarrow> string \<Rightarrow> listener \<Rightarrow> bool" where
  "Listener_port_claimed port a st = (case zl_ports st a of None \<Rightarrow> False | Some ps \<Rightarrow> port \<in> ps)"

text \<open>\<open>None\<close>: not found, and the arguments are left as they were; the inner \<open>None\<close> leaves the text.\<close>

definition Listener_get_service_info :: "string \<Rightarrow> listener \<Rightarrow> (sock_addr list \<times> txt_records option) option" where
  "Listener_get_service_info name st =
     (let service = (case zl_aliases st name of None \<Rightarrow> name | Some s \<Rightarrow> s)
      in map_option (\<lambda>as. (as, zl_txt st service)) (zl_service st service))"

section \<open>Both listeners\<close>

record avahi_impl =
  az_tcp :: listener
  az_udp :: listener
  az_on_ready :: bool
  az_events :: stat_events

definition SOCK_STREAM_c :: int where "SOCK_STREAM_c = 1"
definition SOCK_DGRAM_c :: int where "SOCK_DGRAM_c = 2"

definition AvahiImpl_new :: avahi_impl where
  "AvahiImpl_new =
     \<lparr>az_tcp = (ServiceListener_new False)\<lparr>zl_on_complete := True\<rparr>,
      az_udp = (ServiceListener_new True)\<lparr>zl_on_complete := True\<rparr>, az_on_ready = False,
      az_events = StatEvents_new ''name'' [(0, ''add''), (1, ''remove'')]\<rparr>"

definition both_complete :: "avahi_impl \<Rightarrow> bool" where
  "both_complete st \<longleftrightarrow> zl_complete (az_tcp st) \<and> zl_complete (az_udp st)"

text \<open>Whether the handler is called.\<close>

definition AvahiImpl_on_ready :: "avahi_impl \<Rightarrow> bool \<times> avahi_impl" where
  "AvahiImpl_on_ready st = (both_complete st, st\<lparr>az_on_ready := True\<rparr>)"

definition AvahiImpl_complete :: "bool \<Rightarrow> avahi_impl \<Rightarrow> bool \<times> avahi_impl" where
  "AvahiImpl_complete tcp st =
     (let st1 = (if tcp then st\<lparr>az_tcp := Listener_on_complete (az_tcp st)\<rparr>
                 else st\<lparr>az_udp := Listener_on_complete (az_udp st)\<rparr>)
      in (both_complete st1 \<and> az_on_ready st1, st1))"

definition listener_of :: "int \<Rightarrow> avahi_impl \<Rightarrow> listener option" where
  "listener_of type st =
     (if type = SOCK_STREAM_c then Some (az_tcp st) else if type = SOCK_DGRAM_c then Some (az_udp st) else None)"

definition AvahiImpl_query_service_name :: "sock_addr \<Rightarrow> int \<Rightarrow> avahi_impl \<Rightarrow> string \<times> string" where
  "AvahiImpl_query_service_name addr type st =
     (case listener_of type st of
        None \<Rightarrow> ([], [])
      | Some l \<Rightarrow>
          (case zl_names l (sa_key addr) of
             None \<Rightarrow> ([], [])
           | Some name \<Rightarrow> (case zl_aliases l name of Some service \<Rightarrow> (service, name) | None \<Rightarrow> (name, name))))"

definition AvahiImpl_watch_services :: "nat \<Rightarrow> int \<Rightarrow> avahi_impl \<Rightarrow> avahi_impl" where
  "AvahiImpl_watch_services w type st =
     (if type = SOCK_STREAM_c then st\<lparr>az_tcp := Listener_start_watch w (az_tcp st)\<rparr>
      else if type = SOCK_DGRAM_c then st\<lparr>az_udp := Listener_start_watch w (az_udp st)\<rparr> else st)"

definition AvahiImpl_port_claimed :: "int \<Rightarrow> string \<Rightarrow> avahi_impl \<Rightarrow> bool" where
  "AvahiImpl_port_claimed port a st = Listener_port_claimed port a (az_udp st)"

definition AvahiImpl_service_info :: "string \<Rightarrow> avahi_impl \<Rightarrow> int \<times> (sock_addr list \<times> txt_records option) option" where
  "AvahiImpl_service_info name st =
     (case Listener_get_service_info name (az_udp st) of
        Some r \<Rightarrow> (SOCK_DGRAM_c, Some r)
      | None \<Rightarrow>
          (case Listener_get_service_info name (az_tcp st) of
             Some r \<Rightarrow> (SOCK_STREAM_c, Some r)
           | None \<Rightarrow> (0, None)))"

text \<open>A service of one of the two listeners is resolved; both write the same statistics.\<close>

definition AvahiImpl_on_resolve ::
    "(nat \<Rightarrow> bool) \<Rightarrow> bool \<Rightarrow> int \<Rightarrow> cavahi_service \<Rightarrow> sock_addr \<Rightarrow> txt_records \<Rightarrow> avahi_impl \<Rightarrow>
     service_call list res \<times> avahi_impl" where
  "AvahiImpl_on_resolve alive tcp now service addr txts st =
     (case Listener_on_resolve alive now service addr txts (if tcp then az_tcp st else az_udp st, az_events st) of
        (r, l, evt) \<Rightarrow>
          (r, if tcp then st\<lparr>az_tcp := l, az_events := evt\<rparr> else st\<lparr>az_udp := l, az_events := evt\<rparr>))"

section \<open>What holds in every state\<close>

text \<open>Every named address is one of a service, every record of text belongs to a service.\<close>

definition listener_ok :: "listener \<Rightarrow> bool" where
  "listener_ok st \<longleftrightarrow>
     (\<forall>k n. zl_names st k = Some n \<longrightarrow>
        (\<exists>service as a. zl_service st service = Some as \<and> a \<in> set as \<and> sa_key a = k)) \<and>
     dom (zl_txt st) \<subseteq> dom (zl_service st) \<and>
     (\<forall>service as. zl_service st service = Some as \<longrightarrow> as \<noteq> [])"

datatype browse_event =
    Resolved int cavahi_service sock_addr txt_records
  | Removed int cavahi_service
  | Completed
  | Watched nat

text \<open>An event on a listener, whatever objects are alive; an exception leaves the state it is thrown in.\<close>

fun listener_event :: "(nat \<Rightarrow> bool) \<Rightarrow> browse_event \<Rightarrow> listener \<times> stat_events \<Rightarrow> listener \<times> stat_events" where
  "listener_event alive (Resolved now service addr txts) le = snd (Listener_on_resolve alive now service addr txts le)"
| "listener_event alive (Removed now service) le = snd (snd (Listener_on_remove alive now service le))"
| "listener_event alive Completed le = (Listener_on_complete (fst le), snd le)"
| "listener_event alive (Watched w) le = (Listener_start_watch w (fst le), snd le)"

text \<open>What the listener knows, apart from ports, watches and readiness.\<close>

definition same_known :: "listener \<Rightarrow> listener \<Rightarrow> bool" where
  "same_known st st1 \<longleftrightarrow> zl_names st1 = zl_names st \<and> zl_aliases st1 = zl_aliases st \<and>
     zl_service st1 = zl_service st \<and> zl_txt st1 = zl_txt st"

lemma same_known_ok: "same_known st st1 \<Longrightarrow> listener_ok st \<Longrightarrow> listener_ok st1"
  by (simp add: same_known_def listener_ok_def)

lemma same_known_trans: "same_known st st1 \<Longrightarrow> same_known st1 st2 \<Longrightarrow> same_known st st2"
  by (simp add: same_known_def)

lemma same_known_refl [simp]: "same_known st st"
  by (simp add: same_known_def)

lemma check_ports_known:
  assumes "\<And>a p st. same_known st (change a p st)" "check_ports change name st = Inr st1"
  shows "same_known st st1"
  using assms(2) assms(1)
  by (auto simp: check_ports_def bind_res_Inr split: if_splits option.splits)

lemma ports_known: "same_known st (ports_insert a p st)" "same_known st (ports_erase a p st)"
  by (simp_all add: ports_insert_def ports_erase_def same_known_def)

lemma watch_calls_known: "watch_calls alive call st = (calls, st1) \<Longrightarrow> same_known st st1"
  by (auto simp: watch_calls_def same_known_def)

lemma sa_key_copy: "sa_ok a \<Longrightarrow> sa_key (sa_copy a) = sa_key a"
  by (auto simp: sa_copy_def sa_key_def sa_ok_def sa_init_raw_def impl_of_def splice_def Let_def split: option.split)

lemma listener_okD:
  "listener_ok st \<Longrightarrow> zl_names st k = Some n \<Longrightarrow>
    \<exists>service as a. zl_service st service = Some as \<and> a \<in> set as \<and> sa_key a = k"
  unfolding listener_ok_def by blast

text \<open>Adding a service.\<close>

lemma svc_store_fields:
  "zl_service (svc_store service addr txts st) =
     (zl_service st)(service \<mapsto> case zl_service st service of None \<Rightarrow> [sa_copy addr] | Some as \<Rightarrow> sl_add addr as)"
  "zl_names (svc_store service addr txts st) =
     (zl_names st)(sa_key addr \<mapsto> if endpoint_of txts = [] then service else endpoint_of txts)"
  "zl_aliases (svc_store service addr txts st) =
     (if endpoint_of txts = [] then zl_aliases st else (zl_aliases st)(endpoint_of txts \<mapsto> service))"
  "zl_txt (svc_store service addr txts st) = (if txts = [] then zl_txt st else (zl_txt st)(service \<mapsto> txts))"
  by (simp_all add: svc_store_def Let_def)

lemma svc_store_ok:
  assumes "listener_ok st" "sa_ok addr"
  shows "listener_ok (svc_store service addr txts st)"
proof -
  let ?as = "case zl_service st service of None \<Rightarrow> [sa_copy addr] | Some as \<Rightarrow> sl_add addr as"
  have new: "sa_copy addr \<in> set ?as" "\<And>as a. zl_service st service = Some as \<Longrightarrow> a \<in> set as \<Longrightarrow> a \<in> set ?as"
    by (auto simp: sl_add_def split: option.split)
  have "\<exists>s as a. zl_service (svc_store service addr txts st) s = Some as \<and> a \<in> set as \<and> sa_key a = k"
    if n: "zl_names (svc_store service addr txts st) k = Some n" for k n
  proof (cases "k = sa_key addr")
    case True
    then show ?thesis using new(1) by (intro exI [of _ service] exI [of _ ?as] exI [of _ "sa_copy addr"])
      (simp add: svc_store_fields sa_key_copy [OF assms(2)])
  next
    case False
    with n have "zl_names st k = Some n" by (simp add: svc_store_fields)
    from listener_okD [OF assms(1) this] obtain s as a where "zl_service st s = Some as" "a \<in> set as" "sa_key a = k"
      by blast
    then show ?thesis using new(2) [of as a]
      by (cases "s = service") (auto simp: svc_store_fields)
  qed
  moreover have "dom (zl_txt (svc_store service addr txts st)) \<subseteq> dom (zl_service (svc_store service addr txts st))"
    using assms(1) by (auto simp: svc_store_fields listener_ok_def)
  moreover have "as \<noteq> []" if "zl_service (svc_store service addr txts st) s = Some as" for s as
    using assms(1) that by (auto simp: svc_store_fields listener_ok_def sl_add_def split: if_splits option.splits)
  ultimately show ?thesis unfolding listener_ok_def by blast
qed

text \<open>Removing one.\<close>

lemma names_drop_none: "names_drop as name names = (n, names1) \<Longrightarrow> names1 k = (if \<exists>a \<in> set as. sa_key a = k then None else names k)"
  by (induction as arbitrary: name names) (auto split: if_splits)

lemma svc_erase_fields:
  "zl_service (svc_erase service st) = (zl_service st)(service := None)"
  "zl_txt (svc_erase service st) = (zl_txt st)(service := None)"
  "zl_names (svc_erase service st) k =
     (if \<exists>as a. zl_service st service = Some as \<and> a \<in> set as \<and> sa_key a = k then None else zl_names st k)"
  by (auto simp: svc_erase_def Let_def fun_upd_idem names_drop_none split: option.split prod.split)

lemma svc_erase_ok:
  assumes "listener_ok st"
  shows "listener_ok (svc_erase service st)"
proof -
  have "\<exists>s as a. zl_service (svc_erase service st) s = Some as \<and> a \<in> set as \<and> sa_key a = k"
    if n: "zl_names (svc_erase service st) k = Some n" for k n
  proof -
    have k: "\<not> (\<exists>as a. zl_service st service = Some as \<and> a \<in> set as \<and> sa_key a = k)" "zl_names st k = Some n"
      using n by (auto simp: svc_erase_fields split: if_splits)
    from listener_okD [OF assms k(2)] obtain s as a where "zl_service st s = Some as" "a \<in> set as" "sa_key a = k"
      by blast
    with k(1) show ?thesis by (cases "s = service") (auto simp: svc_erase_fields)
  qed
  moreover have "dom (zl_txt (svc_erase service st)) \<subseteq> dom (zl_service (svc_erase service st))"
    using assms(1) by (auto simp: svc_erase_fields listener_ok_def)
  moreover have "as \<noteq> []" if "zl_service (svc_erase service st) s = Some as" for s as
    using assms(1) that by (auto simp: svc_erase_fields listener_ok_def split: if_splits)
  ultimately show ?thesis unfolding listener_ok_def by blast
qed

fun event_ok :: "browse_event \<Rightarrow> bool" where
  "event_ok (Resolved now service addr txts) = sa_ok addr" | "event_ok _ = True"

lemma listener_event_ok:
  assumes "listener_ok (fst le)" "event_ok e"
  shows "listener_ok (fst (listener_event alive e le))"
proof -
  obtain st evt where le: "le = (st, evt)" by (cases le)
  show ?thesis
  proof (cases e)
    case (Resolved now service addr txts)
    have ok: "listener_ok (svc_store (cs_name service) addr txts st)" using assms le Resolved by (simp add: svc_store_ok)
    have "listener_ok st3" if "check_ports ports_insert (cs_name service) (svc_store (cs_name service) addr txts st) = Inr st2"
      "watch_calls alive call st2 = (calls, st3)" for st2 st3 call calls
      using same_known_ok [OF same_known_trans [OF check_ports_known [OF ports_known(1) that(1)] watch_calls_known [OF that(2)]] ok] .
    then show ?thesis using ok
      by (auto simp: Resolved le Listener_on_resolve_def Let_def split: sum.split prod.split)
  next
    case (Removed now service)
    have "listener_ok st1" if "watch_calls alive call st = (calls, st1)" for st1 call calls
      using same_known_ok [OF watch_calls_known [OF that]] assms le by simp
    moreover from this have "listener_ok (svc_erase n st2)" if "watch_calls alive call st = (calls, st1)"
      "check_ports ports_erase (cs_name service) st1 = Inr st2" for st1 st2 call calls n
      using same_known_ok [OF check_ports_known [OF ports_known(2) that(2)]] that(1) by (auto intro: svc_erase_ok)
    ultimately show ?thesis
      by (auto simp: Removed le Listener_on_remove_def Let_def split: sum.split prod.split)
  qed (use assms le in \<open>auto intro: same_known_ok simp: Listener_on_complete_def Listener_start_watch_def same_known_def listener_ok_def\<close>)
qed

lemma listener_ok_new: "listener_ok (ServiceListener_new b)"
  by (simp add: ServiceListener_new_def listener_ok_def)

lemma listener_events_ok:
  "listener_ok (fst le) \<Longrightarrow> \<forall>e \<in> set es. event_ok e \<Longrightarrow> listener_ok (fst (fold (listener_event alive) es le))"
proof (induction es arbitrary: le)
  case (Cons e es)
  then have "listener_ok (fst (listener_event alive e le))" by (intro listener_event_ok) auto
  from Cons.IH [OF this] Cons.prems(2) show ?case by simp
qed simp

section \<open>Properties\<close>

text \<open>What a resolved service under an endpoint name leaves in its listener.\<close>

lemma resolved_known:
  assumes "Listener_on_resolve alive now service addr txts (l0, evt0) = (Inr calls, l, evt)"
    and "endpoint_of txts = name" "name \<noteq> []"
  shows "zl_names l (sa_key addr) = Some name" "zl_aliases l name = Some (cs_name service)"
    "\<exists>as. Listener_get_service_info name l = Some (sa_copy addr # as, Some txts)"
proof -
  let ?l = "svc_store (cs_name service) addr txts l0"
  obtain st2 call where "check_ports ports_insert (cs_name service) ?l = Inr st2"
    "watch_calls alive call st2 = (calls, l)"
    using assms(1) by (auto simp: Listener_on_resolve_def Let_def split: sum.splits prod.splits)
  then have "same_known ?l l"
    using same_known_trans [OF check_ports_known [of ports_insert] watch_calls_known] ports_known(1) by blast
  then have k: "zl_names l (sa_key addr) = Some name" "zl_aliases l name = Some (cs_name service)"
    "zl_txt l (cs_name service) = Some txts" "\<exists>as. zl_service l (cs_name service) = Some (sa_copy addr # as)"
    using assms(2,3)
    by (auto simp: same_known_def svc_store_fields sl_add_def endpoint_of_def split: option.split)
  then show "zl_names l (sa_key addr) = Some name" "zl_aliases l name = Some (cs_name service)"
    "\<exists>as. Listener_get_service_info name l = Some (sa_copy addr # as, Some txts)"
    by (auto simp: Listener_get_service_info_def)
qed

text \<open>C37: A service that was found with the name of an endpoint in its text is found again, TCP and UDP
  services alike: its address, asked for with its type of socket, gives the name of the service and
  of the endpoint, and the name of the endpoint gives its type of socket, its addresses with the one
  just resolved first, and its text. Only a TCP service is hidden while there is a UDP service under
  the same name, which is then what is given.\<close>

theorem services_found:
  assumes "AvahiImpl_on_resolve alive tcp now service addr txts st = (Inr calls, st1)"
    and "endpoint_of txts = name" "name \<noteq> []"
  shows "AvahiImpl_query_service_name addr (if tcp then SOCK_STREAM_c else SOCK_DGRAM_c) st1 = (cs_name service, name) \<and>
    (case (tcp, Listener_get_service_info name (az_udp st)) of
       (True, Some other) \<Rightarrow> AvahiImpl_service_info name st1 = (SOCK_DGRAM_c, Some other)
     | _ \<Rightarrow> (\<exists>as. AvahiImpl_service_info name st1 =
               (if tcp then SOCK_STREAM_c else SOCK_DGRAM_c, Some (sa_copy addr # as, Some txts))))"
proof -
  let ?l0 = "if tcp then az_tcp st else az_udp st"
  obtain l evt where r: "Listener_on_resolve alive now service addr txts (?l0, az_events st) = (Inr calls, l, evt)"
    and st1: "st1 = (if tcp then st\<lparr>az_tcp := l, az_events := evt\<rparr> else st\<lparr>az_udp := l, az_events := evt\<rparr>)"
    using assms(1) unfolding AvahiImpl_on_resolve_def by (cases tcp) (auto split: prod.splits)
  note k = resolved_known [OF r assms(2,3)]
  show ?thesis
    using k by (cases tcp)
      (auto simp: st1 AvahiImpl_query_service_name_def AvahiImpl_service_info_def listener_of_def
        SOCK_STREAM_c_def SOCK_DGRAM_c_def split: option.split)
qed

lemma svc_store_other:
  "zl_check_ports (svc_store service addr txts st) = zl_check_ports st"
  "zl_watches (svc_store service addr txts st) = zl_watches st"
  by (simp_all add: svc_store_def Let_def)

lemma unchecked_resolve:
  assumes "\<not> zl_check_ports st" "zl_watches st = []"
  shows "Listener_on_resolve alive now service addr txts (st, evt) =
    (Inr [], svc_store (cs_name service) addr txts st, svc_added now service (endpoint_of txts) evt)"
proof -
  have "svc_store (cs_name service) addr txts st\<lparr>zl_watches := []\<rparr> = svc_store (cs_name service) addr txts st"
    using assms(2) svc_store_other(2) [of "cs_name service" addr txts st] by simp
  then show ?thesis using assms
    by (simp add: Listener_on_resolve_def Let_def check_ports_def svc_store_other watch_calls_def)
qed

lemma unchecked_remove:
  assumes "\<not> zl_check_ports st"
  shows "\<exists>calls l e. Listener_on_remove alive now service (st, evt) = (calls, Inr (), l, e)"
  using assms by (simp add: Listener_on_remove_def Let_def check_ports_def watch_calls_def)

definition demo_service :: cavahi_service where
  "demo_service = \<lparr>cs_interface = 2, cs_protocol = 0, cs_name = ''gps'', cs_type = ''_pktstreamnames._tcp'', cs_domain = []\<rparr>"

definition demo_addr :: sock_addr where
  "demo_addr = sa_init4 [10, 0, 0, 1] 80 None"

lemma demo_addr_ok: "sa_ok demo_addr"
  using sa_init4_facts(1) [of None "[10, 0, 0, 1]" 80] by (simp add: demo_addr_def sa_ok_def sa_init4_def Let_def)

definition demo_claim :: cavahi_service where
  "demo_claim = \<lparr>cs_interface = 2, cs_protocol = 0, cs_name = ''7000-10.0.0.1-claim'',
     cs_type = ''_pktstreamnames._udp'', cs_domain = []\<rparr>"

lemma claim_of_demo: "claim_of ''7000-10.0.0.1-claim'' = Some (''7000'', ''10.0.0.1'')"
  by (simp add: claim_of_def is_digit_def Let_def)

lemma stoi_demo: "stoi ''7000'' = Inr (7000, 4)"
  by (simp add: stoi_def is_digit_def is_blank_def read_digits_def int32_def Let_def)

theorem services_found_witness:
  "AvahiImpl_query_service_name demo_addr SOCK_DGRAM_c
     (snd (AvahiImpl_on_resolve (\<lambda>_. True) False 0 demo_claim demo_addr [(''endpoint'', ''uart'')] AvahiImpl_new)) =
       (''7000-10.0.0.1-claim'', ''uart'') \<and>
   AvahiImpl_query_service_name demo_addr SOCK_STREAM_c
     (snd (AvahiImpl_on_resolve (\<lambda>_. True) True 0 demo_service demo_addr [(''endpoint'', ''uart'')] AvahiImpl_new)) =
       (''gps'', ''uart'')"
proof -
  let ?r = "\<lambda>tcp service. AvahiImpl_on_resolve (\<lambda>_. True) tcp 0 service demo_addr [(''endpoint'', ''uart'')] AvahiImpl_new"
  have e: "endpoint_of [(''endpoint'', ''uart'')] = ''uart''" by (simp add: endpoint_of_def)
  obtain st1 where u: "?r False demo_claim = (Inr [], st1)"
    by (simp add: AvahiImpl_on_resolve_def AvahiImpl_new_def ServiceListener_new_def demo_claim_def
      Listener_on_resolve_def Let_def check_ports_def svc_store_other claim_of_demo stoi_demo bind_res_def
      watch_calls_def ports_insert_def)
  obtain st2 where s: "?r True demo_service = (Inr [], st2)"
    by (simp add: AvahiImpl_on_resolve_def AvahiImpl_new_def unchecked_resolve ServiceListener_new_def)
  from services_found [OF u e] services_found [OF s e] u s show ?thesis
    by (simp add: demo_claim_def demo_service_def)
qed

text \<open>What removing a service takes: the port it claims, and the name its last address has unless an
  earlier address in the list is the same.\<close>

definition port_of :: "bool \<Rightarrow> string \<Rightarrow> (int \<times> string) option" where
  "port_of checked service =
     (case (checked, claim_of service) of
        (True, Some (d, a)) \<Rightarrow>
          (case stoi d of Inr (port, _) \<Rightarrow> if port \<le> USHRT_MAX then Some (port, a) else None | Inl _ \<Rightarrow> None)
      | _ \<Rightarrow> None)"

definition last_name :: "sock_addr list \<Rightarrow> (addr_key \<rightharpoonup> string) \<Rightarrow> string" where
  "last_name as names =
     (if as = [] \<or> sa_key (last as) \<in> sa_key ` set (butlast as) then []
      else case names (sa_key (last as)) of None \<Rightarrow> [] | Some n \<Rightarrow> n)"

lemma names_drop_name: "fst (names_drop as name names) = (if as = [] then name else last_name as names)"
proof (induction as arbitrary: name names)
  case (Cons a as)
  then show ?case by (cases "as = []") (auto simp: last_name_def image_iff)
qed simp

lemma svc_erase_aliases:
  "zl_aliases (svc_erase service st) =
     (case zl_service st service of
        None \<Rightarrow> zl_aliases st
      | Some as \<Rightarrow> (let n = last_name as (zl_names st) in if n = [] then zl_aliases st else (zl_aliases st)(n := None)))"
proof (cases "zl_service st service")
  case (Some as)
  obtain n names where d: "names_drop as [] (zl_names st) = (n, names)" by fastforce
  with names_drop_name [of as "[]" "zl_names st"] have "n = last_name as (zl_names st)"
    by (auto simp: last_name_def split: if_splits)
  with Some d show ?thesis by (simp add: svc_erase_def Let_def)
qed (simp add: svc_erase_def Let_def)

lemma svc_erase_ports: "zl_ports (svc_erase service st) = zl_ports st"
  by (simp add: svc_erase_def Let_def split: option.split prod.split)

lemma claimed_erase:
  "Listener_port_claimed p a (ports_erase b q st) \<longleftrightarrow> Listener_port_claimed p a st \<and> \<not> (a = b \<and> p = q)"
  by (auto simp: Listener_port_claimed_def ports_erase_def split: option.split)

lemma check_ports_erase:
  assumes "check_ports ports_erase service st = Inr st1"
  shows "Listener_port_claimed p a st1 \<longleftrightarrow>
    Listener_port_claimed p a st \<and> port_of (zl_check_ports st) service \<noteq> Some (p, a)"
proof (cases "port_of (zl_check_ports st) service")
  case None
  with assms have "st1 = st"
    by (auto simp: check_ports_def port_of_def bind_res_Inr split: if_splits option.splits)
  with None show ?thesis by simp
next
  case (Some c)
  with assms have "st1 = ports_erase (snd c) (fst c) st"
    by (auto simp: check_ports_def port_of_def bind_res_Inr split: if_splits option.splits sum.splits bool.splits)
  with Some show ?thesis by (auto simp: claimed_erase)
qed

lemma claimed_ports: "zl_ports st = zl_ports st1 \<Longrightarrow> Listener_port_claimed p a st = Listener_port_claimed p a st1"
  by (simp add: Listener_port_claimed_def)

text \<open>C38: Whatever came before, removing a service without an exception takes exactly this: its addresses
  and its text; the names of its addresses; the endpoint name of the last address in its list, that
  is the first one resolved; and, where ports are checked, the port it claims. All else stays as it
  was. So the service is found neither by its own name nor by any endpoint name that led to it, and
  the names that remain are of addresses of services that are still there. What does stay behind is
  an endpoint name of its other addresses, or its only one when the first address resolved was
  resolved again.\<close>

theorem services_forgotten:
  assumes "\<forall>e \<in> set es. event_ok e"
    and "fold (listener_event alive) es (ServiceListener_new check, evt0) = (l, evt1)"
    and "Listener_on_remove alive now service (l, evt1) = (calls, Inr (), st, evt)"
    and "as = (case zl_service l (cs_name service) of None \<Rightarrow> [] | Some as \<Rightarrow> as)"
  shows "zl_service st = (zl_service l)(cs_name service := None) \<and>
    zl_txt st = (zl_txt l)(cs_name service := None) \<and>
    zl_names st = (\<lambda>k. if k \<in> sa_key ` set as then None else zl_names l k) \<and>
    zl_aliases st = (\<lambda>n. if n = last_name as (zl_names l) \<and> n \<noteq> [] then None else zl_aliases l n) \<and>
    (\<forall>p a. Listener_port_claimed p a st \<longleftrightarrow>
       Listener_port_claimed p a l \<and> port_of (zl_check_ports l) (cs_name service) \<noteq> Some (p, a)) \<and>
    (\<forall>name. zl_aliases st name = Some (cs_name service) \<or> zl_aliases st name = None \<and> name = cs_name service \<longrightarrow>
       Listener_get_service_info name st = None) \<and>
    (\<forall>k n. zl_names st k = Some n \<longrightarrow>
       (\<exists>other as a. other \<noteq> cs_name service \<and> zl_service st other = Some as \<and> a \<in> set as \<and> sa_key a = k))"
proof -
  let ?s = "cs_name service"
  have "listener_ok l"
    using listener_events_ok [of "(ServiceListener_new check, evt0)" es alive] listener_ok_new assms(1,2) by auto
  then have "listener_ok (fst (listener_event alive (Removed now service) (l, evt1)))"
    by (intro listener_event_ok) simp_all
  then have ok: "listener_ok st" using assms(3) by simp
  obtain st1 st2 call where w: "watch_calls alive call l = (calls, st1)"
    and c: "check_ports ports_erase ?s st1 = Inr st2" and st: "st = svc_erase ?s st2"
    using assms(3) by (auto simp: Listener_on_remove_def Let_def split: sum.splits prod.splits)
  have k: "same_known l st2"
    using same_known_trans [OF watch_calls_known [OF w] check_ports_known [OF ports_known(2) c]] .
  have l1: "zl_ports st1 = zl_ports l" "zl_check_ports st1 = zl_check_ports l" using w by (auto simp: watch_calls_def)
  have f: "zl_service st = (zl_service l)(?s := None)" "zl_txt st = (zl_txt l)(?s := None)"
    using k by (simp_all add: st svc_erase_fields same_known_def)
  have n: "zl_names st = (\<lambda>k. if k \<in> sa_key ` set as then None else zl_names l k)"
    using k by (cases "zl_service l ?s") (auto simp: st svc_erase_fields same_known_def fun_eq_iff assms(4) image_iff)
  have al: "zl_aliases st = (\<lambda>n. if n = last_name as (zl_names l) \<and> n \<noteq> [] then None else zl_aliases l n)"
    using k by (cases "zl_service l ?s")
      (auto intro!: ext simp: st svc_erase_aliases same_known_def assms(4) Let_def last_name_def [of "[]"])
  have po: "Listener_port_claimed p a st \<longleftrightarrow>
      Listener_port_claimed p a l \<and> port_of (zl_check_ports l) ?s \<noteq> Some (p, a)" for p a
    using check_ports_erase [OF c, of p a] claimed_ports [of st1 l] claimed_ports [of st st2] l1
    by (simp add: st svc_erase_ports)
  have "\<exists>other as a. other \<noteq> ?s \<and> zl_service st other = Some as \<and> a \<in> set as \<and> sa_key a = k"
    if "zl_names st k = Some n" for k n
    using listener_okD [OF ok that] f(1) by (metis fun_upd_same option.distinct(1))
  then show ?thesis using f n al po by (auto simp: Listener_get_service_info_def)
qed

theorem services_forgotten_witness:
  "\<exists>calls st evt l evt1. fold (listener_event (\<lambda>_. True)) [Resolved 5 demo_claim demo_addr [(''endpoint'', ''uart'')]]
       (ServiceListener_new True, StatEvents_new ''name'' []) = (l, evt1) \<and>
     Listener_on_remove (\<lambda>_. True) 9 demo_claim (l, evt1) = (calls, Inr (), st, evt) \<and>
     zl_aliases l ''uart'' = Some (cs_name demo_claim) \<and> zl_aliases st ''uart'' = None \<and>
     Listener_port_claimed 7000 ''10.0.0.1'' l \<and> \<not> Listener_port_claimed 7000 ''10.0.0.1'' st"
proof -
  let ?es = "[Resolved 5 demo_claim demo_addr [(''endpoint'', ''uart'')]]"
  have e: "endpoint_of [(''endpoint'', ''uart'')] = ''uart''" by (simp add: endpoint_of_def)
  note simps = demo_claim_def Let_def check_ports_def svc_store_other claim_of_demo stoi_demo watch_calls_def
    ServiceListener_new_def ports_insert_def svc_store_fields e USHRT_MAX_def
  obtain l evt1 where f: "fold (listener_event (\<lambda>_. True)) ?es (ServiceListener_new True, StatEvents_new ''name'' []) = (l, evt1)"
    and l: "zl_check_ports l" "zl_watches l = []" "zl_aliases l ''uart'' = Some (cs_name demo_claim)"
      "zl_names l (sa_key demo_addr) = Some ''uart''" "zl_service l (cs_name demo_claim) = Some [sa_copy demo_addr]"
      "Listener_port_claimed 7000 ''10.0.0.1'' l"
    by (simp add: Listener_on_resolve_def Listener_port_claimed_def simps)
  obtain calls st evt where r: "Listener_on_remove (\<lambda>_. True) 9 demo_claim (l, evt1) = (calls, Inr (), st, evt)"
    using l(1) by (simp add: Listener_on_remove_def Let_def check_ports_def watch_calls_def demo_claim_def claim_of_demo stoi_demo)
  have "\<forall>e \<in> set ?es. event_ok e" by (simp add: demo_addr_ok)
  from services_forgotten [OF this f r refl] l have
    "zl_aliases st ''uart'' = None" "\<not> Listener_port_claimed 7000 ''10.0.0.1'' st"
    by (simp_all add: last_name_def sa_key_copy demo_addr_ok port_of_def demo_claim_def claim_of_demo stoi_demo USHRT_MAX_def)
  with f r l show ?thesis by blast
qed

text \<open>The handler of readiness runs when both listeners have seen everything, and again at every later
  completion.\<close>

lemma ready_when_both:
  "fst (AvahiImpl_complete tcp st) \<longleftrightarrow> az_on_ready st \<and> zl_complete (if tcp then az_udp st else az_tcp st)"
  by (auto simp: AvahiImpl_complete_def both_complete_def Listener_on_complete_def Let_def)

end
