(* ===== verification/Udev.thy ===== *)
theory Udev
  imports Statistics Errors
begin

text \<open>
  The directory of serial devices (\<open>src/impl/udev.h\<close>, \<open>UDevIO\<close>). The devices of the system, in the
  order the library lists them, are an argument, each with its name, node and links; the calls the
  object makes on those who watch, and on the library when it is cleaned up, are results.
\<close>

section \<open>State\<close>

record udev_device =
  dv_sysname :: string
  dv_node :: string
  dv_links :: "string list"

record udev_io =
  ud_udev :: bool                        \<comment> \<open>\<open>_udev\<close> is not null\<close>
  ud_mon :: bool                         \<comment> \<open>\<open>_mon\<close> is not null\<close>
  ud_fd :: int
  ud_watches :: "nat list"
  ud_ec :: error_c
  ud_evt :: "stat_events option"

text \<open>What the library answers while the object is made; \<open>up_errno\<close> is \<open>errno\<close>, \<open>up_poll\<close> the
  result of adding the descriptor to the loop.\<close>

record udev_reply =
  up_udev :: bool
  up_mon :: bool
  up_filter :: int
  up_enable :: int
  up_fd :: int
  up_errno :: int
  up_poll :: error_c

definition udev_unset :: udev_io where
  "udev_unset = \<lparr>ud_udev = False, ud_mon = False, ud_fd = -1, ud_watches = [], ud_ec = no_error, ud_evt = None\<rparr>"

definition UDevIO_new :: "udev_reply \<Rightarrow> udev_io" where
  "UDevIO_new r =
     (let fail = (\<lambda>st ctx. st\<lparr>ud_ec := errno_c (up_errno r) ctx\<rparr>);
          st1 = udev_unset\<lparr>ud_udev := True\<rparr>;
          st2 = st1\<lparr>ud_mon := True\<rparr>;
          st3 = st2\<lparr>ud_fd := up_fd r\<rparr>
      in if \<not> up_udev r then fail udev_unset ''udev_new''
         else if \<not> up_mon r then fail st1 ''udev_monitor_new_from_netlink''
         else if up_filter r < 0 then fail st2 ''udev_monitor_filter_add_match_subsystem_devtype''
         else if up_enable r < 0 then fail st2 ''udev_monitor_enable_receiving''
         else if up_fd r < 0 then fail st3 ''udev_monitor_get_fd''
         else st3\<lparr>ud_ec := up_poll r, ud_evt := Some (StatEvents_new ''udev'' [(0, ''usb_evt'')])\<rparr>)"

datatype udev_release = UnrefUdev | UnrefMonitor | CloseFd int

definition UDevIO_cleanup :: "udev_io \<Rightarrow> udev_release list" where
  "UDevIO_cleanup st =
     (if ud_udev st then [UnrefUdev] else []) @ (if ud_mon st then [UnrefMonitor] else []) @
     (if 0 \<le> ud_fd st then [CloseFd (ud_fd st)] else [])"

section \<open>Devices that come and go\<close>

definition by_id :: "string \<Rightarrow> bool" where
  "by_id link \<longleftrightarrow> take 18 link = ''/dev/serial/by-id/''"

text \<open>The last of the links that is one by identity, or nothing.\<close>

definition id_link :: "string list \<Rightarrow> string" where
  "id_link links = fold (\<lambda>l link. if by_id l then l else link) links []"

datatype udev_call = UdevAdd nat string string | UdevRemove nat string string

definition udev_notify :: "string \<Rightarrow> string \<Rightarrow> string \<Rightarrow> nat \<Rightarrow> udev_call" where
  "udev_notify action node link w = (if action = ''add'' then UdevAdd w node link else UdevRemove w node link)"

definition UDevIO_on_action ::
    "(nat \<Rightarrow> bool) \<Rightarrow> int \<Rightarrow> string \<Rightarrow> udev_device \<Rightarrow> udev_io \<Rightarrow> udev_call list \<times> udev_io" where
  "UDevIO_on_action alive now action dev st =
     (let node = dv_node dev; link = id_link (dv_links dev) in
      if link = [] then ([], st)
      else (let tag = (\<lambda>k v. StatEvents_tag_front k v);
                ws = filter alive (ud_watches st)
            in (map (udev_notify action node link) ws,
                st\<lparr>ud_evt := map_option (\<lambda>e. tag ''link'' link (tag ''node'' node (tag ''action'' action (StatEvents_add now 0 e))))
                     (ud_evt st),
                   ud_watches := ws\<rparr>)))"

text \<open>\<open>received\<close> is the device the monitor gives; the error is what is reported.\<close>

definition UDevIO_epollIN ::
    "(nat \<Rightarrow> bool) \<Rightarrow> int \<Rightarrow> (string \<times> udev_device) option \<Rightarrow> int \<Rightarrow> udev_io \<Rightarrow> error_c option \<times> udev_call list \<times> udev_io" where
  "UDevIO_epollIN alive now received errno st =
     (case received of
        None \<Rightarrow> (Some (errno_c errno ''udev_monitor_receive_device''), [], st)
      | Some (action, dev) \<Rightarrow> (None, UDevIO_on_action alive now action dev st))"

definition UDevIO_start_watch :: "nat \<Rightarrow> udev_io \<Rightarrow> udev_io" where
  "UDevIO_start_watch w st = st\<lparr>ud_watches := w # ud_watches st\<rparr>"

section \<open>Looking devices up\<close>

text \<open>\<open>find_link\<close>: the identity of the first device that has this link. The flag is not reset
  between devices, but the search stops where it is set.\<close>

fun UDevIO_find_link :: "udev_device list \<Rightarrow> string \<Rightarrow> string" where
  "UDevIO_find_link [] path = []"
| "UDevIO_find_link (d # ds) path =
     (if path \<in> set (dv_links d) then id_link (dv_links d) else UDevIO_find_link ds path)"

definition UDevIO_return_id :: "udev_device \<Rightarrow> string" where
  "UDevIO_return_id d = id_link (dv_links d)"

text \<open>What is behind the last slash.\<close>

definition sysname_of :: "string \<Rightarrow> string" where
  "sysname_of path = rev (takeWhile (\<lambda>c. c \<noteq> CHR ''/'') (rev path))"

definition UDevIO_find_id :: "udev_device list \<Rightarrow> string \<Rightarrow> string" where
  "UDevIO_find_id devs path =
     (case List.find (\<lambda>d. dv_sysname d = sysname_of path) devs of
        None \<Rightarrow> UDevIO_find_link devs path
      | Some d \<Rightarrow> UDevIO_return_id d)"

fun UDevIO_find_path :: "udev_device list \<Rightarrow> string \<Rightarrow> string" where
  "UDevIO_find_path [] i = []"
| "UDevIO_find_path (d # ds) i = (if i \<in> set (dv_links d) then dv_node d else UDevIO_find_path ds i)"

section \<open>Facts\<close>

lemma id_link_cases: "id_link links = [] \<or> (id_link links \<in> set links \<and> by_id (id_link links))"
  unfolding id_link_def by (induction links rule: rev_induct) auto

lemma id_link_found:
  assumes "l \<in> set links" "by_id l"
  shows "id_link links \<in> set links" "by_id (id_link links)"
proof -
  have "id_link links \<in> set links \<and> by_id (id_link links)"
    using assms unfolding id_link_def by (induction links rule: rev_induct) auto
  then show "id_link links \<in> set links" "by_id (id_link links)" by blast+
qed

lemma sysname_of_node: "CHR ''/'' \<notin> set n \<Longrightarrow> sysname_of (dir @ ''/'' @ n) = n"
  by (simp add: sysname_of_def takeWhile_append takeWhile_eq_all_conv)

lemma find_sysname:
  assumes "distinct (map dv_sysname devs)" "d \<in> set devs"
  shows "List.find (\<lambda>e. dv_sysname e = dv_sysname d) devs = Some d"
  using assms by (induction devs) (auto simp: rev_image_eqI)

lemma find_path_first:
  assumes "i \<in> set (dv_links d)"
  shows "UDevIO_find_path (before @ d # after) i =
    (case List.find (\<lambda>e. i \<in> set (dv_links e)) before of None \<Rightarrow> dv_node d | Some e \<Rightarrow> dv_node e)"
  using assms by (induction before) auto

section \<open>Properties\<close>

text \<open>C39: The identity of a device leads back to it. System names are unique, and the node of the device is
  its system name in some directory. Then a device that has a link by identity is given such an
  identity for its node, one of its own links; and the path of that identity is the node, so the same
  port is opened again under whatever name it comes back. Where devices share the link, as equal
  adapters without serial numbers do, the path is the node of the one listed first.\<close>

theorem udev_identity_roundtrip:
  assumes "devs = before @ d # after" "distinct (map dv_sysname devs)"
    and "dv_node d = dir @ ''/'' @ dv_sysname d" "CHR ''/'' \<notin> set (dv_sysname d)"
    and "l \<in> set (dv_links d)" "by_id l"
  shows "by_id (UDevIO_find_id devs (dv_node d)) \<and> UDevIO_find_id devs (dv_node d) \<in> set (dv_links d) \<and>
    UDevIO_find_path devs (UDevIO_find_id devs (dv_node d)) =
      (case List.find (\<lambda>e. UDevIO_find_id devs (dv_node d) \<in> set (dv_links e)) before of
         None \<Rightarrow> dv_node d | Some first \<Rightarrow> dv_node first)"
proof -
  have "UDevIO_find_id devs (dv_node d) = id_link (dv_links d)"
    using find_sysname [OF assms(2), of d] sysname_of_node [OF assms(4), of dir] assms(1,3)
    by (simp add: UDevIO_find_id_def UDevIO_return_id_def)
  with id_link_found [OF assms(5,6)] find_path_first [of "id_link (dv_links d)" d before after] assms(1)
  show ?thesis by simp
qed

definition demo_devices :: "udev_device list" where
  "demo_devices =
     [\<lparr>dv_sysname = ''ttyS0'', dv_node = ''/dev/ttyS0'', dv_links = []\<rparr>,
      \<lparr>dv_sysname = ''ttyUSB1'', dv_node = ''/dev/ttyUSB1'', dv_links = [''/dev/serial/by-id/usb-gps'']\<rparr>,
      \<lparr>dv_sysname = ''ttyUSB2'', dv_node = ''/dev/ttyUSB2'', dv_links = [''/dev/serial/by-id/usb-gps'']\<rparr>]"

theorem udev_identity_roundtrip_witness:
  "UDevIO_find_path demo_devices (UDevIO_find_id demo_devices ''/dev/ttyUSB1'') = ''/dev/ttyUSB1'' \<and>
   UDevIO_find_path demo_devices (UDevIO_find_id demo_devices ''/dev/ttyUSB2'') = ''/dev/ttyUSB1''"
proof -
  let ?l = "''/dev/serial/by-id/usb-gps''"
  have "UDevIO_find_path demo_devices (UDevIO_find_id demo_devices ''/dev/ttyUSB1'') = ''/dev/ttyUSB1''"
    using udev_identity_roundtrip [of demo_devices "take 1 demo_devices" "demo_devices ! 1" "drop 2 demo_devices" "''/dev''" ?l]
    by (simp add: demo_devices_def by_id_def)
  moreover have "UDevIO_find_id demo_devices ''/dev/ttyUSB2'' = ?l"
    by (simp add: demo_devices_def UDevIO_find_id_def UDevIO_return_id_def sysname_of_def id_link_def by_id_def)
  ultimately show ?thesis
    using udev_identity_roundtrip [of demo_devices "take 2 demo_devices" "demo_devices ! 2" "[]" "''/dev''" ?l]
    by (simp add: demo_devices_def by_id_def)
qed

text \<open>Whatever happens to a device but that it is added -- a change, a new driver -- is told as its
  removal.\<close>

lemma udev_other_actions_remove:
  assumes "id_link (dv_links dev) \<noteq> []" "action \<noteq> ''add''"
  shows "fst (UDevIO_on_action alive now action dev st) =
    map (\<lambda>w. UdevRemove w (dv_node dev) (id_link (dv_links dev))) (filter alive (ud_watches st))"
  using assms by (simp add: UDevIO_on_action_def udev_notify_def Let_def)

end
