(* ===== verification/Avahi_Client.thy ===== *)
theory Avahi_Client
  imports Zeroconf Errors
begin

text \<open>
  The objects around the Avahi library (\<open>src/avahi-cpp.h\<close>, \<open>src/avahi-cpp.cpp\<close>). A call of the library is part of the result; what it
  answers is an argument. Events of the library come in as data. Where the code hands the library a
  null pointer or makes a string of one, the result is \<open>None\<close>.
\<close>

section \<open>Descriptions of services\<close>

text \<open>The defaults of \<open>CAvahiService\<close>: any interface and any protocol, both -1. \<open>af_to_proto\<close> is the library's.\<close>

definition CAvahiService_new :: "string \<Rightarrow> string \<Rightarrow> string \<Rightarrow> cavahi_service" where
  "CAvahiService_new n t d = \<lparr>cs_interface = - 1, cs_protocol = - 1, cs_name = n, cs_type = t, cs_domain = d\<rparr>"

definition CAvahiService_set_type :: "string \<Rightarrow> cavahi_service \<Rightarrow> cavahi_service" where
  "CAvahiService_set_type t s = s\<lparr>cs_type := t\<rparr>"

definition CAvahiService_family :: "(family \<Rightarrow> int) \<Rightarrow> family \<Rightarrow> cavahi_service \<Rightarrow> cavahi_service" where
  "CAvahiService_family af_to_proto af s = s\<lparr>cs_protocol := af_to_proto af\<rparr>"

definition CAvahiService_set_itf_name :: "netlib \<Rightarrow> string \<Rightarrow> cavahi_service \<Rightarrow> cavahi_service" where
  "CAvahiService_set_itf_name nl if_name s =
     (if if_name = [] then s
      else let i = nametoindex nl if_name in if i \<noteq> 0 then s\<lparr>cs_interface := i\<rparr> else s)"

definition CAvahiService_set_itf :: "int \<Rightarrow> cavahi_service \<Rightarrow> cavahi_service" where
  "CAvahiService_set_itf i s = s\<lparr>cs_interface := i\<rparr>"

text \<open>The name of the interface; a string is made of a null pointer when there is none with the index.\<close>

definition CAvahiService_itf :: "netlib \<Rightarrow> cavahi_service \<Rightarrow> string option" where
  "CAvahiService_itf nl s = indextoname nl (cs_interface s)"

lemma service_itf_back:
  assumes "nametoindex nl n \<noteq> 0" "indextoname nl (nametoindex nl n) = Some n" "n \<noteq> []"
  shows "CAvahiService_itf nl (CAvahiService_set_itf_name nl n s) = Some n"
  using assms by (simp add: CAvahiService_itf_def CAvahiService_set_itf_name_def Let_def)

lemma service_of_no_interface:
  assumes "indextoname nl (- 1) = None" "nametoindex nl m = 0"
  shows "CAvahiService_itf nl (CAvahiService_set_itf_name nl m (CAvahiService_new n t d)) = None"
  using assms by (simp add: CAvahiService_itf_def CAvahiService_set_itf_name_def CAvahiService_new_def Let_def)

section \<open>The client\<close>

datatype client_state = S_Registering | S_Running | S_Collision | ClientFailure | ClientConnecting

record avahi_client =
  ac_client :: bool                      \<comment> \<open>\<open>_client\<close> is not null\<close>
  ac_host :: string

definition CAvahiClient_new :: avahi_client where
  "CAvahiClient_new = \<lparr>ac_client = False, ac_host = []\<rparr>"

text \<open>\<open>made\<close> and \<open>ret\<close> are what \<open>avahi_client_new\<close> gives.\<close>

definition CAvahiClient_init :: "bool \<Rightarrow> int \<Rightarrow> avahi_client \<Rightarrow> error_c \<times> avahi_client" where
  "CAvahiClient_init made ret c =
     (if ret \<noteq> 0 then avahi_code ret ''avahi_client_new'' else avahi_code ret [], c\<lparr>ac_client := made\<rparr>)"

definition CAvahiClient_error :: "int \<Rightarrow> string \<Rightarrow> error_c" where
  "CAvahiClient_error ret ctx = (if ret \<noteq> 0 then avahi_code ret ctx else avahi_code ret [])"

text \<open>Whether the library frees a client.\<close>

definition CAvahiClient_free :: "avahi_client \<Rightarrow> bool \<times> avahi_client" where
  "CAvahiClient_free c = (ac_client c, c\<lparr>ac_client := False\<rparr>)"

datatype client_note = ClientFailed | ClientState client_state

definition CAvahiClient_callback :: "string \<Rightarrow> client_state \<Rightarrow> avahi_client \<Rightarrow> client_note \<times> avahi_client" where
  "CAvahiClient_callback fqdn state c =
     (let c1 = c\<lparr>ac_client := True\<rparr> in
      if state = ClientFailure then (ClientFailed, c1)
      else (ClientState state, if state = S_Running then c1\<lparr>ac_host := fqdn\<rparr> else c1))"

section \<open>Host names\<close>

text \<open>One question; the object it was made for lives until the answer, and is not freed when the
  question cannot be asked.\<close>

definition address_resolver :: "bool \<Rightarrow> int \<Rightarrow> error_c" where
  "address_resolver asked err = (if \<not> asked then CAvahiClient_error err ''address_resolver_new'' else no_error)"

definition address_resolver_callback :: "bool \<Rightarrow> string option \<Rightarrow> string option" where
  "address_resolver_callback has_handler found =
     (if has_handler then Some (case found of Some name \<Rightarrow> name | None \<Rightarrow> []) else None)"

section \<open>Browsing\<close>

record browser =
  br_browser :: bool                     \<comment> \<open>\<open>_sb\<close> is not null\<close>
  br_pattern :: string
  br_resolve :: bool                     \<comment> \<open>which handlers are set\<close>
  br_remove :: bool
  br_failure :: bool
  br_all_for_now :: bool
  br_cache :: bool

definition CAvahiServiceBrowser_new :: browser where
  "CAvahiServiceBrowser_new =
     \<lparr>br_browser = False, br_pattern = ''.*'', br_resolve = False, br_remove = False, br_failure = False,
      br_all_for_now = False, br_cache = False\<rparr>"

text \<open>\<open>valid\<close> tells which patterns compile.\<close>

definition CAvahiServiceBrowser_init :: "(string \<Rightarrow> bool) \<Rightarrow> bool \<Rightarrow> cavahi_service \<Rightarrow> browser \<Rightarrow> browser" where
  "CAvahiServiceBrowser_init valid made item b =
     b\<lparr>br_browser := made,
       br_pattern := (if cs_name item = [] then br_pattern b
                      else if valid (cs_name item) then cs_name item else ''.*'')\<rparr>"

definition CAvahiServiceBrowser_error :: "int \<Rightarrow> string \<Rightarrow> error_c" where
  "CAvahiServiceBrowser_error ret ctx = (if ret = 0 then errno_c 0 [] else avahi_code ret ctx)"

datatype browse_note =
    BrowseResolve cavahi_service string sock_addr txt_records
  | BrowseRemove cavahi_service
  | BrowseFailure error_c
  | BrowseAllForNow
  | BrowseCacheExhausted

datatype avahi_call =
    ServiceResolverNew cavahi_service | ServiceResolverFree | ServiceBrowserFree
  | EntryGroupNew | EntryGroupReset | EntryGroupCommit
  | AddServiceStrlst cavahi_service string int "string list" | AddServiceSubtype cavahi_service string

datatype browser_event = BrowserNew cavahi_service | BrowserRemove cavahi_service | BrowserCacheExhausted
  | BrowserAllForNow | BrowserFailure

text \<open>\<open>rmatch\<close> is the pattern engine, \<open>None\<close> an error while it matches: then the event is passed on.\<close>

definition skipped :: "(string \<Rightarrow> string \<Rightarrow> bool option) \<Rightarrow> browser \<Rightarrow> string \<Rightarrow> bool" where
  "skipped rmatch b name \<longleftrightarrow> rmatch (br_pattern b) name = Some False"

definition browser_callback ::
    "(string \<Rightarrow> string \<Rightarrow> bool option) \<Rightarrow> bool \<Rightarrow> int \<Rightarrow> browser_event \<Rightarrow> browser \<Rightarrow> avahi_call list \<times> browse_note list" where
  "browser_callback rmatch made errno event b =
     (case event of
        BrowserNew item \<Rightarrow>
          ([ServiceResolverNew item],
           if \<not> made \<and> br_failure b then [BrowseFailure (CAvahiServiceBrowser_error errno ''service resolver new'')] else [])
      | BrowserRemove item \<Rightarrow>
          ([], if br_remove b \<and> \<not> skipped rmatch b (cs_name item) then [BrowseRemove item] else [])
      | BrowserCacheExhausted \<Rightarrow> ([], if br_cache b then [BrowseCacheExhausted] else [])
      | BrowserAllForNow \<Rightarrow> ([], if br_all_for_now b then [BrowseAllForNow] else [])
      | BrowserFailure \<Rightarrow>
          ([], if br_failure b then [BrowseFailure (CAvahiServiceBrowser_error errno ''service browser'')] else []))"

text \<open>The records of a text: \<open>None\<close> for one the library cannot split, the value \<open>None\<close> for a key
  without one, of which a string cannot be made.\<close>

fun txt_pairs :: "(string \<times> string option) option list \<Rightarrow> txt_records option" where
  "txt_pairs [] = Some []"
| "txt_pairs (None # rs) = txt_pairs rs"
| "txt_pairs (Some (k, None) # rs) = None"
| "txt_pairs (Some (k, Some v) # rs) = map_option (\<lambda>ps. (k, v) # ps) (txt_pairs rs)"

datatype resolver_event = ResolverFailure | ResolverFound

definition resolve_callback ::
    "(string \<Rightarrow> string \<Rightarrow> bool option) \<Rightarrow> int \<Rightarrow> resolver_event \<Rightarrow> cavahi_service \<Rightarrow> string \<Rightarrow> sock_addr \<Rightarrow>
     (string \<times> string option) option list \<Rightarrow> browser \<Rightarrow> (avahi_call list \<times> browse_note list) option" where
  "resolve_callback rmatch errno event item host addr txts b =
     (case event of
        ResolverFailure \<Rightarrow>
          Some ([ServiceResolverFree],
                if br_failure b then [BrowseFailure (avahi_code errno ''service resolver callback'')] else [])
      | ResolverFound \<Rightarrow>
          (if \<not> br_resolve b then Some ([ServiceResolverFree], [])
           else if skipped rmatch b (cs_name item) then Some ([], [])
           else map_option (\<lambda>ps. ([ServiceResolverFree], [BrowseResolve item host addr ps])) (txt_pairs txts)))"

definition CAvahiServiceBrowser_destroy :: "browser \<Rightarrow> avahi_call list" where
  "CAvahiServiceBrowser_destroy b = (if br_browser b then [ServiceBrowserFree] else [])"

section \<open>Groups of services\<close>

record group =
  ag_group :: bool                       \<comment> \<open>\<open>_group\<close> is not null\<close>
  ag_create :: bool                      \<comment> \<open>which handlers are set\<close>
  ag_collision :: bool
  ag_established :: bool
  ag_failure :: bool

definition AvahiGroup_new :: group where
  "AvahiGroup_new = \<lparr>ag_group = False, ag_create = False, ag_collision = False, ag_established = False, ag_failure = False\<rparr>"

datatype group_note = GroupCreated | GroupCollision | GroupEstablished | GroupFailed error_c

definition AVAHI_ERR_BAD_STATE :: int where
  "AVAHI_ERR_BAD_STATE = -2"

text \<open>\<open>made\<close>: the library makes the group; \<open>emp\<close>: what it says of its being empty.\<close>

definition AvahiGroup_create ::
    "client_state \<Rightarrow> bool \<Rightarrow> int \<Rightarrow> int \<Rightarrow> group \<Rightarrow> (avahi_call list \<times> group_note list \<times> group) option" where
  "AvahiGroup_create cstate made emp errno g =
     (if cstate \<noteq> S_Running
      then Some ([], if ag_failure g then [GroupFailed (avahi_code AVAHI_ERR_BAD_STATE ''Group creation. Client bad state.'')] else [], g)
      else (let calls = (if ag_group g then [] else [EntryGroupNew]);
                g1 = (if ag_group g then g else g\<lparr>ag_group := made\<rparr>)
            in if \<not> ag_group g1
               then (if ag_failure g then Some (calls, [GroupFailed (CAvahiClient_error errno ''avahi_entry_group_new'')], g1) else None)
               else Some (calls, if emp > 0 \<and> ag_create g then [GroupCreated] else [], g1)))"

definition AvahiGroup_reset :: "int \<Rightarrow> group \<Rightarrow> (avahi_call list \<times> error_c) option" where
  "AvahiGroup_reset ret g =
     (if \<not> ag_group g then None
      else Some ([EntryGroupReset], if ret = 0 then no_error else avahi_code ret ''avahi_entry_group_commit''))"

definition AvahiGroup_commit :: "int \<Rightarrow> group \<Rightarrow> (avahi_call list \<times> error_c) option" where
  "AvahiGroup_commit ret g =
     (if \<not> ag_group g then None
      else Some ([EntryGroupCommit], if ret = 0 then no_error else avahi_code ret ''avahi_entry_group_commit''))"

definition AvahiGroup_client_reset :: "int \<Rightarrow> int \<Rightarrow> group \<Rightarrow> avahi_call list" where
  "AvahiGroup_client_reset emp ret g =
     (if ag_group g \<and> emp = 0 then (case AvahiGroup_reset ret g of None \<Rightarrow> [] | Some r \<Rightarrow> fst r) else [])"

definition AvahiGroup_client_failure :: "error_c \<Rightarrow> group \<Rightarrow> group_note list" where
  "AvahiGroup_client_failure ec g = (if ag_failure g then [GroupFailed ec] else [])"

definition AvahiGroup_query :: "int \<Rightarrow> group \<Rightarrow> int" where
  "AvahiGroup_query answer g = (if ag_group g then answer else 0)"

text \<open>The library's list grows at its front.\<close>

definition txt_list :: "txt_records \<Rightarrow> string list" where
  "txt_list txts = fold (\<lambda>(k, v) a. (if v = [] then k else k @ ''='' @ v) # a) txts []"

definition AvahiGroup_add_service ::
    "int \<Rightarrow> int \<Rightarrow> cavahi_service \<Rightarrow> int \<Rightarrow> string \<Rightarrow> txt_records \<Rightarrow> string \<Rightarrow> group \<Rightarrow> avahi_call list \<times> error_c" where
  "AvahiGroup_add_service ret sub_ret item port subtype txts host g =
     (let add = AddServiceStrlst item host port (txt_list txts) in
      if \<not> ag_group g then ([], avahi_code (-1) ''add service without group'')
      else if ret \<noteq> 0 then ([add], avahi_code ret ''avahi_entry_group_add_service'')
      else if subtype = [] then ([add], no_error)
      else ([add, AddServiceSubtype item subtype],
            if sub_ret \<noteq> 0 then avahi_code sub_ret ''avahi_entry_group_add_service_subtype'' else no_error))"

datatype entry_state = EntryEstablished | EntryCollision | EntryFailure | EntryUncommited | EntryRegistering

definition group_callback :: "int \<Rightarrow> entry_state \<Rightarrow> group \<Rightarrow> group_note list" where
  "group_callback errno state g =
     (case state of
        EntryEstablished \<Rightarrow> if ag_established g then [GroupEstablished] else []
      | EntryCollision \<Rightarrow> if ag_collision g then [GroupCollision] else []
      | EntryFailure \<Rightarrow> if ag_failure g then [GroupFailed (avahi_code errno ''avahi_entry_group failure'')] else []
      | EntryUncommited \<Rightarrow> []
      | EntryRegistering \<Rightarrow> [])"

section \<open>The handler\<close>

text \<open>Objects have addresses. \<open>hd_queries\<close> and \<open>hd_groups\<close> are the static lists of the two classes, by
  which the client reaches them; the objects themselves are kept by those who asked for them.\<close>

record avahi_handler =
  hd_client :: avahi_client
  hd_browsers :: "(nat, browser) omap"
  hd_made :: "(nat, group) omap"
  hd_queries :: "nat list"
  hd_groups :: "nat list"

definition AvahiHandler_new :: avahi_handler where
  "AvahiHandler_new =
     \<lparr>hd_client = CAvahiClient_new, hd_browsers = [], hd_made = [], hd_queries = [], hd_groups = []\<rparr>"

definition AvahiQuery_new :: "(string \<Rightarrow> bool) \<Rightarrow> bool \<Rightarrow> nat \<Rightarrow> cavahi_service \<Rightarrow> avahi_handler \<Rightarrow> avahi_handler" where
  "AvahiQuery_new valid made q item h =
     h\<lparr>hd_queries := q # hd_queries h,
       hd_browsers := om_put q (CAvahiServiceBrowser_init valid made item CAvahiServiceBrowser_new) (hd_browsers h)\<rparr>"

definition AvahiQuery_destroy :: "nat \<Rightarrow> avahi_handler \<Rightarrow> avahi_call list \<times> avahi_handler" where
  "AvahiQuery_destroy q h =
     (case map_of (hd_browsers h) q of
        None \<Rightarrow> ([], h)
      | Some b \<Rightarrow> (CAvahiServiceBrowser_destroy b,
          h\<lparr>hd_queries := removeAll q (hd_queries h), hd_browsers := om_del q (hd_browsers h)\<rparr>))"

text \<open>\<open>get_register_group\<close>: the constructor does not enter the group into the list of its class.\<close>

definition AvahiHandler_get_register_group :: "nat \<Rightarrow> avahi_handler \<Rightarrow> avahi_handler" where
  "AvahiHandler_get_register_group i h = h\<lparr>hd_made := om_put i AvahiGroup_new (hd_made h)\<rparr>"

definition AvahiHandler_drop_group :: "nat \<Rightarrow> avahi_handler \<Rightarrow> avahi_handler" where
  "AvahiHandler_drop_group i h = h\<lparr>hd_made := om_del i (hd_made h)\<rparr>"

text \<open>The library's answers for one group: made, empty, the result of a reset, the error.\<close>

type_synonym group_reply = "nat \<Rightarrow> bool \<times> int \<times> int \<times> int"

definition group_state_change ::
    "group_reply \<Rightarrow> client_state \<Rightarrow> nat \<Rightarrow> avahi_handler \<Rightarrow> (avahi_call list \<times> (nat \<times> group_note) list \<times> avahi_handler) option" where
  "group_state_change gr cstate i h =
     (case map_of (hd_made h) i of
        None \<Rightarrow> None
      | Some g \<Rightarrow>
          (case gr i of (made, emp, ret, errno) \<Rightarrow>
             (case cstate of
                S_Running \<Rightarrow>
                  map_option (\<lambda>(calls, notes, g1). (calls, map (Pair i) notes, h\<lparr>hd_made := om_put i g1 (hd_made h)\<rparr>))
                    (AvahiGroup_create cstate made emp errno g)
              | S_Collision \<Rightarrow> Some (AvahiGroup_client_reset emp ret g, [], h)
              | S_Registering \<Rightarrow> Some (AvahiGroup_client_reset emp ret g, [], h)
              | ClientConnecting \<Rightarrow> Some ([], [], h)
              | ClientFailure \<Rightarrow> Some ([], [], h))))"

fun groups_state_change ::
    "group_reply \<Rightarrow> client_state \<Rightarrow> nat list \<Rightarrow> avahi_handler \<Rightarrow> (avahi_call list \<times> (nat \<times> group_note) list \<times> avahi_handler) option" where
  "groups_state_change gr cstate [] h = Some ([], [], h)"
| "groups_state_change gr cstate (i # is) h =
     Option.bind (group_state_change gr cstate i h) (\<lambda>(calls, notes, h1).
       map_option (\<lambda>(calls1, notes1, h2). (calls @ calls1, notes @ notes1, h2)) (groups_state_change gr cstate is h1))"

datatype handler_note = QueryNote nat browse_note | GroupNote nat group_note

definition queries_failure :: "error_c \<Rightarrow> avahi_handler \<Rightarrow> handler_note list" where
  "queries_failure ec h =
     concat (map (\<lambda>q. case map_of (hd_browsers h) q of
         None \<Rightarrow> [] | Some b \<Rightarrow> if br_failure b then [QueryNote q (BrowseFailure ec)] else []) (hd_queries h))"

definition groups_failure :: "error_c \<Rightarrow> avahi_handler \<Rightarrow> handler_note list" where
  "groups_failure ec h =
     concat (map (\<lambda>i. case map_of (hd_made h) i of
         None \<Rightarrow> [] | Some g \<Rightarrow> map (GroupNote i) (AvahiGroup_client_failure ec g)) (hd_groups h))"

text \<open>The state of the client changes.\<close>

definition AvahiHandler_client_event ::
    "group_reply \<Rightarrow> int \<Rightarrow> string \<Rightarrow> client_state \<Rightarrow> avahi_handler \<Rightarrow> (avahi_call list \<times> handler_note list \<times> avahi_handler) option" where
  "AvahiHandler_client_event gr errno fqdn cstate h =
     (case CAvahiClient_callback fqdn cstate (hd_client h) of
        (note, c) \<Rightarrow>
          (let h1 = h\<lparr>hd_client := c\<rparr> in
           case note of
             ClientFailed \<Rightarrow>
               (let ec = CAvahiClient_error errno ''avahi client''
                in Some ([], queries_failure ec h1 @ groups_failure ec h1, h1))
           | ClientState s \<Rightarrow>
               map_option (\<lambda>(calls, notes, h2). (calls, map (\<lambda>(i, n). GroupNote i n) notes, h2))
                 (groups_state_change gr s (hd_groups h1) h1)))"


section \<open>Every sequence of uses\<close>

text \<open>What the program does with the handler, and the client with it. A group is created by its owner.\<close>

datatype handler_use =
    QueryService bool bool nat cavahi_service
  | DropQuery nat
  | GetGroup nat
  | DropGroup nat
  | CreateGroup nat client_state bool int int
  | ClientEvent group_reply int string client_state

fun AvahiHandler_use :: "handler_use \<Rightarrow> avahi_handler \<Rightarrow> avahi_handler option" where
  "AvahiHandler_use (QueryService ok made q item) h = Some (AvahiQuery_new (\<lambda>_. ok) made q item h)"
| "AvahiHandler_use (DropQuery q) h = Some (snd (AvahiQuery_destroy q h))"
| "AvahiHandler_use (GetGroup i) h = Some (AvahiHandler_get_register_group i h)"
| "AvahiHandler_use (DropGroup i) h = Some (AvahiHandler_drop_group i h)"
| "AvahiHandler_use (CreateGroup i s made emp errno) h =
     (case map_of (hd_made h) i of
        None \<Rightarrow> Some h
      | Some g \<Rightarrow> map_option (\<lambda>(_, _, g1). h\<lparr>hd_made := om_put i g1 (hd_made h)\<rparr>) (AvahiGroup_create s made emp errno g))"
| "AvahiHandler_use (ClientEvent gr errno fqdn s) h =
     map_option (\<lambda>(_, _, h1). h1) (AvahiHandler_client_event gr errno fqdn s h)"

text \<open>The list of groups stays empty, so that a change of the client ends with the client.\<close>

lemma client_event_no_groups:
  assumes "hd_groups h = []"
  shows "\<exists>notes. AvahiHandler_client_event gr errno fqdn s h =
      Some ([], notes, h\<lparr>hd_client := snd (CAvahiClient_callback fqdn s (hd_client h))\<rparr>) \<and>
    (\<forall>i n. GroupNote i n \<notin> set notes)"
  using assms
  by (auto simp: AvahiHandler_client_event_def CAvahiClient_callback_def Let_def groups_failure_def
      queries_failure_def split: option.splits if_splits)

lemma use_no_groups:
  assumes "hd_groups h = []" "AvahiHandler_use u h = Some h1"
  shows "hd_groups h1 = []"
proof (cases u)
  case (ClientEvent gr errno fqdn s)
  with client_event_no_groups [OF assms(1), of gr errno fqdn s] assms show ?thesis by auto
qed (use assms in \<open>auto simp: AvahiQuery_new_def AvahiQuery_destroy_def AvahiHandler_get_register_group_def
    AvahiHandler_drop_group_def split: option.splits prod.splits\<close>)

interpretation ah: state_machine AvahiHandler_use "\<lambda>h. hd_groups h = []"
  by unfold_locales (rule use_no_groups)

lemma resolver_left_behind:
  assumes "resolve_callback rmatch errno event item host addr txts b = Some (calls, notes)"
  shows "ServiceResolverFree \<notin> set calls \<longleftrightarrow>
    event = ResolverFound \<and> br_resolve b \<and> skipped rmatch b (cs_name item)"
  using assms by (auto simp: resolve_callback_def split: resolver_event.splits if_splits)

section \<open>Properties\<close>

text \<open>C40: However the handler is used, no group of services ever hears of the client: when the server comes
  back, finds a collision of the host name or fails, no group is created again, reset or told, because no
  group is in the list the client goes through.\<close>

theorem groups_never_told:
  assumes "run_events AvahiHandler_use us AvahiHandler_new = Some h"
  shows "\<exists>notes h1. AvahiHandler_client_event gr errno fqdn s h = Some ([], notes, h1) \<and>
    (\<forall>i n. GroupNote i n \<notin> set notes) \<and> hd_made h1 = hd_made h"
proof -
  have "hd_groups h = []" using ah.run_inv [OF _ assms] by (simp add: AvahiHandler_new_def)
  from client_event_no_groups [OF this, of gr errno fqdn s] show ?thesis by auto
qed

theorem groups_never_told_witness:
  "\<exists>notes h1. AvahiHandler_client_event (\<lambda>_. (True, 1, 0, 0)) 0 ''host'' S_Running
     (AvahiHandler_get_register_group 7 AvahiHandler_new) = Some ([], notes, h1) \<and>
     map_of (hd_made h1) 7 = Some AvahiGroup_new"
proof -
  have "run_events AvahiHandler_use [GetGroup 7] AvahiHandler_new = Some (AvahiHandler_get_register_group 7 AvahiHandler_new)"
    by simp
  from groups_never_told [OF this, of "\<lambda>_. (True, 1, 0, 0)" 0 "''host''" S_Running] show ?thesis
    by (auto simp: AvahiHandler_get_register_group_def AvahiHandler_new_def)
qed

end
