(* ===== verification/Avahi_Poll.thy ===== *)
theory Avahi_Poll
  imports Timers
begin

text \<open>
  How the Avahi library waits (\<open>src/impl/avahi-poll.h\<close>): its watches are objects of the loop, its
  timeouts are timers. What the library is told of an event is a result.
\<close>

section \<open>Watches\<close>

text \<open>The flags of the library.\<close>

definition AVAHI_WATCH_IN :: u32 where "AVAHI_WATCH_IN = 0x1"
definition AVAHI_WATCH_OUT :: u32 where "AVAHI_WATCH_OUT = 0x4"
definition AVAHI_WATCH_ERR :: u32 where "AVAHI_WATCH_ERR = 0x8"
definition AVAHI_WATCH_HUP :: u32 where "AVAHI_WATCH_HUP = 0x10"

definition avahi2epoll_flags :: "u32 \<Rightarrow> u32" where
  "avahi2epoll_flags fl =
     (if fl AND AVAHI_WATCH_IN \<noteq> 0 then EPOLLIN else 0) OR
     (if fl AND AVAHI_WATCH_OUT \<noteq> 0 then EPOLLOUT else 0) OR
     (if fl AND AVAHI_WATCH_ERR \<noteq> 0 then EPOLLERR else 0) OR
     (if fl AND AVAHI_WATCH_HUP \<noteq> 0 then EPOLLHUP OR EPOLLRDHUP else 0)"

definition epoll2avahi_flags :: "u32 \<Rightarrow> u32" where
  "epoll2avahi_flags fl =
     (if fl AND EPOLLIN \<noteq> 0 then AVAHI_WATCH_IN else 0) OR
     (if fl AND EPOLLOUT \<noteq> 0 then AVAHI_WATCH_OUT else 0) OR
     (if fl AND EPOLLERR \<noteq> 0 then AVAHI_WATCH_ERR else 0) OR
     (if fl AND (EPOLLHUP OR EPOLLRDHUP) \<noteq> 0 then AVAHI_WATCH_HUP else 0)"

record avahi_watch = io +
  aw_fd :: int
  aw_event :: u32

definition AvahiWatch_new :: "env \<Rightarrow> int \<Rightarrow> u32 \<Rightarrow> (avahi_watch, unit) state" where
  "AvahiWatch_new env fd ev =
     do { modify (\<lambda>s. s\<lparr>aw_fd := fd\<rparr>); poll_add env fd (avahi2epoll_flags ev); State_Monad.return () }"

text \<open>The library is called with the descriptor and what happened; the loop need not look further.\<close>

definition AvahiWatch_epollEvent :: "u32 \<Rightarrow> avahi_watch \<Rightarrow> (int \<times> u32) \<times> bool \<times> avahi_watch" where
  "AvahiWatch_epollEvent ev s =
     (let e = epoll2avahi_flags ev in ((aw_fd s, e), True, s\<lparr>aw_event := e\<rparr>))"

definition watch_update :: "env \<Rightarrow> u32 \<Rightarrow> (avahi_watch, unit) state" where
  "watch_update env ev =
     do { fd \<leftarrow> gets aw_fd; poll_mod env fd (avahi2epoll_flags ev); State_Monad.return () }"

definition watch_get_events :: "avahi_watch \<Rightarrow> u32" where
  "watch_get_events s = aw_event s"

definition watch_free :: "env \<Rightarrow> (avahi_watch, unit) state" where
  "watch_free env = do { fd \<leftarrow> gets aw_fd; poll_del env fd; State_Monad.return () }"

section \<open>Timeouts\<close>

text \<open>A time as seconds and microseconds, computed without a sign and taken as a duration; in
  nanoseconds.\<close>

definition timeout_ns :: "int \<times> int \<Rightarrow> int" where
  "timeout_ns tv =
     (let us = sint (word_of_int (fst tv * 1000000 + snd tv) :: 64 word) in if us = 0 then 1 else us * 1000)"

definition timeout_update :: "env \<Rightarrow> (int \<times> int) option \<Rightarrow> (timer, unit) state" where
  "timeout_update env tv =
     (case tv of
        None \<Rightarrow> State_Monad.return ()
      | Some t \<Rightarrow> do { Timer_arm_oneshoot env (timeout_ns t); State_Monad.return () })"

definition timeout_new :: "env \<Rightarrow> (int \<times> int) option \<Rightarrow> (timer, unit) state" where
  "timeout_new env tv = do { Timer_shoot; timeout_update env tv }"

definition timeout_free :: "env \<Rightarrow> (timer, unit) state" where
  "timeout_free env = Timer_stop env"

section \<open>Facts\<close>

lemma watch_bits:
  "AVAHI_WATCH_IN = 0x1" "AVAHI_WATCH_OUT = 0x4" "AVAHI_WATCH_ERR = 0x8" "AVAHI_WATCH_HUP = 0x10"
  "EPOLLIN = 0x1" "EPOLLOUT = 0x4" "EPOLLERR = 0x8" "EPOLLHUP = 0x10" "EPOLLRDHUP = 0x2000"
  by (simp_all add: AVAHI_WATCH_IN_def AVAHI_WATCH_OUT_def AVAHI_WATCH_ERR_def AVAHI_WATCH_HUP_def
      EPOLLIN_def EPOLLOUT_def EPOLLERR_def EPOLLHUP_def EPOLLRDHUP_def)

text \<open>The flags survive the way to the loop and back.\<close>

lemma and_one_bit: "(w::u32) AND push_bit n 1 = (if bit w n then push_bit n 1 else 0)"
  by (rule bit_eqI) (auto simp: bit_simps)

lemma flag_tests:
  fixes fl :: u32
  shows "fl AND 0x1 = (if bit fl 0 then 0x1 else 0)" "fl AND 0x4 = (if bit fl 2 then 0x4 else 0)"
    "fl AND 0x8 = (if bit fl 3 then 0x8 else 0)" "fl AND 0x10 = (if bit fl 4 then 0x10 else 0)"
  using and_one_bit [of fl 0] and_one_bit [of fl 2] and_one_bit [of fl 3] and_one_bit [of fl 4]
  by (simp_all add: push_bit_eq_mult)

lemma watch_flags_roundtrip:
  "epoll2avahi_flags (avahi2epoll_flags fl) = fl AND (AVAHI_WATCH_IN OR AVAHI_WATCH_OUT OR AVAHI_WATCH_ERR OR AVAHI_WATCH_HUP)"
proof -
  have "fl AND 0x1D = (fl AND 0x1) OR (fl AND 0x4) OR (fl AND 0x8) OR (fl AND 0x10)"
    by (simp flip: bit.conj_disj_distrib)
  then show ?thesis
    by (simp add: epoll2avahi_flags_def avahi2epoll_flags_def watch_bits flag_tests)
qed

text \<open>A timeout owns its timer's descriptor, is armed by an update with a time, and left as it is by one
  without.\<close>

lemma timeout_own: "keeps ti_own (timeout_new env tv)" "keeps ti_own (timeout_update env tv)" "keeps ti_own (timeout_free env)"
  by (auto simp: timeout_new_def timeout_update_def timeout_free_def Timer_shoot_def
      Timer_arm_oneshoot_def Timer_stop_def owns_simps intro!: keeps_intros split: option.split)

end
