(* ===== verification/Endpoints.thy ===== *)
theory Endpoints
  imports Errors
begin

text \<open>
  The interfaces of \<open>src/inc/endpoints.h\<close> that hold callbacks: \<open>Readable\<close>, \<open>Writeable\<close>,
  \<open>Closeable\<close>, \<open>Client\<close>, which is all of them, and \<open>StreamSource\<close>. A callback is a function on the world, or
  absent; the ways the classes of \<open>src/impl\<close> fire them are part of their models.
\<close>

record 'w client =
  ce_read :: "(bytes \<Rightarrow> 'w \<Rightarrow> 'w) option"      \<comment> \<open>\<open>Readable::_on_read\<close>\<close>
  ce_writeable :: "('w \<Rightarrow> 'w) option"           \<comment> \<open>\<open>Writeable::_writeable\<close>\<close>
  ce_is_writeable :: bool
  ce_close :: "('w \<Rightarrow> 'w) option"               \<comment> \<open>\<open>Closeable::_on_close\<close>\<close>

definition Client_new :: "'w client" where
  "Client_new = \<lparr>ce_read = None, ce_writeable = None, ce_is_writeable = False, ce_close = None\<rparr>"

definition fire :: "('w \<Rightarrow> 'w) option \<Rightarrow> 'w \<Rightarrow> 'w" where
  "fire f w = (case f of None \<Rightarrow> w | Some g \<Rightarrow> g w)"

definition Readable_set_on_read :: "(bytes \<Rightarrow> 'w \<Rightarrow> 'w) option \<Rightarrow> 'w client \<Rightarrow> 'w client" where
  "Readable_set_on_read f c = c\<lparr>ce_read := f\<rparr>"

definition Readable_on_read :: "bytes \<Rightarrow> 'w client \<Rightarrow> 'w \<Rightarrow> 'w" where
  "Readable_on_read buf c w = fire (map_option (\<lambda>g. g buf) (ce_read c)) w"

definition Writeable_set_writeable :: "('w \<Rightarrow> 'w) option \<Rightarrow> 'w client \<Rightarrow> 'w client" where
  "Writeable_set_writeable f c = c\<lparr>ce_writeable := f\<rparr>"

definition Writeable_is_writeable :: "'w client \<Rightarrow> bool" where
  "Writeable_is_writeable c = ce_is_writeable c"

text \<open>The flag is set before the callback runs.\<close>

definition Writeable_fire :: "'w client \<times> 'w \<Rightarrow> 'w client \<times> 'w" where
  "Writeable_fire cw =
     (case cw of (c, w) \<Rightarrow>
        if ce_is_writeable c then (c, w) else (c\<lparr>ce_is_writeable := True\<rparr>, fire (ce_writeable c) w))"

definition Closeable_set_on_close :: "('w \<Rightarrow> 'w) option \<Rightarrow> 'w client \<Rightarrow> 'w client" where
  "Closeable_set_on_close f c = c\<lparr>ce_close := f\<rparr>"

definition Closeable_on_close :: "'w client \<Rightarrow> 'w \<Rightarrow> 'w" where
  "Closeable_on_close c w = fire (ce_close c) w"

text \<open>\<open>StreamSource\<close>: what is called with a new client and its name.\<close>

type_synonym ('c, 'w) stream_source = "('c \<Rightarrow> string \<Rightarrow> 'w \<Rightarrow> 'w) option"

definition StreamSource_set_on_connect ::
    "('c \<Rightarrow> string \<Rightarrow> 'w \<Rightarrow> 'w) option \<Rightarrow> ('c, 'w) stream_source \<Rightarrow> ('c, 'w) stream_source" where
  "StreamSource_set_on_connect f s = f"

definition StreamSource_on_connect :: "'c \<Rightarrow> string \<Rightarrow> ('c, 'w) stream_source \<Rightarrow> 'w \<Rightarrow> 'w" where
  "StreamSource_on_connect cli name s w = fire (map_option (\<lambda>g. g cli name) s) w"

section \<open>What they call\<close>

text \<open>However often an endpoint says that it can be written to, the callback runs once; setting it later is
  too late for the one who asks to be told.\<close>

lemma writeable_fires_once:
  assumes "\<not> ce_is_writeable c"
  shows "(Writeable_fire ^^ Suc n) (c, w) = (c\<lparr>ce_is_writeable := True\<rparr>, fire (ce_writeable c) w)"
  by (induction n) (simp_all add: Writeable_fire_def assms)

lemma writeable_set_too_late:
  assumes "ce_is_writeable c"
  shows "snd ((Writeable_fire ^^ n) (Writeable_set_writeable f c, w)) = w"
proof -
  have "(Writeable_fire ^^ n) (Writeable_set_writeable f c, w) = (Writeable_set_writeable f c, w)"
    by (induction n) (simp_all add: Writeable_fire_def Writeable_set_writeable_def assms)
  then show ?thesis by simp
qed

text \<open>A callback that was never set is no error.\<close>

lemma new_client_silent:
  "Readable_on_read buf Client_new w = w" "snd (Writeable_fire (Client_new, w)) = w" "Closeable_on_close Client_new w = w"
  by (simp_all add: Readable_on_read_def Writeable_fire_def Closeable_on_close_def Client_new_def fire_def)

end
