(* ===== verification/Sockaddr_Typing.thy ===== *)
theory Sockaddr_Typing
  imports Sockaddr
begin

text \<open>
  Which socket addresses there are: everything the operations of \<open>src/sockaddr.cpp\<close> can make, in
  whatever order they are called. All of them are well formed, so that no operation reads or writes
  outside the 128 bytes of a \<open>sockaddr_storage\<close>.
\<close>

section \<open>Construction, moves and calls of the kernel\<close>

definition sa_new_raw :: "bytes \<Rightarrow> sock_addr" where
  "sa_new_raw bs = Some (impl_new\<lparr>sa_store := splice 0 bs (sa_store impl_new), sa_length := length bs\<rparr>)"

definition sa_new4 :: "bytes \<Rightarrow> u16 \<Rightarrow> sock_addr" where
  "sa_new4 ip p =
     Some (impl_new\<lparr>sa_store := splice 2 (net16 p) (splice 4 ip (splice 0 (fam_bytes AF_INET) (sa_store impl_new))),
                    sa_length := sizeof_in\<rparr>)"

definition sa_new_fd :: "int \<Rightarrow> bytes \<Rightarrow> sock_addr" where
  "sa_new_fd r bs = sa_init_fd r bs (Some impl_new)"

definition sa_new_avahi :: "avahi_address \<Rightarrow> u16 \<Rightarrow> sock_addr" where
  "sa_new_avahi av p = sa_init_avahi av p (Some impl_new)"

text \<open>The address the kernel is handed: the storage is made if there is none.\<close>

definition sa_sock_addr :: "sock_addr \<Rightarrow> sock_addr" where
  "sa_sock_addr a = Some (impl_of a)"

text \<open>A move between two objects leaves the source without storage; both are returned, the target first.\<close>

definition sa_move :: "sock_addr \<Rightarrow> sock_addr \<Rightarrow> sock_addr \<times> sock_addr" where
  "sa_move other this = (other, None)"

text \<open>\<open>accept\<close>: what the kernel returns, and the bytes it wrote when that is a descriptor. Where it fails the
  length stays that of the whole storage.\<close>

definition sa_accept :: "int \<times> bytes \<Rightarrow> sock_addr \<Rightarrow> int \<times> sock_addr" where
  "sa_accept res a =
     (case res of (r, bs) \<Rightarrow>
        (r, if r < 0 then sa_size (sa_sock_addr a) else sa_init_raw bs (sa_size (sa_sock_addr a))))"

definition sl_single :: "sock_addr \<Rightarrow> sock_addr list" where
  "sl_single a = sl_add a []"

lemma constructors_init:
  "sa_new_raw bs = sa_init_raw bs None" "sa_new4 ip p = sa_init4 ip p None"
  "sa_new_fd r bs = sa_init_fd r bs None" "sa_new_avahi av p = sa_init_avahi av p None"
  by (simp_all add: sa_new_raw_def sa_init_raw_def sa_new4_def sa_init4_def sa_new_fd_def sa_init_fd_def
      sa_new_avahi_def sa_init_avahi_def impl_of_def Let_def)

section \<open>The addresses the operations make\<close>

text \<open>\<open>inet_pton\<close> yields 4 and 16 bytes.\<close>

definition netlib_ok :: "netlib \<Rightarrow> bool" where
  "netlib_ok nl \<longleftrightarrow>
     (\<forall>s. case inet_pton4 nl s of None \<Rightarrow> True | Some ip \<Rightarrow> length ip = 4) \<and>
     (\<forall>s. case inet_pton6 nl s of None \<Rightarrow> True | Some ip \<Rightarrow> length ip = 16)"

fun avahi_ok :: "avahi_address \<Rightarrow> bool" where
  "avahi_ok (AvahiInet ip) = (length ip = 4)"
| "avahi_ok (AvahiInet6 ip) = (length ip = 16)"
| "avahi_ok AvahiUnspec = True"

text \<open>A socket address from outside -- from \<open>getaddrinfo\<close>, \<open>getsockname\<close>, \<open>accept\<close> -- fits into the storage.\<close>

inductive address :: "netlib \<Rightarrow> sock_addr \<Rightarrow> bool" for nl where
  unset: "address nl None"
| raw: "address nl a \<Longrightarrow> length bs \<le> 128 \<Longrightarrow> address nl (sa_init_raw bs a)"
| ip4: "address nl a \<Longrightarrow> length ip = 4 \<Longrightarrow> address nl (sa_init4 ip p a)"
| ip6: "address nl a \<Longrightarrow> length ip = 16 \<Longrightarrow> address nl (sa_init6 ip p a)"
| fd: "address nl a \<Longrightarrow> length bs \<le> 128 \<Longrightarrow> address nl (sa_init_fd r bs a)"
| avahi: "avahi_ok av \<Longrightarrow> address nl (sa_init_avahi av p a)"
| str: "address nl a \<Longrightarrow> address nl (snd (sa_init_str nl s p a))"
| made: "length bs \<le> 128 \<Longrightarrow> address nl (sa_new_raw bs)"
| made4: "length ip = 4 \<Longrightarrow> address nl (sa_new4 ip p)"
| made_fd: "length bs \<le> 128 \<Longrightarrow> address nl (sa_new_fd r bs)"
| made_avahi: "avahi_ok av \<Longrightarrow> address nl (sa_new_avahi av p)"
| handed: "address nl a \<Longrightarrow> address nl (sa_sock_addr a)"
| moved: "address nl a \<Longrightarrow> address nl b \<Longrightarrow> c \<in> {fst (sa_move b a), snd (sa_move b a)} \<Longrightarrow> address nl c"
| accepted: "address nl a \<Longrightarrow> length bs \<le> 128 \<Longrightarrow> address nl (snd (sa_accept (r, bs) a))"
| single: "address nl a \<Longrightarrow> b \<in> set (sl_single a) \<Longrightarrow> address nl b"
| room: "address nl a \<Longrightarrow> address nl (sa_size a)"
| port: "address nl a \<Longrightarrow> address nl (sa_set_port p a)"
| assign: "address nl a \<Longrightarrow> address nl b \<Longrightarrow> sa_assign b a = Some c \<Longrightarrow> address nl c"
| copy: "address nl a \<Longrightarrow> address nl (sa_copy a)"
| any: "address nl (sa_any f p)"
| found: "\<forall>bs \<in> set ai. length bs \<le> 128 \<Longrightarrow> a \<in> set (sl_of_addrinfo ai) \<Longrightarrow> address nl a"
| of_interface: "address nl (sa_local nl itf f p)"
| of_broadcast: "sa_broadcast nl itf p = Some a \<Longrightarrow> address nl a"

section \<open>Each of them is well formed\<close>

lemma sa_ok_some: "sa_ok (Some i) \<longleftrightarrow> length (sa_store i) = 128 \<and> sa_length i \<le> 128"
  by (simp add: sa_ok_def sizeof_storage_def)

lemma sa_ok_none [simp]: "sa_ok None"
  by (simp add: sa_ok_def)

lemma sa_ok_init:
  assumes "sa_ok a"
  shows "length bs \<le> 128 \<Longrightarrow> sa_ok (sa_init_raw bs a)"
    and "length bs \<le> 128 \<Longrightarrow> sa_ok (sa_init_fd r bs a)"
    and "avahi_ok av \<Longrightarrow> sa_ok (sa_init_avahi av p c)"
    and "sa_ok (sa_size a)"
  using impl_of_ok [OF assms]
  by (auto simp: sa_init_raw_def sa_init_fd_def sa_init_avahi_def sa_size_def sa_ok_some Let_def
      sizeof_storage_def sizeof_in_def sizeof_in6_def impl_new_def split: avahi_address.split)

lemma sa_ok_any: "sa_ok (sa_any f p)"
  by (simp add: sa_any_def sa_init4_facts sa_init6_facts in6addr_any_def split: family.split)

lemma sa_ok_str:
  assumes "netlib_ok nl" "sa_ok a"
  shows "sa_ok (snd (sa_init_str nl s p a))"
proof -
  let ?a = "Some ((impl_of a)\<lparr>sa_length := 0\<rparr>)"
  have a: "sa_ok ?a" "length (sa_store (impl_of a)) = 128" using impl_of_ok [OF assms(2)] by (simp_all add: sa_ok_some)
  have 4: "length ip = 4" if "inet_pton4 nl s = Some ip" for ip using assms(1) that by (auto simp: netlib_ok_def dest: spec [of _ s])
  have 6: "length ip = 16" if "inet_pton6 nl s = Some ip" for ip using assms(1) that by (auto simp: netlib_ok_def dest: spec [of _ s])
  show ?thesis
    unfolding sa_init_str_def Let_def using a 4 6
    by (auto simp: sa_init4_facts sa_init6_facts in6addr_any_def in6addr_loopback_def sa_ok_some sizeof_in6_def split: option.split)
qed

lemma sa_ok_copy: "sa_ok a \<Longrightarrow> sa_ok (sa_copy a)"
  by (auto simp: sa_copy_def impl_new_def sizeof_storage_def sa_ok_some split: option.splits)

lemma sa_ok_assign: "sa_ok a \<Longrightarrow> sa_ok b \<Longrightarrow> sa_assign b a = Some c \<Longrightarrow> sa_ok c"
  using impl_of_ok [of a] by (auto simp: sa_assign_def sa_ok_some Let_def split: option.splits)

lemma sa_ok_port: "sa_ok a \<Longrightarrow> sa_ok (sa_set_port p a)"
  by (auto simp: sa_set_port_def sa_ok_some split: option.splits)

lemma sl_add_ok: "sa_ok a \<Longrightarrow> \<forall>x \<in> set as. sa_ok x \<Longrightarrow> \<forall>x \<in> set (sl_add a as). sa_ok x"
  by (simp add: sl_add_def sa_ok_copy)

lemma sl_of_addrinfo_ok:
  assumes "\<forall>bs \<in> set ai. length bs \<le> 128"
  shows "\<forall>x \<in> set (sl_of_addrinfo ai). sa_ok x"
proof -
  have "\<forall>x \<in> set (fold (\<lambda>bs. sl_add (sa_init_raw bs None)) ai as). sa_ok x" if "\<forall>x \<in> set as. sa_ok x" for as
    using assms that
  proof (induction ai arbitrary: as)
    case (Cons b ai)
    have "sa_ok (sa_init_raw b None)" by (rule sa_ok_init(1)) (use Cons.prems in simp_all)
    from Cons.IH [OF _ sl_add_ok [OF this Cons.prems(2)]] Cons.prems(1) show ?case by simp
  qed simp
  from this [of "[]"] show ?thesis by (simp add: sl_of_addrinfo_def)
qed

lemma broadcast_scan_ok:
  "broadcast_scan name ifas as = Some bs \<Longrightarrow> \<forall>x \<in> set as. sa_ok x \<Longrightarrow> \<forall>x \<in> set bs. sa_ok x"
proof (induction ifas arbitrary: as)
  case (Cons ifa ifas)
  have new: "sa_ok (sa_init_raw (take sizeof_in br) None)" for br
    by (rule sa_ok_init) (simp_all add: sizeof_in_def)
  have "broadcast_scan name ifas as = Some bs \<or>
    (\<exists>br. broadcast_scan name ifas (sl_add (sa_init_raw (take sizeof_in br) None) as) = Some bs)"
    using Cons.prems(1) unfolding broadcast_scan.simps by (auto split: option.splits if_splits)
  then show ?case
    using Cons.IH [OF _ Cons.prems(2)] Cons.IH [OF _ sl_add_ok [OF new Cons.prems(2)]] by blast
qed simp

lemma sa_ok_broadcast: "sa_broadcast nl itf p = Some a \<Longrightarrow> sa_ok a"
proof (cases "itf = []")
  case False
  assume "sa_broadcast nl itf p = Some a"
  with False obtain e as where as: "sl_broadcast nl itf p = Some (e, as)"
    "a = (case as of [x] \<Rightarrow> sa_copy x | _ \<Rightarrow> sa_any AF_INET 0)" by (auto simp: sa_broadcast_def)
  then have "\<forall>x \<in> set as. sa_ok x"
    using broadcast_scan_ok [of itf _ "[]"] by (auto simp: sl_broadcast_def split: option.splits)
  then show "sa_ok a" using as(2) by (auto simp: sa_ok_any sa_ok_copy split: list.split)
qed (auto simp: sa_broadcast_def sa_ok_any)

lemma sa_ok_local: "sa_ok (sa_local nl itf f p)"
  by (simp add: sa_local_def sl_interface_empty sa_ok_any)

lemma sa_ok_sock_addr: "sa_ok a \<Longrightarrow> sa_ok (sa_sock_addr a)"
  using impl_of_ok [of a] by (cases a) (auto simp: sa_sock_addr_def sa_ok_some impl_of_def impl_new_def)

lemma sa_ok_accept: "sa_ok a \<Longrightarrow> length bs \<le> 128 \<Longrightarrow> sa_ok (snd (sa_accept (r, bs) a))"
  by (simp add: sa_accept_def sa_ok_init sa_ok_sock_addr)

lemma address_ok: "address nl a \<Longrightarrow> netlib_ok nl \<Longrightarrow> sa_ok a"
  by (induction rule: address.induct)
     (auto simp: constructors_init sl_single_def sl_add_def sa_move_def sa_ok_accept sa_ok_sock_addr
       sa_ok_init sa_ok_init(1-3) [OF sa_ok_none] sa_init4_facts sa_init6_facts sa_ok_str sa_ok_port sa_ok_copy sa_ok_any sa_ok_local
       dest: sl_of_addrinfo_ok sa_ok_broadcast sa_ok_assign)

lemma fields_typed:
  assumes "sa_ok a"
  shows "length (sa_ip4 a) = 4" "case sa_ip6 a of None \<Rightarrow> True | Some ip \<Rightarrow> length ip = 16"
    "case sa_to_avahi a of None \<Rightarrow> True | Some av \<Rightarrow> avahi_ok av"
  using assms
  by (auto simp: sa_ip4_def sa_ip6_def sa_to_avahi_def sa_ok_some field_def mem32_def split: option.splits family.splits)

section \<open>Properties\<close>

text \<open>C26: Every address the operations make, in whatever order, has its 128 bytes of storage and a length
  within them; the address read from it has the 4 or 16 bytes of its family, also when it is handed to
  Avahi and back.\<close>

theorem addresses_typed:
  assumes "netlib_ok nl" "address nl a"
  shows "sa_ok a \<and> length (sa_ip4 a) = 4 \<and> (case sa_ip6 a of None \<Rightarrow> True | Some ip \<Rightarrow> length ip = 16) \<and>
    (case sa_to_avahi a of None \<Rightarrow> True | Some av \<Rightarrow> avahi_ok av \<and> sa_ok (sa_init_avahi av (sa_port a) None))"
proof -
  have ok: "sa_ok a" by (rule address_ok [OF assms(2,1)])
  note f = fields_typed [OF ok]
  show ?thesis using ok f sa_ok_init(3) [OF sa_ok_none] by (auto split: option.splits)
qed

definition numeric_netlib :: netlib where
  "numeric_netlib =
     \<lparr>inet_pton4 = (\<lambda>s. if s = ''10.0.0.1'' then Some [10, 0, 0, 1] else None), inet_pton6 = (\<lambda>s. None),
      inet_ntop4 = (\<lambda>_. []), inet_ntop6 = (\<lambda>_. []), ifaddrs = Some [], nametoindex = (\<lambda>_. 0), indextoname = (\<lambda>_. None),
      stale_errno = 22\<rparr>"

theorem addresses_typed_witness:
  "sa_ok (sa_copy (sa_set_port 80 (snd (sa_init_str numeric_netlib ''10.0.0.1'' 0 (sa_any AF_INET6 7))))) \<and>
   length (sa_ip4 (sa_copy (sa_set_port 80 (snd (sa_init_str numeric_netlib ''10.0.0.1'' 0 (sa_any AF_INET6 7)))))) = 4"
proof -
  have "netlib_ok numeric_netlib" by (simp add: netlib_ok_def numeric_netlib_def)
  from addresses_typed [OF this address.copy [OF address.port [OF address.str [OF address.any]]]] show ?thesis by blast
qed

end
