(* ===== verification/Measured_Durations.thy ===== *)
theory Measured_Durations
  imports Statistics
begin

text \<open>
  The older collector of durations, \<open>src/measure.h\<close>, which also keeps the shortest and the longest.
  The \<open>Metric\<close> beside it (\<open>src/measure.cpp\<close>) is word for word that of \<open>src/inc/metric.h\<close>, the
  model of which (\<open>Statistics\<close>) is used here.
\<close>

definition duration_max :: int where
  "duration_max = 2 ^ 63 - 1"

record range_collector =
  rc_all :: int
  rc_min :: int
  rc_max :: int
  rc_count :: int

definition RangeCollector_new :: range_collector where
  "RangeCollector_new = \<lparr>rc_all = 0, rc_min = duration_max, rc_max = 0, rc_count = 0\<rparr>"

definition RangeCollector_add_metric :: "int \<Rightarrow> range_collector \<Rightarrow> range_collector" where
  "RangeCollector_add_metric interval d =
     (let e = (if interval > rc_max d then d\<lparr>rc_max := interval\<rparr>
               else if interval < rc_min d then d\<lparr>rc_min := interval\<rparr> else d)
      in e\<lparr>rc_count := wrap32 (rc_count d + 1), rc_all := rc_all d + interval\<rparr>)"

definition RangeCollector_fields :: "string \<Rightarrow> range_collector \<Rightarrow> (string \<times> field_value) list" where
  "RangeCollector_fields name d =
     (if rc_all d \<noteq> 0 then [(name @ ''_t'', FNanoseconds (rc_all d))] else []) @
     (if rc_max d \<noteq> 0 then [(name @ ''_max'', FNanoseconds (rc_max d))] else []) @
     (if rc_min d \<noteq> duration_max then [(name @ ''_min'', FNanoseconds (rc_min d))] else []) @
     (if rc_count d \<noteq> 0 then [(name @ ''_cnt'', FInt (rc_count d))] else [])"

definition RangeCollector_report :: "string \<Rightarrow> range_collector \<Rightarrow> metric \<Rightarrow> metric \<times> range_collector" where
  "RangeCollector_report name d m =
     (if rc_count d = 0 then (m, d)
      else (fold (\<lambda>(n, v). Metric_add_field n v) (RangeCollector_fields name d) m,
            d\<lparr>rc_min := duration_max, rc_max := 0\<rparr>))"

definition RangeCollector_measure :: "int \<Rightarrow> int \<Rightarrow> range_collector \<Rightarrow> range_collector" where
  "RangeCollector_measure start stop d = RangeCollector_add_metric (stop - start) d"

section \<open>What it collects\<close>

lemma add_metric_max [simp]: "rc_max (RangeCollector_add_metric i d) = max (rc_max d) i"
  by (simp add: RangeCollector_add_metric_def Let_def)

lemma add_metric_min: "rc_min (RangeCollector_add_metric i d) = (if i > rc_max d then rc_min d else min (rc_min d) i)"
  by (simp add: RangeCollector_add_metric_def Let_def)

lemma collected_max: "rc_max (fold RangeCollector_add_metric is d) = fold max is (rc_max d)"
  by (induction "is" arbitrary: d) (simp_all add: max.commute)

text \<open>The longest is right. A duration longer than all before is not looked at as the shortest, so that of
  ever longer ones no shortest is reported at all.\<close>

lemma collected_min_missed:
  "sorted_wrt (<) (rc_max d # is) \<Longrightarrow> rc_min (fold RangeCollector_add_metric is d) = rc_min d"
proof (induction "is" arbitrary: d)
  case (Cons i "is")
  then have "rc_max d < i" "sorted_wrt (<) (i # is)" by simp_all
  then show ?case
    using Cons.IH [of "RangeCollector_add_metric i d"] by (simp add: add_metric_min max_def)
qed simp

lemma collected_min_above: "\<forall>i \<in> set is. m \<le> i \<Longrightarrow> m \<le> rc_min d \<Longrightarrow> m \<le> rc_min (fold RangeCollector_add_metric is d)"
  by (induction "is" arbitrary: d) (simp_all add: add_metric_min)

lemma collected_min_not_first:
  assumes "i \<le> rc_max d" "\<forall>j \<in> set is. i \<le> j"
  shows "rc_min (fold RangeCollector_add_metric (i # is) d) = min (rc_min d) i"
proof -
  have "rc_min (fold RangeCollector_add_metric is e) = rc_min e" if "rc_min e \<le> i" for e
    using assms(2) that by (induction "is" arbitrary: e) (auto simp: add_metric_min)
  from this [of "RangeCollector_add_metric i d"] assms(1) show ?thesis by (simp add: add_metric_min)
qed

end
