(* ===== verification/Program_End.thy ===== *)
theory Program_End
  imports Client_Loop Timers
begin

text \<open>
  How the program ends: the handler of interrupts that \<open>IOLoopImpl::handle_CtrlC\<close>
  (\<open>src/loop.cpp\<close>) sets up stops the loop and destroys the object it runs in. The world of the
  loop is that object and the world of all others.
\<close>

section \<open>The handler\<close>

text \<open>The handler says that it is done, and its object is gone.\<close>

definition CtrlC_env :: "env \<Rightarrow> env" where
  "CtrlC_env env tr a =
     (case a of
        Up u \<Rightarrow> (case u of OnSignal d \<Rightarrow> (env tr a)\<lparr>rp_ret := 1, rp_gone := True\<rparr> | _ \<Rightarrow> env tr a)
      | _ \<Rightarrow> env tr a)"

type_synonym 'x with_CtrlC = "(signal_handler \<times> 'x) io_loop"

text \<open>\<open>ctrlC_handler.reset()\<close>: the destructor takes the object out of the loop and closes its descriptor.\<close>

definition reset_CtrlC :: "env \<Rightarrow> obj_id \<Rightarrow> 'x with_CtrlC \<Rightarrow> 'x with_CtrlC" where
  "reset_CtrlC env c lp =
     (case lp_world lp of (h, x) \<Rightarrow>
        if si_fd h = -1 then lp
        else (case run_state (poll_del env (si_fd h)) h of (e, h1) \<Rightarrow>
                lp\<lparr>lp_world := (snd (run_state (Signal_cleanup env) h1), x),
                   lp_watches := (if failed e then lp_watches lp else removeAll c (lp_watches lp))\<rparr>))"

definition on_CtrlC :: "env \<Rightarrow> obj_id \<Rightarrow> 'x with_CtrlC \<Rightarrow> 'x with_CtrlC" where
  "on_CtrlC env c lp = reset_CtrlC env c (IOLoop_stop lp)"

definition CtrlC_epollIN :: "env \<Rightarrow> obj_id \<Rightarrow> 'x with_CtrlC \<Rightarrow> (handled \<times> 'x with_CtrlC) option" where
  "CtrlC_epollIN env c lp =
     (case lp_world lp of (h, x) \<Rightarrow>
        (case Signal_epollIN (CtrlC_env env) h of
           None \<Rightarrow> None
         | Some (r, h1) \<Rightarrow>
             (let lp1 = lp\<lparr>lp_world := (h1, x)\<rparr>
              in Some (r, if io_exists h \<and> \<not> io_exists h1 then on_CtrlC env c lp1 else lp1))))"

definition CtrlC_pollable :: "env \<Rightarrow> obj_id \<Rightarrow> 'x with_CtrlC pollable" where
  "CtrlC_pollable env c =
     (IOPollable_default ''signal'')
       \<lparr>ob_in := CtrlC_epollIN env c,
        ob_cleanup := (\<lambda>lp. case lp_world lp of (h, x) \<Rightarrow>
          lp\<lparr>lp_world := (snd (run_state (Signal_cleanup env) h), x)\<rparr>)\<rparr>"

lemma reset_is_destroy: "fst (lp_world (reset_CtrlC env c lp)) = snd (run_state (Signal_destroy env) (fst (lp_world lp)))"
  by (auto simp: reset_CtrlC_def Signal_destroy_def state_runs Let_def split: prod.split)

section \<open>What it does to the loop\<close>

lemma reset_frees: "si_fd (fst (lp_world (reset_CtrlC env c lp))) = -1"
  by (auto simp: reset_CtrlC_def Signal_cleanup_def state_runs Let_def split: prod.split)

lemma reset_stopped: "lp_stop (reset_CtrlC env c lp) = lp_stop lp"
  by (auto simp: reset_CtrlC_def split: prod.split)

lemma on_CtrlC_ends: "lp_stop (on_CtrlC env c lp)" "si_fd (fst (lp_world (on_CtrlC env c lp))) = -1"
  by (simp_all add: on_CtrlC_def reset_stopped IOLoop_stop_def reset_frees)

lemma signal_read:
  assumes "si_handler h" "io_exists h" "rp_ret (env (io_trace h) (Sys (ReadFd (si_fd h) 128))) = 128"
  shows "\<exists>h1. Signal_epollIN (CtrlC_env env) h = Some (HANDLED, h1) \<and> \<not> io_exists h1 \<and> si_fd h1 = si_fd h"
  using assms
  by (simp add: Signal_epollIN_def loop_until_step Signal_read_step_def state_runs ask_user_def CtrlC_env_def
      sizeof_siginfo_def)

lemma dispatch_CtrlC:
  assumes "si_handler h" "io_exists h" "rp_ret (env (io_trace h) (Sys (ReadFd (si_fd h) 128))) = 128"
    and "fst (lp_world lp) = h" "evs AND EPOLLIN \<noteq> 0"
  shows "\<exists>ws lp1. dispatch (CtrlC_pollable env c) evs lp = Some (ws, lp1) \<and> lp_stop lp1 \<and> si_fd (fst (lp_world lp1)) = -1"
proof -
  obtain x where w: "lp_world lp = (h, x)" using assms(4) by (cases "lp_world lp") auto
  obtain h1 where "Signal_epollIN (CtrlC_env env) h = Some (HANDLED, h1)" "\<not> io_exists h1"
    using signal_read [of h env, OF assms(1-3)] by blast
  then have "CtrlC_epollIN env c lp = Some (HANDLED, on_CtrlC env c (lp\<lparr>lp_world := (h1, x)\<rparr>))"
    by (simp add: CtrlC_epollIN_def w assms(2) Let_def)
  then show ?thesis
    using assms(5) by (simp add: on_CtrlC_ends dispatch_def CtrlC_pollable_def IOPollable_default_def handlers_of_def)
qed

text \<open>Another object keeps to itself: when its handlers return, they have left the handler of interrupts
  alone and not taken back that the loop is to stop.\<close>

definition keeps_to_itself :: "'x with_CtrlC pollable \<Rightarrow> bool" where
  "keeps_to_itself ob \<longleftrightarrow>
     (\<forall>evs lp ws lp1. dispatch ob evs lp = Some (ws, lp1) \<longrightarrow>
        fst (lp_world lp1) = fst (lp_world lp) \<and> (lp_stop lp \<longrightarrow> lp_stop lp1))"

text \<open>The handlers an event is for return, whatever state the loop is in.\<close>

definition handles :: "'x with_CtrlC pollable \<Rightarrow> u32 \<Rightarrow> bool" where
  "handles ob evs \<longleftrightarrow> (\<forall>lp. dispatch ob evs lp \<noteq> None)"

text \<open>The objects of the program act on a world of their own beside the handler of interrupts.\<close>

definition on_others :: "('x \<Rightarrow> ('r \<times> 'x) option) \<Rightarrow> 'x with_CtrlC \<Rightarrow> ('r \<times> 'x with_CtrlC) option" where
  "on_others f lp = map_option (\<lambda>(r, x). (r, lp\<lparr>lp_world := (fst (lp_world lp), x)\<rparr>)) (f (snd (lp_world lp)))"

definition beside_CtrlC :: "'x pollable \<Rightarrow> 'x with_CtrlC pollable" where
  "beside_CtrlC ob =
     \<lparr>ob_name = ob_name ob, ob_event = (\<lambda>evs. on_others (ob_event ob evs)), ob_in = on_others (ob_in ob),
      ob_out = on_others (ob_out ob), ob_pri = on_others (ob_pri ob), ob_err = on_others (ob_err ob),
      ob_hup = on_others (ob_hup ob), ob_rdhup = on_others (ob_rdhup ob),
      ob_cleanup = (\<lambda>lp. lp\<lparr>lp_world := (fst (lp_world lp), ob_cleanup ob (snd (lp_world lp)))\<rparr>)\<rparr>"

lemma on_others_simps:
  "f (snd (lp_world lp)) = None \<Longrightarrow> on_others f lp = None"
  "f (snd (lp_world lp)) = Some (r, x) \<Longrightarrow> on_others f lp = Some (r, lp\<lparr>lp_world := (fst (lp_world lp), x)\<rparr>)"
  "on_others g (lp\<lparr>lp_world := (fst (lp_world lp), x)\<rparr>) = map_option (\<lambda>(r, y). (r, lp\<lparr>lp_world := (fst (lp_world lp), y)\<rparr>)) (g x)"
  by (simp_all add: on_others_def)

lemma run_handlers_beside:
  "run_handlers (map (\<lambda>(b, n, f). (b, n, on_others f)) hs) evs lp = on_others (run_handlers hs evs) lp"
proof (induction hs arbitrary: lp)
  case (Cons h hs)
  obtain b n f where h: "h = (b, n, f)" by (cases h)
  show ?case
  proof (cases "evs AND b = 0")
    case True
    then show ?thesis using Cons [of lp] by (simp add: h on_others_def)
  next
    case bit1: False
    show ?thesis
    proof (cases "f (snd (lp_world lp))")
      case None
      with bit1 show ?thesis by (simp add: h on_others_simps)
    next
      case (Some rx)
      obtain r x where rx: "rx = (r, x)" by (cases rx)
      have "f (snd (lp_world lp)) = Some (r, x)" using Some rx by simp
      note f = on_others_simps(2) [of f lp r x, OF this]
      show ?thesis
        using bit1 Cons [of "lp\<lparr>lp_world := (fst (lp_world lp), x)\<rparr>"] f Some rx
        by (cases r; cases "run_handlers hs evs x") (auto simp: h on_others_def)
    qed
  qed
qed (simp add: on_others_def)

lemma handlers_of_beside: "handlers_of (beside_CtrlC ob) = map (\<lambda>(b, n, f). (b, n, on_others f)) (handlers_of ob)"
  by (simp add: handlers_of_def beside_CtrlC_def)

lemma dispatch_beside: "dispatch (beside_CtrlC ob) evs lp = on_others (dispatch ob evs) lp"
proof -
  have e: "ob_event (beside_CtrlC ob) evs lp = on_others (ob_event ob evs) lp" by (simp add: beside_CtrlC_def)
  show ?thesis
  proof (cases "ob_event ob evs (snd (lp_world lp))")
    case (Some rx)
    obtain r x where rx: "rx = (r, x)" by (cases rx)
    have "ob_event ob evs (snd (lp_world lp)) = Some (r, x)" using Some rx by simp
    note f = on_others_simps(2) [of "ob_event ob evs" lp r x, OF this]
    show ?thesis
      using Some rx f
      by (cases r) (simp_all add: dispatch_def e handlers_of_beside run_handlers_beside on_others_simps(3) on_others_def [of "dispatch ob evs"])
  qed (simp add: dispatch_def e on_others_def)
qed

lemma beside_keeps_to_itself: "keeps_to_itself (beside_CtrlC ob)"
  by (auto simp: keeps_to_itself_def dispatch_beside on_others_def)

lemma dispatch_others:
  assumes "\<forall>o1. o1 \<noteq> c \<longrightarrow> keeps_to_itself (obs o1)"
  shows "c \<notin> fst ` set es \<Longrightarrow> \<forall>(o1, e) \<in> set es. o1 \<noteq> c \<longrightarrow> handles (obs o1) e \<Longrightarrow>
    \<exists>lp1. dispatch_all obs es lp = Some lp1 \<and> fst (lp_world lp1) = fst (lp_world lp) \<and> (lp_stop lp \<longrightarrow> lp_stop lp1)"
proof (induction es arbitrary: lp)
  case (Cons e es)
  obtain o1 evs where e: "e = (o1, evs)" by fastforce
  with Cons.prems(1) have "o1 \<noteq> c" by auto
  with Cons.prems(2) e assms have "handles (obs o1) evs" "keeps_to_itself (obs o1)" by auto
  then obtain ws lp1 where
    1: "dispatch (obs o1) evs lp = Some (ws, lp1)" "fst (lp_world lp1) = fst (lp_world lp)" "lp_stop lp \<longrightarrow> lp_stop lp1"
    unfolding keeps_to_itself_def handles_def by (metis not_None_eq surj_pair)
  let ?lp = "lp1\<lparr>lp_warnings := lp_warnings lp1 @ map (Pair (ob_name (obs o1))) ws\<rparr>"
  have "c \<notin> fst ` set es" "\<forall>(o1, e) \<in> set es. o1 \<noteq> c \<longrightarrow> handles (obs o1) e" using Cons.prems by auto
  from Cons.IH [OF this, of ?lp] obtain lp2 where
    "dispatch_all obs es ?lp = Some lp2" "fst (lp_world lp2) = fst (lp_world ?lp)" "lp_stop ?lp \<longrightarrow> lp_stop lp2" by blast
  with 1 show ?case by (simp add: e)
qed simp

lemma dispatch_all_append:
  "dispatch_all obs (es @ fs) lp = Option.bind (dispatch_all obs es lp) (dispatch_all obs fs)"
  by (induction es arbitrary: lp) (auto split: option.split)

section \<open>Properties\<close>

text \<open>C22: When the wait reports that an interrupt or a request to terminate has come, the loop handles all events
  of this round, also those after it, and returns: it is stopped, and the handler's object is out of the
  loop with its descriptor closed. This needs that the handlers of the other objects with events in this
  round return, as those of a socket whose reading keeps failing do not, and that no object touches the
  handler of interrupts or starts the loop anew; every object that acts on a world of its own is such.\<close>

theorem interrupt_ends_loop:
  assumes "obs c = CtrlC_pollable env c" "\<forall>o1. o1 \<noteq> c \<longrightarrow> keeps_to_itself (obs o1)"
    and "\<forall>(o1, e) \<in> set es. o1 \<noteq> c \<longrightarrow> handles (obs o1) e"
    and "k_wait k (lp_events lp) (lp_world lp) = (WaitEvents es, (h, x))" "\<not> lp_stop lp"
    and "distinct (map fst es)" "(c, evs) \<in> set es" "evs AND EPOLLIN \<noteq> 0"
    and "si_handler h" "io_exists h" "rp_ret (env (io_trace h) (Sys (ReadFd (si_fd h) 128))) = 128"
  shows "\<exists>lp1. run_loop k obs lp = Some lp1 \<and> dispatch_all obs es (lp\<lparr>lp_world := (h, x)\<rparr>) = Some lp1 \<and>
    lp_stop lp1 \<and> si_fd (fst (lp_world lp1)) = -1"
proof -
  obtain es1 es2 where es: "es = es1 @ (c, evs) # es2" using split_list [OF assms(7)] by blast
  then have c: "c \<notin> fst ` set es1" "c \<notin> fst ` set es2" using assms(6) by auto
  have r: "\<forall>(o1, e) \<in> set es1. o1 \<noteq> c \<longrightarrow> handles (obs o1) e" "\<forall>(o1, e) \<in> set es2. o1 \<noteq> c \<longrightarrow> handles (obs o1) e"
    using assms(3) by (auto simp: es)
  let ?lp = "lp\<lparr>lp_world := (h, x)\<rparr>"
  obtain lp1 where 1: "dispatch_all obs es1 ?lp = Some lp1" "fst (lp_world lp1) = h"
    using dispatch_others [OF assms(2) c(1) r(1), of ?lp] by auto
  obtain ws lp2 where 2: "dispatch (obs c) evs lp1 = Some (ws, lp2)" "lp_stop lp2" "si_fd (fst (lp_world lp2)) = -1"
    using dispatch_CtrlC [of h env lp1 evs c, OF assms(9-11) 1(2) assms(8)] assms(1) by auto
  obtain lp3 where 3: "dispatch_all obs es ?lp = Some lp3" "lp_stop lp3" "si_fd (fst (lp_world lp3)) = -1"
    using dispatch_others [OF assms(2) c(2) r(2), of "lp2\<lparr>lp_warnings := lp_warnings lp2 @ map (Pair (ob_name (obs c))) ws\<rparr>"]
      1(1) 2 by (auto simp: es dispatch_all_append)
  have "run_loop k obs lp = run_loop k obs lp3"
    using assms(4,5) 3(1) by (simp add: run_loop.simps [of k obs lp] Epoll_wait_def)
  then have "run_loop k obs lp = Some lp3" using 3(2) by (simp add: run_loop.simps [of k obs lp3])
  with 3 show ?thesis by blast
qed

text \<open>An interrupt that arrives between an event that announces a TCP client and one that hangs it up.\<close>

definition interrupt_env :: env where
  "interrupt_env tr a =
     (case a of
        Sys c \<Rightarrow> (case c of ReadFd fd n \<Rightarrow> reply_ok\<lparr>rp_ret := 128\<rparr> | SignalFd ss \<Rightarrow> reply_ok\<lparr>rp_ret := 9\<rparr> | _ \<Rightarrow> reply_ok)
      | _ \<Rightarrow> reply_ok)"

definition listening :: signal_handler where
  "listening = snd (run_state (handle_CtrlC interrupt_env) Signal_new)"

definition interrupt_objects :: "(signal_handler \<times> tcp_client) objects" where
  "interrupt_objects o1 =
     (if o1 = 1 then CtrlC_pollable interrupt_env 1 else beside_CtrlC (TcpClient_pollable demo_netlib slow_env))"

definition interrupt_kernel :: "(signal_handler \<times> tcp_client) loop_kernel" where
  "interrupt_kernel =
     \<lparr>k_create = (\<lambda>w. ((3, 0), w)), k_ctl = (\<lambda>_ _ _ _ w. ((0, 0), w)),
      k_wait = (\<lambda>n w. (WaitEvents [(7, EPOLLOUT), (1, EPOLLIN), (8, EPOLLHUP)], w))\<rparr>"

lemma listening_simps: "si_handler listening" "io_exists listening" "si_fd listening = 9"
  by (simp_all add: listening_def handle_CtrlC_def Signal_init_def Signal_new_def state_runs interrupt_env_def)

lemma beside_handles: "(\<And>w. dispatch ob evs w \<noteq> None) \<Longrightarrow> handles (beside_CtrlC ob) evs"
  by (simp add: handles_def dispatch_beside on_others_def)

lemma client_handles:
  "evs AND EPOLLIN = 0 \<Longrightarrow> dispatch (TcpClient_pollable nl env) evs w \<noteq> None"
proof -
  let ?ob = "TcpClient_pollable nl env"
  have r: "run_handlers hs evs w \<noteq> None" if "\<forall>(b, n, f) \<in> set hs. evs AND b \<noteq> 0 \<longrightarrow> (\<forall>w. f w \<noteq> None)" for hs w
    using that
  proof (induction hs arbitrary: w)
    case (Cons h hs)
    obtain b n f where h: "h = (b, n, f)" by (cases h)
    show ?case
    proof (cases "evs AND b = 0")
      case False
      then obtain x w1 where "f w = Some (x, w1)" using Cons.prems h by fastforce
      with Cons False show ?thesis by (cases x) (simp_all add: h)
    qed (use Cons h in simp)
  qed simp
  show "evs AND EPOLLIN = 0 \<Longrightarrow> dispatch ?ob evs w \<noteq> None"
    using r [of "handlers_of ?ob" w] by (simp add: dispatch_def handlers_of_def TcpClient_pollable_def IOPollable_default_def)
qed

theorem interrupt_ends_loop_witness:
  "\<exists>lp1. run_loop interrupt_kernel interrupt_objects (IOLoop_new 3 (listening, two_addresses)) = Some lp1 \<and>
     lp_stop lp1 \<and> si_fd (fst (lp_world lp1)) = -1"
proof -
  let ?es = "[(7, EPOLLOUT), (1, EPOLLIN), (8, EPOLLHUP)] :: (obj_id \<times> u32) list"
  have c: "interrupt_objects 1 = CtrlC_pollable interrupt_env 1"
    and o1: "\<forall>o1. o1 \<noteq> 1 \<longrightarrow> keeps_to_itself (interrupt_objects o1)"
    by (simp_all add: interrupt_objects_def beside_keeps_to_itself)
  have r: "\<forall>(o1, e) \<in> set ?es. o1 \<noteq> 1 \<longrightarrow> handles (interrupt_objects o1) e"
    by (auto simp: interrupt_objects_def EPOLLOUT_def EPOLLHUP_def EPOLLIN_def intro!: beside_handles client_handles)
  have "k_wait interrupt_kernel (lp_events (IOLoop_new 3 (listening, two_addresses)))
      (lp_world (IOLoop_new 3 (listening, two_addresses))) = (WaitEvents ?es, (listening, two_addresses))"
    by (simp add: interrupt_kernel_def IOLoop_new_def)
  from interrupt_ends_loop [where obs = interrupt_objects, OF c o1 r this _ _ _ _ listening_simps(1,2), of EPOLLIN]
  have "\<exists>lp1. run_loop interrupt_kernel interrupt_objects (IOLoop_new 3 (listening, two_addresses)) = Some lp1 \<and>
      dispatch_all interrupt_objects ?es ((IOLoop_new 3 (listening, two_addresses))\<lparr>lp_world := (listening, two_addresses)\<rparr>) = Some lp1 \<and>
      lp_stop lp1 \<and> si_fd (fst (lp_world lp1)) = -1"
    by (simp add: IOLoop_new_def EPOLLIN_def interrupt_env_def del: dispatch_all.simps)
  then show ?thesis by blast
qed

end
