(* ===== verification/Spec2Isabelle.thy ===== *)
theory Spec2Isabelle
  imports Router_Prelude Packet_Buffer Framing Statistics Checksums Filter_Base Recogniser Mavlink1 Ubx Rtcm3
    Nmea Yaml_Config Mavlink_Filter Hex_Dump Filters_Factory Destinations Router
    Errors Sockaddr Object_Io Descriptors Tcp_Client Event_Loop Client_Loop Tcp_Server
    Timers Address_Resolver Uart Udp_Server Udp_Client Stats_Output Router_Graph Packet_Route Packet_Split Env_Expand Logging App_Main
    Zeroconf Udev Avahi_Client Avahi_Poll Endpoints Sockaddr_Typing Measured_Durations Program_End
begin

text \<open>
  This library models the UAV router, a program that passes byte streams between serial ports,
  TCP and UDP endpoints and files. It cuts the streams of MAVLink 1, UBX, RTCM 3 and NMEA devices
  into packets, filters them, follows routes given in a YAML file, finds its peers through
  multicast DNS (Avahi) and devices through udev, and reports statistics in the line protocol of
  Influx. File names below are relative to the source tree.

  \<^bold>\<open>Parts and how they meet.\<close> \<open>app/uav-router.cpp\<close> reads and expands the configuration, sets the
  levels of the loggers, builds named destinations, routes and endpoints, and enters the event
  loop (\<open>src/loop.cpp\<close>). The endpoints are objects watched by the loop (\<open>src/impl/uart.h\<close>,
  \<open>tcpcli.h\<close>, \<open>tcpsvr.h\<close>, \<open>udpcli.h\<close>, \<open>udpsvr.h\<close>); they use its timers, the resolver of host names,
  the directory of services and that of devices. For each peer an endpoint hands a client to the
  application, which gives it a destination of its own. A buffer read from a client is written to its
  destination and runs through filters (\<open>src/filters\<close>) and further destinations to the sinks.

  \<^bold>\<open>Conventions.\<close> A C \<open>int\<close> that may wrap is an \<^typ>\<open>int\<close> with the wrapping written out, bytes and
  unsigned values are words, a \<open>std::string\<close> is a list of characters, a \<open>std::map\<close> an ordered list of
  pairs. An exception is \<open>Inl\<close>. \<open>None\<close> of a loop means that it does not return, \<open>None\<close> of the
  Avahi objects that the library is handed what it must not be. An object that talks to the kernel
  or to the loop (\<open>Object_Io\<close>) is a record with a trace of what it asked and was answered; the
  environment is any function from that trace and the action to a reply. Theorems about such
  objects hold for every environment unless they state what they need of it. Events come in any
  order: an object has one function from its events to its steps, and the laws of a step are
  lifted to all runs by the locales \<open>state_machine\<close> and \<open>descriptor_owner\<close>.

  \<^bold>\<open>The theories.\<close>

  \<^item> \<open>Router_Prelude\<close>: arithmetic, memory search, number printing, ordered maps, runs of state
    machines. \<open>Packet_Buffer\<close>: copies into a filter's array.

  \<^item> \<open>Framing\<close> is the specification of a recogniser: bytes are looked at one by one. \<open>Filter_Base\<close>
    models \<open>src/inc/endpoints.h\<close> (\<open>Pipe\<close>, \<open>Filter\<close>) and \<open>src/filters/filterbase.h\<close>; \<open>Recogniser\<close>
    is the contract of one iteration of a recogniser's loop, from which totality and the
    refinement of \<open>scan\<close> follow; \<open>Mavlink1\<close>, \<open>Ubx\<close>, \<open>Rtcm3\<close> (\<open>src/filters/mavlink1.h\<close>, \<open>ubx.h\<close>, \<open>rtcm3.h\<close>)
    are its interpretations. \<open>Nmea\<close> (\<open>nmea.h\<close>) follows \<open>scan\<close> up to the read before its array. They show,
    for any cutting of the stream: the filter returns, delivers exactly the packets and stray bytes
    of the specification, and gives back encoded messages. \<open>Checksums\<close> relates the table-free CRCs to
    bit-serial division. \<open>Mavlink_Filter\<close> is the packet filter of \<open>mavlink1.h\<close>, \<open>Hex_Dump\<close> is \<open>hex.h\<close>,
    \<open>Filters_Factory\<close> is \<open>src/filters.cpp\<close>.

  \<^item> \<open>Destinations\<close>, \<open>Router\<close>, \<open>Router_Graph\<close>, \<open>Packet_Route\<close>, \<open>Packet_Split\<close>, \<open>Env_Expand\<close>, \<open>App_Main\<close>: \<open>app/uav-router.cpp\<close>. Shared
    pointers are entries of a heap; writing runs a list of pending writes. The reachable states of the
    router are an inductive predicate over configuring, connecting, reading and closing; in all of
    them the graph is acyclic and every read returns, unless it meets an NMEA filter that reads before
    its array. \<open>Packet_Route\<close> puts routes, destinations and recognisers together: what reaches the sinks
    of a configured route from the clients of its source, any number of them, which share its one
    recogniser, and that a source given as a pattern delivers a packet once for the endpoint and once
    for the name it matches; \<open>Packet_Split\<close> does so for a route with a destination for the rest, where no
    byte is lost. \<open>Env_Expand\<close> is the expansion of variables in the text of the configuration,
    \<open>App_Main\<close> is \<open>main\<close> up to the loop.

  \<^item> \<open>Statistics\<close> (\<open>src/inc/metric.h\<close>, \<open>src/impl/statobj.h\<close>) and \<open>Stats_Output\<close> (\<open>src/impl/influx.h\<close>,
    \<open>stat.h\<close>, \<open>ofile.h\<close>): what is collected, and how it is packed, queued and written out;
    the queue is bounded, the pack is not, and an output that was never opened is a null pointer. \<open>Measured_Durations\<close>: the collector of \<open>src/measure.h\<close>.
    \<open>Logging\<close>: \<open>src/log.cpp\<close>. \<open>Yaml_Config\<close>: a parsed document and \<open>src/impl/yaml.h\<close>.

  \<^item> \<open>Errors\<close> (\<open>src/err.h\<close>, \<open>src/err.cpp\<close>) and \<open>Sockaddr\<close> (\<open>src/sockaddr.cpp\<close>): error values and the
    bytes of socket addresses. \<open>Sockaddr_Typing\<close>: whatever operations made an address, it is well formed.
    \<open>Endpoints\<close>: the interfaces of \<open>src/inc/endpoints.h\<close> that hold callbacks.

  \<^item> \<open>Object_Io\<close> and \<open>Descriptors\<close>: actions, traces, and who holds which descriptor. Over them
    \<open>Event_Loop\<close> (\<open>src/loop.cpp\<close>, \<open>src/impl/epoll.h\<close>, \<open>src/inc/poll.h\<close>), \<open>Timers\<close> (\<open>src/impl/timer.h\<close>, \<open>signal.h\<close>),
    \<open>Address_Resolver\<close> (\<open>address.h\<close>), \<open>Uart\<close> (\<open>uart.h\<close>, \<open>fd.h\<close>), \<open>Tcp_Client\<close>, \<open>Tcp_Server\<close>,
    \<open>Udp_Client\<close>, \<open>Udp_Server\<close>, \<open>Client_Loop\<close>, which puts the TCP client into the loop: refused by one address of its list, it
    skips the next; and \<open>Program_End\<close>, which does so with the handler of interrupts: the loop ends in
    the round of the interrupt, unless a handler before it does not return. The theories of the serial
    port and the TCP and UDP endpoints show that the object closes only what it holds and nothing
    twice, and what its handlers do to streams; that of the resolver shows where it closes a
    descriptor again.

  \<^item> \<open>Zeroconf\<close> (\<open>src/impl/zeroconf.h\<close>), \<open>Avahi_Client\<close> (\<open>src/avahi-cpp.cpp\<close>), \<open>Avahi_Poll\<close>
    (\<open>src/impl/avahi-poll.h\<close>) and \<open>Udev\<close> (\<open>src/impl/udev.h\<close>): the directories of services and
    devices. Their calls to the libraries are results, the answers arguments. \<open>Zeroconf\<close> shows that a
    resolved service is found, by its address and by its name, and what exactly its removal takes;
    \<open>Udev\<close> that the identity of a device leads back to it.

  \<^bold>\<open>Loops and bounds.\<close> There is no fuel. A loop that may run for ever is a partial function into
  \<open>option\<close>, and that it returns is proved: the recognisers because each round uses up bytes of the
  source or of the array, \<open>run_writes\<close> by the rank of an acyclic graph, the expansion of variables for
  values without a dollar sign, the readers as long as datagrams or bytes run out. Where the code
  loops for ever under some inputs that is stated: a variable that refers to itself, a wait that
  keeps failing. Counters wrap at 32 bits.

  \<^bold>\<open>Parameters.\<close> The compiling of a pattern, which may throw, and its matching (except the one pattern of a claimed port), the YAML parser, the text forms of addresses (\<open>netlib\<close>), the kernel, libudev and libavahi are arguments. What
  theorems need of them is a premise, and a witness instantiates it.

  \<^bold>\<open>Not modelled.\<close> \<open>src/measure.h\<close> and \<open>src/measure.cpp\<close> are an earlier form of \<open>src/inc/metric.h\<close> that
  nothing includes; only the collector of durations, which differs, has a model. The trial programs under
  \<open>others\<close>, the test drivers under \<open>tests\<close> and the build files are not part of the router. The crash reporter
  in \<open>main\<close> (Sentry) only calls its library. Which callback runs is a function of \<open>Endpoints\<close>; the objects
  that fire callbacks record that they do in their traces.
  Message texts of the log are left out where they have no influence on anything else.
\<close>

end
